(* ===== verification/Js_Prelude.thy ===== *)
theory Js_Prelude
  imports Complex_Main "HOL-Library.AList"
begin

text \<open>
  Shared ground of the development: the fact collections, and what the sources use of
  JavaScript's strings, arrays, \<^verbatim>\<open>Set\<close> and \<^verbatim>\<open>Map\<close>.

  A JavaScript string is a \<^typ>\<open>string\<close>, a list of 8-bit characters, and case mapping is the
  ASCII one: every string the modelled sources test or build (roles, routes, symbols,
  timeframes, identifiers, hex digests) is ASCII.  An object used as a dictionary and a
  \<^verbatim>\<open>Map\<close> are association lists in insertion order: \<^const>\<open>AList.update\<close> overwrites in place or
  appends, as \<^verbatim>\<open>Map.prototype.set\<close> does, and \<^const>\<open>AList.delete\<close> removes.  Names that
  an object inherits from \<^verbatim>\<open>Object.prototype\<close> are not modelled.
\<close>

named_theorems js_eval \<open>definitions unfolded to evaluate the JavaScript layer\<close>
named_theorems js_inv \<open>preservation of component invariants\<close>

section \<open>Strings\<close>

definition char_code :: "char \<Rightarrow> nat" where
  "char_code c = of_char c"

definition in_range :: "nat \<Rightarrow> nat \<Rightarrow> char \<Rightarrow> bool" where
  "in_range lo hi c = (lo \<le> char_code c \<and> char_code c \<le> hi)"

definition is_digit :: "char \<Rightarrow> bool" where "is_digit c = in_range 48 57 c"
definition is_upper :: "char \<Rightarrow> bool" where "is_upper c = in_range 65 90 c"
definition is_lower :: "char \<Rightarrow> bool" where "is_lower c = in_range 97 122 c"
definition is_alnum :: "char \<Rightarrow> bool" where "is_alnum c = (is_digit c \<or> is_upper c \<or> is_lower c)"
definition is_lower_hex :: "char \<Rightarrow> bool" where "is_lower_hex c = (is_digit c \<or> in_range 97 102 c)"

text \<open>For evaluation, character classes are tested on integers, which are binary.\<close>

definition char_int :: "char \<Rightarrow> int" where
  "char_int c = of_char c"

lemma char_int_code [code]:
  "char_int (Char b0 b1 b2 b3 b4 b5 b6 b7) =
     (if b0 then 1 else 0) + (if b1 then 2 else 0) + (if b2 then 4 else 0) + (if b3 then 8 else 0)
     + (if b4 then 16 else 0) + (if b5 then 32 else 0) + (if b6 then 64 else 0) + (if b7 then 128 else 0)"
  by (simp add: char_int_def of_bool_def)

lemma char_code_int: "char_code c = nat (char_int c)"
  by (simp add: char_code_def char_int_def)

lemma char_class_code [code]:
  "is_digit c = (let n = char_int c in 48 \<le> n \<and> n \<le> 57)"
  "is_upper c = (let n = char_int c in 65 \<le> n \<and> n \<le> 90)"
  "is_lower c = (let n = char_int c in 97 \<le> n \<and> n \<le> 122)"
  "is_lower_hex c = (let n = char_int c in 48 \<le> n \<and> n \<le> 57 \<or> 97 \<le> n \<and> n \<le> 102)"
  by (auto simp: is_digit_def is_upper_def is_lower_def is_lower_hex_def in_range_def char_code_int Let_def)

text \<open>White space that \<^verbatim>\<open>String.prototype.trim\<close> removes, among 8-bit characters.\<close>

definition is_space :: "char \<Rightarrow> bool" where
  "is_space c = (in_range 9 13 c \<or> char_code c = 32 \<or> char_code c = 160)"

lemma is_space_code [code]:
  "is_space c = (let n = char_int c in 9 \<le> n \<and> n \<le> 13 \<or> n = 32 \<or> n = 160)"
  by (auto simp: is_space_def in_range_def char_code_int Let_def nat_eq_iff)

definition lower_char :: "char \<Rightarrow> char" where
  "lower_char c = (if is_upper c then char_of (char_code c + 32) else c)"

definition upper_char :: "char \<Rightarrow> char" where
  "upper_char c = (if is_lower c then char_of (char_code c - 32) else c)"

definition to_lower :: "string \<Rightarrow> string" where "to_lower s = map lower_char s"
definition to_upper :: "string \<Rightarrow> string" where "to_upper s = map upper_char s"

definition js_trim :: "string \<Rightarrow> string" where
  "js_trim s = rev (dropWhile is_space (rev (dropWhile is_space s)))"

definition starts_with :: "string \<Rightarrow> string \<Rightarrow> bool" where
  "starts_with s p = (take (length p) s = p)"

definition ends_with :: "string \<Rightarrow> string \<Rightarrow> bool" where
  "ends_with s p = starts_with (rev s) (rev p)"

fun js_includes :: "string \<Rightarrow> string \<Rightarrow> bool" where
  "js_includes [] p = (p = [])"
| "js_includes (c # s) p = (starts_with (c # s) p \<or> js_includes s p)"

text \<open>\<^verbatim>\<open>s.split(c)\<close> for a one-character separator, and \<^verbatim>\<open>xs.join(sep)\<close>.\<close>

fun js_split :: "char \<Rightarrow> string \<Rightarrow> string list" where
  "js_split c [] = [[]]"
| "js_split c (x # s) =
     (if x = c then [] # js_split c s
      else case js_split c s of [] \<Rightarrow> [[x]] | w # ws \<Rightarrow> (x # w) # ws)"

fun js_join :: "string \<Rightarrow> string list \<Rightarrow> string" where
  "js_join sep [] = []"
| "js_join sep [w] = w"
| "js_join sep (w # v # ws) = w @ sep @ js_join sep (v # ws)"

text \<open>\<^verbatim>\<open>s.replace(/[^...]/g, r)\<close> for a class of characters to keep.\<close>

definition js_replace :: "(char \<Rightarrow> bool) \<Rightarrow> string \<Rightarrow> string \<Rightarrow> string" where
  "js_replace keep r s = concat (map (\<lambda>c. if keep c then [c] else r) s)"

text \<open>
  Decimal notation of an integer.  Numbers that can be large are \<^typ>\<open>int\<close>, whose numerals the
  simplifier evaluates in binary.
\<close>

function dec_string :: "int \<Rightarrow> string" where
  "dec_string n =
     (if n < 10 then [char_of (nat n + 48)]
      else dec_string (n div 10) @ [char_of (nat (n mod 10) + 48)])"
  by pat_completeness auto
termination
  by (relation "measure nat") auto

declare dec_string.simps [simp del]

definition int_string :: "int \<Rightarrow> string" where
  "int_string n = (if n < 0 then ''-'' @ dec_string (- n) else dec_string n)"

definition digit_val :: "char \<Rightarrow> int" where
  "digit_val c = int (char_code c) - 48"

definition digits_val :: "string \<Rightarrow> int" where
  "digits_val s = foldl (\<lambda>acc c. acc * 10 + digit_val c) 0 s"

lemmas [js_eval] =
  char_code_def in_range_def is_digit_def is_upper_def is_lower_def is_alnum_def
  is_lower_hex_def is_space_def lower_char_def upper_char_def to_lower_def to_upper_def
  js_trim_def starts_with_def ends_with_def js_replace_def

lemma starts_with_append [simp]: "starts_with (p @ s) p"
  by (simp add: starts_with_def)

lemma starts_with_iff: "starts_with s p \<longleftrightarrow> (\<exists>t. s = p @ t)"
  unfolding starts_with_def by (metis append_eq_conv_conj append_take_drop_id)

lemma append_sep_inject:
  "c \<notin> set a \<Longrightarrow> c \<notin> set a' \<Longrightarrow> a @ c # b = a' @ c # b' \<longleftrightarrow> a = a' \<and> b = b'"
  by (induction a arbitrary: a'; case_tac a') auto

lemma trim_no_space: "list_all (\<lambda>c. \<not> is_space c) s \<Longrightarrow> js_trim s = s"
proof -
  assume a: "list_all (\<lambda>c. \<not> is_space c) s"
  then have "dropWhile is_space s = s" by (cases s) auto
  moreover from a have "dropWhile is_space (rev s) = rev s"
    by (cases "rev s") (auto simp: list_all_iff simp flip: set_rev [of s])
  ultimately show ?thesis by (simp add: js_trim_def)
qed

lemma js_split_not_Nil [simp]: "js_split c s \<noteq> []"
  by (induction s) (auto split: list.split)

lemma js_join_split: "js_join [c] (js_split c s) = s"
proof (induction s)
  case (Cons x s)
  then show ?case
    by (cases "js_split c s"; cases "tl (js_split c s)") auto
qed simp

lemma js_split_no_sep: "c \<notin> set s \<Longrightarrow> js_split c s = [s]"
  by (induction s) auto

lemma js_split_append:
  "c \<notin> set w \<Longrightarrow> js_split c (w @ c # s) = w # js_split c s"
  by (induction w) auto

text \<open>Splitting undoes joining when no part contains the separator.\<close>

lemma js_split_join:
  assumes "ws \<noteq> []" and "\<forall>w \<in> set ws. c \<notin> set w"
  shows "js_split c (js_join [c] ws) = ws"
  using assms
proof (induction "[c]" ws rule: js_join.induct)
  case (2 w)
  then show ?case by (simp add: js_split_no_sep)
next
  case (3 w v ws)
  then show ?case by (simp add: js_split_append)
qed simp

lemma char_code_char_of [simp]: "n < 256 \<Longrightarrow> char_code (char_of n) = n"
  by (simp add: char_code_def)

lemma dec_string_digits: "0 \<le> n \<Longrightarrow> c \<in> set (dec_string n) \<Longrightarrow> is_digit c"
proof (induction n rule: dec_string.induct)
  case (1 n)
  have "nat (n mod 10) < 10" by (simp add: nat_less_iff)
  with 1 show ?case
    by (auto simp: dec_string.simps [of n] is_digit_def in_range_def split: if_splits)
qed

lemma dec_string_not_Nil [simp]: "dec_string n \<noteq> []"
  by (subst dec_string.simps) simp

lemma digits_val_snoc: "digits_val (s @ [c]) = digits_val s * 10 + digit_val c"
  by (simp add: digits_val_def)

text \<open>Reading a decimal back gives the number it was printed from.\<close>

lemma digits_val_dec_string [simp]: "0 \<le> n \<Longrightarrow> digits_val (dec_string n) = n"
proof (induction n rule: dec_string.induct)
  case (1 n)
  show ?case
  proof (cases "n < 10")
    case True
    with 1 show ?thesis
      by (subst dec_string.simps) (simp add: digits_val_def digit_val_def)
  next
    case False
    have "nat (n mod 10) < 10" by (simp add: nat_less_iff)
    with False 1 show ?thesis
      by (subst dec_string.simps) (simp add: digits_val_snoc digit_val_def)
  qed
qed

lemma char_code_upper_char:
  "char_code (upper_char c) = (if is_lower c then char_code c - 32 else char_code c)"
  by (auto simp: upper_char_def is_lower_def in_range_def)

lemma char_code_lower_char:
  "char_code (lower_char c) = (if is_upper c then char_code c + 32 else char_code c)"
  by (auto simp: lower_char_def is_upper_def in_range_def)

lemma upper_char_idem [simp]: "upper_char (upper_char c) = upper_char c"
proof -
  have "\<not> is_lower (upper_char c)"
    by (auto simp: is_lower_def in_range_def char_code_upper_char)
  then show ?thesis by (simp add: upper_char_def [of "upper_char c"])
qed

lemma lower_char_idem [simp]: "lower_char (lower_char c) = lower_char c"
proof -
  have "\<not> is_upper (lower_char c)"
    by (auto simp: is_upper_def in_range_def char_code_lower_char)
  then show ?thesis by (simp add: lower_char_def [of "lower_char c"])
qed

lemma to_upper_idem [simp]: "to_upper (to_upper s) = to_upper s"
  by (simp add: to_upper_def)

lemma to_lower_idem [simp]: "to_lower (to_lower s) = to_lower s"
  by (simp add: to_lower_def)

lemma set_js_replace: "c \<in> set (js_replace keep r s) \<Longrightarrow> keep c \<or> c \<in> set r"
  by (auto simp: js_replace_def split: if_splits)

lemma js_replace_keep: "\<forall>c \<in> set s. keep c \<Longrightarrow> js_replace keep r s = s"
  by (induction s) (simp_all add: js_replace_def)

section \<open>Sets, sorting and dictionaries\<close>

text \<open>\<^verbatim>\<open>[...new Set(xs)]\<close> keeps the first occurrence of every element, in order.\<close>

definition js_uniq :: "'a list \<Rightarrow> 'a list" where
  "js_uniq xs = rev (remdups (rev xs))"

lemma set_js_uniq [simp]: "set (js_uniq xs) = set xs"
  by (simp add: js_uniq_def)

lemma distinct_js_uniq [simp]: "distinct (js_uniq xs)"
  by (simp add: js_uniq_def)

lemma js_uniq_distinct [simp]: "distinct xs \<Longrightarrow> js_uniq xs = xs"
  by (simp add: js_uniq_def distinct_remdups_id)

lemma js_uniq_Nil_iff [simp]: "js_uniq xs = [] \<longleftrightarrow> xs = []"
  by (simp add: js_uniq_def)

text \<open>\<^verbatim>\<open>xs.slice(-n)\<close> for a positive count: the last elements.\<close>

definition slice_last :: "nat \<Rightarrow> 'a list \<Rightarrow> 'a list" where
  "slice_last n xs = drop (length xs - n) xs"

lemma length_slice_last [simp]: "length (slice_last n xs) = min n (length xs)"
  by (simp add: slice_last_def)

lemma set_slice_last: "set (slice_last n xs) \<subseteq> set xs"
  by (simp add: slice_last_def set_drop_subset)

lemma slice_last_all [simp]: "length xs \<le> n \<Longrightarrow> slice_last n xs = xs"
  by (simp add: slice_last_def)

lemma map_of_delete: "map_of (AList.delete k m) = (map_of m)(k := None)"
  by (simp add: AList.delete_conv')

lemma map_of_update: "map_of (AList.update k v m) = (map_of m)(k \<mapsto> v)"
  by (simp add: AList.update_conv')

section \<open>Sum-typed results\<close>

text \<open>\<^verbatim>\<open>Inl e\<close> is a thrown error, \<^verbatim>\<open>Inr x\<close> a returned value.\<close>

definition rbind :: "'e + 'a \<Rightarrow> ('a \<Rightarrow> 'e + 'b) \<Rightarrow> 'e + 'b" where
  "rbind m f = (case m of Inl e \<Rightarrow> Inl e | Inr x \<Rightarrow> f x)"

lemma rbind_simps [simp]: "rbind (Inl e) f = Inl e" "rbind (Inr x) f = f x"
  by (simp_all add: rbind_def)

lemma rbind_Inr_iff: "rbind m f = Inr y \<longleftrightarrow> (\<exists>x. m = Inr x \<and> f x = Inr y)"
  by (cases m) auto

end
