(* ===== verification/Js_Number.thy ===== *)
theory Js_Number
  imports Js_Prelude
begin

text \<open>
  JavaScript numbers.  A value of \<open>jsnum\<close> is a NaN, an infinity or a finite number, whose
  value is a rational; every arithmetic operation rounds its exact result to the nearest
  IEEE 754 binary64 value (ties to even, overflow to infinity), as ECMAScript prescribes.
  The sign of a zero is not represented.  The rounding function \<open>fl\<close> is the provider of the
  interface \<open>js_rounding\<close>: the components use its laws (monotone, exact on safe integers)
  and never its definition.
\<close>

datatype jsnum = NaN | PInf | NInf | Fin rat

section \<open>Rounding to binary64\<close>

function nbits :: "int \<Rightarrow> nat" where
  "nbits n = (if n \<le> 0 then 0 else Suc (nbits (n div 2)))"
  by pat_completeness auto
termination
  by (relation "measure nat") auto

declare nbits.simps [simp del]

definition pow2 :: "int \<Rightarrow> rat" where
  "pow2 e = (if 0 \<le> e then of_int (2 ^ nat e) else 1 / of_int (2 ^ nat (- e)))"

text \<open>The exponent \<open>e\<close> of a positive \<open>r\<close>: \<open>pow2 e \<le> r < pow2 (e + 1)\<close>.\<close>

definition ilog2 :: "rat \<Rightarrow> int" where
  "ilog2 r = (let (a, b) = quotient_of r; e = int (nbits a) - int (nbits b)
              in if pow2 e \<le> r then e else e - 1)"

text \<open>To the nearest integer, ties to the even one.\<close>

definition rnd_even :: "rat \<Rightarrow> int" where
  "rnd_even x = (let f = \<lfloor>x\<rfloor>; d = x - of_int f in
     if d < 1/2 then f else if d > 1/2 then f + 1 else if even f then f else f + 1)"

text \<open>
  The unit in the last place of a positive \<open>s\<close> is \<open>pow2 (fl_exp s)\<close>: 53 significant bits,
  and never below the smallest subnormal number.
\<close>

definition fl_exp :: "rat \<Rightarrow> int" where
  "fl_exp s = max (ilog2 s - 52) (-1074)"

definition fl_abs :: "rat \<Rightarrow> rat" where
  "fl_abs s = of_int (rnd_even (s / pow2 (fl_exp s))) * pow2 (fl_exp s)"

definition fl :: "rat \<Rightarrow> jsnum" where
  "fl r = (if r = 0 then Fin 0
     else let v = fl_abs \<bar>r\<bar> in
       if 1024 \<le> ilog2 v then (if r > 0 then PInf else NInf) else Fin (sgn r * v))"

section \<open>Comparison and arithmetic\<close>

text \<open>The operators \<^verbatim>\<open><\<close> and \<^verbatim>\<open><=\<close>; both are false as soon as one operand is NaN.\<close>

fun js_lt :: "jsnum \<Rightarrow> jsnum \<Rightarrow> bool" where
  "js_lt (Fin a) (Fin b) = (a < b)"
| "js_lt NInf (Fin b) = True"
| "js_lt NInf PInf = True"
| "js_lt (Fin a) PInf = True"
| "js_lt _ _ = False"

definition js_le :: "jsnum \<Rightarrow> jsnum \<Rightarrow> bool" where
  "js_le x y = (x \<noteq> NaN \<and> y \<noteq> NaN \<and> \<not> js_lt y x)"

text \<open>\<^verbatim>\<open>===\<close> on numbers: NaN equals nothing.\<close>

definition js_num_eq :: "jsnum \<Rightarrow> jsnum \<Rightarrow> bool" where
  "js_num_eq x y = (x = y \<and> x \<noteq> NaN)"

definition js_is_finite :: "jsnum \<Rightarrow> bool" where
  "js_is_finite x = (case x of Fin _ \<Rightarrow> True | _ \<Rightarrow> False)"

definition js_is_integer :: "jsnum \<Rightarrow> bool" where
  "js_is_integer x = (case x of Fin r \<Rightarrow> of_int \<lfloor>r\<rfloor> = r | _ \<Rightarrow> False)"

fun js_neg :: "jsnum \<Rightarrow> jsnum" where
  "js_neg (Fin a) = Fin (- a)"
| "js_neg PInf = NInf"
| "js_neg NInf = PInf"
| "js_neg NaN = NaN"

fun js_add :: "jsnum \<Rightarrow> jsnum \<Rightarrow> jsnum" where
  "js_add (Fin a) (Fin b) = fl (a + b)"
| "js_add NaN _ = NaN"
| "js_add _ NaN = NaN"
| "js_add PInf NInf = NaN"
| "js_add NInf PInf = NaN"
| "js_add PInf _ = PInf"
| "js_add _ PInf = PInf"
| "js_add NInf _ = NInf"
| "js_add _ NInf = NInf"

definition js_sub :: "jsnum \<Rightarrow> jsnum \<Rightarrow> jsnum" where
  "js_sub x y = js_add x (js_neg y)"

definition js_signed_inf :: "rat \<Rightarrow> jsnum" where
  "js_signed_inf s = (if s = 0 then NaN else if s > 0 then PInf else NInf)"

fun js_mul :: "jsnum \<Rightarrow> jsnum \<Rightarrow> jsnum" where
  "js_mul (Fin a) (Fin b) = fl (a * b)"
| "js_mul NaN _ = NaN"
| "js_mul _ NaN = NaN"
| "js_mul (Fin a) PInf = js_signed_inf a"
| "js_mul PInf (Fin a) = js_signed_inf a"
| "js_mul (Fin a) NInf = js_signed_inf (- a)"
| "js_mul NInf (Fin a) = js_signed_inf (- a)"
| "js_mul PInf PInf = PInf"
| "js_mul NInf NInf = PInf"
| "js_mul _ _ = NInf"

text \<open>Division; a zero divisor counts as the positive zero.\<close>

fun js_div :: "jsnum \<Rightarrow> jsnum \<Rightarrow> jsnum" where
  "js_div (Fin a) (Fin b) = (if b = 0 then js_signed_inf a else fl (a / b))"
| "js_div NaN _ = NaN"
| "js_div _ NaN = NaN"
| "js_div (Fin a) _ = Fin 0"
| "js_div PInf (Fin b) = (if b < 0 then NInf else PInf)"
| "js_div NInf (Fin b) = (if b < 0 then PInf else NInf)"
| "js_div _ _ = NaN"

definition js_max :: "jsnum \<Rightarrow> jsnum \<Rightarrow> jsnum" where
  "js_max x y = (if x = NaN \<or> y = NaN then NaN else if js_lt x y then y else x)"

definition js_min :: "jsnum \<Rightarrow> jsnum \<Rightarrow> jsnum" where
  "js_min x y = (if x = NaN \<or> y = NaN then NaN else if js_lt y x then y else x)"

definition js_abs :: "jsnum \<Rightarrow> jsnum" where
  "js_abs x = (case x of Fin a \<Rightarrow> Fin \<bar>a\<bar> | NInf \<Rightarrow> PInf | _ \<Rightarrow> x)"

definition js_floor :: "jsnum \<Rightarrow> jsnum" where
  "js_floor x = (case x of Fin a \<Rightarrow> Fin (of_int \<lfloor>a\<rfloor>) | _ \<Rightarrow> x)"

text \<open>
  \<^verbatim>\<open>Number(x.toFixed(d))\<close>: the decimal with \<open>d\<close> places nearest to \<open>x\<close> (the larger of two),
  read back as a number; from \<open>10 ^ 21\<close> on \<^verbatim>\<open>toFixed\<close> prints all of \<open>x\<close>.
\<close>

definition js_to_fixed :: "nat \<Rightarrow> jsnum \<Rightarrow> jsnum" where
  "js_to_fixed d x = (case x of
     Fin a \<Rightarrow> if \<bar>a\<bar> < 10 ^ 21 then fl (sgn a * of_int \<lfloor>\<bar>a\<bar> * 10 ^ d + 1/2\<rfloor> / 10 ^ d) else x
   | _ \<Rightarrow> x)"

section \<open>Laws of the rounding\<close>

lemma nbits_bounds: "0 < n \<Longrightarrow> 2 ^ nbits n \<le> 2 * n \<and> n < 2 ^ nbits n"
proof (induction n rule: nbits.induct)
  case (1 n)
  show ?case
  proof (cases "n div 2 \<le> 0")
    case True
    with 1 have "n = 1" by auto
    then show ?thesis by (simp add: nbits.simps [of 1] nbits.simps [of 0])
  next
    case False
    then have p: "0 < n div 2" by simp
    with 1 have IH: "2 ^ nbits (n div 2) \<le> 2 * (n div 2)" "n div 2 < 2 ^ nbits (n div 2)" by auto
    have "nbits n = Suc (nbits (n div 2))" using 1 by (subst nbits.simps) simp
    with IH show ?thesis by auto
  qed
qed

lemma pow2_pos [simp]: "0 < pow2 e"
  by (simp add: pow2_def)

lemma pow2_powi: "pow2 e = 2 powi e"
  by (simp add: pow2_def power_int_def inverse_eq_divide power_divide)

lemma pow2_add: "pow2 (a + b) = pow2 a * pow2 b"
  by (simp add: pow2_powi power_int_add)

lemma pow2_diff: "pow2 (a - b) = pow2 a / pow2 b"
  by (simp add: pow2_powi power_int_diff)

lemma pow2_mono: "a \<le> b \<Longrightarrow> pow2 a \<le> pow2 b"
  by (simp add: pow2_powi power_int_increasing)

lemma pow2_nat: "pow2 (int n) = 2 ^ n"
  by (simp add: pow2_def)

lemma pow2_1 [simp]: "pow2 1 = 2" "pow2 0 = 1"
  by (simp_all add: pow2_def)

lemma nbits_rat:
  assumes "0 < a"
  shows "pow2 (int (nbits a)) \<le> 2 * of_int a" "of_int a < pow2 (int (nbits a))"
proof -
  have "2 ^ nbits a \<le> 2 * a" "a < 2 ^ nbits a"
    using nbits_bounds assms by auto
  then have "(of_int (2 ^ nbits a) :: rat) \<le> of_int (2 * a)"
    "(of_int a :: rat) < of_int (2 ^ nbits a)"
    by (simp_all only: of_int_le_iff of_int_less_iff)
  then show "pow2 (int (nbits a)) \<le> 2 * of_int a" "of_int a < pow2 (int (nbits a))"
    by (simp_all add: pow2_nat)
qed

lemma ilog2_bounds:
  assumes "0 < r" shows "pow2 (ilog2 r) \<le> r" "r < pow2 (ilog2 r + 1)"
proof -
  obtain a b where q: "quotient_of r = (a, b)" by (cases "quotient_of r")
  have r: "r = of_int a / of_int b" and b: "0 < b" using q quotient_of_div quotient_of_denom_pos by auto
  have a: "0 < a" using assms r b by (simp add: zero_less_divide_iff)
  define m n where "m = pow2 (int (nbits a))" and "n = pow2 (int (nbits b))"
  have m: "m \<le> 2 * of_int a" "of_int a < m" using nbits_rat [OF a] by (simp_all add: m_def)
  have n: "n \<le> 2 * of_int b" "of_int b < n" "0 < n" using nbits_rat [OF b] by (simp_all add: n_def)
  have br: "0 < (of_int b :: rat)" "0 < (of_int a :: rat)" using a b by simp_all
  have lo: "m / (2 * n) \<le> r" "r < 2 * (m / n)"
  proof -
    have "m * of_int b \<le> (2 * of_int a) * n" using m n br by (intro mult_mono) auto
    then show "m / (2 * n) \<le> r" using br n unfolding r by (simp add: field_simps)
    have "of_int a * n < m * (2 * of_int b)" using m n br by (intro mult_less_le_imp_less) auto
    then show "r < 2 * (m / n)" using br n unfolding r by (simp add: field_simps)
  qed
  let ?e = "int (nbits a) - int (nbits b)"
  have e: "pow2 ?e = m / n" by (simp add: pow2_diff m_def n_def)
  have e': "pow2 (?e - 1) = m / (2 * n)" "pow2 (?e + 1) = 2 * (m / n)"
    using e by (simp_all add: pow2_diff pow2_add)
  have il: "ilog2 r = (if pow2 ?e \<le> r then ?e else ?e - 1)" by (simp add: ilog2_def q)
  show "pow2 (ilog2 r) \<le> r" using il e' lo by (cases "pow2 ?e \<le> r") simp_all
  show "r < pow2 (ilog2 r + 1)" using il e' lo e by (cases "pow2 ?e \<le> r") simp_all
qed

lemma rnd_even_lower: "of_int n \<le> x \<Longrightarrow> n \<le> rnd_even x"
  by (auto simp: rnd_even_def Let_def le_floor_iff add_increasing2)

lemma rnd_even_upper:
  assumes "x \<le> of_int n" shows "rnd_even x \<le> n"
proof (cases "x = of_int n")
  case True then show ?thesis by (simp add: rnd_even_def)
next
  case False
  with assms have "\<lfloor>x\<rfloor> < n" by (simp add: floor_less_iff)
  then show ?thesis by (auto simp: rnd_even_def Let_def)
qed

lemma rnd_even_of_int [simp]: "rnd_even (of_int n) = n"
  by (simp add: rnd_even_def)

lemma rnd_even_mono:
  assumes "x \<le> y" shows "rnd_even x \<le> rnd_even y"
proof (cases "\<lfloor>x\<rfloor> = \<lfloor>y\<rfloor>")
  case True with assms show ?thesis by (auto simp: rnd_even_def Let_def)
next
  case False
  with assms have "\<lfloor>x\<rfloor> + 1 \<le> \<lfloor>y\<rfloor>" using floor_mono [OF assms] by linarith
  moreover have "rnd_even x \<le> \<lfloor>x\<rfloor> + 1" by (auto simp: rnd_even_def Let_def)
  moreover have "\<lfloor>y\<rfloor> \<le> rnd_even y" by (auto simp: rnd_even_def Let_def)
  ultimately show ?thesis by linarith
qed

lemma rnd_even_dist: "\<bar>of_int (rnd_even x) - x\<bar> \<le> 1/2"
proof -
  have "0 \<le> x - of_int \<lfloor>x\<rfloor>" "x - of_int \<lfloor>x\<rfloor> < 1" using floor_correct [of x] by simp_all
  then show ?thesis
    by (auto simp: rnd_even_def Let_def abs_if) (use of_int_floor_le [of x] in linarith)
qed

lemma ilog2_mono:
  assumes "0 < s" "s \<le> t" shows "ilog2 s \<le> ilog2 t"
proof (rule ccontr)
  assume "\<not> ilog2 s \<le> ilog2 t"
  then have "pow2 (ilog2 t + 1) \<le> pow2 (ilog2 s)" by (intro pow2_mono) simp
  with ilog2_bounds [of s] ilog2_bounds [of t] assms show False by linarith
qed

lemma fl_exp_mono: "0 < s \<Longrightarrow> s \<le> t \<Longrightarrow> fl_exp s \<le> fl_exp t"
  using ilog2_mono [of s t] by (auto simp: fl_exp_def)

lemma pow2_multiple:
  assumes "q \<le> k" shows "pow2 k / pow2 q = of_int (2 ^ nat (k - q))"
proof -
  have "pow2 k / pow2 q = pow2 (k - q)" by (simp add: pow2_diff)
  with assms show ?thesis by (simp add: pow2_def)
qed

lemma fl_abs_le_pow2:
  assumes "fl_exp s \<le> k" "s \<le> pow2 k" shows "fl_abs s \<le> pow2 k"
proof -
  have "s / pow2 (fl_exp s) \<le> of_int (2 ^ nat (k - fl_exp s))"
    using assms pow2_multiple [OF assms(1)] by (metis divide_right_mono less_imp_le pow2_pos)
  then have "rnd_even (s / pow2 (fl_exp s)) \<le> 2 ^ nat (k - fl_exp s)" by (rule rnd_even_upper)
  then have "(of_int (rnd_even (s / pow2 (fl_exp s))) :: rat) \<le> pow2 k / pow2 (fl_exp s)"
    using pow2_multiple [OF assms(1)] by (simp only: of_int_le_iff)
  then show ?thesis by (simp add: fl_abs_def pos_le_divide_eq)
qed

lemma fl_abs_ge_pow2:
  assumes "fl_exp s \<le> k" "pow2 k \<le> s" shows "pow2 k \<le> fl_abs s"
proof -
  have "of_int (2 ^ nat (k - fl_exp s)) \<le> s / pow2 (fl_exp s)"
    using assms pow2_multiple [OF assms(1)] by (metis divide_right_mono less_imp_le pow2_pos)
  then have "2 ^ nat (k - fl_exp s) \<le> rnd_even (s / pow2 (fl_exp s))" by (rule rnd_even_lower)
  then have "pow2 k / pow2 (fl_exp s) \<le> (of_int (rnd_even (s / pow2 (fl_exp s))) :: rat)"
    using pow2_multiple [OF assms(1)] by (simp only: of_int_le_iff)
  then show ?thesis by (simp add: fl_abs_def pos_divide_le_eq)
qed

lemma fl_abs_mono:
  assumes "0 < s" "s \<le> t" shows "fl_abs s \<le> fl_abs t"
proof (cases "fl_exp s = fl_exp t")
  case True
  have "rnd_even (s / pow2 (fl_exp t)) \<le> rnd_even (t / pow2 (fl_exp t))"
    using assms by (intro rnd_even_mono divide_right_mono) (auto simp: less_imp_le)
  then show ?thesis unfolding fl_abs_def True by (intro mult_right_mono) (auto simp: less_imp_le)
next
  case False
  with fl_exp_mono [OF assms] have l: "fl_exp s < fl_exp t" by simp
  then have e: "fl_exp t = ilog2 t - 52" "ilog2 s < ilog2 t" by (auto simp: fl_exp_def)
  have "s \<le> pow2 (ilog2 s + 1)" using ilog2_bounds [OF assms(1)] by simp
  also have "\<dots> \<le> pow2 (ilog2 t)" using e by (intro pow2_mono) simp
  finally have "fl_abs s \<le> pow2 (ilog2 t)" using e l by (intro fl_abs_le_pow2) auto
  also have "\<dots> \<le> fl_abs t" using e ilog2_bounds assms by (intro fl_abs_ge_pow2) auto
  finally show ?thesis .
qed

lemma fl_abs_nonneg: "0 < s \<Longrightarrow> 0 \<le> fl_abs s"
  unfolding fl_abs_def
  by (intro mult_nonneg_nonneg) (auto intro!: rnd_even_lower divide_nonneg_pos simp: less_imp_le)

lemma fl_abs_exact:
  assumes "fl_exp s \<le> e" "s = of_int n * pow2 e" shows "fl_abs s = s"
proof -
  define q where "q = fl_exp s"
  have "s / pow2 q = of_int n * (pow2 e / pow2 q)" by (simp add: assms(2))
  then have "s / pow2 (fl_exp s) = of_int (n * 2 ^ nat (e - fl_exp s))"
    using pow2_multiple [OF assms(1)] by (simp add: q_def)
  then have "fl_abs s = (s / pow2 (fl_exp s)) * pow2 (fl_exp s)" by (simp only: fl_abs_def rnd_even_of_int)
  then show ?thesis by (simp add: less_imp_neq [OF pow2_pos, symmetric])
qed

lemma ilog2_less:
  assumes "0 < s" "s < pow2 k" shows "ilog2 s < k"
proof (rule ccontr)
  assume "\<not> ilog2 s < k"
  then have "pow2 k \<le> pow2 (ilog2 s)" by (intro pow2_mono) simp
  with ilog2_bounds [of s] assms show False by linarith
qed

lemma fl_0 [simp]: "fl 0 = Fin 0" by (simp add: fl_def)

lemma fl_of_int:
  assumes "\<bar>n\<bar> < 2 ^ 53" shows "fl (of_int n) = Fin (of_int n)"
proof (cases "n = 0")
  case False
  define s :: rat where "s = \<bar>of_int n\<bar>"
  have s: "0 < s" "s = of_int \<bar>n\<bar>" using False by (auto simp: s_def)
  have lt: "s < 2 ^ 53" using assms unfolding s(2) by (metis of_int_less_iff of_int_numeral of_int_power)
  then have "ilog2 s < 53" using s by (intro ilog2_less) (simp_all add: pow2_def)
  then have "fl_exp s \<le> 0" by (simp add: fl_exp_def)
  then have "fl_abs s = s" using s by (intro fl_abs_exact [where e = 0 and n = "\<bar>n\<bar>"]) simp_all
  moreover have "\<not> 1024 \<le> ilog2 s" using \<open>ilog2 s < 53\<close> by simp
  ultimately show ?thesis using False by (simp add: fl_def s_def Let_def sgn_mult_abs)
qed simp

lemma fl_half:
  assumes "\<bar>n\<bar> < 2 ^ 53" shows "fl (of_int n / 2) = Fin (of_int n / 2)"
proof (cases "n = 0")
  case False
  define s :: rat where "s = \<bar>of_int n / 2\<bar>"
  have s: "0 < s" "s = of_int \<bar>n\<bar> / 2" using False by (auto simp: s_def)
  have "(of_int \<bar>n\<bar> :: rat) < 2 ^ 53" using assms by (metis of_int_less_iff of_int_numeral of_int_power)
  then have "ilog2 s < 52" using s by (intro ilog2_less) (simp_all add: pow2_def)
  then have "fl_exp s \<le> - 1" unfolding fl_exp_def by linarith
  then have "fl_abs s = s" by (rule fl_abs_exact [where n = "\<bar>n\<bar>"]) (simp add: s(2) pow2_def)
  moreover have "\<not> 1024 \<le> ilog2 s" using \<open>ilog2 s < 52\<close> by simp
  moreover have "sgn (of_int n / 2) * s = of_int n / 2" unfolding s_def by (rule sgn_mult_abs)
  moreover have "of_int n / 2 \<noteq> (0 :: rat)" using False by simp
  ultimately show ?thesis unfolding fl_def Let_def s_def [symmetric] by (simp only: if_False)
qed simp

lemma ilog2_ge_iff:
  assumes "0 \<le> v" shows "1024 \<le> ilog2 v \<longleftrightarrow> pow2 1024 \<le> v"
proof (cases "v = 0")
  case True
  then show ?thesis using pow2_pos [of 1024]
    by (simp add: ilog2_def Let_def nbits.simps [of 0] nbits.simps [of 1] not_le)
next
  case False
  with assms have v: "0 < v" by simp
  have "1024 \<le> ilog2 v \<Longrightarrow> pow2 1024 \<le> v"
    using pow2_mono [of 1024 "ilog2 v"] ilog2_bounds(1) [OF v] by linarith
  moreover have "pow2 1024 \<le> v \<Longrightarrow> 1024 \<le> ilog2 v"
    using pow2_mono [of "ilog2 v + 1" 1024] ilog2_bounds(2) [OF v] by linarith
  ultimately show ?thesis by blast
qed

lemma fl_alt:
  "fl r = (if r = 0 then Fin 0
     else let v = fl_abs \<bar>r\<bar> in
       if pow2 1024 \<le> v then (if r > 0 then PInf else NInf) else Fin (sgn r * v))"
  using ilog2_ge_iff [OF fl_abs_nonneg [of "\<bar>r\<bar>"]] by (simp add: fl_def Let_def)

lemma fl_mono:
  assumes "r \<le> s" shows "js_le (fl r) (fl s)"
proof -
  consider "0 < r" | "r \<le> 0" "0 \<le> s" | "s < 0" using assms by linarith
  then show ?thesis
  proof cases
    case 1
    then have "fl_abs r \<le> fl_abs s" using assms by (intro fl_abs_mono)
    with 1 assms show ?thesis by (auto simp: fl_alt js_le_def Let_def)
  next
    case 2
    then show ?thesis using fl_abs_nonneg [of "-r"] fl_abs_nonneg [of s]
      by (auto simp: fl_alt js_le_def Let_def sgn_if abs_if)
  next
    case 3
    then have "fl_abs (- s) \<le> fl_abs (- r)" using assms by (intro fl_abs_mono) auto
    with 3 assms show ?thesis by (auto simp: fl_alt js_le_def Let_def sgn_if abs_if)
  qed
qed

lemma js_lt_irrefl [simp]: "\<not> js_lt x x"
  by (cases x) auto

lemma js_lt_trans: "js_lt x y \<Longrightarrow> js_lt y z \<Longrightarrow> js_lt x z"
  by (cases x; cases y; cases z) auto

lemma js_le_Fin [simp]: "js_le (Fin a) (Fin b) \<longleftrightarrow> a \<le> b"
  by (auto simp: js_le_def)

lemma js_lt_not_NaN: "js_lt x y \<Longrightarrow> x \<noteq> NaN \<and> y \<noteq> NaN"
  by (cases x; cases y) auto

lemma js_le_trans: "js_le x y \<Longrightarrow> js_le y z \<Longrightarrow> js_le x z"
  by (cases x; cases y; cases z) (auto simp: js_le_def)

lemma js_le_antisym: "js_le x y \<Longrightarrow> js_le y x \<Longrightarrow> x = y"
  by (cases x; cases y) (auto simp: js_le_def)

lemma js_le_refl: "x \<noteq> NaN \<Longrightarrow> js_le x x"
  by (simp add: js_le_def)

lemma js_le_total: "x \<noteq> NaN \<Longrightarrow> y \<noteq> NaN \<Longrightarrow> js_le x y \<or> js_le y x"
  by (cases x; cases y) (auto simp: js_le_def)

lemma js_is_finite_iff [simp]: "js_is_finite x \<longleftrightarrow> (\<exists>r. x = Fin r)"
  by (auto simp: js_is_finite_def split: jsnum.splits)

lemma js_max_Fin [simp]: "js_max (Fin a) (Fin b) = Fin (max a b)"
  by (auto simp: js_max_def)

lemma js_min_Fin [simp]: "js_min (Fin a) (Fin b) = Fin (min a b)"
  by (auto simp: js_min_def)

section \<open>The interface the numeric components rely on\<close>

locale js_rounding =
  fixes rnd :: "rat \<Rightarrow> jsnum"
  assumes rnd_mono: "r \<le> s \<Longrightarrow> js_le (rnd r) (rnd s)"
    and rnd_int: "\<bar>n\<bar> < 2 ^ 53 \<Longrightarrow> rnd (of_int n) = Fin (of_int n)"
    and rnd_half: "\<bar>n\<bar> < 2 ^ 53 \<Longrightarrow> rnd (of_int n / 2) = Fin (of_int n / 2)"
begin

lemma rnd_zero [simp]: "rnd 0 = Fin 0"
  using rnd_int [of 0] by simp

lemma rnd_one [simp]: "rnd 1 = Fin 1"
  using rnd_int [of 1] by simp

lemma rnd_not_NaN [simp]: "rnd r \<noteq> NaN"
  using rnd_mono [of r r] by (auto simp: js_le_def)

text \<open>A result between two safe integers rounds to a finite number between them.\<close>

lemma rnd_between:
  assumes "of_int m \<le> r" "r \<le> of_int n" "\<bar>m\<bar> < 2 ^ 53" "\<bar>n\<bar> < 2 ^ 53"
  shows "\<exists>q. rnd r = Fin q \<and> of_int m \<le> q \<and> q \<le> of_int n"
proof -
  have "js_le (Fin (of_int m)) (rnd r)" "js_le (rnd r) (Fin (of_int n))"
    using rnd_mono [OF assms(1)] rnd_mono [OF assms(2)] rnd_int assms(3,4) by simp_all
  then show ?thesis by (cases "rnd r") (auto simp: js_le_def)
qed

text \<open>A tolerance below one half never reaches the next integer.\<close>

lemma rnd_tolerance:
  assumes "0 \<le> d" "d \<le> 1 / 2" "\<bar>n\<bar> < 2 ^ 51"
  shows "\<exists>q. rnd (of_int n + d) = Fin q \<and> of_int n \<le> q \<and> q < of_int n + 1"
proof -
  have b: "\<bar>n\<bar> < 2 ^ 53" "\<bar>2 * n + 1\<bar> < 2 ^ 53" using assms(3) by auto
  have "of_int n + d \<le> of_int (2 * n + 1) / 2" using assms(2) by simp
  then have "js_le (rnd (of_int n + d)) (Fin (of_int (2 * n + 1) / 2))"
    using rnd_mono rnd_half [OF b(2)] by metis
  moreover have "js_le (Fin (of_int n)) (rnd (of_int n + d))"
    using rnd_mono [of "of_int n" "of_int n + d"] assms(1) rnd_int [OF b(1)] by simp
  ultimately show ?thesis by (cases "rnd (of_int n + d)") (auto simp: js_le_def)
qed

lemma rnd_nonneg: "0 \<le> r \<Longrightarrow> js_le (Fin 0) (rnd r)"
  using rnd_mono [of 0 r] by simp

lemma rnd_unit:
  assumes "0 \<le> r" "r \<le> 1" shows "\<exists>q. rnd r = Fin q \<and> 0 \<le> q \<and> q \<le> 1"
  using rnd_between [of 0 r 1] assms by simp

end

interpretation binary64: js_rounding fl
  by unfold_locales (simp_all add: fl_mono fl_of_int fl_half)

lemmas fl_simps [simp] = binary64.rnd_not_NaN binary64.rnd_one

lemma js_add_int:
  assumes "\<bar>m + n\<bar> < 2 ^ 53"
  shows "js_add (Fin (of_int m)) (Fin (of_int n)) = Fin (of_int (m + n))"
  using fl_of_int [OF assms] by simp

lemma js_sub_int:
  assumes "\<bar>m - n\<bar> < 2 ^ 53"
  shows "js_sub (Fin (of_int m)) (Fin (of_int n)) = Fin (of_int (m - n))"
  using fl_of_int [OF assms] by (simp add: js_sub_def)

end
