(* ===== verification/Js_Value.thy ===== *)
theory Js_Value
  imports Js_Number
begin

text \<open>
  JavaScript values as they come out of \<^verbatim>\<open>JSON.parse\<close>, a request or the environment, with the
  conversions the sources apply to them: truthiness, \<^verbatim>\<open>String(x)\<close>, \<^verbatim>\<open>Number(x)\<close>,
  \<^verbatim>\<open>typeof\<close> and property reads.  Functions, symbols and bigints are not values of this type.
  A property read on \<^verbatim>\<open>undefined\<close> or \<^verbatim>\<open>null\<close> is \<^verbatim>\<open>undefined\<close> here; where the source would
  throw instead, the component writes the guard out.
\<close>

datatype jsval =
    JUndef
  | JNull
  | JBool bool
  | JNum jsnum
  | JStr string
  | JArr "jsval list"
  | JObj "(string \<times> jsval) list"

definition truthy :: "jsval \<Rightarrow> bool" where
  "truthy v = (case v of
     JUndef \<Rightarrow> False | JNull \<Rightarrow> False | JBool b \<Rightarrow> b
   | JNum n \<Rightarrow> n \<noteq> NaN \<and> n \<noteq> Fin 0
   | JStr s \<Rightarrow> s \<noteq> [] | JArr _ \<Rightarrow> True | JObj _ \<Rightarrow> True)"

text \<open>The operators \<^verbatim>\<open>a || b\<close> and \<^verbatim>\<open>a ?? b\<close>.\<close>

definition js_or :: "jsval \<Rightarrow> jsval \<Rightarrow> jsval" where
  "js_or a b = (if truthy a then a else b)"

definition js_nullish :: "jsval \<Rightarrow> jsval \<Rightarrow> jsval" where
  "js_nullish a b = (if a = JUndef \<or> a = JNull then b else a)"

definition is_array :: "jsval \<Rightarrow> bool" where
  "is_array v = (case v of JArr _ \<Rightarrow> True | _ \<Rightarrow> False)"

definition is_string :: "jsval \<Rightarrow> bool" where
  "is_string v = (case v of JStr _ \<Rightarrow> True | _ \<Rightarrow> False)"

text \<open>\<^verbatim>\<open>typeof v === 'object'\<close> (so \<^verbatim>\<open>null\<close> and arrays are objects).\<close>

definition typeof_object :: "jsval \<Rightarrow> bool" where
  "typeof_object v = (case v of JNull \<Rightarrow> True | JArr _ \<Rightarrow> True | JObj _ \<Rightarrow> True | _ \<Rightarrow> False)"

definition array_items :: "jsval \<Rightarrow> jsval list" where
  "array_items v = (case v of JArr xs \<Rightarrow> xs | _ \<Rightarrow> [])"

definition js_get :: "jsval \<Rightarrow> string \<Rightarrow> jsval" where
  "js_get v k = (case v of
     JObj ps \<Rightarrow> (case map_of ps k of None \<Rightarrow> JUndef | Some x \<Rightarrow> x)
   | _ \<Rightarrow> JUndef)"

text \<open>\<^verbatim>\<open>===\<close>: two objects or arrays of different origin are never the same.\<close>

definition strict_eq :: "jsval \<Rightarrow> jsval \<Rightarrow> bool" where
  "strict_eq a b = (a = b \<and> (case a of JArr _ \<Rightarrow> False | JObj _ \<Rightarrow> False | JNum n \<Rightarrow> n \<noteq> NaN | _ \<Rightarrow> True))"

text \<open>\<^verbatim>\<open>Number.isFinite\<close> and \<^verbatim>\<open>Number.isInteger\<close> convert nothing.\<close>

definition finite_number :: "jsval \<Rightarrow> bool" where
  "finite_number v = (case v of JNum n \<Rightarrow> js_is_finite n | _ \<Rightarrow> False)"

definition integer_number :: "jsval \<Rightarrow> bool" where
  "integer_number v = (case v of JNum n \<Rightarrow> js_is_integer n | _ \<Rightarrow> False)"

text \<open>\<^verbatim>\<open>Object.entries(v)\<close> for an object or an array; other values have no entry that is not a text.\<close>

definition object_entries :: "jsval \<Rightarrow> (string \<times> jsval) list" where
  "object_entries v = (case v of JObj ps \<Rightarrow> ps
     | JArr xs \<Rightarrow> zip (map (\<lambda>i. dec_string (int i)) [0..<length xs]) xs | _ \<Rightarrow> [])"

text \<open>The spread \<^verbatim>\<open>{ ...v, key: value, ... }\<close>.\<close>

definition spread_update :: "jsval \<Rightarrow> (string \<times> jsval) list \<Rightarrow> jsval" where
  "spread_update v upd = JObj (fold (\<lambda>(k, x) ps. AList.update k x ps) upd
     (case v of JObj ps \<Rightarrow> ps | _ \<Rightarrow> []))"

section \<open>Number to string\<close>

definition pow10 :: "int \<Rightarrow> rat" where
  "pow10 e = (if 0 \<le> e then of_int (10 ^ nat e) else 1 / of_int (10 ^ nat (- e)))"

function ndigits :: "int \<Rightarrow> nat" where
  "ndigits n = (if n \<le> 0 then 0 else Suc (ndigits (n div 10)))"
  by pat_completeness auto
termination
  by (relation "measure nat") auto

declare ndigits.simps [simp del]

text \<open>For a positive \<open>x\<close>, the \<open>n\<close> with \<open>10 ^ (n - 1) \<le> x < 10 ^ n\<close>.\<close>

definition dec_exp :: "rat \<Rightarrow> int" where
  "dec_exp x = (let (a, b) = quotient_of x; e = int (ndigits a) - int (ndigits b)
                in if pow10 e \<le> x then e + 1 else e)"

text \<open>
  ECMAScript prints the shortest decimal that reads back as the same number, and the one
  closest to it among those: \<open>dec_digits x k\<close> is that decimal with \<open>k\<close> digits, if there is one.
\<close>

definition dec_digits :: "rat \<Rightarrow> int \<Rightarrow> nat \<Rightarrow> int option" where
  "dec_digits x n k = (let p = pow10 (n - int k); s = \<lfloor>x / p\<rfloor>;
       lo = fl (of_int s * p) = Fin x; hi = fl (of_int (s + 1) * p) = Fin x in
     if lo \<and> hi then Some (if x - of_int s * p \<le> of_int (s + 1) * p - x then s else s + 1)
     else if lo then Some s else if hi then Some (s + 1) else None)"

fun shortest_from :: "rat \<Rightarrow> int \<Rightarrow> nat list \<Rightarrow> nat \<times> int" where
  "shortest_from x n [] = (17, \<lfloor>x / pow10 (n - 17)\<rfloor>)"
| "shortest_from x n (k # ks) =
     (case dec_digits x n k of Some s \<Rightarrow> (k, s) | None \<Rightarrow> shortest_from x n ks)"

definition fmt_decimal :: "string \<Rightarrow> int \<Rightarrow> string" where
  "fmt_decimal ds n = (let k = int (length ds); e = n - 1;
       esuf = (if e < 0 then ''e-'' else ''e+'') @ dec_string \<bar>e\<bar> in
     if k \<le> n \<and> n \<le> 21 then ds @ replicate (nat (n - k)) CHR ''0''
     else if 0 < n \<and> n \<le> 21 then take (nat n) ds @ ''.'' @ drop (nat n) ds
     else if -6 < n \<and> n \<le> 0 then ''0.'' @ replicate (nat (- n)) CHR ''0'' @ ds
     else if k = 1 then ds @ esuf
     else take 1 ds @ ''.'' @ drop 1 ds @ esuf)"

definition pos_to_string :: "rat \<Rightarrow> string" where
  "pos_to_string x = (let n = dec_exp x; (k, s) = shortest_from x n [1..<18] in
     if s = 10 ^ k then fmt_decimal ''1'' (n + 1) else fmt_decimal (dec_string s) n)"

definition num_to_string :: "jsnum \<Rightarrow> string" where
  "num_to_string x = (case x of
     NaN \<Rightarrow> ''NaN'' | PInf \<Rightarrow> ''Infinity'' | NInf \<Rightarrow> ''-Infinity''
   | Fin r \<Rightarrow> if r = 0 then ''0'' else if r < 0 then ''-'' @ pos_to_string (- r) else pos_to_string r)"

section \<open>String to number\<close>

definition hex_val :: "char \<Rightarrow> int option" where
  "hex_val c = (if is_digit c then Some (int (char_code c) - 48)
     else if in_range 97 102 c then Some (int (char_code c) - 87)
     else if in_range 65 70 c then Some (int (char_code c) - 55) else None)"

fun radix_val :: "int \<Rightarrow> string \<Rightarrow> int \<Rightarrow> int option" where
  "radix_val b [] acc = Some acc"
| "radix_val b (c # s) acc = (case hex_val c of
     None \<Rightarrow> None | Some d \<Rightarrow> if d < b then radix_val b s (acc * b + d) else None)"

definition parse_radix :: "int \<Rightarrow> string \<Rightarrow> jsnum" where
  "parse_radix b s = (if s = [] then NaN else
     case radix_val b s 0 of None \<Rightarrow> NaN | Some n \<Rightarrow> fl (of_int n))"

definition parse_exponent :: "string \<Rightarrow> int option" where
  "parse_exponent s = (case s of
     [] \<Rightarrow> Some 0
   | c # r \<Rightarrow> if c \<noteq> CHR ''e'' \<and> c \<noteq> CHR ''E'' then None
       else let neg = starts_with r ''-'';
                ds = (if neg \<or> starts_with r ''+'' then tl r else r) in
         if ds \<noteq> [] \<and> list_all is_digit ds
         then Some (if neg then - digits_val ds else digits_val ds) else None)"

definition parse_udecimal :: "string \<Rightarrow> rat option" where
  "parse_udecimal s = (let ip = takeWhile is_digit s; r1 = dropWhile is_digit s;
       fp = (if starts_with r1 ''.'' then takeWhile is_digit (tl r1) else []);
       r2 = (if starts_with r1 ''.'' then dropWhile is_digit (tl r1) else r1) in
     if ip = [] \<and> fp = [] then None
     else case parse_exponent r2 of None \<Rightarrow> None
       | Some e \<Rightarrow> Some (of_int (digits_val (ip @ fp)) * pow10 (e - int (length fp))))"

definition parse_decimal :: "string \<Rightarrow> jsnum" where
  "parse_decimal s = (let neg = starts_with s ''-'';
       u = (if neg \<or> starts_with s ''+'' then tl s else s) in
     if u = ''Infinity'' then (if neg then NInf else PInf)
     else case parse_udecimal u of None \<Rightarrow> NaN
       | Some r \<Rightarrow> fl (if neg then - r else r))"

definition string_to_number :: "string \<Rightarrow> jsnum" where
  "string_to_number s = (let t = js_trim s; p = to_lower (take 2 t) in
     if t = [] then Fin 0
     else if p = ''0x'' then parse_radix 16 (drop 2 t)
     else if p = ''0o'' then parse_radix 8 (drop 2 t)
     else if p = ''0b'' then parse_radix 2 (drop 2 t)
     else parse_decimal t)"

text \<open>\<^verbatim>\<open>Number.parseInt(s, 10)\<close>: the longest prefix of digits after an optional sign.\<close>

definition js_parse_int :: "string \<Rightarrow> jsnum" where
  "js_parse_int s = (let t = dropWhile is_space s; neg = starts_with t ''-'';
       ds = takeWhile is_digit (if neg \<or> starts_with t ''+'' then tl t else t) in
     if ds = [] then NaN else fl (of_int (if neg then - digits_val ds else digits_val ds)))"

section \<open>Conversions of values\<close>

fun js_to_string :: "jsval \<Rightarrow> string" where
  "js_to_string JUndef = ''undefined''"
| "js_to_string JNull = ''null''"
| "js_to_string (JBool b) = (if b then ''true'' else ''false'')"
| "js_to_string (JNum n) = num_to_string n"
| "js_to_string (JStr s) = s"
| "js_to_string (JArr xs) =
     js_join '','' (map (\<lambda>x. if x = JUndef \<or> x = JNull then '''' else js_to_string x) xs)"
| "js_to_string (JObj _) = ''[object Object]''"

definition js_to_number :: "jsval \<Rightarrow> jsnum" where
  "js_to_number v = (case v of
     JUndef \<Rightarrow> NaN | JNull \<Rightarrow> Fin 0 | JBool b \<Rightarrow> Fin (if b then 1 else 0)
   | JNum n \<Rightarrow> n | JStr s \<Rightarrow> string_to_number s
   | JArr xs \<Rightarrow> string_to_number (js_to_string v) | JObj _ \<Rightarrow> NaN)"

text \<open>\<^verbatim>\<open>String(v || '')\<close>, the idiom with which the sources read a text field.\<close>

definition text_of :: "jsval \<Rightarrow> string" where
  "text_of v = js_to_string (js_or v (JStr ''''))"

text \<open>A parameter default replaces \<^verbatim>\<open>undefined\<close> only; \<^verbatim>\<open>x ? String(x) : null\<close> is \<open>opt_text\<close>.\<close>

definition js_default :: "jsval \<Rightarrow> jsval \<Rightarrow> jsval" where
  "js_default v d = (if v = JUndef then d else v)"

definition opt_text :: "jsval \<Rightarrow> string option" where
  "opt_text v = (if truthy v then Some (js_to_string v) else None)"

text \<open>A nullable text as a value.\<close>

definition opt_value :: "string option \<Rightarrow> jsval" where
  "opt_value s = (case s of None \<Rightarrow> JNull | Some t \<Rightarrow> JStr t)"

lemma truthy_simps [simp]:
  "\<not> truthy JUndef" "\<not> truthy JNull" "truthy (JBool b) = b" "truthy (JStr s) = (s \<noteq> [])"
  "truthy (JArr xs)" "truthy (JObj ps)" "truthy (JNum n) = (n \<noteq> NaN \<and> n \<noteq> Fin 0)"
  by (simp_all add: truthy_def)

lemma js_get_simps [simp]:
  "js_get JUndef k = JUndef" "js_get JNull k = JUndef" "js_get (JBool b) k = JUndef"
  "js_get (JNum n) k = JUndef" "js_get (JStr s) k = JUndef" "js_get (JArr xs) k = JUndef"
  by (simp_all add: js_get_def)

lemma js_get_JObj [simp]:
  "js_get (JObj []) k = JUndef"
  "js_get (JObj ((k', v) # ps)) k = (if k' = k then v else js_get (JObj ps) k)"
  by (simp_all add: js_get_def)

lemma text_of_simps [simp]:
  "text_of JUndef = ''''" "text_of JNull = ''''" "text_of (JStr s) = s"
  by (simp_all add: text_of_def js_or_def)

lemma opt_value_simps [simp]: "opt_value None = JNull" "opt_value (Some s) = JStr s"
  by (simp_all add: opt_value_def)

lemma js_to_number_JNum [simp]: "js_to_number (JNum n) = n"
  by (simp add: js_to_number_def)

lemma strict_eq_string [simp]: "strict_eq v (JStr s) \<longleftrightarrow> v = JStr s"
  by (auto simp: strict_eq_def)

lemma strict_eq_num [simp]: "strict_eq v (JNum (Fin x)) \<longleftrightarrow> v = JNum (Fin x)"
  by (auto simp: strict_eq_def)

lemma js_get_spread [simp]:
  "js_get (spread_update v (upd @ [(k, x)])) k' = (if k = k' then x else js_get (spread_update v upd) k')"
  by (simp add: spread_update_def js_get_def map_of_update)

lemma js_get_spread_Nil [simp]: "js_get (spread_update v []) k = js_get v k"
  by (simp add: spread_update_def js_get_def split: jsval.split)

lemma js_get_spread_1 [simp]: "js_get (spread_update v [(k, x)]) k' = (if k = k' then x else js_get v k')"
  using js_get_spread [of v "[]"] by simp

lemma js_get_spread_map:
  "js_get (spread_update v upd) k = (case map_of (rev upd) k of Some x \<Rightarrow> x | None \<Rightarrow> js_get v k)"
proof (induction upd rule: rev_induct)
  case (snoc u upd)
  then show ?case by (cases u) simp
qed simp

end
