(* ===== verification/Access_Policy.thy ===== *)
theory Access_Policy
  imports Js_Value
begin

text \<open>
  The capability policy of \<^verbatim>\<open>shared/lib/auth/access_policy.js\<close>: roles and the capabilities they
  grant, the capabilities a request needs (\<open>requiredCapabilities\<close>), principals
  (\<open>buildPrincipal\<close>) and the decision (\<open>authorize\<close>).  Requests and role names are arbitrary
  JavaScript values, as the HTTP layer hands them over.
\<close>

section \<open>Capabilities, roles and route tables\<close>

datatype capability =
    STATUS_READ | DATA_READ | RESEARCH_READ | RESEARCH_RUN | PORTFOLIO_READ
  | USER_CONFIG_READ | USER_CONFIG_WRITE | SIGNAL_PROMOTE | PAPER_OPERATE | DATA_WRITE
  | HOST_INSPECT | HOST_MANAGE | SAFETY_CONTROL | LOCAL_FILE_OVERRIDE | LIVE_EXECUTE

fun CAPABILITIES :: "capability \<Rightarrow> string" where
  "CAPABILITIES STATUS_READ = ''status.read''"
| "CAPABILITIES DATA_READ = ''data.read''"
| "CAPABILITIES RESEARCH_READ = ''research.read''"
| "CAPABILITIES RESEARCH_RUN = ''research.run''"
| "CAPABILITIES PORTFOLIO_READ = ''portfolio.read''"
| "CAPABILITIES USER_CONFIG_READ = ''user_config.read''"
| "CAPABILITIES USER_CONFIG_WRITE = ''user_config.write''"
| "CAPABILITIES SIGNAL_PROMOTE = ''signal.promote''"
| "CAPABILITIES PAPER_OPERATE = ''paper.operate''"
| "CAPABILITIES DATA_WRITE = ''data.write''"
| "CAPABILITIES HOST_INSPECT = ''host.inspect''"
| "CAPABILITIES HOST_MANAGE = ''host.manage''"
| "CAPABILITIES SAFETY_CONTROL = ''safety.control''"
| "CAPABILITIES LOCAL_FILE_OVERRIDE = ''local_file_override.read''"
| "CAPABILITIES LIVE_EXECUTE = ''live.execute''"

definition capability_values :: "capability list" where
  "capability_values =
     [STATUS_READ, DATA_READ, RESEARCH_READ, RESEARCH_RUN, PORTFOLIO_READ, USER_CONFIG_READ,
      USER_CONFIG_WRITE, SIGNAL_PROMOTE, PAPER_OPERATE, DATA_WRITE, HOST_INSPECT, HOST_MANAGE,
      SAFETY_CONTROL, LOCAL_FILE_OVERRIDE, LIVE_EXECUTE]"

definition ALL_CAPABILITIES :: "string list" where
  "ALL_CAPABILITIES = map CAPABILITIES capability_values"

definition ROLE_CAPABILITIES :: "(string \<times> string list) list" where
  "ROLE_CAPABILITIES =
     [(''viewer'', map CAPABILITIES [STATUS_READ, DATA_READ, RESEARCH_READ]),
      (''analyst'', map CAPABILITIES
         [STATUS_READ, DATA_READ, RESEARCH_READ, RESEARCH_RUN, PORTFOLIO_READ,
          USER_CONFIG_READ, USER_CONFIG_WRITE, SIGNAL_PROMOTE]),
      (''operator'', map CAPABILITIES
         [STATUS_READ, DATA_READ, RESEARCH_READ, RESEARCH_RUN, PORTFOLIO_READ,
          USER_CONFIG_READ, USER_CONFIG_WRITE, SIGNAL_PROMOTE, PAPER_OPERATE, DATA_WRITE,
          HOST_INSPECT, SAFETY_CONTROL]),
      (''owner'', ALL_CAPABILITIES),
      (''service'', [])]"

definition VALID_ROLES :: "string list" where
  "VALID_ROLES = map fst ROLE_CAPABILITIES"

definition PUBLIC_GET_ROUTES :: "string list" where
  "PUBLIC_GET_ROUTES =
     [''/health'', ''/api/auth/status'', ''/api/public/market-summary'',
      ''/api/public/freshness'', ''/api/public/research-summary'']"

definition PROTECTED_GET_CAPABILITIES :: "(string \<times> string) list" where
  "PROTECTED_GET_CAPABILITIES =
     [(''/api/status'', CAPABILITIES STATUS_READ),
      (''/api/data/summary'', CAPABILITIES DATA_READ),
      (''/api/analytics'', CAPABILITIES RESEARCH_READ),
      (''/api/backtest'', CAPABILITIES RESEARCH_READ),
      (''/api/correlation'', CAPABILITIES RESEARCH_READ),
      (''/api/backend/stats'', CAPABILITIES STATUS_READ),
      (''/api/universe'', CAPABILITIES DATA_READ),
      (''/api/cache/universe'', CAPABILITIES DATA_READ),
      (''/api/indicators'', CAPABILITIES RESEARCH_READ),
      (''/api/quotes/status'', CAPABILITIES DATA_READ),
      (''/api/signal'', CAPABILITIES RESEARCH_READ),
      (''/api/system/status'', CAPABILITIES STATUS_READ),
      (''/api/strategies'', CAPABILITIES RESEARCH_READ),
      (''/api/sigma-band'', CAPABILITIES RESEARCH_READ),
      (''/api/run/status'', CAPABILITIES STATUS_READ),
      (''/api/backend/portfolio'', CAPABILITIES PORTFOLIO_READ),
      (''/api/cache/list'', CAPABILITIES HOST_INSPECT),
      (''/api/config'', CAPABILITIES USER_CONFIG_READ),
      (''/api/database/status'', CAPABILITIES USER_CONFIG_READ),
      (''/api/bot/status'', CAPABILITIES STATUS_READ),
      (''/api/engine/runtime-state'', CAPABILITIES STATUS_READ),
      (''/api/bias'', CAPABILITIES RESEARCH_READ),
      (''/api/client/status'', CAPABILITIES STATUS_READ),
      (''/api/kill-switch'', CAPABILITIES STATUS_READ),
      (''/api/market/monitor'', CAPABILITIES DATA_READ),
      (''/api/system/service-health'', CAPABILITIES DATA_READ),
      (''/api/scorecard'', CAPABILITIES RESEARCH_READ),
      (''/api/combined-analysis'', CAPABILITIES RESEARCH_READ),
      (''/api/system/infra'', CAPABILITIES HOST_INSPECT),
      (''/api/cluster/status'', CAPABILITIES STATUS_READ)]"

definition MUTATION_CAPABILITIES :: "(string \<times> string) list" where
  "MUTATION_CAPABILITIES =
     [(''/api/config'', CAPABILITIES USER_CONFIG_WRITE),
      (''/api/signal/promote'', CAPABILITIES SIGNAL_PROMOTE),
      (''/api/combined-analysis/promote'', CAPABILITIES SIGNAL_PROMOTE),
      (''/api/combined-analysis/paper-cycle'', CAPABILITIES PAPER_OPERATE),
      (''/api/bot/cycle'', CAPABILITIES PAPER_OPERATE),
      (''/api/order/execution-cycle'', CAPABILITIES PAPER_OPERATE),
      (''/api/bot/sell'', CAPABILITIES PAPER_OPERATE),
      (''/api/order/liquidation'', CAPABILITIES PAPER_OPERATE),
      (''/api/kill-switch'', CAPABILITIES SAFETY_CONTROL),
      (''/api/auth/session/reauth'', CAPABILITIES STATUS_READ),
      (''/api/cluster/status'', CAPABILITIES SAFETY_CONTROL)]"

section \<open>Normalisation and principals\<close>

definition normalizeRole :: "jsval \<Rightarrow> string option \<Rightarrow> string option" where
  "normalizeRole value fallback =
     (let normalized = to_lower (js_trim (text_of value)) in
      if normalized \<in> set VALID_ROLES then Some normalized
      else case fallback of
        Some f \<Rightarrow> if f \<in> set VALID_ROLES then Some f else None
      | None \<Rightarrow> None)"

definition capabilitiesForRole :: "jsval \<Rightarrow> string list" where
  "capabilitiesForRole role = (case normalizeRole role None of
     Some r \<Rightarrow> the (map_of ROLE_CAPABILITIES r)
   | None \<Rightarrow> [])"

definition normalizeCapabilities :: "jsval \<Rightarrow> string list" where
  "normalizeCapabilities values =
     js_uniq (filter (\<lambda>v. v \<in> set ALL_CAPABILITIES)
       (map (\<lambda>v. js_trim (text_of v)) (array_items values)))"

record principal =
  prin_id :: "string option"
  identity_type :: string
  prin_role :: "string option"
  capabilities :: "string list"
  authenticated :: bool
  prin_source :: string
  session_id :: "string option"
  acting_user_id :: "string option"

record principal_args =
  arg_id :: jsval
  arg_identityType :: jsval
  arg_role :: jsval
  arg_capabilities :: jsval
  arg_authenticated :: jsval
  arg_source :: jsval
  arg_sessionId :: jsval
  arg_actingUserId :: jsval

definition role_value :: "string option \<Rightarrow> jsval" where
  "role_value r = (case r of None \<Rightarrow> JNull | Some s \<Rightarrow> JStr s)"

definition buildPrincipal :: "principal_args \<Rightarrow> principal" where
  "buildPrincipal a =
     (let role = js_default (arg_role a) JNull;
          caps = js_default (arg_capabilities a) JNull;
          normalizedRole = normalizeRole role None;
          effective = (if caps = JNull then capabilitiesForRole (role_value normalizedRole)
                       else normalizeCapabilities caps)
      in \<lparr>prin_id = opt_text (js_default (arg_id a) JNull),
          identity_type = js_to_string
            (js_or (js_default (arg_identityType a) (JStr ''anonymous'')) (JStr ''anonymous'')),
          prin_role = normalizedRole,
          capabilities = effective,
          authenticated = (js_default (arg_authenticated a) (JBool False) = JBool True),
          prin_source = js_to_string
            (js_or (js_default (arg_source a) (JStr ''none'')) (JStr ''none'')),
          session_id = opt_text (js_default (arg_sessionId a) JNull),
          acting_user_id = opt_text (js_default (arg_actingUserId a) JNull)\<rparr>)"

section \<open>What a request needs\<close>

definition lookup_or :: "(string \<times> string) list \<Rightarrow> string \<Rightarrow> string \<Rightarrow> string" where
  "lookup_or tbl k d = (case map_of tbl k of Some c \<Rightarrow> c | None \<Rightarrow> d)"

definition query_text :: "jsval \<Rightarrow> string" where
  "query_text v = to_lower (js_trim (js_to_string v))"

definition requiredCapabilities :: "jsval \<Rightarrow> jsval \<Rightarrow> bool \<Rightarrow> jsval \<Rightarrow> string list" where
  "requiredCapabilities mthd pathname hasPrivilegedOverride query =
     (let normalizedMethod = to_upper (js_to_string (js_or mthd (JStr ''GET'')));
          route = js_to_string (js_or pathname (JStr ''/''))
      in if hasPrivilegedOverride then [CAPABILITIES LOCAL_FILE_OVERRIDE]
      else if normalizedMethod \<noteq> ''GET'' \<and> normalizedMethod \<noteq> ''HEAD'' then
        (if (route = ''/api/bot/cycle'' \<or> route = ''/api/order/execution-cycle'')
            \<and> to_lower (text_of (js_get query ''live'')) = ''true''
         then [CAPABILITIES PAPER_OPERATE, CAPABILITIES LIVE_EXECUTE]
         else [lookup_or MUTATION_CAPABILITIES route (CAPABILITIES HOST_MANAGE)])
      else if route = ''/api/kill-switch'' then
        (let command = query_text (js_or (js_get query ''command'') (JStr ''status''))
         in [if command = ''status'' then CAPABILITIES STATUS_READ else CAPABILITIES SAFETY_CONTROL])
      else if route = ''/api/cluster/status'' then
        (let action = query_text (js_or (js_or (js_get query ''action'') (js_get query ''command''))
               (JStr ''status''))
         in [if action = ''status'' \<or> action = ''nodes'' then CAPABILITIES STATUS_READ
             else CAPABILITIES SAFETY_CONTROL])
      else case map_of PROTECTED_GET_CAPABILITIES route of
        Some c \<Rightarrow> [c]
      | None \<Rightarrow>
          if route \<in> set PUBLIC_GET_ROUTES then []
          else if route = ''/api'' \<or> starts_with route ''/api/'' then [CAPABILITIES STATUS_READ]
          else [])"

section \<open>The decision\<close>

record decision =
  allowed :: bool
  d_authenticated :: bool
  reason :: string
  required :: "string list"
  missing :: "string list"

text \<open>The capabilities asked for, before the unknown ones are dropped.\<close>

definition requested_names :: "jsval \<Rightarrow> string list" where
  "requested_names caps =
     js_uniq (filter (\<lambda>v. v \<noteq> []) (map (\<lambda>v. js_trim (text_of v)) (array_items caps)))"

definition authorize :: "principal option \<Rightarrow> jsval \<Rightarrow> decision" where
  "authorize who caps =
     (let requested = requested_names caps;
          req = normalizeCapabilities caps;
          unknown = filter (\<lambda>c. c \<notin> set ALL_CAPABILITIES) requested;
          auth = (case who of None \<Rightarrow> False | Some p \<Rightarrow> authenticated p)
      in if unknown \<noteq> [] then
           \<lparr>allowed = False, d_authenticated = auth, reason = ''invalid_capability_policy'',
            required = req, missing = unknown\<rparr>
         else if req = [] then
           \<lparr>allowed = True, d_authenticated = auth, reason = ''public'', required = req, missing = []\<rparr>
         else if \<not> auth then
           \<lparr>allowed = False, d_authenticated = False, reason = ''authentication_required'',
            required = req, missing = req\<rparr>
         else
           (let granted = normalizeCapabilities (JArr (map JStr (capabilities (the who))));
                miss = filter (\<lambda>c. c \<notin> set granted) req
            in \<lparr>allowed = (miss = []), d_authenticated = True,
                reason = (if miss = [] then ''authorized'' else ''insufficient_capability''),
                required = req, missing = miss\<rparr>))"

section \<open>Lemmas\<close>

lemma set_capability_values [simp]: "set capability_values = UNIV"
proof -
  have "c \<in> set capability_values" for c by (cases c) (simp_all add: capability_values_def)
  then show ?thesis by auto
qed

lemma distinct_ALL_CAPABILITIES: "distinct ALL_CAPABILITIES"
  by code_simp

lemma CAPABILITIES_inj [simp]: "CAPABILITIES a = CAPABILITIES b \<longleftrightarrow> a = b"
  using distinct_ALL_CAPABILITIES
  by (auto simp: ALL_CAPABILITIES_def distinct_map dest: injD)

lemma CAPABILITIES_not_Nil [simp]: "CAPABILITIES c \<noteq> []" "[] \<noteq> CAPABILITIES c"
  by (cases c; simp)+

lemma js_trim_CAPABILITIES [simp]: "js_trim (CAPABILITIES c) = CAPABILITIES c"
proof -
  have "\<forall>c \<in> set capability_values. js_trim (CAPABILITIES c) = CAPABILITIES c" by code_simp
  then show ?thesis by simp
qed

declare CAPABILITIES.simps [simp del]

lemma ALL_CAPABILITIES_range: "set ALL_CAPABILITIES = range CAPABILITIES"
  by (simp add: ALL_CAPABILITIES_def)

lemma CAPABILITIES_in_ALL [simp]: "CAPABILITIES c \<in> set ALL_CAPABILITIES"
  by (simp add: ALL_CAPABILITIES_range)

lemma Nil_not_capability [simp]: "[] \<notin> set ALL_CAPABILITIES"
  by (auto simp: ALL_CAPABILITIES_range)

lemma set_normalizeCapabilities:
  "set (normalizeCapabilities v) =
     (\<lambda>x. js_trim (text_of x)) ` set (array_items v) \<inter> set ALL_CAPABILITIES"
  by (auto simp: normalizeCapabilities_def)

lemma distinct_normalizeCapabilities [simp]: "distinct (normalizeCapabilities v)"
  by (simp add: normalizeCapabilities_def)

lemma set_normalizeCapabilities_strings:
  "set (normalizeCapabilities (JArr (map JStr cs))) = js_trim ` set cs \<inter> set ALL_CAPABILITIES"
  by (simp add: set_normalizeCapabilities array_items_def image_image)

lemma set_requested_names:
  "set (requested_names v) = (\<lambda>x. js_trim (text_of x)) ` set (array_items v) - {[]}"
  by (auto simp: requested_names_def)

lemma normalizeCapabilities_requested:
  "set (normalizeCapabilities v) = set (requested_names v) \<inter> set ALL_CAPABILITIES"
  by (auto simp: set_normalizeCapabilities set_requested_names)

text \<open>A list of capability names passes through normalisation unchanged.\<close>

lemma trim_known: "c \<in> set ALL_CAPABILITIES \<Longrightarrow> js_trim c = c"
  by (auto simp: ALL_CAPABILITIES_range)

lemma normalizeCapabilities_known:
  assumes "set cs \<subseteq> set ALL_CAPABILITIES" "distinct cs"
  shows "normalizeCapabilities (JArr (map JStr cs)) = cs"
proof -
  have "map (\<lambda>v. js_trim (text_of v)) (map JStr cs) = cs"
    using assms(1) by (auto simp: trim_known intro!: map_idI)
  moreover have "filter (\<lambda>v. v \<in> set ALL_CAPABILITIES) cs = cs"
    using assms(1) by (auto simp: filter_id_conv)
  ultimately show ?thesis using assms by (simp add: normalizeCapabilities_def array_items_def)
qed

lemma requested_names_known:
  assumes "set cs \<subseteq> set ALL_CAPABILITIES"
  shows "set (requested_names (JArr (map JStr cs))) = set cs"
proof -
  have "js_trim ` set cs = set cs" using assms by (force simp: trim_known image_iff)
  moreover have "[] \<notin> set cs" using assms Nil_not_capability by blast
  ultimately show ?thesis by (simp add: set_requested_names array_items_def image_image)
qed

lemma ROLE_CAPABILITIES_known:
  "map_of ROLE_CAPABILITIES r = Some cs \<Longrightarrow> set cs \<subseteq> set ALL_CAPABILITIES"
  by (auto simp: ROLE_CAPABILITIES_def split: if_splits)

lemma normalizeRole_valid: "normalizeRole v fb = Some r \<Longrightarrow> r \<in> set VALID_ROLES"
  by (auto simp: normalizeRole_def Let_def split: if_splits option.splits)

lemma capabilitiesForRole_known: "set (capabilitiesForRole v) \<subseteq> set ALL_CAPABILITIES"
proof (cases "normalizeRole v None")
  case (Some r)
  then have "r \<in> fst ` set ROLE_CAPABILITIES"
    using normalizeRole_valid [of v None r] by (simp add: VALID_ROLES_def)
  then obtain cs where "map_of ROLE_CAPABILITIES r = Some cs"
    by (metis map_of_eq_None_iff not_None_eq)
  with Some ROLE_CAPABILITIES_known show ?thesis by (simp add: capabilitiesForRole_def)
qed (simp add: capabilitiesForRole_def)

text \<open>A role name in normal form is a fixed point of \<open>normalizeRole\<close>.\<close>

lemma normalizeRole_VALID: "r \<in> set VALID_ROLES \<Longrightarrow> normalizeRole (JStr r) None = Some r"
  by (auto simp: VALID_ROLES_def ROLE_CAPABILITIES_def normalizeRole_def js_eval)

lemma normalizeRole_JNull: "normalizeRole JNull None = None"
  by (simp add: normalizeRole_def VALID_ROLES_def ROLE_CAPABILITIES_def js_eval)

lemma capabilitiesForRole_VALID:
  "r \<in> set VALID_ROLES \<Longrightarrow> capabilitiesForRole (JStr r) = the (map_of ROLE_CAPABILITIES r)"
  by (simp add: capabilitiesForRole_def normalizeRole_VALID)

lemma capabilitiesForRole_JNull: "capabilitiesForRole JNull = []"
  by (simp add: capabilitiesForRole_def normalizeRole_JNull)

lemma LIVE_EXECUTE_owner:
  assumes "r \<in> set VALID_ROLES"
    and "CAPABILITIES LIVE_EXECUTE \<in> set (the (map_of ROLE_CAPABILITIES r))"
  shows "r = ''owner''"
  using assms by (auto simp: VALID_ROLES_def ROLE_CAPABILITIES_def)

lemma buildPrincipal_known: "set (capabilities (buildPrincipal a)) \<subseteq> set ALL_CAPABILITIES"
  by (auto simp: buildPrincipal_def Let_def set_normalizeCapabilities
      dest: subsetD [OF capabilitiesForRole_known])

lemma route_tables_known:
  "\<forall>(_, c) \<in> set (MUTATION_CAPABILITIES @ PROTECTED_GET_CAPABILITIES). c \<in> set ALL_CAPABILITIES"
  by code_simp

lemma MUTATION_known: "map_of MUTATION_CAPABILITIES r = Some c \<Longrightarrow> c \<in> set ALL_CAPABILITIES"
  using route_tables_known by (auto dest!: map_of_SomeD)

lemma PROTECTED_known: "map_of PROTECTED_GET_CAPABILITIES r = Some c \<Longrightarrow> c \<in> set ALL_CAPABILITIES"
  using route_tables_known by (auto dest!: map_of_SomeD)

lemma lookup_or_known:
  "d \<in> set ALL_CAPABILITIES \<Longrightarrow> lookup_or MUTATION_CAPABILITIES r d \<in> set ALL_CAPABILITIES"
  by (simp add: lookup_or_def MUTATION_known split: option.split)

lemma requiredCapabilities_known: "set (requiredCapabilities m p ov q) \<subseteq> set ALL_CAPABILITIES"
  by (simp add: requiredCapabilities_def Let_def lookup_or_known PROTECTED_known
      split: option.split)

lemma authorize_reason_known:
  assumes "set (requested_names caps) \<subseteq> set ALL_CAPABILITIES"
  shows "allowed (authorize who caps) \<longleftrightarrow>
    normalizeCapabilities caps = [] \<or>
    (\<exists>p. who = Some p \<and> authenticated p \<and>
       set (normalizeCapabilities caps) \<subseteq> js_trim ` set (capabilities p))"
proof -
  have "filter (\<lambda>c. c \<notin> set ALL_CAPABILITIES) (requested_names caps) = []"
    using assms by (auto simp: filter_empty_conv)
  moreover have "set (normalizeCapabilities caps) \<subseteq> set ALL_CAPABILITIES"
    by (simp add: normalizeCapabilities_requested)
  ultimately show ?thesis
    by (cases who) (auto simp: authorize_def Let_def filter_empty_conv
        set_normalizeCapabilities_strings)
qed

section \<open>Properties\<close>

text \<open>
  C20. Authorisation is exactly capability inclusion: a request is allowed iff every capability
  it names exists and either it names none, or the principal is authenticated and holds all of
  them.  This holds for every input, malformed lists and missing principals included.
\<close>

theorem authorize_iff:
  "allowed (authorize who caps) \<longleftrightarrow>
     set (requested_names caps) \<subseteq> set ALL_CAPABILITIES \<and>
     (requested_names caps = [] \<or>
      (\<exists>p. who = Some p \<and> authenticated p \<and>
         set (requested_names caps) \<subseteq> js_trim ` set (capabilities p)))"
proof (cases "set (requested_names caps) \<subseteq> set ALL_CAPABILITIES")
  case True
  then have eq: "set (normalizeCapabilities caps) = set (requested_names caps)"
    by (auto simp: normalizeCapabilities_requested)
  then have "normalizeCapabilities caps = [] \<longleftrightarrow> requested_names caps = []"
    by (metis set_empty)
  with True authorize_reason_known [OF True] eq show ?thesis by simp
next
  case False
  then have "filter (\<lambda>c. c \<notin> set ALL_CAPABILITIES) (requested_names caps) \<noteq> []"
    by (auto simp: filter_empty_conv)
  with False show ?thesis by (simp add: authorize_def Let_def)
qed

text \<open>
  Routes fail closed: a request that needs no capability at all is a GET or HEAD of one of
  the five public routes or of a path outside \<^verbatim>\<open>/api\<close>.  In particular every mutation and every
  unknown API route needs a capability.
\<close>

theorem requiredCapabilities_fail_closed:
  assumes "requiredCapabilities m p ov q = []"
  shows "\<not> ov \<and>
    to_upper (js_to_string (js_or m (JStr ''GET''))) \<in> {''GET'', ''HEAD''} \<and>
    (js_to_string (js_or p (JStr ''/'')) \<in> set PUBLIC_GET_ROUTES \<or>
     \<not> (js_to_string (js_or p (JStr ''/'')) = ''/api'' \<or>
        starts_with (js_to_string (js_or p (JStr ''/''))) ''/api/''))"
  using assms by (auto simp: requiredCapabilities_def Let_def split: if_splits option.splits)

theorem requiredCapabilities_fail_closed_witness:
  "requiredCapabilities (JStr ''get'') (JStr ''/health'') False (JObj []) = [] \<and>
   to_upper (js_to_string (js_or (JStr ''get'') (JStr ''GET''))) \<in> {''GET'', ''HEAD''}"
proof -
  have "requiredCapabilities (JStr ''get'') (JStr ''/health'') False (JObj []) = []"
    by code_simp
  with requiredCapabilities_fail_closed [OF this] show ?thesis by blast
qed

text \<open>
  A live trading cycle is the owner's alone: a principal whose capabilities come from its
  role and who is allowed a live \<^verbatim>\<open>/api/bot/cycle\<close> or \<^verbatim>\<open>/api/order/execution-cycle\<close> mutation has
  the role owner.
\<close>

theorem live_cycle_owner_only:
  assumes route: "route = ''/api/bot/cycle'' \<or> route = ''/api/order/execution-cycle''"
    and live: "to_lower (text_of (js_get query ''live'')) = ''true''"
    and meth: "to_upper mthd \<noteq> ''GET''" "to_upper mthd \<noteq> ''HEAD''" "mthd \<noteq> []"
    and caps: "arg_capabilities a = JNull"
    and ok: "allowed (authorize (Some (buildPrincipal a))
       (JArr (map JStr (requiredCapabilities (JStr mthd) (JStr route) False query))))"
  shows "prin_role (buildPrincipal a) = Some ''owner''"
proof -
  define r where "r = prin_role (buildPrincipal a)"
  let ?req = "map CAPABILITIES [PAPER_OPERATE, LIVE_EXECUTE]"
  have req: "requiredCapabilities (JStr mthd) (JStr route) False query = ?req"
    using route live meth by (auto simp: requiredCapabilities_def js_or_def)
  have "set (requested_names (JArr (map JStr ?req))) = set ?req"
    by (rule requested_names_known) auto
  with ok have "CAPABILITIES LIVE_EXECUTE \<in> js_trim ` set (capabilities (buildPrincipal a))"
    unfolding req authorize_iff by auto
  then have "CAPABILITIES LIVE_EXECUTE \<in> set (capabilities (buildPrincipal a))"
    using buildPrincipal_known [of a] by (auto simp: trim_known subset_iff)
  then have mem: "CAPABILITIES LIVE_EXECUTE \<in> set (capabilitiesForRole (role_value r))"
    using caps by (simp add: buildPrincipal_def Let_def js_default_def r_def)
  have "r = Some s \<Longrightarrow> s \<in> set VALID_ROLES" for s
    using normalizeRole_valid by (auto simp: r_def buildPrincipal_def Let_def)
  with mem show ?thesis
    by (cases r) (auto simp: role_value_def capabilitiesForRole_JNull capabilitiesForRole_VALID
        r_def [symmetric] intro: LIVE_EXECUTE_owner)
qed

theorem live_cycle_owner_only_witness:
  "prin_role (buildPrincipal \<lparr>arg_id = JStr ''u1'', arg_identityType = JStr ''user'',
     arg_role = JStr '' Owner '', arg_capabilities = JNull, arg_authenticated = JBool True,
     arg_source = JStr ''session'', arg_sessionId = JNull, arg_actingUserId = JNull\<rparr>)
   = Some ''owner''"
  by (rule live_cycle_owner_only [where route = "''/api/bot/cycle''" and mthd = "''post''"
        and query = "JObj [(''live'', JBool True)]"]) code_simp+

text \<open>
  The route policy and the capability list agree: whatever the request, the capabilities
  \<open>requiredCapabilities\<close> asks for exist, so \<open>authorize\<close> never answers
  \<^verbatim>\<open>invalid_capability_policy\<close>, and it answers \<^verbatim>\<open>authentication_required\<close> to an
  unauthenticated caller exactly when something is required.
\<close>

theorem route_policy_well_formed:
  "let d = authorize who (JArr (map JStr (requiredCapabilities m p ov q))) in
   reason d \<noteq> ''invalid_capability_policy'' \<and>
   (who = None \<longrightarrow> (reason d = ''authentication_required'') = (requiredCapabilities m p ov q \<noteq> []))"
proof -
  let ?c = "JArr (map JStr (requiredCapabilities m p ov q))"
  have eq: "set (requested_names ?c) = set (requiredCapabilities m p ov q)"
    by (rule requested_names_known) (rule requiredCapabilities_known)
  then have "filter (\<lambda>c. c \<notin> set ALL_CAPABILITIES) (requested_names ?c) = []"
    using requiredCapabilities_known [of m p ov q] by (auto simp: filter_empty_conv)
  moreover have "normalizeCapabilities ?c = [] \<longleftrightarrow> requiredCapabilities m p ov q = []"
    using eq normalizeCapabilities_requested [of ?c] requiredCapabilities_known [of m p ov q]
    by (metis inf.absorb_iff1 set_empty)
  ultimately show ?thesis by (auto simp: authorize_def Let_def)
qed

theorem route_policy_well_formed_witness:
  "(let d = authorize None (JArr (map JStr
        (requiredCapabilities (JStr ''GET'') (JStr ''/api/unknown'') False (JObj [])))) in
    reason d = ''authentication_required'')"
  using route_policy_well_formed [of None "JStr ''GET''" "JStr ''/api/unknown''" False "JObj []"]
  by code_simp

end
