(* ===== verification/Js_Json.thy ===== *)
theory Js_Json
  imports Js_Value
begin

text \<open>
  \<^verbatim>\<open>JSON.stringify\<close> on the values of \<^theory_text>\<open>Js_Value\<close>, and \<open>json_view v\<close>, the value that
  \<^verbatim>\<open>JSON.parse(JSON.stringify(v))\<close> gives back: what a component reads again after it wrote
  \<open>v\<close> to a file.  Numbers that are not finite become \<^verbatim>\<open>null\<close>, undefined members of an object
  are dropped and undefined elements of an array become \<^verbatim>\<open>null\<close>.
\<close>

text \<open>A JSON file: absent, not parsable, or the value \<^verbatim>\<open>JSON.parse\<close> gives.\<close>

datatype json_file = Missing | Unparsable | Json jsval

definition hex_digit :: "nat \<Rightarrow> char" where
  "hex_digit n = char_of (if n < 10 then 48 + n else 87 + n)"

definition json_char :: "char \<Rightarrow> string" where
  "json_char c =
     (if char_code c = 34 then [char_of (92::nat), c]
      else if char_code c = 92 then [c, c]
      else if char_code c = 8 then [char_of (92::nat), CHR ''b'']
      else if char_code c = 9 then [char_of (92::nat), CHR ''t'']
      else if char_code c = 10 then [char_of (92::nat), CHR ''n'']
      else if char_code c = 12 then [char_of (92::nat), CHR ''f'']
      else if char_code c = 13 then [char_of (92::nat), CHR ''r'']
      else if char_code c < 32
        then [char_of (92::nat)] @ ''u00'' @ [hex_digit (char_code c div 16), hex_digit (char_code c mod 16)]
      else [c])"

text \<open>Most characters stand for themselves; this equation makes evaluation fast.\<close>

definition escaped_char :: "char \<Rightarrow> string" where
  "escaped_char = json_char"

lemma json_char_code [code]:
  "json_char c = (let n = char_int c in if 32 \<le> n \<and> n \<noteq> 34 \<and> n \<noteq> 92 then [c] else escaped_char c)"
  by (auto simp: escaped_char_def json_char_def char_code_int Let_def nat_eq_iff)

lemma escaped_char_code [code]: "escaped_char c = (let n = char_code c in
     (if n = 34 then [char_of (92::nat), c]
      else if n = 92 then [c, c]
      else if n = 8 then [char_of (92::nat), CHR ''b'']
      else if n = 9 then [char_of (92::nat), CHR ''t'']
      else if n = 10 then [char_of (92::nat), CHR ''n'']
      else if n = 12 then [char_of (92::nat), CHR ''f'']
      else if n = 13 then [char_of (92::nat), CHR ''r'']
      else if n < 32
        then [char_of (92::nat)] @ ''u00'' @ [hex_digit (n div 16), hex_digit (n mod 16)]
      else [c]))"
  by (simp add: escaped_char_def json_char_def Let_def)

definition json_quote :: "string \<Rightarrow> string" where
  "json_quote s = [char_of (34::nat)] @ concat (map json_char s) @ [char_of (34::nat)]"

lemma size_JArr [termination_simp]: "v \<in> set xs \<Longrightarrow> size v < Suc (size_list size xs)"
  by (induction xs) auto

lemma size_JObj [termination_simp]:
  "(k, v) \<in> set ps \<Longrightarrow> size v < Suc (size_list (size_prod (\<lambda>_. 0) size) ps)"
  by (induction ps) auto

fun json_text :: "jsval \<Rightarrow> string" where
  "json_text JUndef = ''null''"
| "json_text JNull = ''null''"
| "json_text (JBool b) = (if b then ''true'' else ''false'')"
| "json_text (JNum n) = (if js_is_finite n then num_to_string n else ''null'')"
| "json_text (JStr s) = json_quote s"
| "json_text (JArr xs) = ''['' @ js_join '','' (map json_text xs) @ '']''"
| "json_text (JObj ps) = ''{'' @ js_join '',''
     (map (\<lambda>(k, v). json_quote k @ '':'' @ json_text v) (filter (\<lambda>(k, v). v \<noteq> JUndef) ps)) @ ''}''"

fun json_view :: "jsval \<Rightarrow> jsval" where
  "json_view JUndef = JNull"
| "json_view (JNum n) = (if js_is_finite n then JNum n else JNull)"
| "json_view (JArr xs) = JArr (map json_view xs)"
| "json_view (JObj ps) = JObj (map (\<lambda>(k, v). (k, json_view v)) (filter (\<lambda>(k, v). v \<noteq> JUndef) ps))"
| "json_view v = v"

lemma json_view_not_undef [simp]: "json_view v \<noteq> JUndef"
  by (cases v) auto

lemma filter_json_view [simp]:
  "filter (\<lambda>(k, v). v \<noteq> JUndef) (map (\<lambda>(k, v). (k, json_view v)) ps) = map (\<lambda>(k, v). (k, json_view v)) ps"
  by (induction ps) auto

text \<open>Serialising is insensitive to a write and read: the text of the value read is the text written.\<close>

lemma json_text_view: "json_text (json_view v) = json_text v"
proof (induction v rule: json_text.induct)
  case (6 xs)
  then show ?case by (simp cong: map_cong)
next
  case (7 ps)
  have "map ((\<lambda>(k, v). json_quote k @ '':'' @ json_text v) \<circ> (\<lambda>(k, v). (k, json_view v)))
      (filter (\<lambda>(k, v). v \<noteq> JUndef) ps)
    = map (\<lambda>(k, v). json_quote k @ '':'' @ json_text v) (filter (\<lambda>(k, v). v \<noteq> JUndef) ps)"
    by (rule map_cong [OF refl]) (use 7 in \<open>fastforce\<close>)
  then show ?case by (simp only: json_view.simps json_text.simps filter_json_view map_map)
qed auto

lemma json_view_idem [simp]: "json_view (json_view v) = json_view v"
proof (induction v rule: json_text.induct)
  case (6 xs)
  then show ?case by simp
next
  case (7 ps)
  have "map ((\<lambda>(k, v). (k, json_view v)) \<circ> (\<lambda>(k, v). (k, json_view v))) (filter (\<lambda>(k, v). v \<noteq> JUndef) ps)
    = map (\<lambda>(k, v). (k, json_view v)) (filter (\<lambda>(k, v). v \<noteq> JUndef) ps)"
    by (rule map_cong [OF refl]) (use 7 in \<open>fastforce\<close>)
  then show ?case by simp
qed auto

lemma js_get_json_view:
  "js_get (json_view (JObj ((k', v) # ps))) k =
     (if k' = k \<and> v \<noteq> JUndef then json_view v else js_get (json_view (JObj ps)) k)"
  by simp

lemma js_get_view: "js_get v k \<noteq> JUndef \<Longrightarrow> js_get (json_view v) k = json_view (js_get v k)"
proof -
  have "map_of ps k = Some x \<Longrightarrow> x \<noteq> JUndef \<Longrightarrow>
      map_of (map (\<lambda>(k, v). (k, json_view v)) (filter (\<lambda>(k, v). v \<noteq> JUndef) ps)) k = Some (json_view x)" for ps x
    by (induction ps) (auto split: if_splits)
  then show "js_get v k \<noteq> JUndef \<Longrightarrow> js_get (json_view v) k = json_view (js_get v k)"
    by (cases v) (auto simp: js_get_def split: option.splits)
qed

lemma js_get_view_string:
  "js_get (JObj ps) k = JStr s \<Longrightarrow> js_get (json_view (JObj ps)) k = JStr s"
  using js_get_view [of "JObj ps" k] by simp

lemma js_get_view_defined:
  assumes "\<And>k v. (k, v) \<in> set ps \<Longrightarrow> v \<noteq> JUndef"
  shows "js_get (json_view (JObj ps)) k = (if js_get (JObj ps) k = JUndef then JUndef else json_view (js_get (JObj ps) k))"
proof -
  have "filter (\<lambda>(k, v). v \<noteq> JUndef) ps = ps" using assms by (auto simp: filter_id_conv)
  moreover have "map_of (map (\<lambda>(k, v). (k, json_view v)) ps) k = map_option json_view (map_of ps k)"
    by (induction ps) auto
  moreover have "map_of ps k = Some v \<Longrightarrow> v \<noteq> JUndef" for v using assms map_of_SomeD by metis
  ultimately show ?thesis by (auto simp: js_get_def split: option.splits)
qed

end
