(* ===== verification/Service_Principals.thy ===== *)
theory Service_Principals
  imports Access_Policy Js_Json
begin

text \<open>
  The registry of service principals of \<^verbatim>\<open>shared/lib/auth/service_principals.js\<close>: tokens that
  authenticate a machine client, with the operations that create, list and revoke them.

  The registry file is what \<^verbatim>\<open>JSON.parse\<close> returns for its content, or missing, or unreadable
  (a \<open>json_file\<close>); writing it replaces the value, the temporary file and rename being atomic.
  The key derivation (\<^verbatim>\<open>crypto.scryptSync\<close>), the session hash and the random token, salt and
  entropy are parameters.
\<close>

datatype registry_error =
    Unsupported_registry | Invalid_registry | Duplicate_id | Syntax_error
  | Bad_service_id | Principal_exists | No_valid_capability | Principal_not_found

record service =
  svc_id :: string
  svc_salt :: string
  token_hash :: string
  svc_capabilities :: "string list"
  active :: bool
  svc_acting_user_id :: "string option"
  created_at :: "string option"
  revoked_at :: "string option"

text \<open>What the operations show of a service: never its salt or its token hash.\<close>

record service_view =
  view_id :: string
  view_capabilities :: "string list"
  view_active :: bool
  view_acting_user_id :: "string option"
  view_created_at :: "string option"

record listed_service = service_view +
  view_revoked_at :: "string option"

definition SCHEMA_VERSION :: jsval where
  "SCHEMA_VERSION = JNum (Fin 1)"

definition emptyRegistry :: "service list" where
  "emptyRegistry = []"

section \<open>Reading\<close>

definition id_char :: "char \<Rightarrow> bool" where
  "id_char c = (is_alnum c \<or> c \<in> {CHR ''_'', CHR ''.'', CHR ''-''})"

text \<open>\<^verbatim>\<open>/^[a-zA-Z0-9][a-zA-Z0-9_.-]{2,63}$/\<close> and the two hex patterns.\<close>

definition valid_service_id :: "string \<Rightarrow> bool" where
  "valid_service_id s = (case s of [] \<Rightarrow> False
     | c # r \<Rightarrow> is_alnum c \<and> list_all id_char r \<and> 2 \<le> length r \<and> length r \<le> 63)"

definition hex_of_length :: "nat \<Rightarrow> string \<Rightarrow> bool" where
  "hex_of_length n s = (length s = n \<and> list_all is_lower_hex s)"

definition normalizeService :: "jsval \<Rightarrow> service option" where
  "normalizeService value =
     (if \<not> truthy value \<or> \<not> typeof_object value then None else
      let id = js_trim (text_of (js_get value ''id''));
          salt = js_trim (text_of (js_get value ''salt''));
          tokenHash = js_trim (text_of (js_get value ''token_hash''))
      in if \<not> valid_service_id id then None
      else if \<not> hex_of_length 32 salt \<or> \<not> hex_of_length 64 tokenHash then None
      else Some \<lparr>svc_id = id, svc_salt = salt, token_hash = tokenHash,
        svc_capabilities = normalizeCapabilities (js_get value ''capabilities''),
        active = (js_get value ''active'' \<noteq> JBool False),
        svc_acting_user_id = opt_text (js_get value ''acting_user_id''),
        created_at = opt_text (js_get value ''created_at''),
        revoked_at = opt_text (js_get value ''revoked_at'')\<rparr>)"

definition readRegistry :: "json_file \<Rightarrow> registry_error + service list" where
  "readRegistry file = (case file of
     Missing \<Rightarrow> Inr emptyRegistry
   | Unparsable \<Rightarrow> Inl Syntax_error
   | Json parsed \<Rightarrow>
       if \<not> truthy parsed \<or> js_get parsed ''schema_version'' \<noteq> SCHEMA_VERSION
          \<or> \<not> is_array (js_get parsed ''services'')
       then Inl Unsupported_registry
       else let raw = array_items (js_get parsed ''services'');
                services = List.map_filter normalizeService raw
         in if length services \<noteq> length raw then Inl Invalid_registry
         else if length (js_uniq (map svc_id services)) \<noteq> length services then Inl Duplicate_id
         else Inr services)"

section \<open>Writing\<close>

definition service_json :: "service \<Rightarrow> jsval" where
  "service_json s = JObj
     [(''id'', JStr (svc_id s)), (''salt'', JStr (svc_salt s)), (''token_hash'', JStr (token_hash s)),
      (''capabilities'', JArr (map JStr (svc_capabilities s))), (''active'', JBool (active s)),
      (''acting_user_id'', opt_value (svc_acting_user_id s)),
      (''created_at'', opt_value (created_at s)), (''revoked_at'', opt_value (revoked_at s))]"

definition writeRegistry :: "service list \<Rightarrow> json_file" where
  "writeRegistry services = Json (JObj
     [(''schema_version'', SCHEMA_VERSION), (''services'', JArr (map service_json services))])"

section \<open>Operations\<close>

definition constantTimeHexEqual :: "string \<Rightarrow> string \<Rightarrow> bool" where
  "constantTimeHexEqual l r = (hex_of_length 64 l \<and> hex_of_length 64 r \<and> l = r)"

text \<open>The loop over the registry: the first active service whose digest matches.\<close>

fun authenticate_loop ::
  "(string \<Rightarrow> string \<Rightarrow> string) \<Rightarrow> (string \<Rightarrow> string) \<Rightarrow> string \<Rightarrow> string \<Rightarrow> service list \<Rightarrow> principal option"
where
  "authenticate_loop tokenDigest sha256 entropy candidate [] = None"
| "authenticate_loop tokenDigest sha256 entropy candidate (s # rest) =
     (if \<not> active s then authenticate_loop tokenDigest sha256 entropy candidate rest
      else let digest = tokenDigest candidate (svc_salt s) in
        if \<not> constantTimeHexEqual digest (token_hash s)
        then authenticate_loop tokenDigest sha256 entropy candidate rest
        else Some (buildPrincipal
          \<lparr>arg_id = JStr (svc_id s), arg_identityType = JStr ''service'',
           arg_role = JStr ''service'',
           arg_capabilities = JArr (map JStr (svc_capabilities s)),
           arg_authenticated = JBool True, arg_source = JStr ''service_registry'',
           arg_sessionId = JStr (take 24 (sha256
             (''service:'' @ svc_id s @ '':'' @ digest @ '':'' @ entropy))),
           arg_actingUserId = opt_value (svc_acting_user_id s)\<rparr>))"

definition authenticateServiceToken ::
  "(string \<Rightarrow> string \<Rightarrow> string) \<Rightarrow> (string \<Rightarrow> string) \<Rightarrow> string \<Rightarrow> jsval \<Rightarrow> json_file
   \<Rightarrow> registry_error + principal option"
where
  "authenticateServiceToken tokenDigest sha256 entropy token file =
     (let candidate = text_of token in
      if length candidate < 32 \<or> length candidate > 512 then Inr None
      else rbind (readRegistry file) (\<lambda>services.
        Inr (authenticate_loop tokenDigest sha256 entropy candidate services)))"

definition public_view :: "service \<Rightarrow> service_view" where
  "public_view s = \<lparr>view_id = svc_id s, view_capabilities = svc_capabilities s,
     view_active = active s, view_acting_user_id = svc_acting_user_id s,
     view_created_at = created_at s\<rparr>"

definition listed_view :: "service \<Rightarrow> listed_service" where
  "listed_view s = \<lparr>view_id = svc_id s, view_capabilities = svc_capabilities s,
     view_active = active s, view_acting_user_id = svc_acting_user_id s,
     view_created_at = created_at s, view_revoked_at = revoked_at s\<rparr>"

definition createServicePrincipal ::
  "(string \<Rightarrow> string \<Rightarrow> string) \<Rightarrow> string \<Rightarrow> string \<Rightarrow> string \<Rightarrow> jsval \<Rightarrow> jsval \<Rightarrow> jsval \<Rightarrow> json_file
   \<Rightarrow> registry_error + (json_file \<times> string \<times> service_view)"
where
  "createServicePrincipal tokenDigest token salt now sid caps actingUserId file =
     (let normalizedId = js_trim (text_of sid) in
      if \<not> valid_service_id normalizedId then Inl Bad_service_id
      else rbind (readRegistry file) (\<lambda>services.
        if \<exists>s \<in> set services. svc_id s = normalizedId then Inl Principal_exists
        else let normalizedCapabilities = normalizeCapabilities
                   (js_default caps (JArr [JStr (CAPABILITIES STATUS_READ)]))
          in if normalizedCapabilities = [] then Inl No_valid_capability
          else let service =
              \<lparr>svc_id = normalizedId, svc_salt = salt, token_hash = tokenDigest token salt,
               svc_capabilities = normalizedCapabilities, active = True,
               svc_acting_user_id = opt_text (js_default actingUserId JNull),
               created_at = Some now, revoked_at = None\<rparr>
            in Inr (writeRegistry (services @ [service]), token, public_view service)))"

definition listServicePrincipals :: "json_file \<Rightarrow> registry_error + listed_service list" where
  "listServicePrincipals file =
     rbind (readRegistry file) (\<lambda>services. Inr (map listed_view services))"

text \<open>
  \<^verbatim>\<open>services.find(...)\<close> and the mutation of the entry found.  The result of the revocation is
  whether it changed the registry, the id, and the time of the revocation.
\<close>

fun revoke_first :: "string \<Rightarrow> string \<Rightarrow> service list \<Rightarrow> service list" where
  "revoke_first now i [] = []"
| "revoke_first now i (s # rest) =
     (if svc_id s = i then s\<lparr>active := False, revoked_at := Some now\<rparr> # rest
      else s # revoke_first now i rest)"

definition revokeServicePrincipal ::
  "string \<Rightarrow> jsval \<Rightarrow> json_file \<Rightarrow> registry_error + (json_file \<times> bool \<times> string \<times> string option)"
where
  "revokeServicePrincipal now sid file =
     rbind (readRegistry file) (\<lambda>services.
       case find (\<lambda>s. svc_id s = text_of sid) services of
         None \<Rightarrow> Inl Principal_not_found
       | Some s \<Rightarrow>
           if \<not> active s then Inr (file, False, svc_id s, None)
           else Inr (writeRegistry (revoke_first now (text_of sid) services), True, svc_id s,
             Some now))"

section \<open>The registry invariant and the write--read round trip\<close>

definition wf_service :: "service \<Rightarrow> bool" where
  "wf_service s = (valid_service_id (svc_id s) \<and> hex_of_length 32 (svc_salt s)
     \<and> hex_of_length 64 (token_hash s)
     \<and> set (svc_capabilities s) \<subseteq> set ALL_CAPABILITIES \<and> distinct (svc_capabilities s))"

definition wf_registry :: "service list \<Rightarrow> bool" where
  "wf_registry ss = (list_all wf_service ss \<and> distinct (map svc_id ss))"

text \<open>Reading back: an empty text in an optional field comes back as \<^verbatim>\<open>null\<close>.\<close>

definition canon_opt :: "string option \<Rightarrow> string option" where
  "canon_opt s = (if s = Some [] then None else s)"

definition canon :: "service \<Rightarrow> service" where
  "canon s = s\<lparr>svc_acting_user_id := canon_opt (svc_acting_user_id s),
     created_at := canon_opt (created_at s), revoked_at := canon_opt (revoked_at s)\<rparr>"

lemma canon_simps [simp]:
  "svc_id (canon s) = svc_id s" "svc_salt (canon s) = svc_salt s"
  "token_hash (canon s) = token_hash s" "active (canon s) = active s"
  "svc_capabilities (canon s) = svc_capabilities s" "wf_service (canon s) = wf_service s"
  by (simp_all add: canon_def wf_service_def)

lemma id_char_no_space: "id_char c \<Longrightarrow> \<not> is_space c"
  by (auto simp: id_char_def js_eval)

lemma hex_no_space: "is_lower_hex c \<Longrightarrow> \<not> is_space c"
  by (auto simp: js_eval)

lemma valid_service_id_chars: "valid_service_id s \<Longrightarrow> list_all id_char s"
  by (auto simp: valid_service_id_def id_char_def split: list.splits)

lemma trim_service_id: "valid_service_id s \<Longrightarrow> js_trim s = s"
  by (rule trim_no_space)
     (use valid_service_id_chars [of s] id_char_no_space in \<open>auto simp: list_all_iff\<close>)

lemma trim_hex: "hex_of_length n s \<Longrightarrow> js_trim s = s"
  by (rule trim_no_space) (use hex_no_space in \<open>auto simp: hex_of_length_def list_all_iff\<close>)

lemma opt_text_value: "opt_text (opt_value s) = canon_opt s"
  by (auto simp: opt_text_def opt_value_def canon_opt_def split: option.splits)

lemma normalizeService_json: "wf_service s \<Longrightarrow> normalizeService (service_json s) = Some (canon s)"
  by (simp add: normalizeService_def service_json_def wf_service_def typeof_object_def Let_def
      trim_service_id trim_hex [of 32] trim_hex [of 64] opt_text_value normalizeCapabilities_known
      canon_def)

lemma normalizeService_wf: "normalizeService v = Some s \<Longrightarrow> wf_service s"
  by (auto simp: normalizeService_def wf_service_def Let_def normalizeCapabilities_requested
      split: if_splits)

lemma map_filter_all: "\<forall>x \<in> set xs. f (g x) = Some (h x) \<Longrightarrow> List.map_filter f (map g xs) = map h xs"
  by (induction xs) (auto simp: List.map_filter_simps)

lemma map_filter_mem: "y \<in> set (List.map_filter f xs) \<Longrightarrow> \<exists>x \<in> set xs. f x = Some y"
  by (induction xs) (auto simp: List.map_filter_simps split: option.splits)

lemma length_js_uniq: "length (js_uniq xs) = length xs \<longleftrightarrow> distinct xs"
proof -
  have "length (remdups (rev xs)) = length (rev xs) \<longleftrightarrow> distinct (rev xs)"
    by (simp only: length_remdups_eq remdups_id_iff_distinct)
  then show ?thesis by (simp add: js_uniq_def)
qed

lemma readRegistry_wf:
  assumes "readRegistry file = Inr services" shows "wf_registry services"
proof (cases "file")
  case (Json parsed)
  then have ss: "services = List.map_filter normalizeService (array_items (js_get parsed ''services''))"
    and len: "length (js_uniq (map svc_id services)) = length (map svc_id services)"
    using assms by (auto simp: readRegistry_def Let_def split: if_splits)
  have "distinct (map svc_id services)" using len length_js_uniq by blast
  moreover have "\<forall>s \<in> set services. wf_service s"
    unfolding ss by (blast dest: map_filter_mem normalizeService_wf)
  ultimately show ?thesis by (simp add: wf_registry_def list_all_iff)
qed (use assms in \<open>simp_all add: readRegistry_def emptyRegistry_def wf_registry_def\<close>)

lemma readRegistry_writeRegistry:
  assumes "wf_registry ss" shows "readRegistry (writeRegistry ss) = Inr (map canon ss)"
proof -
  have "List.map_filter normalizeService (map service_json ss) = map canon ss"
    using assms by (intro map_filter_all) (auto simp: wf_registry_def list_all_iff normalizeService_json)
  moreover have "distinct (map svc_id ss)" using assms by (simp add: wf_registry_def)
  ultimately show ?thesis
    by (simp add: readRegistry_def writeRegistry_def is_array_def array_items_def comp_def)
qed

section \<open>Authentication\<close>

lemma service_principal_fields:
  assumes "wf_service s"
  shows "prin_id (buildPrincipal \<lparr>arg_id = JStr (svc_id s), arg_identityType = it,
      arg_role = JStr ''service'', arg_capabilities = JArr (map JStr (svc_capabilities s)),
      arg_authenticated = au, arg_source = so, arg_sessionId = se, arg_actingUserId = ac\<rparr>)
      = Some (svc_id s)"
    and "capabilities (buildPrincipal \<lparr>arg_id = JStr (svc_id s), arg_identityType = it,
      arg_role = JStr ''service'', arg_capabilities = JArr (map JStr (svc_capabilities s)),
      arg_authenticated = au, arg_source = so, arg_sessionId = se, arg_actingUserId = ac\<rparr>)
      = svc_capabilities s"
proof -
  have "svc_id s \<noteq> []" using assms by (auto simp: wf_service_def valid_service_id_def)
  then show "prin_id (buildPrincipal \<lparr>arg_id = JStr (svc_id s), arg_identityType = it,
      arg_role = JStr ''service'', arg_capabilities = JArr (map JStr (svc_capabilities s)),
      arg_authenticated = au, arg_source = so, arg_sessionId = se, arg_actingUserId = ac\<rparr>)
      = Some (svc_id s)"
    by (simp add: buildPrincipal_def Let_def js_default_def opt_text_def)
  show "capabilities (buildPrincipal \<lparr>arg_id = JStr (svc_id s), arg_identityType = it,
      arg_role = JStr ''service'', arg_capabilities = JArr (map JStr (svc_capabilities s)),
      arg_authenticated = au, arg_source = so, arg_sessionId = se, arg_actingUserId = ac\<rparr>)
      = svc_capabilities s"
    using assms by (simp add: buildPrincipal_def Let_def js_default_def wf_service_def
        normalizeCapabilities_known)
qed

lemma authenticate_loop_sound:
  assumes "authenticate_loop dg sha ent tok ss = Some p" "list_all wf_service ss"
  shows "\<exists>s \<in> set ss. active s \<and> dg tok (svc_salt s) = token_hash s \<and> authenticated p
     \<and> prin_id p = Some (svc_id s) \<and> capabilities p = svc_capabilities s"
  using assms
proof (induction ss)
  case (Cons s ss)
  show ?case
  proof (cases "active s \<and> constantTimeHexEqual (dg tok (svc_salt s)) (token_hash s)")
    case True
    then have "dg tok (svc_salt s) = token_hash s" by (simp add: constantTimeHexEqual_def)
    moreover have "authenticated p" using Cons.prems True
      by (auto simp: Let_def buildPrincipal_def js_default_def)
    ultimately show ?thesis using Cons.prems True service_principal_fields [of s]
      by (intro bexI [of _ s]) (auto simp: Let_def)
  next
    case False
    with Cons show ?thesis by (auto simp: Let_def split: if_splits)
  qed
qed simp

lemma authenticate_loop_skip:
  assumes "\<forall>s \<in> set ss. active s \<longrightarrow> dg tok (svc_salt s) \<noteq> token_hash s"
  shows "authenticate_loop dg sha ent tok (ss @ rest) = authenticate_loop dg sha ent tok rest"
  using assms by (induction ss) (auto simp: constantTimeHexEqual_def Let_def)

lemma revoke_first_id: "map svc_id (revoke_first now i ss) = map svc_id ss"
  by (induction ss) auto

lemma revoke_first_wf: "list_all wf_service ss \<Longrightarrow> list_all wf_service (revoke_first now i ss)"
  by (induction ss) (auto simp: wf_service_def)

lemma revoke_first_inactive:
  assumes "distinct (map svc_id ss)" "s \<in> set (revoke_first now i ss)" "svc_id s = i"
  shows "\<not> active s"
  using assms
proof (induction ss)
  case (Cons x ss)
  show ?case
  proof (cases "svc_id x = i")
    case True
    then have "s = x\<lparr>active := False, revoked_at := Some now\<rparr> \<or> s \<in> set ss" using Cons.prems(2) by simp
    moreover have "s \<notin> set ss" using Cons.prems(1,3) True by force
    ultimately show ?thesis by auto
  next
    case False
    with Cons.prems have "s \<in> set (revoke_first now i ss)" by auto
    with Cons show ?thesis by simp
  qed
qed simp

lemma authenticate_on_write:
  assumes "wf_registry ss" "authenticateServiceToken dg sha ent tok (writeRegistry ss) = Inr (Some p)"
  shows "\<exists>s \<in> set ss. active s \<and> dg (text_of tok) (svc_salt s) = token_hash s \<and> authenticated p
     \<and> prin_id p = Some (svc_id s) \<and> capabilities p = svc_capabilities s"
proof -
  have "authenticate_loop dg sha ent (text_of tok) (map canon ss) = Some p"
    using assms by (auto simp: authenticateServiceToken_def readRegistry_writeRegistry Let_def
        split: if_splits)
  moreover have "list_all wf_service (map canon ss)"
    using assms(1) by (simp add: wf_registry_def list_all_iff)
  ultimately show ?thesis using authenticate_loop_sound by fastforce
qed

section \<open>Properties\<close>

text \<open>
  C35. Authentication is sound: a token that authenticates matches the stored hash of an active
  service of a registry that passed every check, and the principal carries that service's
  identity and exactly its capabilities.
\<close>

theorem authenticate_sound:
  assumes "readRegistry file = Inr services"
    and "authenticateServiceToken dg sha ent tok file = Inr (Some p)"
  shows "\<exists>s \<in> set services. active s \<and> dg (text_of tok) (svc_salt s) = token_hash s
     \<and> authenticated p \<and> prin_id p = Some (svc_id s) \<and> capabilities p = svc_capabilities s
     \<and> set (svc_capabilities s) \<subseteq> set ALL_CAPABILITIES"
proof -
  have wf: "list_all wf_service services" using readRegistry_wf [OF assms(1)] by (simp add: wf_registry_def)
  have "authenticate_loop dg sha ent (text_of tok) services = Some p"
    using assms by (auto simp: authenticateServiceToken_def Let_def split: if_splits)
  from authenticate_loop_sound [OF this wf] wf show ?thesis
    by (fastforce simp: list_all_iff wf_service_def)
qed

text \<open>
  Revocation is final: after a successful revocation no token whatsoever authenticates as
  the revoked service, whatever the key derivation computes.
\<close>

theorem revoke_final:
  assumes "revokeServicePrincipal now sid file = Inr (file', True, i, when)"
    and "authenticateServiceToken dg sha ent tok file' = Inr (Some p)"
  shows "prin_id p \<noteq> Some (text_of sid)"
proof -
  obtain services where r: "readRegistry file = Inr services"
    and f: "file' = writeRegistry (revoke_first now (text_of sid) services)"
    using assms(1) by (auto simp: revokeServicePrincipal_def rbind_Inr_iff split: option.splits if_splits)
  have wf: "wf_registry services" using r by (rule readRegistry_wf)
  then have wf': "wf_registry (revoke_first now (text_of sid) services)"
    by (simp add: wf_registry_def revoke_first_id revoke_first_wf)
  from authenticate_on_write [OF wf' assms(2) [unfolded f]] obtain s where
    "s \<in> set (revoke_first now (text_of sid) services)" "active s" "prin_id p = Some (svc_id s)"
    by blast
  with wf show ?thesis by (auto simp: wf_registry_def dest: revoke_first_inactive)
qed

text \<open>
  Creation is effective: the registry that \<open>createServicePrincipal\<close> writes reads back as the
  old services followed by the new one, and the token it hands out authenticates as the new
  service with the capabilities it was created with.  The key derivation returns 64 hex digits,
  the salt has 32, the token is of the accepted length, and no active service already
  matches the token.
\<close>

theorem create_then_authenticate:
  assumes create: "createServicePrincipal dg token salt now sid caps user file = Inr (file', t, v)"
    and read: "readRegistry file = Inr services"
    and digest: "hex_of_length 64 (dg token salt)" and salt: "hex_of_length 32 salt"
    and len: "32 \<le> length token" "length token \<le> 512"
    and fresh: "\<forall>x \<in> set services. active x \<longrightarrow> dg token (svc_salt x) \<noteq> token_hash x"
  shows "t = token \<and> (\<exists>s p. readRegistry file' = Inr (map canon services @ [canon s])
      \<and> public_view s = v
      \<and> authenticateServiceToken dg sha ent (JStr t) file' = Inr (Some p)
      \<and> authenticated p \<and> prin_id p = Some (view_id v) \<and> capabilities p = view_capabilities v)"
proof -
  define s where "s = \<lparr>svc_id = js_trim (text_of sid), svc_salt = salt,
    token_hash = dg token salt, svc_capabilities = normalizeCapabilities
      (js_default caps (JArr [JStr (CAPABILITIES STATUS_READ)])), active = True,
    svc_acting_user_id = opt_text (js_default user JNull), created_at = Some now, revoked_at = None\<rparr>"
  have f: "file' = writeRegistry (services @ [s])" and v: "v = public_view s" "t = token"
    and sid: "valid_service_id (svc_id s)" "svc_id s \<notin> svc_id ` set services"
    using create read by (auto simp: createServicePrincipal_def Let_def s_def split: if_splits)
  have fields: "active s" "svc_salt s = salt" "token_hash s = dg token salt"
      "set (svc_capabilities s) \<subseteq> set ALL_CAPABILITIES" "distinct (svc_capabilities s)"
    by (simp_all add: s_def normalizeCapabilities_requested)
  have wfs: "wf_service s" using sid fields digest salt by (simp add: wf_service_def)
  then have wf: "wf_registry (services @ [s])"
    using readRegistry_wf [OF read] sid by (simp add: wf_registry_def)
  from readRegistry_writeRegistry [OF this]
  have rd: "readRegistry file' = Inr (map canon services @ [canon s])" by (simp add: f)
  have "authenticate_loop dg sha ent token (map canon services @ [canon s])
      = authenticate_loop dg sha ent token [canon s]"
    using fresh by (intro authenticate_loop_skip) auto
  then obtain p where au: "authenticateServiceToken dg sha ent (JStr token) file' = Inr (Some p)"
    and loop: "authenticate_loop dg sha ent token [canon s] = Some p"
    using rd len fields digest
    by (auto simp: authenticateServiceToken_def Let_def constantTimeHexEqual_def)
  from authenticate_loop_sound [OF loop] wfs
  have "authenticated p \<and> prin_id p = Some (svc_id s) \<and> capabilities p = svc_capabilities s" by simp
  with rd au v show ?thesis by (auto simp: public_view_def intro!: exI [of _ s])
qed

text \<open>
  A concrete registry: a key derivation that returns 64 zeros, one active service.
\<close>

definition demo_service :: service where
  "demo_service = \<lparr>svc_id = ''bot-1'', svc_salt = replicate 32 (CHR ''a''),
     token_hash = replicate 64 (CHR ''0''), svc_capabilities = [''status.read''], active = True,
     svc_acting_user_id = None, created_at = None, revoked_at = None\<rparr>"

definition demo_digest :: "string \<Rightarrow> string \<Rightarrow> string" where
  "demo_digest token salt = replicate 64 (CHR ''0'')"

theorem authenticate_sound_witness:
  "\<exists>p s. s \<in> set [demo_service] \<and> active s
     \<and> authenticateServiceToken demo_digest (\<lambda>x. x) [] (JStr (replicate 43 (CHR ''t'')))
         (writeRegistry [demo_service]) = Inr (Some p)
     \<and> prin_id p = Some (svc_id s) \<and> capabilities p = svc_capabilities s"
proof -
  have r: "readRegistry (writeRegistry [demo_service]) = Inr [demo_service]" by code_simp
  have "case authenticateServiceToken demo_digest (\<lambda>x. x) [] (JStr (replicate 43 (CHR ''t'')))
         (writeRegistry [demo_service]) of Inr (Some p) \<Rightarrow> True | _ \<Rightarrow> False" by code_simp
  then obtain p where a: "authenticateServiceToken demo_digest (\<lambda>x. x) []
      (JStr (replicate 43 (CHR ''t''))) (writeRegistry [demo_service]) = Inr (Some p)"
    by (auto split: sum.splits option.splits)
  from authenticate_sound [OF r a] a show ?thesis by blast
qed

theorem revoke_final_witness:
  "\<exists>file' p. revokeServicePrincipal ''now'' (JStr ''bot-1'')
       (writeRegistry [demo_service, demo_service\<lparr>svc_id := ''bot-2''\<rparr>]) = Inr (file', True, ''bot-1'', Some ''now'')
     \<and> authenticateServiceToken demo_digest (\<lambda>x. x) [] (JStr (replicate 43 (CHR ''t''))) file'
         = Inr (Some p)
     \<and> prin_id p \<noteq> Some ''bot-1''"
proof -
  define f where "f = writeRegistry (revoke_first ''now'' ''bot-1''
    [demo_service, demo_service\<lparr>svc_id := ''bot-2''\<rparr>])"
  have r: "revokeServicePrincipal ''now'' (JStr ''bot-1'')
       (writeRegistry [demo_service, demo_service\<lparr>svc_id := ''bot-2''\<rparr>])
     = Inr (f, True, ''bot-1'', Some ''now'')"
    unfolding f_def by code_simp
  have "case authenticateServiceToken demo_digest (\<lambda>x. x) [] (JStr (replicate 43 (CHR ''t'')))
       f of Inr (Some p) \<Rightarrow> True | _ \<Rightarrow> False" unfolding f_def by code_simp
  then obtain p where a: "authenticateServiceToken demo_digest (\<lambda>x. x) []
      (JStr (replicate 43 (CHR ''t''))) f = Inr (Some p)"
    by (auto split: sum.splits option.splits)
  from revoke_final [OF r a] r a show ?thesis by auto
qed

theorem create_then_authenticate_witness:
  "\<exists>p. authenticateServiceToken demo_digest (\<lambda>x. x) [] (JStr (replicate 43 (CHR ''t'')))
         (writeRegistry [demo_service\<lparr>created_at := Some ''now''\<rparr>]) = Inr (Some p)
     \<and> prin_id p = Some ''bot-1''"
proof -
  have c: "createServicePrincipal demo_digest (replicate 43 (CHR ''t'')) (replicate 32 (CHR ''a''))
      ''now'' (JStr ''bot-1'') (JArr [JStr ''status.read'']) JNull Missing
     = Inr (writeRegistry [demo_service\<lparr>created_at := Some ''now''\<rparr>], replicate 43 (CHR ''t''),
        public_view (demo_service\<lparr>created_at := Some ''now''\<rparr>))" by code_simp
  have "readRegistry Missing = Inr []" by (simp add: readRegistry_def emptyRegistry_def)
  note w = create_then_authenticate [OF c this, of "\<lambda>x. x" "[]"]
  have h: "hex_of_length 64 (demo_digest (replicate 43 (CHR ''t'')) (replicate 32 (CHR ''a'')))"
    "hex_of_length 32 (replicate 32 (CHR ''a''))" by code_simp+
  from w [OF h] obtain p where "authenticateServiceToken demo_digest (\<lambda>x. x) []
       (JStr (replicate 43 (CHR ''t''))) (writeRegistry [demo_service\<lparr>created_at := Some ''now''\<rparr>])
      = Inr (Some p)"
    and "prin_id p = Some (view_id (public_view (demo_service\<lparr>created_at := Some ''now''\<rparr>)))"
    by auto
  then show ?thesis by (auto simp: public_view_def demo_service_def)
qed

end
