(* ===== verification/Mcp_Gate.thy ===== *)
theory Mcp_Gate
  imports Access_Policy
begin

text \<open>
  The gate for MCP agents of \<^verbatim>\<open>shared/lib/mcp/gate.js\<close>: which routes an agent may read, how a
  request is recognised as coming from one, and the redaction of secrets in what it is sent.
  The headers of a request are a JavaScript object; \<^verbatim>\<open>process.env.MCP_GATE_TOKEN\<close> is an
  argument.
\<close>

definition BLOCKED_ROUTES :: "string list" where
  "BLOCKED_ROUTES = [''/api/auth'', ''/api/kill-switch'', ''/api/config'', ''/api/cache/list'',
     ''/api/database/status'']"

definition ALLOWED_ROUTES :: "string list" where
  "ALLOWED_ROUTES = [''/api/system/status'', ''/api/data/summary'', ''/api/market/monitor'',
     ''/api/quotes/status'', ''/api/backtest'', ''/api/correlation'', ''/api/indicators'',
     ''/api/scorecard'', ''/api/universe'', ''/api/analytics'']"

definition REDACT_WORDS :: "string list" where
  "REDACT_WORDS = [''password'', ''token'', ''secret'', ''credential'', ''api_key'', ''auth'',
     ''private'', ''seed'', ''vault'']"

text \<open>\<^verbatim>\<open>REDACT_KEYS.test(key)\<close>: one of the words occurs in the key, in any case.\<close>

definition redacted_key :: "string \<Rightarrow> bool" where
  "redacted_key key = (\<exists>w \<in> set REDACT_WORDS. js_includes (to_lower key) w)"

definition matchesRoute :: "string \<Rightarrow> string \<Rightarrow> bool" where
  "matchesRoute pathname route = (pathname = route \<or> starts_with pathname (route @ ''/''))"

definition constantTimeEqual :: "jsval \<Rightarrow> jsval \<Rightarrow> bool" where
  "constantTimeEqual left right =
     (let l = text_of left; r = text_of right in l \<noteq> [] \<and> length l = length r \<and> l = r)"

definition hasValidMcpGateToken :: "jsval \<Rightarrow> string \<Rightarrow> bool" where
  "hasValidMcpGateToken req token =
     (if token = [] \<or> \<not> truthy req \<or> \<not> truthy (js_get req ''headers'') then False
      else constantTimeEqual (js_get (js_get req ''headers'') ''x-mcp-token'') (JStr token))"

definition isMcpRequest :: "jsval \<Rightarrow> string \<Rightarrow> bool" where
  "isMcpRequest req token =
     (if \<not> truthy req \<or> \<not> truthy (js_get req ''headers'') then False
      else let headers = js_get req ''headers'' in
        hasValidMcpGateToken req token
        \<or> js_get headers ''x-mcp-agent'' = JStr ''1''
        \<or> js_get headers ''x-mcp-client'' \<notin> {JUndef, JNull}
        \<or> js_includes (to_lower (text_of (js_get headers ''user-agent''))) ''mcp-'')"

definition isMcpAllowed :: "string \<Rightarrow> bool" where
  "isMcpAllowed pathname =
     (if \<exists>route \<in> set BLOCKED_ROUTES. matchesRoute pathname route then False
      else \<exists>route \<in> set ALLOWED_ROUTES. matchesRoute pathname route)"

fun redactDeep :: "jsval \<Rightarrow> jsval" where
  "redactDeep (JArr xs) = JArr (map redactDeep xs)"
| "redactDeep (JObj ps) = JObj (map (\<lambda>(key, entry).
     (key, if redacted_key key then JStr ''[REDACTED]'' else redactDeep entry)) ps)"
| "redactDeep v = v"

section \<open>Redaction\<close>

text \<open>No secret key, at any depth, has a value other than the marker.\<close>

fun clean :: "jsval \<Rightarrow> bool" where
  "clean (JArr xs) = (\<forall>x \<in> set xs. clean x)"
| "clean (JObj ps) = (\<forall>(key, entry) \<in> set ps.
     if redacted_key key then entry = JStr ''[REDACTED]'' else clean entry)"
| "clean v = True"

text \<open>The value at a path of keys and array positions.\<close>

datatype step = Key string | Pos nat

fun at_path :: "step list \<Rightarrow> jsval \<Rightarrow> jsval option" where
  "at_path [] v = Some v"
| "at_path (Key k # ks) (JObj ps) = Option.bind (map_of ps k) (at_path ks)"
| "at_path (Pos i # ks) (JArr xs) = (if i < length xs then at_path ks (xs ! i) else None)"
| "at_path _ _ = None"

definition public_path :: "step list \<Rightarrow> bool" where
  "public_path path = (\<forall>k. Key k \<in> set path \<longrightarrow> \<not> redacted_key k)"

lemma redactDeep_clean: "clean (redactDeep v)"
  by (induction v rule: redactDeep.induct) auto

lemma redactDeep_id: "clean v \<Longrightarrow> redactDeep v = v"
proof (induction v rule: redactDeep.induct)
  case (1 xs)
  then show ?case by (simp add: map_idI)
next
  case (2 ps)
  have "map (\<lambda>(key, entry). (key, if redacted_key key then JStr ''[REDACTED]'' else redactDeep entry)) ps = ps"
    by (rule map_idI) (use 2 in \<open>fastforce split: if_splits\<close>)
  then show ?case by simp
qed auto

lemma map_of_map_key: "map_of (map (\<lambda>(k, x). (k, f k x)) ps) k = map_option (f k) (map_of ps k)"
  by (induction ps) auto

lemma at_path_redactDeep:
  "public_path path \<Longrightarrow> at_path path (redactDeep v) = map_option redactDeep (at_path path v)"
proof (induction path v rule: at_path.induct)
  case (2 k ks ps)
  then have k: "\<not> redacted_key k" "public_path ks" by (auto simp: public_path_def)
  show ?case
    using 2 k map_of_map_key [of "\<lambda>k x. if redacted_key k then JStr ''[REDACTED]'' else redactDeep x" ps k]
    by (cases "map_of ps k") auto
qed (auto simp: public_path_def)

section \<open>Properties\<close>

text \<open>
  C38. What an agent is sent holds no secret: after redaction every key that names a secret, at any
  depth of objects and arrays, carries the marker, redacting again changes nothing, and whatever
  is reached by keys that name no secret is the redaction of what was there.
\<close>

theorem redactDeep_spec:
  "clean (redactDeep v) \<and> redactDeep (redactDeep v) = redactDeep v
   \<and> (clean v \<longleftrightarrow> redactDeep v = v)
   \<and> (\<forall>path. public_path path \<longrightarrow> at_path path (redactDeep v) = map_option redactDeep (at_path path v))"
  using redactDeep_clean redactDeep_id at_path_redactDeep by metis

theorem redactDeep_spec_witness:
  "at_path [Key ''px''] (redactDeep (JObj [(''api_key'', JStr ''k''), (''px'', JNum (Fin 1))]))
    = Some (JNum (Fin 1))"
proof -
  have "\<not> redacted_key ''px''" by code_simp
  then have "public_path [Key ''px'']" by (simp add: public_path_def)
  then have "at_path [Key ''px''] (redactDeep (JObj [(''api_key'', JStr ''k''), (''px'', JNum (Fin 1))]))
      = map_option redactDeep (at_path [Key ''px''] (JObj [(''api_key'', JStr ''k''), (''px'', JNum (Fin 1))]))"
    using redactDeep_spec by blast
  then show ?thesis by (simp del: redactDeep.simps(2))
qed

lemma mcp_table_reads:
  "list_all (\<lambda>(p, c). isMcpAllowed p \<longrightarrow>
     c \<in> set (map CAPABILITIES [STATUS_READ, DATA_READ, RESEARCH_READ])) PROTECTED_GET_CAPABILITIES"
  by code_simp

lemma mcp_special_routes: "\<not> isMcpAllowed ''/api/kill-switch''" "\<not> isMcpAllowed ''/api/cluster/status''"
  by code_simp+

text \<open>
  A route open to agents only ever needs one of the three read capabilities when it is read:
  nothing that an agent may call mutates, operates or inspects the host.
\<close>

theorem mcp_reads_only:
  assumes "isMcpAllowed pathname"
  shows "set (requiredCapabilities (JStr ''GET'') (JStr pathname) False query)
    \<subseteq> set (map CAPABILITIES [STATUS_READ, DATA_READ, RESEARCH_READ])"
proof -
  have ne: "pathname \<noteq> ''/api/kill-switch''" "pathname \<noteq> ''/api/cluster/status''"
    using assms mcp_special_routes by blast+
  have "pathname \<noteq> []"
  proof
    assume "pathname = []"
    moreover have "\<not> isMcpAllowed []" by code_simp
    ultimately show False using assms by simp
  qed
  then have route: "js_to_string (js_or (JStr pathname) (JStr ''/'')) = pathname" by (simp add: js_or_def)
  have m: "to_upper (js_to_string (js_or (JStr ''GET'') (JStr ''GET''))) = ''GET''" by code_simp
  have "c \<in> set (map CAPABILITIES [STATUS_READ, DATA_READ, RESEARCH_READ])"
    if "map_of PROTECTED_GET_CAPABILITIES pathname = Some c" for c
    using mcp_table_reads map_of_SomeD [OF that] assms by (auto simp: list_all_iff simp del: CAPABILITIES.simps)
  then show ?thesis
    using ne unfolding requiredCapabilities_def Let_def route m
    by (auto split: option.split simp del: CAPABILITIES.simps)
qed

theorem mcp_reads_only_witness:
  "isMcpAllowed ''/api/backtest/run''
   \<and> set (requiredCapabilities (JStr ''GET'') (JStr ''/api/backtest/run'') False JUndef)
    \<subseteq> set (map CAPABILITIES [STATUS_READ, DATA_READ, RESEARCH_READ])"
proof -
  have "isMcpAllowed ''/api/backtest/run''" by code_simp
  with mcp_reads_only [of "''/api/backtest/run''" JUndef] show ?thesis by blast
qed

end
