(* ===== verification/Js_Date.thy ===== *)
theory Js_Date
  imports Js_Value "HOL-Library.Monad_Syntax"
begin

text \<open>
  What the sources use of \<^verbatim>\<open>Date\<close>: UTC calendar fields, \<^verbatim>\<open>Date.UTC\<close>, \<^verbatim>\<open>toISOString\<close> and
  \<^verbatim>\<open>Date.parse\<close>, on integral milliseconds since the epoch.  \<^verbatim>\<open>Date.parse\<close> reads the ISO forms
  (a date, or a date and time with \<^verbatim>\<open>Z\<close> or an offset); the host's fallback formats are not
  modelled and a time without an offset is taken as UTC.  The theorem of this theory is the
  round trip: every time value that \<^verbatim>\<open>toISOString\<close> accepts is read back by \<^verbatim>\<open>Date.parse\<close>.
\<close>

definition ms_per_day :: int where "ms_per_day = 86400000"

definition leap_year :: "int \<Rightarrow> bool" where
  "leap_year y = (y mod 4 = 0 \<and> (y mod 100 \<noteq> 0 \<or> y mod 400 = 0))"

text \<open>Day number, from the epoch, of 1 January of a year.\<close>

definition day_from_year :: "int \<Rightarrow> int" where
  "day_from_year y =
     365 * (y - 1970) + (y - 1969) div 4 - (y - 1901) div 100 + (y - 1601) div 400"

lemma int_div_plus_1:
  fixes n k :: int
  assumes "0 < k" shows "(n + 1) div k = n div k + (if k dvd n + 1 then 1 else 0)"
proof (cases "k dvd n + 1")
  case True
  then obtain q where q: "n + 1 = k * q" by blast
  then have "n = k * (q - 1) + (k - 1)" by (simp add: algebra_simps)
  then have "n div k = q - 1" using assms by (intro int_div_pos_eq [where r = "k - 1"]) auto
  with q assms True show ?thesis by simp
next
  case False
  have "n = k * (n div k) + n mod k" by simp
  moreover have "n mod k \<noteq> k - 1"
  proof
    assume "n mod k = k - 1"
    then have "n + 1 = k * (n div k) + k" using mult_div_mod_eq [of k n] by simp
    with False show False by (metis dvd_add dvd_refl dvd_triv_left)
  qed
  moreover have "0 \<le> n mod k" "n mod k < k" using assms by simp_all
  ultimately have "(n + 1) div k = n div k" by (intro int_div_pos_eq [where r = "n mod k + 1"]) auto
  with False show ?thesis by simp
qed

lemma day_from_year_Suc:
  "day_from_year (y + 1) = day_from_year y + (if leap_year y then 366 else 365)"
proof -
  define a b c where "a = (y - 1969) div 4" and "b = (y - 1901) div 100"
    and "c = (y - 1601) div 400"
  define p4 p100 p400 where "p4 = (y mod 4 = 0)" and "p100 = (y mod 100 = 0)"
    and "p400 = (y mod 400 = 0)"
  have dv: "4 dvd y - 1969 + 1 \<longleftrightarrow> p4" "100 dvd y - 1901 + 1 \<longleftrightarrow> p100"
    "400 dvd y - 1601 + 1 \<longleftrightarrow> p400"
    using dvd_add_left_iff [of 4 "-1968" y] dvd_add_left_iff [of 100 "-1900" y]
      dvd_add_left_iff [of 400 "-1600" y]
    unfolding p4_def p100_def p400_def dvd_eq_mod_eq_0 [symmetric] by simp_all
  have imp: "p400 \<Longrightarrow> p100" "p100 \<Longrightarrow> p4"
    unfolding p4_def p100_def p400_def dvd_eq_mod_eq_0 [symmetric]
    by (rule dvd_trans [of 100 400 y], simp, assumption) (rule dvd_trans [of 4 100 y], simp, assumption)
  have sh: "y + 1 - 1969 = (y - 1969) + 1" "y + 1 - 1901 = (y - 1901) + 1"
    "y + 1 - 1601 = (y - 1601) + 1" by simp_all
  have st: "(y + 1 - 1969) div 4 = a + (if p4 then 1 else 0)"
    "(y + 1 - 1901) div 100 = b + (if p100 then 1 else 0)"
    "(y + 1 - 1601) div 400 = c + (if p400 then 1 else 0)"
    unfolding sh a_def b_def c_def dv [symmetric] by (rule int_div_plus_1, simp)+
  have eq: "day_from_year (y + 1) = 365 * (y + 1 - 1970) + (a + (if p4 then 1 else 0))
      - (b + (if p100 then 1 else 0)) + (c + (if p400 then 1 else 0))"
    unfolding day_from_year_def st ..
  have eq0: "day_from_year y = 365 * (y - 1970) + a - b + c"
    unfolding day_from_year_def a_def b_def c_def ..
  have lp: "leap_year y \<longleftrightarrow> p4 \<and> (\<not> p100 \<or> p400)"
    unfolding leap_year_def p4_def p100_def p400_def ..
  show ?thesis unfolding eq eq0 lp
    by (cases p4; cases p100; cases p400) (insert imp, simp_all)
qed

text \<open>A year is on average 146097 / 400 days long; the deviation is bounded.\<close>

lemma int_div_bounds:
  fixes n k :: int
  assumes "0 < k" shows "k * (n div k) \<le> n" "n - k < k * (n div k)"
  using mult_div_mod_eq [of k n] pos_mod_bound [OF assms, of n] pos_mod_sign [OF assms, of n]
  by linarith+

lemma day_from_year_linear:
  "146097 * k - 506 \<le> 400 * day_from_year (1970 + k)"
  "400 * day_from_year (1970 + k) \<le> 146097 * k + 589"
proof -
  define a b c where "a = (k + 1) div 4" and "b = (k + 69) div 100" and "c = (k + 369) div 400"
  have "4 * a \<le> k + 1" "k + 1 - 4 < 4 * a" unfolding a_def by (rule int_div_bounds, simp)+
  moreover have "100 * b \<le> k + 69" "k + 69 - 100 < 100 * b"
    unfolding b_def by (rule int_div_bounds, simp)+
  moreover have "400 * c \<le> k + 369" "k + 369 - 400 < 400 * c"
    unfolding c_def by (rule int_div_bounds, simp)+
  moreover have "day_from_year (1970 + k) = 365 * k + a - b + c"
    by (simp add: day_from_year_def a_def b_def c_def add.commute)
  ultimately show "146097 * k - 506 \<le> 400 * day_from_year (1970 + k)"
    "400 * day_from_year (1970 + k) \<le> 146097 * k + 589" by linarith+
qed

text \<open>The year of a day: count up from a year that cannot be too late.\<close>

function year_up :: "int \<Rightarrow> int \<Rightarrow> int" where
  "year_up y d = (if day_from_year (y + 1) \<le> d then year_up (y + 1) d else y)"
  by pat_completeness auto
termination
  by (relation "measure (\<lambda>(y, d). nat (d - day_from_year y))") (auto simp: day_from_year_Suc split: if_splits)

declare year_up.simps [simp del]

definition year_from_day :: "int \<Rightarrow> int" where
  "year_from_day d = year_up (1970 + (if 0 \<le> d then d div 366 else d div 365)) d"

lemma year_up_bounds:
  "day_from_year y \<le> d \<Longrightarrow>
   day_from_year (year_up y d) \<le> d \<and> d < day_from_year (year_up y d + 1)"
proof (induction y d rule: year_up.induct)
  case (1 y d)
  then show ?case by (auto simp: year_up.simps [of y d])
qed

lemma year_from_day_bounds:
  "day_from_year (year_from_day d) \<le> d" "d < day_from_year (year_from_day d + 1)"
proof -
  have "day_from_year (1970 + (if 0 \<le> d then d div 366 else d div 365)) \<le> d"
  proof (cases "0 \<le> d")
    case True
    define k where "k = d div 366"
    have k: "0 \<le> k" "366 * k \<le> d" using True by (auto simp: k_def)
    moreover have "day_from_year (1970 + k) \<le> 366 * k"
    proof (cases "k \<le> 1")
      case True
      with k have "k = 0 \<or> k = 1" by linarith
      then show ?thesis by (auto simp: day_from_year_def)
    next
      case False
      then show ?thesis using day_from_year_linear(2) [of k] by linarith
    qed
    ultimately show ?thesis using True by (simp add: k_def)
  next
    case False
    define k where "k = d div 365"
    have k: "k < 0" "365 * k \<le> d" using False by (auto simp: k_def)
    moreover have "day_from_year (1970 + k) \<le> 365 * k"
    proof (cases "k = - 1")
      case True
      then show ?thesis by (simp add: day_from_year_def)
    next
      case False
      with k show ?thesis using day_from_year_linear(2) [of k] by linarith
    qed
    ultimately show ?thesis using False by (simp add: k_def)
  qed
  from year_up_bounds [OF this]
  show "day_from_year (year_from_day d) \<le> d" "d < day_from_year (year_from_day d + 1)"
    by (simp_all add: year_from_day_def)
qed

section \<open>Months\<close>

text \<open>Day of the year on which a month (0 to 11) starts.\<close>

definition month_start :: "bool \<Rightarrow> int \<Rightarrow> int" where
  "month_start lp m = [0, 31, 59, 90, 120, 151, 181, 212, 243, 273, 304, 334] ! nat m
     + (if lp \<and> 2 \<le> m then 1 else 0)"

fun month_down :: "bool \<Rightarrow> int \<Rightarrow> nat \<Rightarrow> nat" where
  "month_down lp dy 0 = 0"
| "month_down lp dy (Suc m) =
     (if month_start lp (int (Suc m)) \<le> dy then Suc m else month_down lp dy m)"

record civil =
  cyear :: int
  cmonth :: int  \<comment> \<open>0 to 11, as \<^verbatim>\<open>getUTCMonth\<close>\<close>
  cday :: int    \<comment> \<open>1 to 31, as \<^verbatim>\<open>getUTCDate\<close>\<close>

definition civil_from_day :: "int \<Rightarrow> civil" where
  "civil_from_day d = (let y = year_from_day d; dy = d - day_from_year y; lp = leap_year y;
       m = int (month_down lp dy 11)
     in \<lparr>cyear = y, cmonth = m, cday = dy - month_start lp m + 1\<rparr>)"

text \<open>\<^verbatim>\<open>MakeDay\<close> of ECMAScript: a month outside 0 to 11 carries into the year.\<close>

definition make_day :: "int \<Rightarrow> int \<Rightarrow> int \<Rightarrow> int" where
  "make_day y m d = (let y' = y + m div 12
     in day_from_year y' + month_start (leap_year y') (m mod 12) + d - 1)"

lemma month_down_le: "month_down lp dy n \<le> n"
  by (induction n) (auto simp: le_Suc_eq)

lemma month_start_0: "month_start lp 0 = 0"
  by (simp add: month_start_def)

lemma month_down_start: "0 \<le> dy \<Longrightarrow> month_start lp (int (month_down lp dy n)) \<le> dy"
  by (induction n) (simp_all add: month_start_0 del: of_nat_Suc)

lemma month_down_next:
  "m < n \<Longrightarrow> month_down lp dy n = m \<Longrightarrow> dy < month_start lp (int (Suc m))"
proof (induction n)
  case (Suc n)
  then show ?case by (cases "m = n") (auto split: if_splits)
qed simp

lemma month_span:
  assumes "m < 11" shows "month_start lp (int (Suc m)) \<le> month_start lp (int m) + 31"
proof -
  have "m = 0 \<or> m = 1 \<or> m = 2 \<or> m = 3 \<or> m = 4 \<or> m = 5 \<or> m = 6 \<or> m = 7 \<or> m = 8
      \<or> m = 9 \<or> m = 10" using assms by presburger
  then show ?thesis by (elim disjE) (simp_all add: month_start_def)
qed

lemma civil_from_day_fields:
  fixes d :: int
  defines "c \<equiv> civil_from_day d"
  shows "0 \<le> cmonth c" "cmonth c \<le> 11" "1 \<le> cday c" "cday c \<le> 31"
    "make_day (cyear c) (cmonth c) (cday c) = d"
proof -
  define y where "y = year_from_day d"
  define dy where "dy = d - day_from_year y"
  define m where "m = month_down (leap_year y) dy 11"
  have c: "c = \<lparr>cyear = y, cmonth = int m, cday = dy - month_start (leap_year y) (int m) + 1\<rparr>"
    by (simp add: c_def civil_from_day_def y_def dy_def m_def Let_def)
  have dy: "0 \<le> dy" "dy < 366"
    using year_from_day_bounds [of d] day_from_year_Suc [of y] by (auto simp: dy_def y_def split: if_splits)
  have dy': "\<not> leap_year y \<Longrightarrow> dy < 365"
    using year_from_day_bounds [of d] day_from_year_Suc [of y] by (auto simp: dy_def y_def split: if_splits)
  have m: "m \<le> 11" unfolding m_def by (rule month_down_le)
  have s: "month_start (leap_year y) (int m) \<le> dy"
    unfolding m_def using dy(1) by (rule month_down_start)
  have e: "dy < month_start (leap_year y) (int m) + 31"
  proof (cases "m = 11")
    case True
    with dy dy' show ?thesis by (cases "leap_year y") (simp_all add: month_start_def)
  next
    case False
    with m have "m < 11" by simp
    moreover from this have "dy < month_start (leap_year y) (int (Suc m))"
      using m_def by (intro month_down_next [where n = 11]) auto
    ultimately show ?thesis using month_span [of m "leap_year y"] by linarith
  qed
  show "0 \<le> cmonth c" "cmonth c \<le> 11" "1 \<le> cday c" "cday c \<le> 31" using c m s e by simp_all
  show "make_day (cyear c) (cmonth c) (cday c) = d"
    using c m by (simp add: make_day_def Let_def dy_def)
qed

section \<open>ISO strings\<close>

text \<open>\<open>pad w n\<close>: the last \<open>w\<close> decimal digits, as \<^verbatim>\<open>padStart(w, '0')\<close> of a short number.\<close>

fun pad :: "nat \<Rightarrow> int \<Rightarrow> string" where
  "pad 0 n = []"
| "pad (Suc w) n = pad w (n div 10) @ [char_of (nat (n mod 10) + 48)]"

definition max_time :: int where "max_time = 8640000000000000"

definition iso_year :: "int \<Rightarrow> string" where
  "iso_year y = (if 0 \<le> y \<and> y \<le> 9999 then pad 4 y
     else if y < 0 then ''-'' @ pad 6 (- y) else ''+'' @ pad 6 y)"

text \<open>\<^verbatim>\<open>new Date(ms).toISOString()\<close>; \<open>None\<close> is the RangeError of an invalid time value.\<close>

definition to_iso :: "int \<Rightarrow> string option" where
  "to_iso t = (if \<bar>t\<bar> > max_time then None else
     let c = civil_from_day (t div ms_per_day); r = t mod ms_per_day in
     Some (iso_year (cyear c) @ ''-'' @ pad 2 (cmonth c + 1) @ ''-'' @ pad 2 (cday c) @ ''T''
       @ pad 2 (r div 3600000) @ '':'' @ pad 2 (r div 60000 mod 60) @ '':''
       @ pad 2 (r div 1000 mod 60) @ ''.'' @ pad 3 (r mod 1000) @ ''Z''))"

definition take_digits :: "nat \<Rightarrow> string \<Rightarrow> (int \<times> string) option" where
  "take_digits w s = (if w \<le> length s \<and> list_all is_digit (take w s)
     then Some (digits_val (take w s), drop w s) else None)"

definition expect :: "char \<Rightarrow> string \<Rightarrow> string option" where
  "expect c s = (case s of [] \<Rightarrow> None | x # r \<Rightarrow> if x = c then Some r else None)"

definition parse_year :: "string \<Rightarrow> (int \<times> string) option" where
  "parse_year s = (case s of
     [] \<Rightarrow> None
   | c # r \<Rightarrow> if c = CHR ''+'' then take_digits 6 r
       else if c = CHR ''-'' then map_option (\<lambda>(y, q). (- y, q)) (take_digits 6 r)
       else take_digits 4 s)"

definition parse_zone :: "string \<Rightarrow> int option" where
  "parse_zone s = (if s = [] \<or> s = ''Z'' then Some 0 else
     let neg = starts_with s ''-'' in
     if neg \<or> starts_with s ''+'' then do {
       (h, r) \<leftarrow> take_digits 2 (tl s);
       r \<leftarrow> expect CHR '':'' r;
       (m, r) \<leftarrow> take_digits 2 r;
       if r = [] \<and> h \<le> 23 \<and> m \<le> 59
       then Some ((if neg then -1 else 1) * (h * 3600000 + m * 60000)) else None
     } else None)"

text \<open>Seconds and milliseconds are optional: \<^verbatim>\<open>:ss\<close>, then \<^verbatim>\<open>.sss\<close>.\<close>

definition parse_secs :: "string \<Rightarrow> (int \<times> string) option" where
  "parse_secs s = (if starts_with s '':'' then do {
       (sec, r) \<leftarrow> take_digits 2 (tl s);
       if starts_with r ''.'' then do {
         (ms, r) \<leftarrow> take_digits 3 (tl r);
         Some (sec * 1000 + ms, r)
       } else Some (sec * 1000, r)
     } else Some (0, s))"

definition parse_time :: "string \<Rightarrow> int option" where
  "parse_time s = do {
     (h, r) \<leftarrow> take_digits 2 s;
     r \<leftarrow> expect CHR '':'' r;
     (m, r) \<leftarrow> take_digits 2 r;
     (sms, r) \<leftarrow> parse_secs r;
     off \<leftarrow> parse_zone r;
     if m \<le> 59 \<and> sms < 60000 \<and> (h \<le> 23 \<or> h = 24 \<and> m = 0 \<and> sms = 0)
     then Some (h * 3600000 + m * 60000 + sms - off) else None
   }"

definition date_value :: "int \<Rightarrow> int option" where
  "date_value t = (if \<bar>t\<bar> \<le> max_time then Some t else None)"

text \<open>\<^verbatim>\<open>Date.parse(s)\<close>; \<open>None\<close> is NaN.\<close>

definition date_parse :: "string \<Rightarrow> int option" where
  "date_parse s = do {
     (y, r) \<leftarrow> parse_year s;
     if r = [] then date_value (make_day y 0 1 * ms_per_day) else do {
     r \<leftarrow> expect CHR ''-'' r;
     (m, r) \<leftarrow> take_digits 2 r;
     if \<not> (1 \<le> m \<and> m \<le> 12) then None
     else if r = [] then date_value (make_day y (m - 1) 1 * ms_per_day) else do {
     r \<leftarrow> expect CHR ''-'' r;
     (d, r) \<leftarrow> take_digits 2 r;
     if \<not> (1 \<le> d \<and> d \<le> 31) then None
     else if r = [] then date_value (make_day y (m - 1) d * ms_per_day) else do {
     r \<leftarrow> expect CHR ''T'' r;
     t \<leftarrow> parse_time r;
     date_value (make_day y (m - 1) d * ms_per_day + t) }}}
   }"

text \<open>\<^verbatim>\<open>iso.slice(0, 10)\<close>, the UTC day of a time.\<close>

definition iso_day :: "int \<Rightarrow> string option" where
  "iso_day t = map_option (take 10) (to_iso t)"

section \<open>The round trip\<close>

lemma length_pad [simp]: "length (pad w n) = w"
  by (induction w n rule: pad.induct) auto

lemma pad_not_Nil [simp]: "0 < w \<Longrightarrow> pad w n \<noteq> []"
  by (cases w) auto

lemma pad_digits: "list_all is_digit (pad w n)"
proof (induction w n rule: pad.induct)
  case (2 w n)
  have "nat (n mod 10) < 10" by (simp add: nat_less_iff)
  with 2 show ?case by (simp add: is_digit_def in_range_def)
qed simp

lemma digits_val_pad: "0 \<le> n \<Longrightarrow> n < 10 ^ w \<Longrightarrow> digits_val (pad w n) = n"
proof (induction w n rule: pad.induct)
  case (1 n)
  then show ?case by (simp add: digits_val_def)
next
  case (2 w n)
  have "nat (n mod 10) < 10" by (simp add: nat_less_iff)
  moreover have "n div 10 < 10 ^ w" using "2.prems" by (simp add: div_less_iff_less_mult algebra_simps)
  ultimately show ?case using 2 by (simp add: digits_val_snoc digit_val_def)
qed

lemma take_digits_pad:
  "0 \<le> n \<Longrightarrow> n < 10 ^ w \<Longrightarrow> take_digits w (pad w n @ r) = Some (n, r)"
  by (simp add: take_digits_def pad_digits digits_val_pad)

lemma expect_Cons [simp]: "expect c (c # r) = Some r"
  by (simp add: expect_def)

lemma parse_year_iso:
  assumes "\<bar>y\<bar> < 10 ^ 6" shows "parse_year (iso_year y @ r) = Some (y, r)"
proof (cases "0 \<le> y \<and> y \<le> 9999")
  case True
  obtain c s where cs: "pad 4 y @ r = c # s" using pad_not_Nil [of 4 y] by (cases "pad 4 y @ r") auto
  then have "is_digit c" using pad_digits [of 4 y] by (cases "pad 4 y") (auto simp: list_all_iff)
  then have "c \<noteq> CHR ''+''" "c \<noteq> CHR ''-''" by (auto simp: js_eval)
  moreover have "take_digits 4 (c # s) = Some (y, r)"
    using True take_digits_pad [of y 4 r] cs by simp
  ultimately show ?thesis using True cs by (simp add: parse_year_def iso_year_def)
next
  case False
  with assms take_digits_pad [of "- y" 6 r] take_digits_pad [of y 6 r] show ?thesis
    by (auto simp: parse_year_def iso_year_def)
qed

lemma parse_zone_Z [simp]: "parse_zone ''Z'' = Some 0"
  by (simp add: parse_zone_def)

lemma parse_secs_iso:
  assumes "0 \<le> sec" "sec < 60" "0 \<le> ms" "ms < 1000"
  shows "parse_secs ('':'' @ pad 2 sec @ ''.'' @ pad 3 ms @ r) = Some (sec * 1000 + ms, r)"
  using assms by (simp add: parse_secs_def take_digits_pad starts_with_def)

lemma parse_time_fields:
  assumes "0 \<le> h" "h < 24" "0 \<le> m" "m < 60" "0 \<le> sec" "sec < 60" "0 \<le> ms" "ms < 1000"
  shows "parse_time (pad 2 h @ '':'' @ pad 2 m @ '':'' @ pad 2 sec @ ''.'' @ pad 3 ms @ ''Z'')
    = Some (h * 3600000 + m * 60000 + (sec * 1000 + ms))"
  using assms parse_secs_iso [of sec ms "''Z''"]
  by (simp add: parse_time_def take_digits_pad)

lemma parse_time_iso:
  assumes "0 \<le> r" "r < ms_per_day"
  shows "parse_time (pad 2 (r div 3600000) @ '':'' @ pad 2 (r div 60000 mod 60) @ '':''
       @ pad 2 (r div 1000 mod 60) @ ''.'' @ pad 3 (r mod 1000) @ ''Z'') = Some r"
proof -
  have h: "r div 3600000 < 24" "0 \<le> r div 3600000"
    using assms by (auto simp: ms_per_day_def)
  have "r div 60000 = r div 1000 div 60" "r div 3600000 = r div 60000 div 60"
    by (simp_all flip: zdiv_zmult2_eq)
  then have "r = 1000 * (60 * (60 * (r div 3600000) + r div 60000 mod 60) + r div 1000 mod 60)
      + r mod 1000" by (simp only: mult_div_mod_eq)
  then have "r div 3600000 * 3600000 + r div 60000 mod 60 * 60000
      + (r div 1000 mod 60 * 1000 + r mod 1000) = r"
    by simp
  moreover have "0 \<le> r div 60000 mod 60" "r div 60000 mod 60 < 60" "0 \<le> r div 1000 mod 60"
    "r div 1000 mod 60 < 60" "0 \<le> r mod 1000" "r mod 1000 < 1000" by simp_all
  ultimately show ?thesis
    using parse_time_fields [OF h(2) h(1)] by metis
qed

text \<open>\<^verbatim>\<open>Date.parse\<close> inverts \<^verbatim>\<open>toISOString\<close> on every valid time value.\<close>

lemma year_small:
  assumes "\<bar>t\<bar> \<le> max_time" shows "\<bar>cyear (civil_from_day (t div ms_per_day))\<bar> < 10 ^ 6"
proof -
  define d where "d = t div ms_per_day"
  have d: "- 100000001 \<le> d" "d \<le> 100000001"
    using assms by (auto simp: d_def max_time_def ms_per_day_def)
  have y: "cyear (civil_from_day d) = year_from_day d" by (simp add: civil_from_day_def Let_def)
  have "year_from_day d < 1000000"
    using year_from_day_bounds(1) [of d] d day_from_year_linear(1) [of "year_from_day d - 1970"]
    by simp
  moreover have "- 1000000 < year_from_day d"
    using year_from_day_bounds(2) [of d] d day_from_year_linear(2) [of "year_from_day d + 1 - 1970"]
    by (simp add: add.commute)
  ultimately show ?thesis by (simp add: y flip: d_def)
qed

lemma date_parse_to_iso:
  assumes "to_iso t = Some s" shows "date_parse s = Some t"
proof -
  from assms have t: "\<bar>t\<bar> \<le> max_time" by (simp add: to_iso_def split: if_splits)
  define d where "d = t div ms_per_day"
  define c where "c = civil_from_day d"
  define r where "r = t mod ms_per_day"
  note cf = civil_from_day_fields [of d, folded c_def]
  have r: "0 \<le> r" "r < ms_per_day" by (simp_all add: r_def ms_per_day_def)
  let ?time = "pad 2 (r div 3600000) @ '':'' @ pad 2 (r div 60000 mod 60) @ '':''
       @ pad 2 (r div 1000 mod 60) @ ''.'' @ pad 3 (r mod 1000) @ ''Z''"
  have s: "s = iso_year (cyear c) @ ''-'' @ pad 2 (cmonth c + 1) @ ''-'' @ pad 2 (cday c) @ ''T'' @ ?time"
    using assms t by (simp add: to_iso_def Let_def c_def d_def r_def)
  have py: "parse_year (iso_year (cyear c) @ q) = Some (cyear c, q)" for q
    using year_small [OF t] by (intro parse_year_iso) (simp add: c_def d_def)
  have pt: "parse_time ?time = Some r" using r by (rule parse_time_iso)
  have "make_day (cyear c) (cmonth c) (cday c) * ms_per_day + r = t"
    using cf(5) by (simp add: d_def r_def)
  moreover have "take_digits 2 (pad 2 (cmonth c + 1) @ q) = Some (cmonth c + 1, q)"
    "take_digits 2 (pad 2 (cday c) @ q) = Some (cday c, q)" for q
    using cf by (simp_all add: take_digits_pad)
  ultimately show ?thesis
    using cf t pt unfolding s date_parse_def by (simp add: py date_value_def)
qed

lemma date_parse_range:
  assumes "date_parse s = Some t" shows "\<bar>t\<bar> \<le> max_time"
  using assms
  by (auto simp: date_parse_def date_value_def bind_eq_Some_conv split: if_splits)

end
