(* ===== verification/Auth_Sessions.thy ===== *)
theory Auth_Sessions
  imports Access_Policy Js_Json Js_Date
begin

text \<open>
  Tracking of authenticated sessions and their addresses, of
  \<^verbatim>\<open>backend/api/server/services/auth_session_registry.js\<close>.

  The registry's file is a \<open>json_file\<close>, its sessions an association list in insertion order.  The
  clock, and whether the write of the file succeeds, are arguments of each operation;
  \<^verbatim>\<open>net.isIP\<close> is the parameter \<open>isIP\<close>.
\<close>

definition VALID_IP_CHANGE_POLICIES :: "string list" where
  "VALID_IP_CHANGE_POLICIES = [''audit'', ''reauth'']"

definition DEFAULT_MAX_ENTRIES :: int where "DEFAULT_MAX_ENTRIES = 1000"
definition DEFAULT_TTL_DAYS :: int where "DEFAULT_TTL_DAYS = 30"
definition WRITE_INTERVAL_MS :: int where "WRITE_INTERVAL_MS = 5 * 60 * 1000"

definition parseBoolean :: "jsval \<Rightarrow> bool \<Rightarrow> bool" where
  "parseBoolean value fallback =
     (if value \<in> {JUndef, JNull, JStr []} then fallback
      else let normalized = to_lower (js_trim (js_to_string value)) in
        if normalized = ''true'' then True else if normalized = ''false'' then False else fallback)"

section \<open>Addresses\<close>

definition normalizeIp :: "(string \<Rightarrow> bool) \<Rightarrow> jsval \<Rightarrow> string option" where
  "normalizeIp isIP value =
     (let normalized = js_trim (text_of value) in
      if normalized = [] then None else
      let normalized = (if starts_with normalized ''::ffff:'' then drop 7 normalized else normalized);
          normalized = takeWhile (\<lambda>c. c \<noteq> CHR ''%'') normalized
      in if isIP normalized then Some (to_lower normalized) else None)"

definition isLoopbackIp :: "(string \<Rightarrow> bool) \<Rightarrow> jsval \<Rightarrow> bool" where
  "isLoopbackIp isIP value = (case normalizeIp isIP value of
     None \<Rightarrow> False
   | Some ip \<Rightarrow> ip \<noteq> [] \<and> (ip = ''::1'' \<or> starts_with ip ''127.''))"

record network =
  source_ip :: "string option"
  socket_ip :: "string option"
  net_source :: string
  trust_proxy :: bool
  tunnel_opaque :: bool

definition requestNetworkContext :: "(string \<Rightarrow> bool) \<Rightarrow> bool \<Rightarrow> jsval \<Rightarrow> network" where
  "requestNetworkContext isIP trustProxy req =
     (let socketIp = normalizeIp isIP
            (if truthy req \<and> truthy (js_get req ''socket'')
             then js_get (js_get req ''socket'') ''remoteAddress'' else JNull);
          header = js_get (js_get req ''headers'') ''x-forwarded-for'';
          forwarded = (if trustProxy \<and> truthy req \<and> truthy (js_get req ''headers'') \<and> is_string header
             then normalizeIp isIP (JStr (hd (js_split (CHR '','') (js_to_string header)))) else None);
          sourceIp = (case forwarded of Some ip \<Rightarrow> if ip \<noteq> [] then Some ip else socketIp
             | None \<Rightarrow> socketIp);
          src = (case forwarded of Some ip \<Rightarrow> if ip \<noteq> [] then ''trusted_proxy'' else ''socket''
             | None \<Rightarrow> ''socket'')
      in \<lparr>source_ip = sourceIp, socket_ip = socketIp, net_source = src, trust_proxy = trustProxy,
          tunnel_opaque = isLoopbackIp isIP (opt_value sourceIp)\<rparr>)"

datatype risk_level = Unknown_risk | No_risk | Info | Elevated

record risk =
  level :: risk_level
  reason :: string
  changed :: bool

definition falsy_text :: "string option \<Rightarrow> bool" where
  "falsy_text s = (s = None \<or> s = Some [])"

definition evaluateIpRisk :: "(string \<Rightarrow> bool) \<Rightarrow> jsval \<Rightarrow> jsval \<Rightarrow> bool \<Rightarrow> risk" where
  "evaluateIpRisk isIP previousIp currentIp tunnelOpaque =
     (let previous = normalizeIp isIP previousIp; current = normalizeIp isIP currentIp in
      if falsy_text current
        then \<lparr>level = Unknown_risk, reason = ''source_ip_unavailable'', changed = False\<rparr>
      else if falsy_text previous
        then \<lparr>level = No_risk, reason = ''first_seen'', changed = False\<rparr>
      else if previous = current
        then \<lparr>level = No_risk, reason = ''unchanged'', changed = False\<rparr>
      else if tunnelOpaque \<or> isLoopbackIp isIP (opt_value previous) \<or> isLoopbackIp isIP (opt_value current)
        then \<lparr>level = Info, reason = ''tunnel_endpoint_changed'', changed = True\<rparr>
      else \<lparr>level = Elevated, reason = ''source_ip_changed'', changed = True\<rparr>)"

definition finiteInteger :: "jsval \<Rightarrow> int \<Rightarrow> int \<Rightarrow> int \<Rightarrow> int" where
  "finiteInteger value fallback minimum maximum = (case js_to_number value of
     Fin q \<Rightarrow> if of_int \<lfloor>q\<rfloor> = q \<and> minimum \<le> \<lfloor>q\<rfloor> \<and> \<lfloor>q\<rfloor> \<le> maximum then \<lfloor>q\<rfloor> else fallback
   | _ \<Rightarrow> fallback)"

section \<open>The registry\<close>

text \<open>
  \<open>sessions = None\<close> is \<^verbatim>\<open>this.sessions === null\<close>, which the file can bring about; reading a
  property of it throws a \<^verbatim>\<open>TypeError\<close>.
\<close>

type_synonym session_map = "(string \<times> jsval) list"

record auth_registry =
  enabled :: bool
  policy :: string
  maxEntries :: int
  ttlMs :: int
  loaded :: bool
  sessions :: "session_map option"
  loadError :: bool
  registry_file :: json_file

datatype auth_error = Type_error | Range_error | Write_error

record outcome =
  tracked :: bool
  out_allowed :: bool
  action :: string
  out_policy :: "string option"
  out_error :: "string option"
  out_risk :: risk

definition new_registry :: "jsval \<Rightarrow> jsval \<Rightarrow> jsval \<Rightarrow> jsval \<Rightarrow> json_file \<Rightarrow> auth_registry" where
  "new_registry en pol maxE ttlD f =
     (let p = to_lower (js_trim (js_to_string pol)) in
      \<lparr>enabled = (en = JBool True),
       policy = (if p \<in> set VALID_IP_CHANGE_POLICIES then p else ''audit''),
       maxEntries = finiteInteger maxE DEFAULT_MAX_ENTRIES 10 10000,
       ttlMs = finiteInteger ttlD DEFAULT_TTL_DAYS 1 365 * 24 * 60 * 60 * 1000,
       loaded = False, sessions = Some [], loadError = False, registry_file = f\<rparr>)"

text \<open>\<^verbatim>\<open>Object.entries\<close> of the loaded value: an array has its positions as keys.\<close>

definition session_entries :: "jsval \<Rightarrow> session_map option" where
  "session_entries v = (if v = JNull then None else Some (object_entries v))"

definition load :: "auth_registry \<Rightarrow> auth_registry" where
  "load r = (if loaded r \<or> \<not> enabled r then r
     else case registry_file r of
       Missing \<Rightarrow> r\<lparr>loaded := True\<rparr>
     | Unparsable \<Rightarrow> r\<lparr>loaded := True, loadError := True, sessions := Some []\<rparr>
     | Json parsed \<Rightarrow>
         if \<not> truthy parsed \<or> js_get parsed ''schema_version'' \<noteq> JNum (Fin 1)
            \<or> \<not> typeof_object (js_get parsed ''sessions'')
         then r\<lparr>loaded := True, loadError := True, sessions := Some []\<rparr>
         else r\<lparr>loaded := True, sessions := session_entries (js_get parsed ''sessions'')\<rparr>)"

definition last_seen :: "jsval \<Rightarrow> int option" where
  "last_seen entry = date_parse (js_to_string (js_get entry ''last_seen_at''))"

definition fresh_entry :: "int \<Rightarrow> int \<Rightarrow> jsval \<Rightarrow> bool" where
  "fresh_entry nowMs ttl entry = (truthy entry \<and> (case last_seen entry of
     None \<Rightarrow> False | Some t \<Rightarrow> nowMs - t \<le> ttl))"

definition prune_sessions :: "int \<Rightarrow> int \<Rightarrow> int \<Rightarrow> session_map \<Rightarrow> session_map" where
  "prune_sessions nowMs ttl maxE ss =
     take (nat maxE) (sort_key (\<lambda>(k, entry). - the (last_seen entry))
       (filter (\<lambda>(k, entry). fresh_entry nowMs ttl entry) ss))"

definition prune :: "int \<Rightarrow> auth_registry \<Rightarrow> auth_registry" where
  "prune nowMs r = r\<lparr>sessions := map_option (prune_sessions nowMs (ttlMs r) (maxEntries r)) (sessions r)\<rparr>"

text \<open>
  \<open>persist\<close> returns the registry and whether it threw: the sessions are pruned in either case,
  the file is replaced only when every file operation succeeded (\<open>write_ok\<close>).
\<close>

definition registry_json :: "string \<Rightarrow> session_map \<Rightarrow> jsval" where
  "registry_json updatedAt ss = json_view (JObj [(''schema_version'', JNum (Fin 1)),
     (''updated_at'', JStr updatedAt), (''sessions'', JObj ss)])"

definition persist :: "bool \<Rightarrow> int \<Rightarrow> auth_registry \<Rightarrow> auth_registry \<times> bool" where
  "persist write_ok nowMs r =
     (let r' = prune nowMs r in
      case (sessions r', to_iso nowMs) of
        (Some ss, Some updatedAt) \<Rightarrow>
          if write_ok then (r'\<lparr>registry_file := Json (registry_json updatedAt ss)\<rparr>, True) else (r', False)
      | _ \<Rightarrow> (r', False))"

section \<open>Recording a request\<close>

definition no_session :: "auth_registry \<Rightarrow> principal option \<Rightarrow> bool" where
  "no_session r p = (\<not> enabled r \<or> (case p of None \<Rightarrow> True
     | Some pr \<Rightarrow> \<not> authenticated pr \<or> falsy_text (session_id pr)))"

definition untracked :: outcome where
  "untracked = \<lparr>tracked = False, out_allowed = True, action = ''none'', out_policy = None,
     out_error = None, out_risk = \<lparr>level = No_risk, reason = ''tracking_disabled'', changed = False\<rparr>\<rparr>"

definition unavailable :: outcome where
  "unavailable = \<lparr>tracked = False, out_allowed = False, action = ''reauth'', out_policy = None,
     out_error = Some ''auth_session_registry_unavailable'',
     out_risk = \<lparr>level = Elevated, reason = ''registry_unavailable'', changed = False\<rparr>\<rparr>"

text \<open>\<^verbatim>\<open>v + n\<close> for a number \<open>n\<close>: a sum of numbers, or a concatenation of texts.\<close>

definition js_plus_num :: "jsval \<Rightarrow> rat \<Rightarrow> jsval" where
  "js_plus_num v n = (case v of
     JStr s \<Rightarrow> JStr (s @ num_to_string (Fin n))
   | JArr _ \<Rightarrow> JStr (js_to_string v @ num_to_string (Fin n))
   | JObj _ \<Rightarrow> JStr (js_to_string v @ num_to_string (Fin n))
   | _ \<Rightarrow> JNum (js_add (js_to_number v) (Fin n)))"

definition lookup_session :: "session_map \<Rightarrow> string \<Rightarrow> jsval option" where
  "lookup_session ss sid = (case map_of ss sid of
     Some e \<Rightarrow> if truthy e then Some e else None | None \<Rightarrow> None)"

definition session_entry ::
  "principal \<Rightarrow> jsval \<Rightarrow> jsval option \<Rightarrow> bool \<Rightarrow> bool \<Rightarrow> string \<Rightarrow> risk \<Rightarrow> jsval"
where
  "session_entry p currentIp existing shouldReauthenticate newIpChange nowIso rk = JObj
     [(''principal_id'', opt_value (prin_id p)),
      (''identity_type'', JStr (identity_type p)),
      (''role'', opt_value (prin_role p)),
      (''first_ip'', case existing of Some e \<Rightarrow> js_get e ''first_ip'' | None \<Rightarrow> currentIp),
      (''last_ip'', case existing of
          Some e \<Rightarrow> if shouldReauthenticate then js_get e ''last_ip'' else currentIp
        | None \<Rightarrow> currentIp),
      (''pending_ip'', if shouldReauthenticate then currentIp else JNull),
      (''first_seen_at'', case existing of Some e \<Rightarrow> js_get e ''first_seen_at'' | None \<Rightarrow> JStr nowIso),
      (''last_seen_at'', JStr nowIso),
      (''ip_change_count'', js_plus_num (case existing of
          Some e \<Rightarrow> js_or (js_get e ''ip_change_count'') (JNum (Fin 0)) | None \<Rightarrow> JNum (Fin 0))
        (if newIpChange then 1 else 0)),
      (''last_risk_reason'', JStr (reason rk))]"

definition restore_session :: "string \<Rightarrow> jsval option \<Rightarrow> auth_registry \<Rightarrow> auth_registry" where
  "restore_session sid existing r = r\<lparr>sessions := map_option (\<lambda>ss. case existing of
     Some e \<Rightarrow> AList.update sid e ss | None \<Rightarrow> AList.delete sid ss) (sessions r)\<rparr>"

text \<open>
  Whether an existing entry is due to be written again; an entry whose \<^verbatim>\<open>last_seen_at\<close> does not
  parse gives \<^verbatim>\<open>NaN\<close>, and the comparison fails.
\<close>

definition write_due :: "int \<Rightarrow> jsval \<Rightarrow> bool" where
  "write_due nowMs e = (case last_seen e of Some t \<Rightarrow> WRITE_INTERVAL_MS \<le> nowMs - t | None \<Rightarrow> False)"

definition write_failed :: "auth_registry \<Rightarrow> bool \<Rightarrow> outcome" where
  "write_failed r ch = \<lparr>tracked = False, out_allowed = (policy r \<noteq> ''reauth''),
     action = (if policy r = ''reauth'' then ''reauth'' else ''audit''), out_policy = Some (policy r),
     out_error = Some ''auth_session_registry_write_failed'',
     out_risk = \<lparr>level = Elevated, reason = ''registry_write_failed'', changed = ch\<rparr>\<rparr>"

definition current_ip :: "network option \<Rightarrow> jsval" where
  "current_ip net = (case net of None \<Rightarrow> JNull | Some n \<Rightarrow> opt_value (source_ip n))"

definition record_request ::
  "(string \<Rightarrow> bool) \<Rightarrow> int \<Rightarrow> bool \<Rightarrow> principal option \<Rightarrow> network option \<Rightarrow> auth_registry
   \<Rightarrow> auth_error + (outcome \<times> auth_registry)"
where
  "record_request isIP nowMs write_ok principal_opt net r0 =
     (if no_session r0 principal_opt then Inr (untracked, r0)
      else let p = the principal_opt; sid = the (session_id p); r = load r0 in
        if loadError r \<and> policy r = ''reauth'' then Inr (unavailable, r)
        else case to_iso nowMs of None \<Rightarrow> Inl Range_error | Some nowIso \<Rightarrow>
        (case sessions r of None \<Rightarrow> Inl Type_error | Some ss \<Rightarrow>
          let existing = lookup_session ss sid;
              currentIp = current_ip net;
              rk = evaluateIpRisk isIP
                (case existing of Some e \<Rightarrow> js_get e ''last_ip'' | None \<Rightarrow> JNull) currentIp
                (case net of Some n \<Rightarrow> tunnel_opaque n | None \<Rightarrow> False);
              shouldReauthenticate = (policy r = ''reauth'' \<and> changed rk \<and> level rk = Elevated);
              newIpChange = (changed rk \<and> (case existing of None \<Rightarrow> True
                | Some e \<Rightarrow> js_get e ''pending_ip'' \<noteq> currentIp));
              entry = session_entry p currentIp existing shouldReauthenticate newIpChange nowIso rk;
              r1 = r\<lparr>sessions := Some (AList.update sid entry ss)\<rparr>;
              done = \<lparr>tracked = True, out_allowed = (\<not> shouldReauthenticate),
                action = (if shouldReauthenticate then ''reauth''
                  else if changed rk then ''audit'' else ''none''),
                out_policy = Some (policy r), out_error = None, out_risk = rk\<rparr>
          in if (case existing of None \<Rightarrow> True | Some e \<Rightarrow> newIpChange \<or> write_due nowMs e)
             then (case persist write_ok nowMs r1 of
                 (r2, True) \<Rightarrow> Inr (done, r2)
               | (r2, False) \<Rightarrow> Inr (write_failed r (changed rk), restore_session sid existing r2))
             else Inr (done, r1)))"

definition reject_pending :: "bool \<Rightarrow> outcome" where
  "reject_pending known = \<lparr>tracked = known, out_allowed = False, action = ''reauth'', out_policy = None,
     out_error = None, out_risk = \<lparr>level = Elevated, reason = ''no_matching_pending_ip'', changed = False\<rparr>\<rparr>"

definition approvePending ::
  "(string \<Rightarrow> bool) \<Rightarrow> int \<Rightarrow> bool \<Rightarrow> principal option \<Rightarrow> network option \<Rightarrow> auth_registry
   \<Rightarrow> auth_error + (outcome \<times> auth_registry)"
where
  "approvePending isIP nowMs write_ok principal_opt net r0 =
     (if no_session r0 principal_opt then Inr (untracked, r0)
      else let p = the principal_opt; sid = the (session_id p); r = load r0 in
        if loadError r then Inr (unavailable, r)
        else (case sessions r of None \<Rightarrow> Inl Type_error | Some ss \<Rightarrow>
          let currentIp = current_ip net in
          case lookup_session ss sid of
            None \<Rightarrow> Inr (reject_pending False, r)
          | Some e \<Rightarrow>
              if \<not> truthy currentIp \<or> js_get e ''pending_ip'' \<noteq> currentIp
              then Inr (reject_pending True, r)
              else (case to_iso nowMs of None \<Rightarrow> Inl Range_error | Some nowIso \<Rightarrow>
                let entry = spread_update e [(''last_ip'', currentIp), (''pending_ip'', JNull),
                      (''last_seen_at'', JStr nowIso), (''last_risk_reason'', JStr ''reauth_approved'')]
                in case persist write_ok nowMs (r\<lparr>sessions := Some (AList.update sid entry ss)\<rparr>) of
                  (r2, True) \<Rightarrow> Inr (\<lparr>tracked = True, out_allowed = True, action = ''reauth_approved'',
                     out_policy = Some (policy r), out_error = None,
                     out_risk = \<lparr>level = No_risk, reason = ''reauth_approved'', changed = True\<rparr>\<rparr>, r2)
                | (r2, False) \<Rightarrow> Inr (\<lparr>tracked = False, out_allowed = False, action = ''reauth'',
                     out_policy = None, out_error = Some ''auth_session_registry_write_failed'',
                     out_risk = \<lparr>level = Elevated, reason = ''registry_write_failed'', changed = False\<rparr>\<rparr>,
                     restore_session sid (Some e) r2))))"

section \<open>Listing and revoking\<close>

definition belongs_to :: "string \<Rightarrow> jsval \<Rightarrow> bool" where
  "belongs_to pid entry = (truthy entry \<and> js_get entry ''principal_id'' = JStr pid)"

definition getActiveSessions :: "string \<Rightarrow> auth_registry \<Rightarrow> auth_error + (session_map \<times> auth_registry)" where
  "getActiveSessions principalId r0 =
     (let r = load r0 in
      if principalId = [] then Inr ([], r)
      else case sessions r of None \<Rightarrow> Inl Type_error
        | Some ss \<Rightarrow> Inr (filter (\<lambda>(sid, entry). belongs_to principalId entry) ss, r))"

text \<open>
  The two revocations call \<^verbatim>\<open>persist\<close> outside of a \<^verbatim>\<open>try\<close>: a failed write throws, and the
  sessions stay deleted in memory.
\<close>

definition revokeSession ::
  "int \<Rightarrow> bool \<Rightarrow> string \<Rightarrow> auth_registry \<Rightarrow> (auth_error + bool) \<times> auth_registry"
where
  "revokeSession nowMs write_ok sid r0 =
     (let r = load r0 in
      if sid = [] then (Inr False, r)
      else case sessions r of None \<Rightarrow> (Inl Type_error, r)
        | Some ss \<Rightarrow> if lookup_session ss sid = None then (Inr False, r)
            else (case persist write_ok nowMs (r\<lparr>sessions := Some (AList.delete sid ss)\<rparr>) of
                (r2, True) \<Rightarrow> (Inr True, r2) | (r2, False) \<Rightarrow> (Inl Write_error, r2)))"

definition revokeAllSessionsForPrincipal ::
  "int \<Rightarrow> bool \<Rightarrow> string \<Rightarrow> auth_registry \<Rightarrow> (auth_error + nat) \<times> auth_registry"
where
  "revokeAllSessionsForPrincipal nowMs write_ok principalId r0 =
     (let r = load r0 in
      if principalId = [] then (Inr 0, r)
      else case sessions r of None \<Rightarrow> (Inl Type_error, r)
        | Some ss \<Rightarrow>
            let keep = filter (\<lambda>(sid, entry). \<not> belongs_to principalId entry) ss;
                n = length ss - length keep
            in if n = 0 then (Inr 0, r)
               else (case persist write_ok nowMs (r\<lparr>sessions := Some keep\<rparr>) of
                   (r2, True) \<Rightarrow> (Inr n, r2) | (r2, False) \<Rightarrow> (Inl Write_error, r2)))"

section \<open>Pruning\<close>

lemma map_of_prune:
  assumes "distinct (map fst ss)" "int (length ss) \<le> maxE" "map_of ss sid = Some e" "fresh_entry nowMs ttl e"
  shows "map_of (prune_sessions nowMs ttl maxE ss) sid = Some e"
proof -
  let ?fs = "filter (\<lambda>(k, entry). fresh_entry nowMs ttl entry) ss"
  let ?xs = "sort_key (\<lambda>(k, entry). - the (last_seen entry)) ?fs"
  have d: "distinct ss" "inj_on fst (set ss)" using assms(1) by (simp_all add: distinct_map)
  have "distinct ?xs" using d(1) by simp
  moreover have "inj_on fst (set ?xs)" by (rule inj_on_subset [OF d(2)]) auto
  ultimately have dx: "distinct (map fst ?xs)" by (simp add: distinct_map)
  have "length ?xs \<le> length ss" by (simp only: length_sort length_filter_le)
  then have "length ?xs \<le> nat maxE" using assms(2) by linarith
  then have "prune_sessions nowMs ttl maxE ss = ?xs" by (simp only: prune_sessions_def take_all)
  moreover have "(sid, e) \<in> set ?xs" using assms(3,4) by (auto dest: map_of_SomeD)
  ultimately show ?thesis using dx by (simp only: map_of_eq_Some_iff)
qed

lemma prune_sessions_keys:
  assumes "distinct (map fst ss)"
  shows "distinct (map fst (prune_sessions nowMs ttl maxE ss))"
proof -
  let ?xs = "sort_key (\<lambda>(k, entry). - the (last_seen entry)) (filter (\<lambda>(k, entry). fresh_entry nowMs ttl entry) ss)"
  have d: "distinct ss" "inj_on fst (set ss)" using assms(1) by (simp_all add: distinct_map)
  have "inj_on fst (set ?xs)" by (rule inj_on_subset [OF d(2)]) auto
  with d(1) have "distinct (map fst ?xs)" by (simp add: distinct_map)
  then show ?thesis unfolding prune_sessions_def by (simp add: take_map [symmetric] distinct_take)
qed

lemma length_prune_sessions: "length (prune_sessions nowMs ttl maxE ss) \<le> min (nat maxE) (length ss)"
  by (simp add: prune_sessions_def le_trans [OF min.cobounded1 length_filter_le])

lemma sorted_take_drop: "sorted (map f xs) \<Longrightarrow> x \<in> set (take n xs) \<Longrightarrow> y \<in> set (drop n xs) \<Longrightarrow> f x \<le> (f y :: int)"
proof -
  assume "sorted (map f xs)" and xy: "x \<in> set (take n xs)" "y \<in> set (drop n xs)"
  then have "sorted (map f (take n xs) @ map f (drop n xs))" by (simp only: append_take_drop_id flip: map_append)
  with xy show ?thesis by (auto simp only: sorted_append set_map)
qed

section \<open>Keeping a session\<close>

definition registry_ok :: "auth_registry \<Rightarrow> bool" where
  "registry_ok r = (enabled r \<and> loaded r \<and> \<not> loadError r \<and> 0 \<le> ttlMs r
     \<and> (case sessions r of None \<Rightarrow> False
        | Some ss \<Rightarrow> distinct (map fst ss) \<and> int (length ss) \<le> maxEntries r))"

definition session_of :: "auth_registry \<Rightarrow> string \<Rightarrow> jsval option" where
  "session_of r sid = (case sessions r of None \<Rightarrow> None | Some ss \<Rightarrow> lookup_session ss sid)"

definition has_session :: "principal option \<Rightarrow> string \<Rightarrow> bool" where
  "has_session p sid = (case p of None \<Rightarrow> False
     | Some pr \<Rightarrow> authenticated pr \<and> session_id pr = Some sid \<and> sid \<noteq> [])"

text \<open>A request that comes from another address than the one the session is bound to.\<close>

definition foreign :: "(string \<Rightarrow> bool) \<Rightarrow> jsval \<Rightarrow> network option \<Rightarrow> bool" where
  "foreign isIP boundIp net = (level (evaluateIpRisk isIP boundIp (current_ip net)
     (case net of Some n \<Rightarrow> tunnel_opaque n | None \<Rightarrow> False)) = Elevated)"

lemma elevated_changed: "level (evaluateIpRisk isIP a b t) = Elevated \<Longrightarrow> changed (evaluateIpRisk isIP a b t)"
  by (auto simp: evaluateIpRisk_def Let_def split: if_splits)

lemma load_loaded [simp]: "loaded r \<Longrightarrow> load r = r"
  by (simp add: load_def)

lemma session_entry_fields [simp]:
  "truthy (session_entry p c ex re ch t k)"
  "js_get (session_entry p c ex re ch t k) ''last_seen_at'' = JStr t"
  "js_get (session_entry p c ex re ch t k) ''pending_ip'' = (if re then c else JNull)"
  "js_get (session_entry p c (Some e) re ch t k) ''last_ip'' = (if re then js_get e ''last_ip'' else c)"
  by (simp_all add: session_entry_def)

lemma update_in_place:
  assumes "distinct (map fst ss)" "map_of ss sid = Some e"
  shows "length (AList.update sid x ss) = length ss" "distinct (map fst (AList.update sid x ss))"
proof -
  have "sid \<in> fst ` set ss" using assms(2) by (metis map_of_eq_None_iff option.distinct(1))
  then show "length (AList.update sid x ss) = length ss" by (induction ss) auto
  show "distinct (map fst (AList.update sid x ss))" using assms(1) by (rule distinct_update)
qed

lemma persist_keeps:
  assumes ok: "registry_ok r" and ss: "sessions r = Some ss" and e: "map_of ss sid = Some e"
    and fresh: "fresh_entry nowMs (ttlMs r) e" and p: "persist w nowMs r = (r', b)"
  shows "registry_ok r' \<and> policy r' = policy r
    \<and> (\<exists>ss'. sessions r' = Some ss' \<and> map_of ss' sid = Some e \<and> length ss' \<le> length ss)"
proof -
  have d: "distinct (map fst ss)" "int (length ss) \<le> maxEntries r" using ok ss by (simp_all add: registry_ok_def)
  let ?ss = "prune_sessions nowMs (ttlMs r) (maxEntries r) ss"
  have s': "sessions r' = Some ?ss" and same: "enabled r' = enabled r" "loaded r' = loaded r"
    "loadError r' = loadError r" "ttlMs r' = ttlMs r" "maxEntries r' = maxEntries r" "policy r' = policy r"
    using p by (auto simp: persist_def Let_def prune_def ss split: option.splits if_splits)
  have len: "length ?ss \<le> length ss" using length_prune_sessions [of nowMs "ttlMs r" "maxEntries r" ss] by simp
  have "map_of ?ss sid = Some e" by (rule map_of_prune [OF d e fresh])
  moreover have "distinct (map fst ?ss)" by (rule prune_sessions_keys [OF d(1)])
  ultimately show ?thesis using s' same ok len d(2) by (simp add: registry_ok_def)
qed

lemma fresh_session_entry:
  "to_iso nowMs = Some iso' \<Longrightarrow> 0 \<le> ttl \<Longrightarrow> js_get e ''last_seen_at'' = JStr iso' \<Longrightarrow> truthy e
   \<Longrightarrow> fresh_entry nowMs ttl e"
  by (simp add: fresh_entry_def last_seen_def date_parse_to_iso)

lemma registry_ok_update:
  assumes "registry_ok r" "sessions r = Some ss" "map_of ss sid = Some e"
  shows "registry_ok (r\<lparr>sessions := Some (AList.update sid x ss)\<rparr>)"
  using assms update_in_place [of ss sid e x] by (simp add: registry_ok_def)

lemma restore_keeps:
  assumes "registry_ok r" "sessions r = Some ss" "map_of ss sid = Some e'" "truthy e"
  shows "registry_ok (restore_session sid (Some e) r) \<and> session_of (restore_session sid (Some e) r) sid = Some e"
  using assms update_in_place [of ss sid e' e]
  by (simp add: restore_session_def registry_ok_def session_of_def lookup_session_def map_of_update)

lemma lookup_map_of: "lookup_session ss sid = Some e \<longleftrightarrow> map_of ss sid = Some e \<and> truthy e"
  by (auto simp: lookup_session_def split: option.splits if_splits)

lemma persist_updated:
  assumes ok: "registry_ok r" and ss: "sessions r = Some ss" "map_of ss sid = Some e"
    and t: "to_iso nowMs = Some nowIso" and x: "truthy x" "js_get x ''last_seen_at'' = JStr nowIso"
    and per: "persist w nowMs (r\<lparr>sessions := Some (AList.update sid x ss)\<rparr>) = (r2, b)"
  shows "registry_ok r2" "policy r2 = policy r" "session_of r2 sid = Some x"
    "\<exists>ss2. sessions r2 = Some ss2 \<and> map_of ss2 sid = Some x"
proof -
  let ?r1 = "r\<lparr>sessions := Some (AList.update sid x ss)\<rparr>"
  have "fresh_entry nowMs (ttlMs ?r1) x"
    by (rule fresh_session_entry [OF t _ x(2,1)]) (use ok in \<open>simp add: registry_ok_def\<close>)
  moreover have "map_of (AList.update sid x ss) sid = Some x" by (simp add: map_of_update)
  ultimately have "registry_ok r2 \<and> policy r2 = policy ?r1 \<and> (\<exists>ss2. sessions r2 = Some ss2
      \<and> map_of ss2 sid = Some x \<and> length ss2 \<le> length (AList.update sid x ss))"
    by (intro persist_keeps [OF registry_ok_update [OF ok ss] _ _ _ per]) simp_all
  then show "registry_ok r2" "policy r2 = policy r" "session_of r2 sid = Some x"
    "\<exists>ss2. sessions r2 = Some ss2 \<and> map_of ss2 sid = Some x"
    using x(1) by (auto simp: session_of_def lookup_map_of)
qed

lemma foreign_request_refused:
  assumes ok: "registry_ok r" "policy r = ''reauth''" and p: "has_session p sid"
    and e: "session_of r sid = Some e" and f: "foreign isIP (js_get e ''last_ip'') net"
    and t: "to_iso nowMs = Some nowIso"
  shows "\<exists>out r' e'. record_request isIP nowMs w p net r = Inr (out, r') \<and> \<not> out_allowed out
     \<and> registry_ok r' \<and> policy r' = ''reauth'' \<and> session_of r' sid = Some e'
     \<and> js_get e' ''last_ip'' = js_get e ''last_ip''"
proof -
  obtain ss where ss: "sessions r = Some ss" and l: "lookup_session ss sid = Some e"
    using e by (auto simp: session_of_def split: option.splits)
  have m: "map_of ss sid = Some e" "truthy e" using l by (simp_all add: lookup_map_of)
  obtain pr where pr: "p = Some pr" "authenticated pr" "session_id pr = Some sid" "sid \<noteq> []"
    using p by (auto simp: has_session_def split: option.splits)
  define rk where "rk = evaluateIpRisk isIP (js_get e ''last_ip'') (current_ip net)
     (case net of Some n \<Rightarrow> tunnel_opaque n | None \<Rightarrow> False)"
  have rk: "level rk = Elevated" "changed rk"
    using f elevated_changed unfolding foreign_def rk_def by blast+
  define ch where "ch = (js_get e ''pending_ip'' \<noteq> current_ip net)"
  define entry where "entry = session_entry pr (current_ip net) (Some e) True ch nowIso rk"
  define r1 where "r1 = r\<lparr>sessions := Some (AList.update sid entry ss)\<rparr>"
  obtain r2 b where per: "persist w nowMs r1 = (r2, b)" by (cases "persist w nowMs r1")
  have ok1: "registry_ok r1" unfolding r1_def by (rule registry_ok_update [OF ok(1) ss m(1)])
  have te: "truthy entry" "js_get entry ''last_ip'' = js_get e ''last_ip''"
    "js_get entry ''last_seen_at'' = JStr nowIso" by (simp_all add: entry_def)
  note r2 = persist_updated [OF ok(1) ss m(1) t te(1,3) per [unfolded r1_def]]
  obtain ss2 where ss2: "sessions r2 = Some ss2" "map_of ss2 sid = Some entry" using r2(4) by blast
  have res: "record_request isIP nowMs w p net r =
    (if ch \<or> write_due nowMs e then
       (if b then Inr (\<lparr>tracked = True, out_allowed = False, action = ''reauth'',
          out_policy = Some (policy r), out_error = None, out_risk = rk\<rparr>, r2)
        else Inr (write_failed r True, restore_session sid (Some e) r2))
     else Inr (\<lparr>tracked = True, out_allowed = False, action = ''reauth'',
          out_policy = Some (policy r), out_error = None, out_risk = rk\<rparr>, r1))"
    using ok rk per
    by (simp add: record_request_def no_session_def falsy_text_def pr registry_ok_def t ss l Let_def
        rk_def [symmetric] ch_def [symmetric] entry_def [symmetric] r1_def [symmetric] split: bool.split)
       (simp add: r1_def entry_def)
  have s1: "session_of r1 sid = Some entry"
    using te by (simp add: r1_def session_of_def lookup_map_of map_of_update)
  show ?thesis
    using res s1 te ok ok1 r2(1-3) restore_keeps [OF r2(1) ss2 m(2)]
    by (simp add: r1_def write_failed_def restore_session_def split: if_split)
qed

text \<open>A sequence of requests of one client.\<close>

fun run_requests ::
  "(string \<Rightarrow> bool) \<Rightarrow> principal option \<Rightarrow> (int \<times> bool \<times> network option) list \<Rightarrow> auth_registry
   \<Rightarrow> auth_error + (outcome list \<times> auth_registry)"
where
  "run_requests isIP p [] r = Inr ([], r)"
| "run_requests isIP p ((nowMs, w, net) # reqs) r =
     rbind (record_request isIP nowMs w p net r) (\<lambda>(out, r').
       rbind (run_requests isIP p reqs r') (\<lambda>(outs, r''). Inr (out # outs, r'')))"

section \<open>Properties\<close>


text \<open>
  A change of address is accepted only for the address that is pending: when
  \<open>approvePending\<close> answers that it approved, the session had exactly the current, non-empty
  address pending, and afterwards the session is bound to it and nothing is pending.
\<close>

theorem approve_only_pending:
  assumes ok: "registry_ok r" and p: "has_session p sid"
    and ap: "approvePending isIP nowMs w p net r = Inr (out, r')" and al: "out_allowed out"
  shows "\<exists>e e' ip. session_of r sid = Some e \<and> ip \<noteq> [] \<and> current_ip net = JStr ip
    \<and> js_get e ''pending_ip'' = JStr ip \<and> registry_ok r' \<and> session_of r' sid = Some e'
    \<and> js_get e' ''last_ip'' = JStr ip \<and> js_get e' ''pending_ip'' = JNull"
proof -
  obtain pr where pr: "p = Some pr" "authenticated pr" "session_id pr = Some sid" "sid \<noteq> []"
    using p by (auto simp: has_session_def split: option.splits)
  have base: "\<not> no_session r p" "load r = r" "\<not> loadError r" "the (session_id (the p)) = sid"
    using ok pr by (simp_all add: no_session_def falsy_text_def registry_ok_def)
  obtain ss where ss: "sessions r = Some ss" using ok by (auto simp: registry_ok_def split: option.splits)
  obtain e where l: "lookup_session ss sid = Some e"
    and c: "truthy (current_ip net)" "js_get e ''pending_ip'' = current_ip net"
    using ap al by (auto simp: approvePending_def base Let_def ss reject_pending_def split: option.splits if_splits)
  obtain ip where ip: "current_ip net = JStr ip" "ip \<noteq> []"
    using c(1) by (auto simp: current_ip_def opt_value_def split: option.splits)
  obtain nowIso where t: "to_iso nowMs = Some nowIso"
    using ap c by (auto simp: approvePending_def base Let_def ss l split: option.splits)
  define e' where "e' = spread_update e [(''last_ip'', JStr ip), (''pending_ip'', JNull),
      (''last_seen_at'', JStr nowIso), (''last_risk_reason'', JStr ''reauth_approved'')]"
  define r1 where "r1 = r\<lparr>sessions := Some (AList.update sid e' ss)\<rparr>"
  obtain r2 b where per: "persist w nowMs r1 = (r2, b)" by (cases "persist w nowMs r1")
  have rr: "b" "r' = r2"
    using ap al c per
    by (simp_all add: approvePending_def base Let_def ss l t ip e'_def [symmetric] r1_def [symmetric]
        split: bool.splits) auto
  have e': "truthy e'" "js_get e' ''last_ip'' = JStr ip" "js_get e' ''pending_ip'' = JNull"
    "js_get e' ''last_seen_at'' = JStr nowIso"
    by (simp_all add: e'_def spread_update_def js_get_def map_of_update)
  have m: "map_of ss sid = Some e" using l by (simp add: lookup_map_of)
  note persist_updated [OF ok ss m t e'(1,4) per [unfolded r1_def]]
  then show ?thesis using rr e' c ip l ss by (auto simp: session_of_def)
qed

text \<open>
  Pruning keeps at most the configured number of sessions, all of them fresh, and a fresh
  session is dropped only in favour of sessions seen at least as recently.
\<close>

theorem prune_spec:
  assumes "0 \<le> maxE"
  shows "int (length (prune_sessions nowMs ttl maxE ss)) \<le> maxE
    \<and> (\<forall>(sid, e) \<in> set (prune_sessions nowMs ttl maxE ss). (sid, e) \<in> set ss \<and> fresh_entry nowMs ttl e)
    \<and> (\<forall>(sid, e) \<in> set ss. fresh_entry nowMs ttl e \<and> (sid, e) \<notin> set (prune_sessions nowMs ttl maxE ss)
        \<longrightarrow> (\<forall>(sid', e') \<in> set (prune_sessions nowMs ttl maxE ss). the (last_seen e) \<le> the (last_seen e')))"
proof -
  define key where "key = (\<lambda>(k::string, entry). - the (last_seen entry))"
  define xs where "xs = sort_key key (filter (\<lambda>(k, entry). fresh_entry nowMs ttl entry) ss)"
  have pr: "prune_sessions nowMs ttl maxE ss = take (nat maxE) xs"
    by (simp add: prune_sessions_def xs_def key_def)
  have set: "set xs = {(k, e) \<in> set ss. fresh_entry nowMs ttl e}" by (auto simp: xs_def)
  have srt: "sorted (map key xs)" by (simp add: xs_def)
  have "the (last_seen e) \<le> the (last_seen e')"
    if "(k, e) \<in> set xs" "(k, e) \<notin> set (take (nat maxE) xs)" "(k', e') \<in> set (take (nat maxE) xs)" for k e k' e'
  proof -
    have "(k, e) \<in> set (drop (nat maxE) xs)"
      using that(1,2) set_append [of "take (nat maxE) xs" "drop (nat maxE) xs"] by simp
    from sorted_take_drop [OF srt that(3) this] show ?thesis by (simp add: key_def)
  qed
  moreover have "set (take (nat maxE) xs) \<subseteq> set xs" by (rule set_take_subset)
  ultimately show ?thesis using assms unfolding pr by (auto simp: set)
qed

text \<open>
  The address binding is lost by one request whose address is not known: it is allowed and
  unbinds the session, so that the next request is allowed from anywhere.
\<close>

theorem unknown_ip_unbinds:
  assumes ok: "registry_ok r" and p: "has_session p sid" and e: "session_of r sid = Some e"
    and t: "to_iso nowMs = Some nowIso" and unknown: "normalizeIp isIP (current_ip net) = None"
  shows "\<exists>out r' e'. record_request isIP nowMs True p net r = Inr (out, r') \<and> out_allowed out
     \<and> registry_ok r' \<and> session_of r' sid = Some e'
     \<and> \<not> foreign isIP (js_get e' ''last_ip'') net'"
proof -
  obtain ss where ss: "sessions r = Some ss" and l: "lookup_session ss sid = Some e"
    using e by (auto simp: session_of_def split: option.splits)
  have m: "map_of ss sid = Some e" "truthy e" using l by (simp_all add: lookup_map_of)
  obtain pr where pr: "p = Some pr" "authenticated pr" "session_id pr = Some sid" "sid \<noteq> []"
    using p by (auto simp: has_session_def split: option.splits)
  define rk where "rk = \<lparr>level = Unknown_risk, reason = ''source_ip_unavailable'', changed = False\<rparr>"
  have rk: "evaluateIpRisk isIP (js_get e ''last_ip'') (current_ip net) tun = rk" for tun
    by (simp add: evaluateIpRisk_def Let_def unknown falsy_text_def rk_def)
  define entry where "entry = session_entry pr (current_ip net) (Some e) False False nowIso rk"
  define r1 where "r1 = r\<lparr>sessions := Some (AList.update sid entry ss)\<rparr>"
  have e': "truthy entry" "js_get entry ''last_ip'' = current_ip net"
    "js_get entry ''last_seen_at'' = JStr nowIso" by (simp_all add: entry_def)
  obtain r2 b where per: "persist True nowMs r1 = (r2, b)" by (cases "persist True nowMs r1")
  have b: "b" using per t by (auto simp: persist_def Let_def prune_def r1_def)
  have ok1: "registry_ok r1" unfolding r1_def by (rule registry_ok_update [OF ok ss m(1)])
  note persist_updated [OF ok ss m(1) t e'(1,3) per [unfolded r1_def]]
  moreover have "session_of r1 sid = Some entry"
    using e' by (simp add: r1_def session_of_def map_of_update lookup_map_of)
  moreover have "record_request isIP nowMs True p net r =
    Inr (\<lparr>tracked = True, out_allowed = True, action = ''none'', out_policy = Some (policy r),
      out_error = None, out_risk = rk\<rparr>, if write_due nowMs e then r2 else r1)"
    using ok per b
    by (simp add: record_request_def no_session_def falsy_text_def pr registry_ok_def t ss l Let_def rk)
       (simp add: rk_def r1_def entry_def)
  moreover have "\<not> foreign isIP (js_get entry ''last_ip'') net'"
    using unknown by (simp add: foreign_def evaluateIpRisk_def Let_def e' falsy_text_def)
  ultimately show ?thesis using ok1 by auto
qed

text \<open>A registry with one session, bound to one of two addresses.\<close>

definition demo_principal :: "principal option" where
  "demo_principal = Some (buildPrincipal \<lparr>arg_id = JStr ''u1'', arg_identityType = JStr ''user'',
     arg_role = JStr ''owner'', arg_capabilities = JNull, arg_authenticated = JBool True,
     arg_source = JStr ''token'', arg_sessionId = JStr ''s1'', arg_actingUserId = JNull\<rparr>)"

definition demo_isIP :: "string \<Rightarrow> bool" where
  "demo_isIP s = (s \<in> {''198.51.100.1'', ''198.51.100.2''})"

definition demo_network :: "string option \<Rightarrow> network option" where
  "demo_network ip = Some \<lparr>source_ip = ip, socket_ip = ip, net_source = ''socket'', trust_proxy = False,
     tunnel_opaque = False\<rparr>"

definition demo_entry :: jsval where
  "demo_entry = JObj [(''last_ip'', JStr ''198.51.100.1''), (''pending_ip'', JStr ''198.51.100.2''),
     (''last_seen_at'', JStr ''1970-01-01T00:00:00.000Z'')]"

definition demo_registry :: auth_registry where
  "demo_registry = (new_registry (JBool True) (JStr ''reauth'') JUndef JUndef Missing)
     \<lparr>loaded := True, sessions := Some [(''s1'', demo_entry)]\<rparr>"

lemma demo_registry_ok:
  "registry_ok demo_registry" "policy demo_registry = ''reauth''" "has_session demo_principal ''s1''"
  "session_of demo_registry ''s1'' = Some demo_entry" "to_iso 0 \<noteq> None"
  by code_simp+


theorem approve_only_pending_witness:
  "\<exists>out r' e'. approvePending demo_isIP 0 True demo_principal (demo_network (Some ''198.51.100.2'')) demo_registry
      = Inr (out, r') \<and> session_of r' ''s1'' = Some e' \<and> js_get e' ''last_ip'' = JStr ''198.51.100.2''"
proof -
  have "case approvePending demo_isIP 0 True demo_principal (demo_network (Some ''198.51.100.2'')) demo_registry
     of Inr (out, r') \<Rightarrow> out_allowed out | _ \<Rightarrow> False" by code_simp
  then obtain out r' where a: "approvePending demo_isIP 0 True demo_principal
      (demo_network (Some ''198.51.100.2'')) demo_registry = Inr (out, r')" "out_allowed out"
    by (auto split: sum.splits prod.splits)
  have "current_ip (demo_network (Some ''198.51.100.2'')) = JStr ''198.51.100.2''" by code_simp
  with approve_only_pending [OF demo_registry_ok(1,3) a] a show ?thesis by auto
qed

theorem prune_spec_witness: "int (length (prune_sessions 0 0 10 [(''s1'', demo_entry)])) \<le> 10"
  using prune_spec [of 10 0 0 "[(''s1'', demo_entry)]"] by simp

theorem unknown_ip_unbinds_witness:
  "\<exists>out r' e'. record_request demo_isIP 0 True demo_principal (demo_network None) demo_registry
       = Inr (out, r') \<and> out_allowed out \<and> session_of r' ''s1'' = Some e'
     \<and> \<not> foreign demo_isIP (js_get e' ''last_ip'') (demo_network (Some ''198.51.100.2''))"
proof -
  obtain nowIso where t: "to_iso 0 = Some nowIso" using demo_registry_ok(5) by blast
  have "normalizeIp demo_isIP (current_ip (demo_network None)) = None" by code_simp
  from unknown_ip_unbinds [OF demo_registry_ok(1,3,4) t this] show ?thesis by blast
qed

end
