(* ===== verification/Settings_Policy.thy ===== *)
theory Settings_Policy
  imports Js_Json "HOL-Library.Multiset" "HOL-Library.Char_ord" "HOL-Library.List_Lexorder"
begin

text \<open>
  The settings that decide whether the program trades at all: the runtime policy
  (\<^verbatim>\<open>shared/lib/settings/runtime_policy.js\<close>), the interval of the bot
  (\<^verbatim>\<open>interval_policy.js\<close>) and the deployment profiles (\<^verbatim>\<open>deployment_profile.js\<close>).
  The environment and the options are JavaScript objects; sha256 is a parameter.
\<close>

section \<open>Runtime policy\<close>

definition DEFAULT_PROFILE :: string where "DEFAULT_PROFILE = ''local-private''"

definition PERMANENT_PAPER_PROFILES :: "string list" where
  "PERMANENT_PAPER_PROFILES = [''cloud-compute'', ''private-paper'', ''test'', ''local-test'']"

definition LIVE_ELIGIBLE_PROFILES :: "string list" where
  "LIVE_ELIGIBLE_PROFILES = [''local-private'', ''private-runner'']"

definition envTrue :: "jsval \<Rightarrow> bool" where
  "envTrue value = (to_lower (js_trim (text_of value)) = ''true'')"

text \<open>Keys sorted by code unit at every depth.\<close>

fun stableObject :: "jsval \<Rightarrow> jsval" where
  "stableObject (JArr xs) = JArr (map stableObject xs)"
| "stableObject (JObj ps) = JObj (sort_key fst (map (\<lambda>(k, v). (k, stableObject v)) ps))"
| "stableObject v = v"

definition fingerprinted :: "(string \<times> jsval) list \<Rightarrow> (string \<times> jsval) list" where
  "fingerprinted ps = AList.delete ''policy_fingerprint'' (AList.delete ''evaluated_at'' ps)"

definition policyFingerprint :: "(string \<Rightarrow> string) \<Rightarrow> (string \<times> jsval) list \<Rightarrow> string" where
  "policyFingerprint sha256 policy = sha256 (json_text (stableObject (JObj (fingerprinted policy))))"

definition runtimeProfile :: "jsval \<Rightarrow> string" where
  "runtimeProfile env =
     (let requested = to_lower (js_trim (js_to_string
          (js_or (js_get env ''SOVEREIGN_RUNTIME_MODE'')
            (js_or (js_get env ''SOVEREIGN_DEPLOYMENT_MODE'') (JStr DEFAULT_PROFILE)))))
      in if requested = [] then DEFAULT_PROFILE else requested)"

text \<open>\<^verbatim>\<open>options.x === undefined ? d : Boolean(options.x)\<close>.\<close>

definition option_flag :: "jsval \<Rightarrow> string \<Rightarrow> bool \<Rightarrow> bool" where
  "option_flag options key dflt =
     (if js_get options key = JUndef then dflt else truthy (js_get options key))"

record policy_inputs =
  requestedProfile :: string
  explicitLive :: bool
  envLive :: bool
  requestedLive :: bool
  executionAuthorized :: bool
  killSwitchActive :: bool
  nativeRiskRequired :: bool
  nativeRiskAvailable :: bool
  broker :: "string option"
  brokerLiveSupported :: bool
  featureGates :: jsval

definition policyInputs :: "jsval \<Rightarrow> jsval \<Rightarrow> policy_inputs" where
  "policyInputs env options =
     (let args = array_items (js_get options ''args'');
          requested = to_lower (js_trim (js_to_string
            (js_or (js_get options ''requestedProfile'') (JStr (runtimeProfile env)))));
          explicit = option_flag options ''explicitLive'' (JStr ''--live'' \<in> set args);
          live_env = option_flag options ''envLive'' (envTrue (js_get env ''LIVE_TRADING''));
          required = truthy (js_get options ''nativeRiskRequired'')
      in \<lparr>requestedProfile = (if requested = [] then DEFAULT_PROFILE else requested),
          explicitLive = explicit, envLive = live_env,
          requestedLive = option_flag options ''requestedLive'' (explicit \<or> live_env),
          executionAuthorized = option_flag options ''executionAuthorized''
            (envTrue (js_get env ''SOVEREIGN_EXECUTION_AUTHORIZED'')),
          killSwitchActive = truthy (js_get options ''killSwitchActive''),
          nativeRiskRequired = required,
          nativeRiskAvailable = option_flag options ''nativeRiskAvailable'' (\<not> required),
          broker = map_option to_lower (opt_text (js_get options ''broker'')),
          brokerLiveSupported = option_flag options ''brokerLiveSupported'' True,
          featureGates = stableObject (js_or (js_get options ''featureGates'') (JObj []))\<rparr>)"

definition permanentPaper :: "policy_inputs \<Rightarrow> bool" where
  "permanentPaper i = (requestedProfile i \<in> set PERMANENT_PAPER_PROFILES)"

definition supportedProfile :: "policy_inputs \<Rightarrow> bool" where
  "supportedProfile i = (permanentPaper i \<or> requestedProfile i \<in> set LIVE_ELIGIBLE_PROFILES)"

definition disabledFeatures :: "policy_inputs \<Rightarrow> string list" where
  "disabledFeatures i = sort (map fst (filter (\<lambda>(n, en). en = JBool False) (object_entries (featureGates i))))"

definition blockingReasons :: "policy_inputs \<Rightarrow> string list" where
  "blockingReasons i =
     (if permanentPaper i then [''profile_'' @ requestedProfile i @ ''_is_permanently_non_executing''] else [])
   @ (if \<not> supportedProfile i then [''unsupported_runtime_profile:'' @ requestedProfile i] else [])
   @ (if killSwitchActive i then [''kill_switch_active''] else [])
   @ (if nativeRiskRequired i \<and> \<not> nativeRiskAvailable i then [''native_risk_unavailable''] else [])
   @ (if \<not> brokerLiveSupported i then [case broker i of
        Some b \<Rightarrow> if b = [] then ''broker_live_unsupported'' else ''broker_'' @ b @ ''_live_unsupported''
      | None \<Rightarrow> ''broker_live_unsupported''] else [])
   @ (if disabledFeatures i \<noteq> [] then [''feature_gates_disabled:'' @ js_join '','' (disabledFeatures i)] else [])
   @ (if \<not> requestedLive i then [''live_not_requested''] else [])
   @ (if requestedLive i \<and> \<not> explicitLive i then [''explicit_live_flag_required''] else [])
   @ (if requestedLive i \<and> \<not> executionAuthorized i then [''execution_authorization_required''] else [])"

definition policy_object :: "jsval \<Rightarrow> jsval \<Rightarrow> string \<Rightarrow> (string \<times> jsval) list" where
  "policy_object env options now =
     (let i = policyInputs env options in
      [(''schema_version'', JNum (Fin 1)),
       (''requested_profile'', JStr (requestedProfile i)),
       (''effective_profile'', JStr (if permanentPaper i then ''private-paper'' else requestedProfile i)),
       (''paper'', JBool (permanentPaper i \<or> blockingReasons i \<noteq> [])),
       (''research_only'', JBool (permanentPaper i)),
       (''requested_live'', JBool (requestedLive i)),
       (''explicit_live'', JBool (explicitLive i)),
       (''environment_live'', JBool (envLive i)),
       (''execution_authorized'', JBool (executionAuthorized i)),
       (''kill_switch_active'', JBool (killSwitchActive i)),
       (''native_risk_required'', JBool (nativeRiskRequired i)),
       (''native_risk_available'', JBool (nativeRiskAvailable i)),
       (''broker'', opt_value (broker i)),
       (''broker_live_supported'', JBool (brokerLiveSupported i)),
       (''feature_gates'', featureGates i),
       (''can_execute'', JBool (blockingReasons i = [])),
       (''blocking_reasons'', JArr (map JStr (blockingReasons i))),
       (''provenance'', JObj
         [(''profile'', JStr (if truthy (js_get options ''requestedProfile'') then ''argument''
             else if truthy (js_get env ''SOVEREIGN_RUNTIME_MODE'') then ''SOVEREIGN_RUNTIME_MODE''
             else if truthy (js_get env ''SOVEREIGN_DEPLOYMENT_MODE'') then ''SOVEREIGN_DEPLOYMENT_MODE''
             else ''default'')),
          (''live'', JStr (if explicitLive i \<and> envLive i then ''cli+environment''
             else if explicitLive i then ''cli'' else if envLive i then ''environment'' else ''default'')),
          (''authorization'', JStr (if js_get options ''executionAuthorized'' = JUndef
             then ''SOVEREIGN_EXECUTION_AUTHORIZED'' else ''argument''))]),
       (''evaluated_at'', js_or (js_get options ''now'') (JStr now))])"

definition resolveRuntimePolicy :: "(string \<Rightarrow> string) \<Rightarrow> jsval \<Rightarrow> jsval \<Rightarrow> string \<Rightarrow> jsval" where
  "resolveRuntimePolicy sha256 env options now =
     (let policy = policy_object env options now in
      JObj (policy @ [(''policy_fingerprint'', JStr (policyFingerprint sha256 policy))]))"

section \<open>Bot interval\<close>

definition GLOBAL_BOT_INTERVAL_MIN :: jsnum where "GLOBAL_BOT_INTERVAL_MIN = Fin 1"

definition positiveMinutes :: "jsnum \<Rightarrow> jsnum \<Rightarrow> jsnum" where
  "positiveMinutes number fallback =
     (if js_is_finite number \<and> js_lt (Fin 0) number then number else fallback)"

record bot_interval =
  global_minimum_min :: jsnum
  personal_interval_min :: jsnum
  admin_minimum_min :: jsnum
  effective_interval_min :: jsnum
  constrained_by :: string

definition resolveBotInterval :: "jsval \<Rightarrow> jsval \<Rightarrow> jsval \<Rightarrow> bot_interval" where
  "resolveBotInterval requestedMinutes settings env =
     (let globalMinimum = positiveMinutes
            (js_to_number (js_get env ''SOVEREIGN_GLOBAL_BOT_INTERVAL_MIN'')) GLOBAL_BOT_INTERVAL_MIN;
          trading = js_get settings ''trading'';
          legacyPersonal = js_div (js_to_number (js_get trading ''polling_interval'')) (Fin 60);
          personal = positiveMinutes (js_to_number (js_default requestedMinutes JNull))
            (positiveMinutes (js_to_number (js_get trading ''bot_interval_min''))
              (positiveMinutes legacyPersonal globalMinimum));
          adminMinimum = positiveMinutes
            (js_to_number (js_get env ''SOVEREIGN_ADMIN_BOT_INTERVAL_MIN'')) globalMinimum
      in \<lparr>global_minimum_min = globalMinimum, personal_interval_min = personal,
          admin_minimum_min = adminMinimum,
          effective_interval_min = js_max (js_max globalMinimum personal) adminMinimum,
          constrained_by = (if js_lt (js_max globalMinimum personal) adminMinimum then ''admin''
            else if js_lt globalMinimum personal then ''personal'' else ''global'')\<rparr>)"

section \<open>Deployment profiles\<close>

record deployment =
  description :: string
  machine_roles :: "string list"
  available_services :: "string list"
  default_services :: "string list"
  canonical_writer :: bool
  explicit_start :: bool

definition PROFILES :: "(string \<times> deployment) list" where
  "PROFILES =
     [(''all-in-one'', \<lparr>description =
          ''Rehearsal host with every repository role available but persistent work opt-in.'',
        machine_roles = [''developer'', ''api'', ''writer'', ''research'', ''monitoring'', ''paper'', ''client''],
        available_services = [''web'', ''backfill'', ''portfolio-monitor'', ''host-health'', ''host-backup'',
          ''polymarket-research'', ''bot'', ''connector''],
        default_services = [''web''], canonical_writer = True, explicit_start = True\<rparr>),
      (''central-host'', \<lparr>description =
          ''Private persistent host with one canonical data writer and no client workstation role.'',
        machine_roles = [''api'', ''writer'', ''research'', ''monitoring'', ''paper''],
        available_services = [''web'', ''backfill'', ''portfolio-monitor'', ''host-health'', ''host-backup'',
          ''polymarket-research'', ''bot''],
        default_services = [''web'', ''backfill''], canonical_writer = True, explicit_start = False\<rparr>),
      (''developer'', \<lparr>description =
          ''Source, test, build, and local web development without a canonical writer.'',
        machine_roles = [''developer'', ''api''], available_services = [''web''],
        default_services = [], canonical_writer = False, explicit_start = True\<rparr>),
      (''client'', \<lparr>description = ''Read-only remote workstation using an authenticated connector.'',
        machine_roles = [''client''], available_services = [''connector''],
        default_services = [''connector''], canonical_writer = False, explicit_start = False\<rparr>)]"

definition PROFILE_NAMES :: "string list" where
  "PROFILE_NAMES = map fst PROFILES"

definition normalizeDeploymentProfile :: "jsval \<Rightarrow> jsval \<Rightarrow> string option" where
  "normalizeDeploymentProfile value fallback =
     (let normalized = to_lower (js_trim (text_of value)) in
      if normalized \<in> set PROFILE_NAMES then Some normalized
      else let normalizedFallback = to_lower (js_trim (text_of fallback)) in
        if normalizedFallback \<in> set PROFILE_NAMES then Some normalizedFallback else None)"

record resolved_profile =
  res_ok :: bool
  res_requested :: "string option"
  res_effective :: "string option"
  res_reason :: "string option"
  res_definition :: "deployment option"

text \<open>
  The lists and flags the source copies out of the definition (empty or false when there is none)
  are read through \<open>res_services\<close> and \<open>res_writer\<close>.
\<close>

definition resolveDeploymentProfile :: "jsval \<Rightarrow> jsval \<Rightarrow> resolved_profile" where
  "resolveDeploymentProfile value fallback =
     (let requested = (let t = to_lower (js_trim (text_of value)) in if t = [] then None else Some t);
          profile = normalizeDeploymentProfile (opt_value requested) fallback;
          valid = (requested = None \<or> requested = profile);
          definition = (case profile of Some p \<Rightarrow> map_of PROFILES p | None \<Rightarrow> None)
      in \<lparr>res_ok = (valid \<and> definition \<noteq> None), res_requested = requested,
          res_effective = (if definition \<noteq> None then profile else None),
          res_reason = (if valid \<and> definition \<noteq> None then None else Some ''unsupported_deployment_profile''),
          res_definition = definition\<rparr>)"

definition res_services :: "resolved_profile \<Rightarrow> string list" where
  "res_services r = (case res_definition r of Some d \<Rightarrow> available_services d | None \<Rightarrow> [])"

definition res_writer :: "resolved_profile \<Rightarrow> bool" where
  "res_writer r = (case res_definition r of Some d \<Rightarrow> canonical_writer d | None \<Rightarrow> False)"

definition serviceAllowed :: "string + resolved_profile option \<Rightarrow> jsval \<Rightarrow> bool" where
  "serviceAllowed profile service =
     (case (case profile of Inl name \<Rightarrow> Some (resolveDeploymentProfile (JStr name) JNull) | Inr r \<Rightarrow> r) of
        None \<Rightarrow> False
      | Some resolved \<Rightarrow> res_ok resolved \<and> js_trim (text_of service) \<in> set (res_services resolved))"

definition validateDeploymentProfile :: "jsval \<Rightarrow> bool \<Rightarrow> resolved_profile" where
  "validateDeploymentProfile value requireWriter =
     (let resolved = resolveDeploymentProfile value JNull;
          writerOk = (\<not> requireWriter \<or> res_writer resolved)
      in resolved\<lparr>res_ok := (res_ok resolved \<and> writerOk),
           res_reason := (if \<not> res_ok resolved then res_reason resolved
             else if writerOk then None else Some ''deployment_profile_has_no_canonical_writer'')\<rparr>)"

section \<open>Order of members\<close>

text \<open>Values that differ only in the order of the members of their objects.\<close>

inductive reordered :: "jsval \<Rightarrow> jsval \<Rightarrow> bool" where
  same: "reordered v v"
| chain: "reordered u v \<Longrightarrow> reordered v w \<Longrightarrow> reordered u w"
| elements: "list_all2 reordered xs ys \<Longrightarrow> reordered (JArr xs) (JArr ys)"
| members: "list_all2 (rel_prod (=) reordered) ps qs \<Longrightarrow> reordered (JObj ps) (JObj qs)"
| permuted: "mset ps = mset qs \<Longrightarrow> distinct (map fst ps) \<Longrightarrow> reordered (JObj ps) (JObj qs)"

lemma sort_key_mset_unique:
  assumes "mset ps = mset qs" "distinct (map fst ps)"
  shows "sort_key fst ps = sort_key (fst :: _ \<Rightarrow> 'k::linorder) qs"
proof (rule map_sorted_distinct_set_unique)
  have set: "set ps = set qs" using assms(1) by (metis set_mset_mset)
  have inj: "inj_on fst (set ps)" "distinct ps" using assms(2) by (simp_all add: distinct_map)
  have dq: "distinct qs" using assms(1) inj(2) mset_eq_imp_distinct_iff by blast
  show "inj_on fst (set (sort_key fst ps) \<union> set (sort_key fst qs))" using inj set by simp
  show "distinct (map fst (sort_key fst ps))" "distinct (map fst (sort_key fst qs))"
    using inj dq set by (simp_all add: distinct_map)
  show "set (sort_key fst ps) = set (sort_key fst qs)" using set by simp
qed simp_all

lemma stableObject_members:
  "list_all2 (rel_prod (=) (\<lambda>v w. stableObject v = stableObject w)) ps qs \<Longrightarrow>
     map (\<lambda>(k, v). (k, stableObject v)) ps = map (\<lambda>(k, v). (k, stableObject v)) qs"
  by (induction rule: list_all2_induct) auto

lemma stableObject_reordered: "reordered v w \<Longrightarrow> stableObject v = stableObject w"
proof (induction rule: reordered.induct)
  case (elements xs ys)
  have "list_all2 (\<lambda>x y. stableObject x = stableObject y) xs ys"
    by (rule list_all2_mono [OF elements]) simp
  then have "map stableObject xs = map stableObject ys" by (induction rule: list_all2_induct) auto
  then show ?case by simp
next
  case (members ps qs)
  have "list_all2 (rel_prod (=) (\<lambda>v w. stableObject v = stableObject w)) ps qs"
    by (rule list_all2_mono [OF members]) (auto elim!: rel_prod.cases)
  from stableObject_members [OF this] show ?case by simp
next
  case (permuted ps qs)
  let ?f = "\<lambda>(k :: string, v). (k, stableObject v)"
  have "map fst (map ?f ps) = map fst ps" by (simp add: case_prod_beta comp_def)
  with permuted have "sort_key fst (map ?f ps) = sort_key fst (map ?f qs)"
    by (intro sort_key_mset_unique) (simp_all only: mset_map)
  then show ?case by simp
qed simp_all

section \<open>Properties\<close>

text \<open>
  C1. The program executes live orders exactly when every gate is open: a live-eligible profile, an
  explicit and authorised request for live trading, no kill switch, native risk checks available
  where they are required, a broker that supports live trading, and no disabled feature; in every
  other case it is on paper.
\<close>

theorem can_execute_iff:
  fixes sha env options now
  defines "i \<equiv> policyInputs env options" and "policy \<equiv> resolveRuntimePolicy sha env options now"
  shows "js_get policy ''can_execute'' = JBool (requestedProfile i \<in> set LIVE_ELIGIBLE_PROFILES
      \<and> requestedLive i \<and> explicitLive i \<and> executionAuthorized i \<and> \<not> killSwitchActive i
      \<and> (if nativeRiskRequired i then nativeRiskAvailable i else True) \<and> brokerLiveSupported i
      \<and> JBool False \<notin> snd ` set (object_entries (featureGates i)))
    \<and> (js_get policy ''paper'' = JBool False \<longleftrightarrow> js_get policy ''can_execute'' = JBool True)"
proof -
  have disjoint: "p \<notin> set LIVE_ELIGIBLE_PROFILES" if "p \<in> set PERMANENT_PAPER_PROFILES" for p
    using that by (auto simp: LIVE_ELIGIBLE_PROFILES_def PERMANENT_PAPER_PROFILES_def)
  have "sort xs = [] \<longleftrightarrow> xs = []" for xs :: "string list" by (simp flip: length_0_conv)
  then have feat: "disabledFeatures i = [] \<longleftrightarrow> JBool False \<notin> snd ` set (object_entries (featureGates i))"
    by (force simp: disabledFeatures_def filter_empty_conv)
  define G where "G \<longleftrightarrow> requestedProfile i \<in> set LIVE_ELIGIBLE_PROFILES
      \<and> requestedLive i \<and> explicitLive i \<and> executionAuthorized i \<and> \<not> killSwitchActive i
      \<and> (if nativeRiskRequired i then nativeRiskAvailable i else True) \<and> brokerLiveSupported i
      \<and> JBool False \<notin> snd ` set (object_entries (featureGates i))"
  have "blockingReasons i = [] \<longleftrightarrow> G"
    using disjoint by (auto simp: G_def blockingReasons_def permanentPaper_def supportedProfile_def feat)
  moreover have "js_get policy ''can_execute'' = JBool (blockingReasons i = [])"
    "js_get policy ''paper'' = JBool (permanentPaper i \<or> blockingReasons i \<noteq> [])"
    by (simp_all add: policy_def resolveRuntimePolicy_def policy_object_def Let_def i_def)
  moreover have "blockingReasons i \<noteq> []" if "permanentPaper i" using that by (simp add: blockingReasons_def)
  ultimately have "js_get policy ''can_execute'' = JBool G
    \<and> (js_get policy ''paper'' = JBool False \<longleftrightarrow> js_get policy ''can_execute'' = JBool True)" by auto
  then show ?thesis by (simp only: G_def)
qed

text \<open>
  The fingerprint identifies the policy and not its writing: it does not change with the time of
  the evaluation or the fingerprint already there, nor with the order of members at any depth.
\<close>

theorem fingerprint_canonical:
  assumes "reordered (JObj (fingerprinted ps)) (JObj (fingerprinted qs))"
  shows "policyFingerprint sha (AList.update ''evaluated_at'' t ps) = policyFingerprint sha qs"
proof -
  have "fingerprinted (AList.update ''evaluated_at'' t ps) = fingerprinted ps"
    by (induction ps) (auto simp: fingerprinted_def)
  then show ?thesis
    using stableObject_reordered [OF assms] by (simp only: policyFingerprint_def)
qed

text \<open>
  The bot never polls faster than the global and the administrator's minimum: the effective
  interval is a finite positive number at least as large as both and as the personal interval.
\<close>

lemma positiveMinutes_pos:
  assumes "\<exists>q > 0. fallback = Fin q" shows "\<exists>q > 0. positiveMinutes n fallback = Fin q"
  using assms by (cases n) (auto simp: positiveMinutes_def js_is_finite_def)

theorem bot_interval_bounds:
  fixes requested settings env
  defines "b \<equiv> resolveBotInterval requested settings env"
  shows "\<exists>q > 0. effective_interval_min b = Fin q \<and> js_le (global_minimum_min b) (Fin q)
    \<and> js_le (admin_minimum_min b) (Fin q) \<and> js_le (personal_interval_min b) (Fin q)
    \<and> Fin q \<in> {global_minimum_min b, admin_minimum_min b, personal_interval_min b}"
proof -
  have "\<exists>q > 0. GLOBAL_BOT_INTERVAL_MIN = Fin q" by (auto simp: GLOBAL_BOT_INTERVAL_MIN_def)
  note g = positiveMinutes_pos [OF this, of "js_to_number (js_get env ''SOVEREIGN_GLOBAL_BOT_INTERVAL_MIN'')"]
  note a = positiveMinutes_pos [OF g, of "js_to_number (js_get env ''SOVEREIGN_ADMIN_BOT_INTERVAL_MIN'')"]
  have "\<exists>x y z. 0 < x \<and> 0 < y \<and> 0 < z \<and> global_minimum_min b = Fin x \<and> personal_interval_min b = Fin y
      \<and> admin_minimum_min b = Fin z"
    using g a positiveMinutes_pos [OF positiveMinutes_pos [OF positiveMinutes_pos [OF g]]]
    by (simp add: b_def resolveBotInterval_def Let_def) metis
  moreover have "effective_interval_min b
      = js_max (js_max (global_minimum_min b) (personal_interval_min b)) (admin_minimum_min b)"
    by (simp add: b_def resolveBotInterval_def Let_def)
  ultimately show ?thesis by (auto simp: js_max_def js_le_def)
qed

text \<open>
  Writing services run only on a host that is the canonical writer: a profile to which the
  backfill or the bot is allowed is valid and has a canonical writer, and the same profile passes
  validation with a writer required.
\<close>

lemma writer_services:
  "list_all (\<lambda>(n, d). (''backfill'' \<in> set (available_services d) \<or> ''bot'' \<in> set (available_services d))
     \<longrightarrow> canonical_writer d) PROFILES"
  by code_simp

theorem writing_service_has_writer:
  assumes "serviceAllowed (Inl profile) service" "js_trim (text_of service) \<in> {''backfill'', ''bot''}"
  shows "res_ok (validateDeploymentProfile (JStr profile) True)
    \<and> res_reason (validateDeploymentProfile (JStr profile) True) = None"
proof -
  let ?r = "resolveDeploymentProfile (JStr profile) JNull"
  have ok: "res_ok ?r" and s: "js_trim (text_of service) \<in> set (res_services ?r)"
    using assms(1) by (auto simp: serviceAllowed_def)
  then obtain d p where d: "res_definition ?r = Some d" and p: "map_of PROFILES p = Some d"
    by (auto simp: resolveDeploymentProfile_def Let_def split: option.splits)
  have "canonical_writer d"
    using writer_services map_of_SomeD [OF p] s assms(2)
    by (auto simp: list_all_iff res_services_def d)
  then have "res_writer ?r" by (simp add: res_writer_def d)
  with ok show ?thesis by (simp add: validateDeploymentProfile_def Let_def)
qed

theorem fingerprint_canonical_witness:
  "policyFingerprint (\<lambda>s. s) (AList.update ''evaluated_at'' (JStr ''t'')
      [(''a'', JNum (Fin 1)), (''b'', JNum (Fin 2))])
   = policyFingerprint (\<lambda>s. s) [(''b'', JNum (Fin 2)), (''evaluated_at'', JStr ''u''), (''a'', JNum (Fin 1))]"
proof (rule fingerprint_canonical)
  show "reordered (JObj (fingerprinted [(''a'', JNum (Fin 1)), (''b'', JNum (Fin 2))]))
     (JObj (fingerprinted [(''b'', JNum (Fin 2)), (''evaluated_at'', JStr ''u''), (''a'', JNum (Fin 1))]))"
    by (rule reordered.permuted) (simp_all add: fingerprinted_def)
qed

theorem writing_service_has_writer_witness:
  "res_ok (validateDeploymentProfile (JStr ''central-host'') True)"
proof -
  have "serviceAllowed (Inl ''central-host'') (JStr ''backfill'')" by code_simp
  moreover have "js_trim (text_of (JStr ''backfill'')) \<in> {''backfill'', ''bot''}" by code_simp
  ultimately show ?thesis using writing_service_has_writer by blast
qed

end
