(* ===== verification/Event_Ledger.thy ===== *)
theory Event_Ledger
  imports Js_Json
begin

text \<open>
  The append-only, hash-chained event log of \<^verbatim>\<open>shared/lib/storage/event_ledger.js\<close>.

  A ledger is backed by memory or by a file of JSON lines.  A line is \<open>None\<close> when it does not
  parse and otherwise the parsed value, which is an arbitrary JSON value, since anybody may have
  edited the file.  The hash function (\<^verbatim>\<open>crypto.createHash('sha256')\<close> with a hex digest) is a
  parameter.
\<close>

record ledger =
  in_memory :: bool
  lines :: "jsval option list"
  lastEvent :: jsval
  count :: nat

datatype verdict =
    Valid nat jsval
  | Index_mismatch nat
  | Broken_chain nat
  | Corrupted_hash nat

definition GENESIS_PREV_HASH :: string where
  "GENESIS_PREV_HASH = replicate 64 (CHR ''0'')"

definition payload_text :: "jsval \<Rightarrow> string" where
  "payload_text payload = (if is_string payload then js_to_string payload
     else json_text (js_nullish payload (JObj [])))"

definition event_preimage :: "jsval \<Rightarrow> jsval \<Rightarrow> jsval \<Rightarrow> jsval \<Rightarrow> jsval \<Rightarrow> string" where
  "event_preimage index timestamp eventType prevHash payload =
     js_to_string index @ '':'' @ js_to_string timestamp @ '':'' @ js_to_string eventType @ '':''
     @ js_to_string prevHash @ '':'' @ payload_text payload"

definition computeEventHash ::
  "(string \<Rightarrow> string) \<Rightarrow> jsval \<Rightarrow> jsval \<Rightarrow> jsval \<Rightarrow> jsval \<Rightarrow> jsval \<Rightarrow> string"
where
  "computeEventHash sha256 index timestamp eventType prevHash payload =
     sha256 (event_preimage index timestamp eventType prevHash payload)"

definition index_value :: "nat \<Rightarrow> jsval" where
  "index_value i = JNum (Fin (of_nat i))"

section \<open>Opening and appending\<close>

definition loadTail :: "jsval option list \<Rightarrow> ledger" where
  "loadTail ls = \<lparr>in_memory = False, lines = ls,
     lastEvent = (if ls = [] then JNull else case last ls of None \<Rightarrow> JNull | Some e \<Rightarrow> e),
     count = length ls\<rparr>"

definition memory_ledger :: ledger where
  "memory_ledger = \<lparr>in_memory = True, lines = [], lastEvent = JNull, count = 0\<rparr>"

definition append_event ::
  "(string \<Rightarrow> string) \<Rightarrow> jsval \<Rightarrow> jsval \<Rightarrow> jsval \<Rightarrow> ledger \<Rightarrow> ledger \<times> jsval"
where
  "append_event sha256 eventType payload timestamp l =
     (let prevHash = (if truthy (lastEvent l) then js_get (lastEvent l) ''hash''
                      else JStr GENESIS_PREV_HASH);
          index = index_value (count l);
          hash = computeEventHash sha256 index timestamp eventType prevHash payload;
          event = JObj [(''index'', index), (''timestamp'', timestamp),
            (''event_type'', JStr (js_to_string eventType)), (''prev_hash'', prevHash),
            (''hash'', JStr hash), (''payload'', payload)];
          line = (if in_memory l then event else json_view event)
      in (l\<lparr>lines := lines l @ [Some line], lastEvent := event, count := count l + 1\<rparr>, event))"

definition getLatestEvent :: "ledger \<Rightarrow> jsval" where
  "getLatestEvent l = (if truthy (lastEvent l) then lastEvent l else JNull)"

section \<open>Reading and verifying\<close>

text \<open>Lines that do not parse, and falsy values, are skipped.\<close>

definition all_events :: "ledger \<Rightarrow> jsval list" where
  "all_events l = filter truthy (List.map_filter (\<lambda>x. x) (lines l))"

definition getEvents :: "jsval \<Rightarrow> ledger \<Rightarrow> jsval list" where
  "getEvents options l =
     (let events = all_events l;
          eventType = js_get options ''eventType'';
          events = (if truthy eventType then filter (\<lambda>e. js_get e ''event_type'' = eventType) events
                    else events);
          events = (case js_get options ''sinceTimestamp'' of
              JNum since \<Rightarrow> if js_is_finite since
                then filter (\<lambda>e. js_le since (js_to_number (js_get e ''timestamp''))) events else events
            | _ \<Rightarrow> events)
      in case js_get options ''limit'' of
           JNum (Fin q) \<Rightarrow> if 0 < q
             then (if \<lfloor>q\<rfloor> = 0 then events else slice_last (nat \<lfloor>q\<rfloor>) events) else events
         | _ \<Rightarrow> events)"

fun verify_loop :: "(string \<Rightarrow> string) \<Rightarrow> nat \<Rightarrow> jsval \<Rightarrow> jsval list \<Rightarrow> verdict option" where
  "verify_loop sha256 i expected [] = None"
| "verify_loop sha256 i expected (e # es) =
     (if js_get e ''index'' \<noteq> index_value i then Some (Index_mismatch i)
      else if js_get e ''prev_hash'' \<noteq> expected then Some (Broken_chain i)
      else if js_get e ''hash'' \<noteq> JStr (computeEventHash sha256 (js_get e ''index'')
          (js_get e ''timestamp'') (js_get e ''event_type'') (js_get e ''prev_hash'')
          (js_get e ''payload'')) then Some (Corrupted_hash i)
      else verify_loop sha256 (i + 1) (js_get e ''hash'') es)"

definition verifyIntegrity :: "(string \<Rightarrow> string) \<Rightarrow> ledger \<Rightarrow> verdict" where
  "verifyIntegrity sha256 l =
     (let events = getEvents (JObj []) l in
      if events = [] then Valid 0 JNull
      else case verify_loop sha256 0 (JStr GENESIS_PREV_HASH) events of
          Some failure \<Rightarrow> failure
        | None \<Rightarrow> Valid (length events) (js_get (last events) ''hash''))"

section \<open>The hash chain\<close>

text \<open>The link that event \<open>e\<close> has to be at position \<open>i\<close> after the hash \<open>p\<close>.\<close>

definition good_event :: "(string \<Rightarrow> string) \<Rightarrow> nat \<Rightarrow> jsval \<Rightarrow> jsval \<Rightarrow> bool" where
  "good_event sha256 i p e = (js_get e ''index'' = index_value i \<and> js_get e ''prev_hash'' = p
     \<and> js_get e ''hash'' = JStr (computeEventHash sha256 (index_value i) (js_get e ''timestamp'')
          (js_get e ''event_type'') p (js_get e ''payload'')))"

definition chain_hash :: "jsval \<Rightarrow> jsval list \<Rightarrow> jsval" where
  "chain_hash p es = (if es = [] then p else js_get (last es) ''hash'')"

definition chain_ok :: "(string \<Rightarrow> string) \<Rightarrow> jsval list \<Rightarrow> bool" where
  "chain_ok sha256 es = (verify_loop sha256 0 (JStr GENESIS_PREV_HASH) es = None)"

lemma verify_loop_snoc:
  "verify_loop sha i p (es @ [e]) = None \<longleftrightarrow>
     verify_loop sha i p es = None \<and> good_event sha (i + length es) (chain_hash p es) e"
  by (induction es arbitrary: i p) (auto simp: good_event_def chain_hash_def)

lemma chain_ok_Nil [simp]: "chain_ok sha []"
  by (simp add: chain_ok_def)

lemma chain_ok_snoc:
  "chain_ok sha (es @ [e]) \<longleftrightarrow>
     chain_ok sha es \<and> good_event sha (length es) (chain_hash (JStr GENESIS_PREV_HASH) es) e"
  by (simp add: chain_ok_def verify_loop_snoc)

lemma chain_ok_single: "chain_ok sha [e] \<longleftrightarrow> good_event sha 0 (chain_hash (JStr GENESIS_PREV_HASH) []) e"
  using chain_ok_snoc [of sha "[]" e] by simp

lemma getEvents_all [simp]: "getEvents (JObj []) l = all_events l"
  by (simp add: getEvents_def)

lemma verify_loop_not_Valid: "verify_loop sha i p es \<noteq> Some (Valid n h)"
  by (induction es arbitrary: i p) auto

lemma verdict_Valid:
  assumes "verifyIntegrity sha l = Valid n h"
  shows "chain_ok sha (all_events l)" and "n = length (all_events l)"
    and "all_events l \<noteq> [] \<Longrightarrow> h = js_get (last (all_events l)) ''hash''"
  using assms verify_loop_not_Valid [of sha 0 "JStr GENESIS_PREV_HASH" "all_events l" n h]
  by (auto simp: verifyIntegrity_def chain_ok_def Let_def split: if_splits option.splits)

section \<open>Ledgers built by the operations\<close>

text \<open>
  A payload and a timestamp that a JSON file gives back with the same text: the timestamp is a
  finite number, and the payload is not itself a number that is not finite (inside an object or
  an array such a number is harmless).
\<close>

definition storable :: "jsval \<Rightarrow> jsval \<Rightarrow> bool" where
  "storable timestamp payload =
     ((case timestamp of JNum n \<Rightarrow> js_is_finite n | _ \<Rightarrow> False)
      \<and> (case payload of JNum n \<Rightarrow> js_is_finite n | _ \<Rightarrow> True))"

inductive reachable_ledger :: "(string \<Rightarrow> string) \<Rightarrow> ledger \<Rightarrow> bool" for sha256 where
  in_memory: "reachable_ledger sha256 memory_ledger"
| new_file: "reachable_ledger sha256 (loadTail [])"
| append_memory: "reachable_ledger sha256 l \<Longrightarrow> in_memory l \<Longrightarrow>
    reachable_ledger sha256 (fst (append_event sha256 eventType payload timestamp l))"
| append_file: "reachable_ledger sha256 l \<Longrightarrow> \<not> in_memory l \<Longrightarrow> storable timestamp payload \<Longrightarrow>
    reachable_ledger sha256 (fst (append_event sha256 eventType payload timestamp l))"
| reopen: "reachable_ledger sha256 l \<Longrightarrow> \<not> in_memory l \<Longrightarrow> reachable_ledger sha256 (loadTail (lines l))"

definition ledger_inv :: "(string \<Rightarrow> string) \<Rightarrow> ledger \<Rightarrow> bool" where
  "ledger_inv sha256 l = (lines l = map Some (all_events l) \<and> chain_ok sha256 (all_events l)
     \<and> count l = length (lines l)
     \<and> (all_events l = [] \<longrightarrow> lastEvent l = JNull)
     \<and> (all_events l \<noteq> [] \<longrightarrow> truthy (lastEvent l)
          \<and> js_get (lastEvent l) ''hash'' = js_get (last (all_events l)) ''hash''))"

lemma all_events_snoc:
  "all_events (l\<lparr>lines := lines l @ [Some e], lastEvent := x, count := c\<rparr>)
     = all_events l @ (if truthy e then [e] else [])"
  by (simp add: all_events_def List.map_filter_def)

lemma ledger_inv_count: "ledger_inv sha l \<Longrightarrow> count l = length (all_events l)"
proof -
  assume "ledger_inv sha l"
  then have "lines l = map Some (all_events l)" "count l = length (lines l)"
    unfolding ledger_inv_def by blast+
  then show ?thesis by (simp only: length_map)
qed

lemma prev_hash_inv:
  "ledger_inv sha l \<Longrightarrow> (if truthy (lastEvent l) then js_get (lastEvent l) ''hash''
      else JStr GENESIS_PREV_HASH) = chain_hash (JStr GENESIS_PREV_HASH) (all_events l)"
  by (auto simp: ledger_inv_def chain_hash_def)

lemma chain_hash_string: "chain_ok sha es \<Longrightarrow> \<exists>s. chain_hash (JStr GENESIS_PREV_HASH) es = JStr s"
  by (cases es rule: rev_cases) (auto simp: chain_hash_def chain_ok_snoc good_event_def)

lemma payload_text_view:
  "(case p of JNum n \<Rightarrow> js_is_finite n | _ \<Rightarrow> True) \<Longrightarrow> payload_text (json_view p) = payload_text p"
  using json_text_view [of p] by (cases p) (auto simp: payload_text_def is_string_def js_nullish_def)

lemma append_event_good:
  fixes et :: jsval
  assumes inv: "ledger_inv sha l" and ok: "in_memory l \<or> storable ts p"
  defines "l' \<equiv> fst (append_event sha et p ts l)"
  shows "\<exists>e. truthy e \<and> lines l' = lines l @ [Some e] \<and> all_events l' = all_events l @ [e]
     \<and> good_event sha (length (all_events l)) (chain_hash (JStr GENESIS_PREV_HASH) (all_events l)) e
     \<and> count l' = count l + 1 \<and> truthy (lastEvent l') \<and> in_memory l' = in_memory l
     \<and> js_get (lastEvent l') ''hash'' = js_get e ''hash''"
proof -
  define prev where "prev = chain_hash (JStr GENESIS_PREV_HASH) (all_events l)"
  define ev where "ev = JObj [(''index'', index_value (count l)), (''timestamp'', ts),
    (''event_type'', JStr (js_to_string et)), (''prev_hash'', prev),
    (''hash'', JStr (computeEventHash sha (index_value (count l)) ts et prev p)), (''payload'', p)]"
  define e where "e = (if in_memory l then ev else json_view ev)"
  have l': "l' = l\<lparr>lines := lines l @ [Some e], lastEvent := ev, count := count l + 1\<rparr>"
    by (simp add: l'_def append_event_def Let_def prev_hash_inv [OF inv] prev_def ev_def e_def)
  have cnt: "count l = length (all_events l)"
    using inv by (rule ledger_inv_count)
  obtain h where h: "prev = JStr h"
    using inv chain_hash_string by (auto simp: ledger_inv_def prev_def)
  have tr: "truthy e" by (simp add: e_def ev_def)
  have "good_event sha (length (all_events l)) prev e"
  proof (cases "in_memory l")
    case True
    then show ?thesis
      by (simp add: good_event_def e_def ev_def cnt computeEventHash_def event_preimage_def)
  next
    case False
    with ok obtain t where t: "ts = JNum (Fin t)"
      and p: "case p of JNum n \<Rightarrow> js_is_finite n | _ \<Rightarrow> True"
      by (auto simp: storable_def js_is_finite_def split: jsval.splits jsnum.splits)
    have "payload_text (js_get (json_view ev) ''payload'') = payload_text p"
      using payload_text_view [OF p] by (simp add: ev_def index_value_def h t)
    with False show ?thesis
      by (simp add: good_event_def e_def cnt computeEventHash_def event_preimage_def)
         (simp add: ev_def index_value_def h t cnt computeEventHash_def event_preimage_def js_is_finite_def)
  qed
  moreover have "js_get ev ''hash'' = js_get e ''hash''" "truthy ev"
    by (simp_all add: e_def ev_def index_value_def h)
  ultimately show ?thesis using tr
    by (intro exI [of _ e]) (simp add: l' all_events_snoc prev_def)
qed

lemma reachable_ledger_inv: "reachable_ledger sha l \<Longrightarrow> ledger_inv sha l"
proof (induction rule: reachable_ledger.induct)
  case (append_memory l et p ts)
  from append_event_good [of sha l ts p et] append_memory show ?case
    by (auto simp: ledger_inv_def chain_ok_snoc chain_ok_single)
next
  case (append_file l ts p et)
  from append_event_good [of sha l ts p et] append_file show ?case
    by (auto simp: ledger_inv_def chain_ok_snoc chain_ok_single)
next
  case (reopen l)
  then have "all_events (loadTail (lines l)) = all_events l"
    by (simp add: all_events_def loadTail_def)
  moreover have "last (all_events l) \<in> set (all_events l)" if "all_events l \<noteq> []" using that by simp
  moreover have "\<forall>e \<in> set (all_events l). truthy e" by (simp add: all_events_def)
  ultimately show ?case using reopen
    by (auto simp: ledger_inv_def loadTail_def last_map)
qed (simp_all add: ledger_inv_def memory_ledger_def loadTail_def all_events_def)

section \<open>Tampering\<close>

definition event_source :: "jsval \<Rightarrow> string" where
  "event_source e = event_preimage (js_get e ''index'') (js_get e ''timestamp'')
     (js_get e ''event_type'') (js_get e ''prev_hash'') (js_get e ''payload'')"

text \<open>What a reader learns from an event.\<close>

definition event_facts :: "jsval \<Rightarrow> jsval \<times> string \<times> string \<times> jsval \<times> jsval \<times> string" where
  "event_facts e = (js_get e ''index'', js_to_string (js_get e ''timestamp''),
     js_to_string (js_get e ''event_type''), js_get e ''prev_hash'', js_get e ''hash'',
     payload_text (js_get e ''payload''))"

definition colon_free :: "jsval \<Rightarrow> bool" where
  "colon_free e = (CHR '':'' \<notin> set (js_to_string (js_get e ''timestamp''))
     \<and> CHR '':'' \<notin> set (js_to_string (js_get e ''event_type'')))"

lemma good_event_source:
  "good_event sha i p e \<Longrightarrow> js_get e ''hash'' = JStr (sha (event_source e))"
  by (simp add: good_event_def event_source_def computeEventHash_def)

lemma good_event_facts:
  assumes e: "good_event sha i (JStr p) e" and e': "good_event sha i (JStr p') e'"
    and src: "event_source e = event_source e'"
    and colon: "colon_free e" "colon_free e'" "CHR '':'' \<notin> set p" "CHR '':'' \<notin> set p'"
  shows "event_facts e = event_facts e' \<and> p = p'"
proof -
  have "js_to_string (js_get e ''timestamp'') @ CHR '':'' # js_to_string (js_get e ''event_type'')
      @ CHR '':'' # p @ CHR '':'' # payload_text (js_get e ''payload'')
    = js_to_string (js_get e' ''timestamp'') @ CHR '':'' # js_to_string (js_get e' ''event_type'')
      @ CHR '':'' # p' @ CHR '':'' # payload_text (js_get e' ''payload'')"
    using src e e' by (simp add: event_source_def event_preimage_def good_event_def)
  then show ?thesis using colon e e' good_event_source [OF e] good_event_source [OF e'] src
    by (auto simp: append_sep_inject colon_free_def event_facts_def good_event_def)
qed

lemma chain_hash_colon:
  assumes "chain_ok sha es" "\<forall>s. CHR '':'' \<notin> set (sha s)" "chain_hash (JStr GENESIS_PREV_HASH) es = JStr h"
  shows "CHR '':'' \<notin> set h"
  using assms
  by (cases es rule: rev_cases)
     (auto simp: chain_hash_def GENESIS_PREV_HASH_def chain_ok_snoc good_event_def computeEventHash_def)

lemma chain_determined:
  assumes "length es = length es'" "chain_ok sha es" "chain_ok sha es'"
    and "chain_hash (JStr GENESIS_PREV_HASH) es = chain_hash (JStr GENESIS_PREV_HASH) es'"
    and no_colon: "\<forall>s. CHR '':'' \<notin> set (sha s)"
    and "\<forall>e \<in> set es. \<forall>e' \<in> set es'. sha (event_source e) = sha (event_source e')
           \<longrightarrow> event_source e = event_source e'"
    and "\<forall>e \<in> set es \<union> set es'. colon_free e"
  shows "map event_facts es = map event_facts es'"
  using assms(1-4,6,7)
proof (induction es arbitrary: es' rule: rev_induct)
  case (snoc e es)
  then obtain es0 e' where es': "es' = es0 @ [e']" by (cases es' rule: rev_cases) auto
  have ok: "chain_ok sha es" "chain_ok sha es0" using snoc.prems(2,3) by (simp_all add: es' chain_ok_snoc)
  obtain p p' where p: "chain_hash (JStr GENESIS_PREV_HASH) es = JStr p"
    and p': "chain_hash (JStr GENESIS_PREV_HASH) es0 = JStr p'"
    using ok chain_hash_string by meson
  have e: "good_event sha (length es) (JStr p) e" and e': "good_event sha (length es) (JStr p') e'"
    using snoc.prems(1-3) p p' by (simp_all add: es' chain_ok_snoc)
  have "sha (event_source e) = sha (event_source e')"
    using snoc.prems(4) good_event_source [OF e] good_event_source [OF e']
    by (simp add: es' chain_hash_def)
  then have "event_source e = event_source e'" using snoc.prems(5) by (simp add: es')
  from good_event_facts [OF e e' this] snoc.prems(6) chain_hash_colon [OF ok(1) no_colon p]
    chain_hash_colon [OF ok(2) no_colon p']
  have "event_facts e = event_facts e'" "p = p'" by (simp_all add: es')
  with snoc p p' ok show ?case by (simp add: es')
qed simp

section \<open>Properties\<close>



text \<open>
  Without the condition on colons the check can be fooled whatever the hash function: the
  text hashed does not mark where the event type ends, so an event can be rewritten to another
  type and payload with the same hash.
\<close>

theorem ledger_hash_ambiguous:
  "\<exists>e e'. js_get e ''event_type'' \<noteq> js_get e' ''event_type''
     \<and> js_get e ''payload'' \<noteq> js_get e' ''payload''
     \<and> js_get e ''hash'' = js_get e' ''hash''
     \<and> verifyIntegrity sha (loadTail [Some e]) = Valid 1 (js_get e ''hash'')
     \<and> verifyIntegrity sha (loadTail [Some e']) = Valid 1 (js_get e ''hash'')"
proof -
  define ev where "ev = (\<lambda>ty p. JObj [(''index'', index_value 0), (''timestamp'', JStr ''1''),
    (''event_type'', JStr ty), (''prev_hash'', JStr GENESIS_PREV_HASH),
    (''hash'', JStr (sha (js_to_string (index_value 0) @ '':1:order:'' @ GENESIS_PREV_HASH
       @ '':buy:'' @ GENESIS_PREV_HASH @ '':sell''))), (''payload'', JStr p)])"
  let ?e = "ev ''order'' (''buy:'' @ GENESIS_PREV_HASH @ '':sell'')"
  let ?e' = "ev (''order:'' @ GENESIS_PREV_HASH @ '':buy'') ''sell''"
  have "verifyIntegrity sha (loadTail [Some ?e]) = Valid 1 (js_get ?e ''hash'')"
    "verifyIntegrity sha (loadTail [Some ?e']) = Valid 1 (js_get ?e ''hash'')"
    by (simp_all add: verifyIntegrity_def all_events_def loadTail_def List.map_filter_def ev_def Let_def
        computeEventHash_def event_preimage_def payload_text_def is_string_def)
  moreover have "js_get ?e ''event_type'' \<noteq> js_get ?e' ''event_type''"
    "js_get ?e ''payload'' \<noteq> js_get ?e' ''payload''" "js_get ?e ''hash'' = js_get ?e' ''hash''"
    by (simp_all add: ev_def)
  ultimately show ?thesis by blast
qed

text \<open>
  The witnesses use a digest that counts: a hash without collisions on the texts at hand.
\<close>

definition demo_ledger :: ledger where
  "demo_ledger = fst (append_event (\<lambda>s. replicate (length s) (CHR ''f'')) (JStr ''fill'') (JStr ''x'')
     (JNum (Fin 7)) (loadTail []))"



end
