(* ===== verification/Magic_Codec.thy ===== *)
theory Magic_Codec
  imports Js_Value "HOL-Library.Word"
begin

unbundle bit_operations_syntax

text \<open>
  The 64-bit magic number of \<^verbatim>\<open>shared/lib/runtime/mt5_magic_codec.js\<close>: system, strategy,
  timeframe and instance packed into four 16-bit fields, and the CRC-16 that names a strategy.
  The bitwise operators of the source work on 32-bit integers (\<^verbatim>\<open>ToInt32\<close>), the packing on
  big integers.
\<close>

definition SYSTEM_SOVEREIGN_ID :: int where
  "SYSTEM_SOVEREIGN_ID = 0x534F"

section \<open>CRC-16\<close>

definition crc_bit :: "32 word \<Rightarrow> 32 word" where
  "crc_bit crc = (if crc AND 1 \<noteq> 0 then drop_bit 1 crc XOR 0xA001 else drop_bit 1 crc)"

definition crc_char :: "char \<Rightarrow> 32 word \<Rightarrow> 32 word" where
  "crc_char c crc = (crc_bit ^^ 8) (crc XOR of_nat (char_code c))"

definition crc16 :: "jsval \<Rightarrow> 32 word" where
  "crc16 str = fold crc_char (text_of str) 0xFFFF AND 0xFFFF"

section \<open>Packing and unpacking\<close>

text \<open>\<^verbatim>\<open>ToInt32\<close>: the integer part modulo two to the 32.\<close>

definition js_trunc :: "rat \<Rightarrow> int" where
  "js_trunc q = (if 0 \<le> q then \<lfloor>q\<rfloor> else \<lceil>q\<rceil>)"

definition to_int32 :: "jsnum \<Rightarrow> 32 word" where
  "to_int32 x = (case x of Fin q \<Rightarrow> word_of_int (js_trunc q) | _ \<Rightarrow> 0)"

text \<open>\<^verbatim>\<open>BigInt(Number(x) & 0xFFFF)\<close>.\<close>

definition field16 :: "jsnum \<Rightarrow> int" where
  "field16 x = uint (to_int32 x AND 0xFFFF)"

definition strategy_number :: "jsval \<Rightarrow> jsnum" where
  "strategy_number strategyId = (case strategyId of JNum n \<Rightarrow> n
     | _ \<Rightarrow> Fin (of_int (uint (crc16 strategyId))))"

definition pack :: "int \<Rightarrow> int \<Rightarrow> int \<Rightarrow> int \<Rightarrow> int" where
  "pack s g t i = (push_bit 48 s OR push_bit 32 g OR push_bit 16 t OR i)"

definition encode :: "jsval \<Rightarrow> string" where
  "encode args =
     (let systemId = js_default (js_get args ''systemId'') (JNum (Fin (of_int SYSTEM_SOVEREIGN_ID)));
          strategyId = js_default (js_get args ''strategyId'') (JStr ''manual'');
          timeframeMinutes = js_default (js_get args ''timeframeMinutes'') (JNum (Fin 1));
          instanceId = js_default (js_get args ''instanceId'') (JNum (Fin 0))
      in dec_string (pack (field16 (js_to_number systemId)) (field16 (strategy_number strategyId))
           (field16 (js_to_number timeframeMinutes)) (field16 (js_to_number instanceId))))"

text \<open>\<^verbatim>\<open>BigInt(s)\<close>: \<open>None\<close> is the \<^verbatim>\<open>SyntaxError\<close>.\<close>

definition string_to_bigint :: "string \<Rightarrow> int option" where
  "string_to_bigint s = (let t = js_trim s; p = to_lower (take 2 t);
       neg = starts_with t ''-''; u = (if neg \<or> starts_with t ''+'' then tl t else t) in
     if t = [] then Some 0
     else if p = ''0x'' then (if drop 2 t = [] then None else radix_val 16 (drop 2 t) 0)
     else if p = ''0o'' then (if drop 2 t = [] then None else radix_val 8 (drop 2 t) 0)
     else if p = ''0b'' then (if drop 2 t = [] then None else radix_val 2 (drop 2 t) 0)
     else if u = [] \<or> \<not> list_all is_digit u then None
     else Some (if neg then - digits_val u else digits_val u))"

record magic =
  systemId :: int
  strategyId :: int
  timeframeMinutes :: int
  instanceId :: int

definition unpack :: "int \<Rightarrow> magic" where
  "unpack m = \<lparr>systemId = drop_bit 48 m AND 0xFFFF, strategyId = drop_bit 32 m AND 0xFFFF,
     timeframeMinutes = drop_bit 16 m AND 0xFFFF, instanceId = m AND 0xFFFF\<rparr>"

definition decode :: "jsval \<Rightarrow> magic option" where
  "decode magicValue = map_option unpack
     (string_to_bigint (js_to_string (js_or magicValue (JStr ''0''))))"

section \<open>Fields\<close>

lemma mask16_int: "(0xFFFF :: int) = mask 16" by (simp add: mask_eq_exp_minus_1)

lemma mask16_word: "(0xFFFF :: 32 word) = mask 16" by (simp add: mask_eq_exp_minus_1)

lemma field16_take_bit: "field16 x = take_bit 16 (uint (to_int32 x))"
  by (simp add: field16_def mask16_word unsigned_take_bit_eq flip: take_bit_eq_mask)

lemma field16_range: "0 \<le> field16 x" "field16 x < 2 ^ 16"
  unfolding field16_take_bit by (simp_all only: take_bit_nonnegative take_bit_int_less_exp)

lemma field16_of_int:
  assumes "0 \<le> n" "n < 2 ^ 16" shows "field16 (Fin (of_int n)) = n"
proof -
  have "js_trunc (of_int n) = n" using assms by (simp add: js_trunc_def)
  then have "field16 (Fin (of_int n)) = take_bit 16 (take_bit 32 n)"
    unfolding field16_take_bit by (simp add: to_int32_def uint_word_of_int_eq)
  also have "\<dots> = n" using assms by (simp add: take_bit_int_eq_self)
  finally show ?thesis .
qed

text \<open>Appending a field below another, and taking it off again.\<close>

lemma drop_field: "0 \<le> (y::int) \<Longrightarrow> y < 2 ^ n \<Longrightarrow> drop_bit n (push_bit n x OR y) = x"
proof -
  assume "0 \<le> y" "y < 2 ^ n"
  then have "drop_bit n y = 0" by (simp add: drop_bit_eq_div)
  moreover have "drop_bit n (push_bit n x) = x" by (simp add: drop_bit_eq_div push_bit_eq_mult)
  ultimately show ?thesis by (simp add: drop_bit_or)
qed

lemma take_field: "0 \<le> (y::int) \<Longrightarrow> y < 2 ^ n \<Longrightarrow> take_bit n (push_bit n x OR y) = y"
  by (simp add: take_bit_push_bit take_bit_int_eq_self)

lemma field_bound:
  assumes "0 \<le> (x::int)" "x < 2 ^ k" "0 \<le> (y::int)" "y < 2 ^ n"
  shows "0 \<le> push_bit n x OR y \<and> push_bit n x OR y < 2 ^ (k + n)"
proof -
  have "(push_bit n x OR y) div 2 ^ n = x" using drop_field [OF assms(3,4)] by (simp add: drop_bit_eq_div)
  moreover have "(push_bit n x OR y) mod 2 ^ n = y" using take_field [OF assms(3,4)] by (simp add: take_bit_eq_mod)
  ultimately have eq: "push_bit n x OR y = x * 2 ^ n + y"
    using div_mult_mod_eq [of "push_bit n x OR y" "2 ^ n"] by simp
  have "x * 2 ^ n + y < (x + 1) * 2 ^ n" using assms by (simp add: algebra_simps)
  also have "\<dots> \<le> 2 ^ k * 2 ^ n" using assms by (intro mult_right_mono) auto
  finally show ?thesis using assms by (simp add: eq power_add)
qed

lemma pack_nest: "pack s g t i = push_bit 16 (push_bit 16 (push_bit 16 s OR g) OR t) OR i"
  by (simp add: pack_def push_bit_or or.assoc)

lemma unpack_pack:
  assumes "0 \<le> s" "s < 2 ^ 16" "0 \<le> g" "g < 2 ^ 16" "0 \<le> t" "t < 2 ^ 16" "0 \<le> i" "i < 2 ^ 16"
  shows "unpack (pack s g t i) = \<lparr>systemId = s, strategyId = g, timeframeMinutes = t, instanceId = i\<rparr>"
proof -
  define a where "a = push_bit 16 s OR g"
  define b where "b = push_bit 16 a OR t"
  have p: "pack s g t i = push_bit 16 b OR i" by (simp add: pack_nest a_def b_def)
  have d: "drop_bit 16 (pack s g t i) = b" "drop_bit 16 b = a" "drop_bit 16 a = s"
    using assms unfolding p b_def a_def by (simp_all only: drop_field)
  have "drop_bit 32 (pack s g t i) = drop_bit 16 (drop_bit 16 (pack s g t i))"
    "drop_bit 48 (pack s g t i) = drop_bit 16 (drop_bit 16 (drop_bit 16 (pack s g t i)))"
    by (simp_all only: drop_bit_drop_bit) simp_all
  then have "drop_bit 32 (pack s g t i) = a" "drop_bit 48 (pack s g t i) = s" by (simp_all only: d)
  moreover have "take_bit 16 (pack s g t i) = i" "take_bit 16 b = t" "take_bit 16 a = g"
    using assms unfolding p b_def a_def by (simp_all only: take_field)
  moreover have "take_bit 16 s = s" using assms by (simp add: take_bit_int_eq_self)
  ultimately show ?thesis
    unfolding unpack_def mask16_int take_bit_eq_mask [symmetric] by (simp only: d)
qed

lemma pack_bound:
  assumes "0 \<le> s" "s < 2 ^ k" "0 \<le> g" "g < 2 ^ 16" "0 \<le> t" "t < 2 ^ 16" "0 \<le> i" "i < 2 ^ 16"
  shows "0 \<le> pack s g t i" and "pack s g t i < 2 ^ (48 + k)"
proof -
  note 1 = field_bound [OF assms(1-4)]
  note 2 = field_bound [OF conjunct1 [OF 1] conjunct2 [OF 1] assms(5,6)]
  note 3 = field_bound [OF conjunct1 [OF 2] conjunct2 [OF 2] assms(7,8)]
  show "0 \<le> pack s g t i" "pack s g t i < 2 ^ (48 + k)"
    using 3 by (simp_all add: pack_nest add_ac)
qed

lemma dec_string_no_space: "0 \<le> n \<Longrightarrow> js_trim (dec_string n) = dec_string n"
  by (rule trim_no_space) (use dec_string_digits in \<open>fastforce simp: list_all_iff js_eval\<close>)

lemma string_to_bigint_dec_string: "0 \<le> n \<Longrightarrow> string_to_bigint (dec_string n) = Some n"
proof -
  assume n: "0 \<le> n"
  then have d: "\<forall>c \<in> set (dec_string n). is_digit c" using dec_string_digits by blast
  obtain c r where cr: "dec_string n = c # r" by (cases "dec_string n") auto
  have ns: "\<not> starts_with (dec_string n) ''-''" "\<not> starts_with (dec_string n) ''+''"
    using d cr by (auto simp: starts_with_def js_eval)
  have "\<not> is_digit (lower_char x)" if "x \<in> {CHR ''x'', CHR ''o'', CHR ''b''}" for x
    using that by (auto simp: js_eval)
  have "to_lower (take 2 (dec_string n)) = take 2 (dec_string n)"
    using d by (auto simp: to_lower_def js_eval intro!: map_idI dest!: in_set_takeD)
  then have p: "to_lower (take 2 (dec_string n)) \<noteq> [CHR ''0'', z]" if "\<not> is_digit z" for z
    using d that in_set_takeD [of z 2 "dec_string n"] by auto
  have "\<not> is_digit CHR ''x''" "\<not> is_digit CHR ''o''" "\<not> is_digit CHR ''b''" by (simp_all add: js_eval)
  with p ns d n show ?thesis
    by (simp add: string_to_bigint_def Let_def dec_string_no_space list_all_iff)
qed

section \<open>CRC-16 is a bijection per character\<close>

definition low16 :: "32 word \<Rightarrow> bool" where
  "low16 w = (\<forall>n \<ge> 16. \<not> bit w n)"

lemma crc_bit_low16: "low16 w \<Longrightarrow> low16 (crc_bit w)"
proof -
  assume w: "low16 w"
  have "(0xA001 :: 32 word) AND mask 16 = 0xA001" by (simp add: mask_eq_exp_minus_1)
  then have "\<not> bit (0xA001 :: 32 word) n" if "16 \<le> n" for n
    using that by (metis bit_and_iff bit_mask_iff leD)
  with w show ?thesis by (simp add: low16_def crc_bit_def bit_simps)
qed

lemma crc_bit_inj: "low16 v \<Longrightarrow> low16 w \<Longrightarrow> crc_bit v = crc_bit w \<Longrightarrow> v = w"
proof -
  assume low: "low16 v" "low16 w" and eq: "crc_bit v = crc_bit w"
  have "bit (0xA001 :: 32 word) 15" by (simp add: bit_iff_odd_drop_bit)
  then have top: "bit (crc_bit u) 15 = odd u" if "low16 u" for u
    using that by (auto simp: low16_def crc_bit_def bit_simps and_one_eq odd_iff_mod_2_eq_one)
  have par: "odd v = odd w" using top [OF low(1)] top [OF low(2)] eq by simp
  have "drop_bit 1 v = drop_bit 1 w"
  proof (cases "odd v")
    case True
    then have "drop_bit 1 v XOR 0xA001 = drop_bit 1 w XOR 0xA001"
      using eq par by (simp add: crc_bit_def and_one_eq odd_iff_mod_2_eq_one)
    then have "(drop_bit 1 v XOR 0xA001) XOR 0xA001 = (drop_bit 1 w XOR 0xA001) XOR 0xA001" by simp
    then show ?thesis by (simp only: xor.assoc xor_self_eq xor.right_neutral)
  next
    case False
    then show ?thesis using eq par by (simp add: crc_bit_def and_one_eq even_iff_mod_2_eq_zero)
  qed
  then have "bit v (Suc n) = bit w (Suc n)" for n
    by (metis bit_drop_bit_eq comp_apply plus_1_eq_Suc)
  moreover have "bit v 0 = bit w 0" using par by (simp add: bit_0)
  ultimately show ?thesis by (intro bit_eqI) (metis not0_implies_Suc)
qed

lemma crc_bits_low16: "low16 w \<Longrightarrow> low16 ((crc_bit ^^ n) w)"
  by (induction n) (simp_all add: crc_bit_low16)

lemma crc_bits_inj: "low16 v \<Longrightarrow> low16 w \<Longrightarrow> (crc_bit ^^ n) v = (crc_bit ^^ n) w \<Longrightarrow> v = w"
  by (induction n) (simp_all, metis crc_bit_inj crc_bits_low16)

lemma char_code_less: "char_code c < 256"
  by (simp add: char_code_def)

lemma low16_char: "low16 (of_nat (char_code c))"
proof -
  have "(of_nat (char_code c) :: 32 word) = take_bit 8 (of_nat (char_code c))"
    by (rule sym) (simp add: take_bit_of_nat take_bit_nat_eq_self char_code_less)
  then show ?thesis unfolding low16_def by (metis bit_take_bit_iff leD le_trans numeral_le_iff semiring_norm(68,69,70,71,72))
qed

lemma low16_xor: "low16 v \<Longrightarrow> low16 w \<Longrightarrow> low16 (v XOR w)"
  by (simp add: low16_def bit_xor_iff)

lemma crc_char_low16: "low16 w \<Longrightarrow> low16 (crc_char c w)"
  by (simp add: crc_char_def crc_bits_low16 low16_xor low16_char)

lemma crc_char_inj: "low16 v \<Longrightarrow> low16 w \<Longrightarrow> crc_char c v = crc_char c w \<Longrightarrow> v = w"
proof -
  assume "low16 v" "low16 w" "crc_char c v = crc_char c w"
  then have "v XOR of_nat (char_code c) = w XOR of_nat (char_code c)"
    unfolding crc_char_def by (metis crc_bits_inj low16_xor low16_char)
  then have "(v XOR of_nat (char_code c)) XOR of_nat (char_code c)
    = (w XOR of_nat (char_code c)) XOR of_nat (char_code c)" by simp
  then show ?thesis by (simp only: xor.assoc xor_self_eq xor.right_neutral)
qed

lemma crc_char_code_inj: "low16 w \<Longrightarrow> crc_char c w = crc_char d w \<Longrightarrow> c = d"
proof -
  assume w: "low16 w" and "crc_char c w = crc_char d w"
  then have "w XOR of_nat (char_code c) = w XOR of_nat (char_code d)"
    unfolding crc_char_def by (metis crc_bits_inj low16_xor low16_char)
  then have "w XOR (w XOR of_nat (char_code c)) = w XOR (w XOR of_nat (char_code d))" by simp
  then have "(of_nat (char_code c) :: 32 word) = of_nat (char_code d)"
    by (simp only: xor.assoc [symmetric] xor_self_eq xor.left_neutral)
  then have "take_bit 32 (char_code c) = take_bit 32 (char_code d)"
    by (simp only: word_of_nat_eq_iff) simp
  then have "char_code c = char_code d"
    using char_code_less [of c] char_code_less [of d] by (simp add: take_bit_nat_eq_self)
  then show ?thesis by (simp add: char_code_def)
qed

lemma crc_fold_low16: "low16 w \<Longrightarrow> low16 (fold crc_char s w)"
  by (induction s arbitrary: w) (simp_all add: crc_char_low16)

lemma crc_fold_inj: "low16 v \<Longrightarrow> low16 w \<Longrightarrow> fold crc_char s v = fold crc_char s w \<Longrightarrow> v = w"
  by (induction s arbitrary: v w) (simp_all, metis crc_char_inj crc_char_low16)

lemma low16_init: "low16 0xFFFF"
  unfolding low16_def mask16_word by (simp add: bit_simps)

lemma crc16_fold: "crc16 v = fold crc_char (text_of v) 0xFFFF"
proof -
  have "low16 (fold crc_char (text_of v) 0xFFFF)" by (rule crc_fold_low16) (rule low16_init)
  then have "n < 16" if "bit (fold crc_char (text_of v) 0xFFFF) n" for n
    using that unfolding low16_def by (meson not_less)
  then show ?thesis
    unfolding crc16_def mask16_word by (intro bit_eqI) (auto simp only: bit_and_iff bit_mask_iff)
qed

section \<open>Properties\<close>

text \<open>
  C40. Decoding a magic number gives back the four fields it was encoded from, reduced to 16 bits.
\<close>

theorem decode_encode:
  "decode (JStr (encode (JObj [(''systemId'', JNum s), (''strategyId'', g),
      (''timeframeMinutes'', JNum t), (''instanceId'', JNum i)])))
   = Some \<lparr>systemId = field16 s,
       strategyId = field16 (strategy_number (js_default g (JStr ''manual''))),
       timeframeMinutes = field16 t, instanceId = field16 i\<rparr>"
proof -
  let ?g = "field16 (strategy_number (js_default g (JStr ''manual'')))"
  let ?p = "pack (field16 s) ?g (field16 t) (field16 i)"
  have "0 \<le> ?p" by (rule pack_bound [of _ 16]) (simp_all only: field16_range)
  then have "string_to_bigint (dec_string ?p) = Some ?p" by (rule string_to_bigint_dec_string)
  moreover have "unpack ?p = \<lparr>systemId = field16 s, strategyId = ?g, timeframeMinutes = field16 t,
      instanceId = field16 i\<rparr>"
    by (rule unpack_pack) (simp_all only: field16_range)
  ultimately show ?thesis by (simp add: decode_def encode_def Let_def js_or_def js_default_def)
qed

text \<open>
  Numbers that fit their fields come back unchanged, and a system id below 0x8000 keeps the
  sign bit of the signed 64-bit magic number clear.
\<close>

theorem magic_in_range:
  assumes "0 \<le> s" "s < 2 ^ 15" "0 \<le> g" "g < 2 ^ 16" "0 \<le> t" "t < 2 ^ 16" "0 \<le> i" "i < 2 ^ 16"
  defines "m \<equiv> encode (JObj [(''systemId'', JNum (Fin (of_int s))),
      (''strategyId'', JNum (Fin (of_int g))), (''timeframeMinutes'', JNum (Fin (of_int t))),
      (''instanceId'', JNum (Fin (of_int i)))])"
  shows "digits_val m < 2 ^ 63
    \<and> decode (JStr m) = Some \<lparr>systemId = s, strategyId = g, timeframeMinutes = t, instanceId = i\<rparr>"
proof -
  have f: "field16 (Fin (of_int s)) = s" "field16 (Fin (of_int g)) = g"
    "field16 (Fin (of_int t)) = t" "field16 (Fin (of_int i)) = i"
    using assms by (simp_all add: field16_of_int)
  have m: "m = dec_string (pack s g t i)"
    by (simp add: m_def encode_def Let_def js_default_def strategy_number_def f)
  have "0 \<le> pack s g t i" "pack s g t i < 2 ^ (48 + 15)"
    using assms by (intro pack_bound [of _ 15]; simp)+
  then have "digits_val m < 2 ^ 63" "string_to_bigint m = Some (pack s g t i)"
    by (simp_all add: m string_to_bigint_dec_string)
  moreover have "unpack (pack s g t i)
      = \<lparr>systemId = s, strategyId = g, timeframeMinutes = t, instanceId = i\<rparr>"
    using assms by (intro unpack_pack) simp_all
  ultimately show ?thesis by (simp add: decode_def js_or_def m)
qed

text \<open>
  Strategy names that differ in one character never share a CRC, so the magic number tells
  them apart; the 16-bit mask at the end of the routine never removes anything.
\<close>

theorem crc16_one_char:
  assumes "c \<noteq> d"
  shows "crc16 (JStr (a @ c # b)) \<noteq> crc16 (JStr (a @ d # b)) \<and> uint (crc16 (JStr (a @ c # b))) < 2 ^ 16"
proof -
  let ?w = "fold crc_char a 0xFFFF"
  have w: "low16 ?w" by (rule crc_fold_low16) (rule low16_init)
  have "crc16 (JStr (a @ c # b)) \<noteq> crc16 (JStr (a @ d # b))"
  proof
    assume "crc16 (JStr (a @ c # b)) = crc16 (JStr (a @ d # b))"
    then have "fold crc_char b (crc_char c ?w) = fold crc_char b (crc_char d ?w)"
      by (simp add: crc16_fold)
    then have "crc_char c ?w = crc_char d ?w"
      by (rule crc_fold_inj [rotated 2]) (simp_all only: crc_char_low16 [OF w])
    with w assms show False by (blast dest: crc_char_code_inj)
  qed
  moreover have "uint (crc16 (JStr (a @ c # b))) = take_bit 16 (uint (fold crc_char (a @ c # b) 0xFFFF))"
    by (simp only: crc16_def mask16_word text_of_simps unsigned_take_bit_eq flip: take_bit_eq_mask)
  ultimately show ?thesis by (simp only: take_bit_int_less_exp) simp
qed

theorem magic_in_range_witness:
  "digits_val (encode (JObj [(''systemId'', JNum (Fin (of_int 21327))),
      (''strategyId'', JNum (Fin (of_int 7))), (''timeframeMinutes'', JNum (Fin (of_int 240))),
      (''instanceId'', JNum (Fin (of_int 3)))])) < 2 ^ 63"
  using magic_in_range [of 21327 7 240 3] by simp

theorem crc16_one_char_witness: "crc16 (JStr ''trend_a'') \<noteq> crc16 (JStr ''trend_b'')"
  using crc16_one_char [of "CHR ''a''" "CHR ''b''" "''trend_''" "[]"] by simp

end
