(* ===== verification/File_Lock.thy ===== *)
theory File_Lock
  imports Js_Json Js_Date
begin

text \<open>
  The two inter-process locks: \<^verbatim>\<open>shared/lib/runtime/file_lock.js\<close>, a lock file with a token,
  retries and removal of stale locks, and \<^verbatim>\<open>shared/lib/runtime/process_lock.js\<close>, a lock file
  with the process id of its owner.

  The first is modelled at the granularity of system calls, because other processes run between
  two of them: a process is a program counter, \<open>acquire_step\<close>, \<open>refresh_step\<close> and \<open>release_step\<close>
  perform its next system call, and \<open>lock_step\<close> interleaves the processes.  A lock file has an
  inode number, a modification time and the token of its owner, once that is written.
\<close>

definition DEFAULT_LOCK_TIMEOUT_MS :: int where "DEFAULT_LOCK_TIMEOUT_MS = 30000"
definition DEFAULT_LOCK_RETRY_MS :: int where "DEFAULT_LOCK_RETRY_MS = 25"
definition DEFAULT_LOCK_STALE_MS :: int where "DEFAULT_LOCK_STALE_MS = 5 * 60000"

definition positiveInteger :: "jsval \<Rightarrow> int \<Rightarrow> int" where
  "positiveInteger value fallback =
     (case js_parse_int (js_to_string (js_nullish value (JStr []))) of
        Fin q \<Rightarrow> if 0 < q then \<lfloor>q\<rfloor> else fallback | _ \<Rightarrow> fallback)"

record lock_config =
  timeoutMs :: int
  retryMs :: int
  staleMs :: int

definition lock_options :: "jsval \<Rightarrow> lock_config" where
  "lock_options options =
     \<lparr>timeoutMs = positiveInteger (js_get options ''timeoutMs'') DEFAULT_LOCK_TIMEOUT_MS,
      retryMs = positiveInteger (js_get options ''retryMs'') DEFAULT_LOCK_RETRY_MS,
      staleMs = positiveInteger (js_get options ''staleMs'') DEFAULT_LOCK_STALE_MS\<rparr>"

record lock_file =
  ino :: nat
  mtimeMs :: int
  lock_token :: "string option"

text \<open>
  Where a process is: not using the lock; about to open the file; having failed to, about to look
  at the file's age; having seen a stale file once, with its inode and time; having seen it
  twice, about to unlink it; sleeping until a time; with the file open, about to write the token;
  inside; about to refresh; about to unlink its own lock.
\<close>

datatype lock_pc =
    Idle
  | Opening string int
  | Blocked string int int
  | Stale_once string int int nat int
  | Stale_twice string int
  | Sleeping string int int
  | Writing string nat
  | Holding string nat
  | Refreshing string nat
  | Unlinking string nat

record lock_world =
  clock :: int
  disk :: "lock_file option"
  next_ino :: nat
  pcs :: "nat \<Rightarrow> lock_pc"

definition set_pc :: "nat \<Rightarrow> lock_pc \<Rightarrow> lock_world \<Rightarrow> lock_world" where
  "set_pc p c w = w\<lparr>pcs := (pcs w)(p := c)\<rparr>"

text \<open>The end of an unsuccessful attempt: give up (\<^verbatim>\<open>ELOCKED\<close>) or sleep.\<close>

definition wait_or_fail :: "lock_config \<Rightarrow> string \<Rightarrow> int \<Rightarrow> int \<Rightarrow> lock_pc" where
  "wait_or_fail cfg token startedAt now =
     (if timeoutMs cfg \<le> now - startedAt then Idle
      else Sleeping token startedAt
        (now + min (retryMs cfg) (max 1 (timeoutMs cfg - (now - startedAt)))))"

text \<open>
  The next system call of a process that acquires the lock.  \<open>write_ok\<close> says whether the write of
  the token succeeds; when it fails the error leaves the function with the file in place.  The
  write goes to the open file, whose name may be gone.
\<close>

definition acquire_step :: "lock_config \<Rightarrow> bool \<Rightarrow> nat \<Rightarrow> lock_world \<Rightarrow> lock_world" where
  "acquire_step cfg write_ok p w = (case pcs w p of
     Opening token startedAt \<Rightarrow>
       (case disk w of
          None \<Rightarrow> set_pc p (Writing token (next_ino w)) (w\<lparr>disk := Some
             \<lparr>ino = next_ino w, mtimeMs = clock w, lock_token = None\<rparr>, next_ino := Suc (next_ino w)\<rparr>)
        | Some f \<Rightarrow> set_pc p (Blocked token startedAt (clock w)) w)
   | Writing token i \<Rightarrow>
       if \<not> write_ok then set_pc p Idle w
       else set_pc p (Holding token i) (case disk w of
          Some f \<Rightarrow> if ino f = i
             then w\<lparr>disk := Some (f\<lparr>lock_token := Some token, mtimeMs := clock w\<rparr>)\<rparr> else w
        | None \<Rightarrow> w)
   | Blocked token startedAt now \<Rightarrow>
       (case disk w of
          None \<Rightarrow> set_pc p (Opening token startedAt) w
        | Some f \<Rightarrow> if now - mtimeMs f < staleMs cfg then set_pc p (wait_or_fail cfg token startedAt now) w
            else set_pc p (Stale_once token startedAt now (ino f) (mtimeMs f)) w)
   | Stale_once token startedAt now i m \<Rightarrow>
       (case disk w of
          None \<Rightarrow> set_pc p (Opening token startedAt) w
        | Some f \<Rightarrow> if ino f \<noteq> i \<or> mtimeMs f \<noteq> m then set_pc p (wait_or_fail cfg token startedAt now) w
            else set_pc p (Stale_twice token startedAt) w)
   | Stale_twice token startedAt \<Rightarrow> set_pc p (Opening token startedAt) (w\<lparr>disk := None\<rparr>)
   | Sleeping token startedAt until \<Rightarrow>
       if until \<le> clock w then set_pc p (Opening token startedAt) w else w
   | _ \<Rightarrow> w)"

definition readLockOwner :: "lock_world \<Rightarrow> string option" where
  "readLockOwner w = (case disk w of Some f \<Rightarrow> lock_token f | None \<Rightarrow> None)"

definition refresh_step :: "nat \<Rightarrow> lock_world \<Rightarrow> lock_world" where
  "refresh_step p w = (case pcs w p of
     Holding token i \<Rightarrow> if readLockOwner w = Some token then set_pc p (Refreshing token i) w else w
   | Refreshing token i \<Rightarrow> set_pc p (Holding token i)
       (w\<lparr>disk := map_option (\<lambda>f. f\<lparr>mtimeMs := clock w\<rparr>) (disk w)\<rparr>)
   | _ \<Rightarrow> w)"

definition release_step :: "nat \<Rightarrow> lock_world \<Rightarrow> lock_world" where
  "release_step p w = (case pcs w p of
     Holding token i \<Rightarrow> if readLockOwner w = Some token then set_pc p (Unlinking token i) w
       else set_pc p Idle w
   | Unlinking token i \<Rightarrow> set_pc p Idle (w\<lparr>disk := None\<rparr>)
   | _ \<Rightarrow> w)"

datatype lock_event =
    Tick int
  | Start nat string
  | Acquire nat bool
  | Refresh nat
  | Release nat

inductive lock_step :: "lock_config \<Rightarrow> lock_world \<Rightarrow> lock_event \<Rightarrow> lock_world \<Rightarrow> bool" for cfg where
  tick: "0 \<le> d \<Longrightarrow> lock_step cfg w (Tick d) (w\<lparr>clock := clock w + d\<rparr>)"
| start: "pcs w p = Idle \<Longrightarrow> lock_step cfg w (Start p token) (set_pc p (Opening token (clock w)) w)"
| acquire: "lock_step cfg w (Acquire p b) (acquire_step cfg b p w)"
| refresh: "lock_step cfg w (Refresh p) (refresh_step p w)"
| release: "lock_step cfg w (Release p) (release_step p w)"

inductive lock_run :: "lock_config \<Rightarrow> lock_world \<Rightarrow> lock_event list \<Rightarrow> lock_world \<Rightarrow> bool" for cfg where
  stop: "lock_run cfg w [] w"
| step: "lock_step cfg w ev w' \<Longrightarrow> lock_run cfg w' evs w'' \<Longrightarrow> lock_run cfg w (ev # evs) w''"

inductive_cases lock_stepE: "lock_step cfg w ev w'"
inductive_simps lock_run_simps: "lock_run cfg w [] w'" "lock_run cfg w (ev # evs) w'"

definition lock_init :: lock_world where
  "lock_init = \<lparr>clock = 0, disk = None, next_ino = 0, pcs = (\<lambda>_. Idle)\<rparr>"

text \<open>The processes that have created a lock file and not yet given it up.\<close>

fun section_ino :: "lock_pc \<Rightarrow> nat option" where
  "section_ino (Writing _ i) = Some i"
| "section_ino (Holding _ i) = Some i"
| "section_ino (Refreshing _ i) = Some i"
| "section_ino (Unlinking _ i) = Some i"
| "section_ino _ = None"

definition inside :: "lock_world \<Rightarrow> nat \<Rightarrow> bool" where
  "inside w p = (section_ino (pcs w p) \<noteq> None)"

text \<open>
  The contract of the lock's users: the lock file is never left without a refresh for as long as
  the stale time.  \<open>young_reach\<close> are the states of the runs that keep it.
\<close>

definition young :: "lock_config \<Rightarrow> lock_world \<Rightarrow> bool" where
  "young cfg w = (case disk w of Some f \<Rightarrow> clock w - mtimeMs f < staleMs cfg | None \<Rightarrow> True)"

inductive young_reach :: "lock_config \<Rightarrow> lock_world \<Rightarrow> bool" for cfg where
  init: "young_reach cfg lock_init"
| move: "young_reach cfg w \<Longrightarrow> young cfg w \<Longrightarrow> lock_step cfg w ev w' \<Longrightarrow> young_reach cfg w'"

section \<open>Mutual exclusion\<close>

text \<open>No process has found the lock stale, and none has looked at the clock ahead of time.\<close>

fun calm :: "int \<Rightarrow> lock_pc \<Rightarrow> bool" where
  "calm t (Blocked _ _ now) = (now \<le> t)"
| "calm t (Stale_once _ _ _ _ _) = False"
| "calm t (Stale_twice _ _) = False"
| "calm t _ = True"

fun held_token :: "lock_pc \<Rightarrow> string option" where
  "held_token (Holding t _) = Some t"
| "held_token (Refreshing t _) = Some t"
| "held_token (Unlinking t _) = Some t"
| "held_token _ = None"

text \<open>A process inside owns the file on disk, which names it once the token is written.\<close>

definition owns :: "lock_file option \<Rightarrow> lock_pc \<Rightarrow> bool" where
  "owns d c = (case section_ino c of None \<Rightarrow> True | Some i \<Rightarrow>
     (case d of None \<Rightarrow> False
      | Some f \<Rightarrow> ino f = i \<and> (case held_token c of None \<Rightarrow> True | Some t \<Rightarrow> lock_token f = Some t)))"

definition lock_inv :: "lock_world \<Rightarrow> bool" where
  "lock_inv w = ((\<forall>p. calm (clock w) (pcs w p) \<and> owns (disk w) (pcs w p))
     \<and> (\<forall>p q. inside w p \<and> inside w q \<longrightarrow> p = q))"

lemma set_pc_simps [simp]:
  "pcs (set_pc p c w) = (pcs w)(p := c)" "disk (set_pc p c w) = disk w" "clock (set_pc p c w) = clock w"
  by (simp_all add: set_pc_def)

lemma outside_owns: "section_ino c = None \<Longrightarrow> owns d c"
  by (simp add: owns_def)

text \<open>A process leaves, or stays outside: the disk may change only if nobody else is inside.\<close>

lemma others_own: "\<forall>q. inside w q \<longrightarrow> q = p \<Longrightarrow> r \<noteq> p \<Longrightarrow> owns d (pcs w r)"
  by (rule outside_owns) (auto simp: inside_def)

lemma inv_outside:
  assumes "lock_inv w" "section_ino c = None" "calm (clock w) c"
    and "clock w' = clock w" "pcs w' = (pcs w)(p := c)"
    and "disk w' = disk w \<or> (\<forall>q. inside w q \<longrightarrow> q = p)"
  shows "lock_inv w'"
  using assms others_own [of w p _ "disk w'"] by (auto simp: lock_inv_def inside_def outside_owns)

text \<open>A process inside makes a step and stays the owner.\<close>

lemma inv_inside:
  assumes "lock_inv w" "owns (disk w') c" "calm (clock w) c"
    and "clock w' = clock w" "pcs w' = (pcs w)(p := c)" "\<forall>q. inside w q \<longrightarrow> q = p"
  shows "lock_inv w'"
  using assms others_own [of w p _ "disk w'"] by (auto simp: lock_inv_def inside_def outside_owns)

lemma inside_unique: "lock_inv w \<Longrightarrow> inside w p \<Longrightarrow> \<forall>q. inside w q \<longrightarrow> q = p"
  by (auto simp: lock_inv_def)

lemma nobody_inside: "lock_inv w \<Longrightarrow> disk w = None \<Longrightarrow> \<not> inside w q"
  by (auto simp: lock_inv_def owns_def inside_def split: option.splits)

lemma wait_outside [simp]: "section_ino (wait_or_fail cfg t s n) = None" "calm k (wait_or_fail cfg t s n)"
  by (simp_all add: wait_or_fail_def)

lemma inv_at: "lock_inv w \<Longrightarrow> calm (clock w) (pcs w p) \<and> owns (disk w) (pcs w p)"
  by (simp add: lock_inv_def)

lemma acquire_step_inv:
  assumes inv: "lock_inv w" and y: "young cfg w"
  shows "lock_inv (acquire_step cfg b p w)"
proof (cases "pcs w p")
  case (Opening t s)
  show ?thesis
  proof (cases "disk w")
    case None
    then show ?thesis using nobody_inside [OF inv]
      by (intro inv_inside [OF inv, of _ "Writing t (next_ino w)" p])
         (simp_all add: acquire_step_def Opening owns_def)
  next
    case (Some f)
    then show ?thesis
      by (intro inv_outside [OF inv, of "Blocked t s (clock w)" _ p]) (simp_all add: acquire_step_def Opening)
  qed
next
  case (Blocked t s n)
  have "n \<le> clock w" using inv_at [OF inv, of p] by (simp add: Blocked)
  then have "acquire_step cfg b p w = set_pc p (case disk w of None \<Rightarrow> Opening t s
      | Some f \<Rightarrow> wait_or_fail cfg t s n) w"
    using y by (auto simp: acquire_step_def Blocked young_def split: option.splits)
  then show ?thesis
    by (intro inv_outside [OF inv, of "case disk w of None \<Rightarrow> Opening t s | Some f \<Rightarrow> wait_or_fail cfg t s n" _ p])
       (simp_all split: option.split)
next
  case (Writing t i)
  have in_p: "\<forall>q. inside w q \<longrightarrow> q = p" by (rule inside_unique [OF inv]) (simp add: inside_def Writing)
  show ?thesis
  proof (cases b)
    case True
    obtain f where f: "disk w = Some f" "ino f = i"
      using inv_at [OF inv, of p] by (auto simp: Writing owns_def split: option.splits)
    then show ?thesis using True
      by (intro inv_inside [OF inv _ _ _ _ in_p, of _ "Holding t i"])
         (simp_all add: acquire_step_def Writing owns_def)
  next
    case False
    then show ?thesis
      by (intro inv_outside [OF inv, of Idle _ p]) (simp_all add: acquire_step_def Writing)
  qed
next
  case (Sleeping t s u)
  show ?thesis
  proof (cases "u \<le> clock w")
    case True
    then show ?thesis
      by (intro inv_outside [OF inv, of "Opening t s" _ p]) (simp_all add: acquire_step_def Sleeping)
  qed (use inv in \<open>simp add: acquire_step_def Sleeping\<close>)
qed (use inv inv_at [OF inv, of p] in \<open>simp_all add: acquire_step_def\<close>)

lemma refresh_step_inv: "lock_inv w \<Longrightarrow> lock_inv (refresh_step p w)"
proof (cases "pcs w p")
  case (Holding t i)
  assume inv: "lock_inv w"
  have in_p: "\<forall>q. inside w q \<longrightarrow> q = p" by (rule inside_unique [OF inv]) (simp add: inside_def Holding)
  have "owns (disk w) (Refreshing t i)" using inv_at [OF inv, of p] by (simp add: Holding owns_def split: option.splits)
  then have "lock_inv (set_pc p (Refreshing t i) w)"
    by (intro inv_inside [OF inv _ _ _ _ in_p, of _ "Refreshing t i"]) simp_all
  then show ?thesis using inv by (simp add: refresh_step_def Holding)
next
  case (Refreshing t i)
  assume inv: "lock_inv w"
  have in_p: "\<forall>q. inside w q \<longrightarrow> q = p" by (rule inside_unique [OF inv]) (simp add: inside_def Refreshing)
  have "owns (map_option (\<lambda>f. f\<lparr>mtimeMs := clock w\<rparr>) (disk w)) (Holding t i)"
    using inv_at [OF inv, of p] by (simp add: Refreshing owns_def split: option.splits)
  then show ?thesis
    by (intro inv_inside [OF inv _ _ _ _ in_p, of _ "Holding t i"]) (simp_all add: refresh_step_def Refreshing)
qed (simp_all add: refresh_step_def)

lemma release_step_inv: "lock_inv w \<Longrightarrow> lock_inv (release_step p w)"
proof (cases "pcs w p")
  case (Holding t i)
  assume inv: "lock_inv w"
  have in_p: "\<forall>q. inside w q \<longrightarrow> q = p" by (rule inside_unique [OF inv]) (simp add: inside_def Holding)
  have "owns (disk w) (Unlinking t i)" using inv_at [OF inv, of p] by (simp add: Holding owns_def split: option.splits)
  then have "lock_inv (set_pc p (Unlinking t i) w)"
    by (intro inv_inside [OF inv _ _ _ _ in_p, of _ "Unlinking t i"]) simp_all
  moreover have "lock_inv (set_pc p Idle w)" by (intro inv_outside [OF inv, of Idle _ p]) simp_all
  ultimately show ?thesis using inv by (simp add: release_step_def Holding)
next
  case (Unlinking t i)
  assume inv: "lock_inv w"
  have in_p: "\<forall>q. inside w q \<longrightarrow> q = p" by (rule inside_unique [OF inv]) (simp add: inside_def Unlinking)
  show ?thesis by (intro inv_outside [OF inv, of Idle _ p]) (use in_p in \<open>simp_all add: release_step_def Unlinking\<close>)
qed (simp_all add: release_step_def)

lemma calm_later: "calm t c \<Longrightarrow> t \<le> t' \<Longrightarrow> calm t' c"
  by (cases c) auto

lemma young_reach_inv: "young_reach cfg w \<Longrightarrow> lock_inv w"
proof (induction rule: young_reach.induct)
  case init
  show ?case by (simp add: lock_inv_def lock_init_def inside_def owns_def)
next
  case (move w ev w')
  from move(3) show ?case
  proof cases
    case (tick d)
    then show ?thesis using move.IH calm_later [of "clock w"] by (simp add: lock_inv_def inside_def)
  next
    case (start p t)
    then show ?thesis
      by (intro inv_outside [OF move.IH, of "Opening t (clock w)" _ p]) simp_all
  qed (use move in \<open>simp_all add: acquire_step_inv refresh_step_inv release_step_inv\<close>)
qed

section \<open>The process lock\<close>

definition LOCK_MAX_AGE_MS :: int where "LOCK_MAX_AGE_MS = 10 * 60 * 1000"

text \<open>The answer of \<^verbatim>\<open>process.kill(pid, 0)\<close>.\<close>

datatype kill_answer = Alive | No_such_process | Other_error

text \<open>\<^verbatim>\<open>new Date(x).getTime()\<close>.\<close>

definition time_of :: "jsval \<Rightarrow> int option" where
  "time_of v = (case v of
     JNum (Fin q) \<Rightarrow> date_value (if 0 \<le> q then \<lfloor>q\<rfloor> else \<lceil>q\<rceil>)
   | JNum _ \<Rightarrow> None | JNull \<Rightarrow> Some 0 | JBool b \<Rightarrow> Some (if b then 1 else 0) | JUndef \<Rightarrow> None
   | _ \<Rightarrow> date_parse (js_to_string v))"

definition lock_payload :: "int \<Rightarrow> string \<Rightarrow> jsval" where
  "lock_payload pid startedAt = JObj [(''pid'', JNum (Fin (of_int pid))), (''startedAt'', JStr startedAt)]"

text \<open>
  One call of \<open>acquireLock\<close>, with the file before and after and the result.  An invalid start time
  compares as \<^verbatim>\<open>NaN\<close>, so the age test fails and the lock counts as stale.
\<close>

definition acquireLock ::
  "(jsval \<Rightarrow> kill_answer) \<Rightarrow> int \<Rightarrow> string \<Rightarrow> int \<Rightarrow> int \<Rightarrow> json_file \<Rightarrow> json_file \<times> bool"
where
  "acquireLock kill now startedAt pid maxAgeMs f =
     (let payload = Json (lock_payload pid startedAt) in
      case f of
        Missing \<Rightarrow> (payload, True)
      | Unparsable \<Rightarrow> (f, False)
      | Json lock \<Rightarrow>
          if lock \<in> {JNull, JUndef} then (f, False)
          else if (case time_of (js_get lock ''startedAt'') of Some t \<Rightarrow> now - t < maxAgeMs | None \<Rightarrow> False)
            then (case kill (js_get lock ''pid'') of
                Alive \<Rightarrow> (f, False) | Other_error \<Rightarrow> (f, False) | No_such_process \<Rightarrow> (payload, True))
          else (payload, True))"

definition releaseLock :: "int \<Rightarrow> json_file \<Rightarrow> json_file" where
  "releaseLock pid f = (case f of
     Json lock \<Rightarrow> if truthy lock \<and> js_get lock ''pid'' = JNum (Fin (of_int pid)) then Missing else f
   | _ \<Rightarrow> f)"

section \<open>Properties\<close>

text \<open>
  C12. Mutual exclusion: as long as the lock file is never left unrefreshed for the stale time, at
  most one process is inside, the lock file on disk is its own, and it carries its token; this
  holds after every interleaving of system calls, with failing writes and timeouts.
\<close>

theorem file_lock_mutual_exclusion:
  assumes "young_reach cfg w" "inside w p"
  shows "(\<forall>q. inside w q \<longrightarrow> q = p) \<and> owns (disk w) (pcs w p) \<and> disk w \<noteq> None"
proof -
  have inv: "lock_inv w" using assms(1) by (rule young_reach_inv)
  then have "owns (disk w) (pcs w p)" by (simp add: lock_inv_def)
  moreover have "disk w \<noteq> None" using nobody_inside [OF inv] assms(2) by blast
  ultimately show ?thesis using inside_unique [OF inv assms(2)] by blast
qed

text \<open>
  The removal of stale locks is racy: two processes that both found the same lock stale can
  both end up holding it, because the second unlinks the lock that the first just created.
\<close>

fun exec_events :: "lock_config \<Rightarrow> lock_event list \<Rightarrow> lock_world \<Rightarrow> lock_world" where
  "exec_events cfg [] w = w"
| "exec_events cfg (Tick d # evs) w = exec_events cfg evs (w\<lparr>clock := clock w + d\<rparr>)"
| "exec_events cfg (Start p t # evs) w = exec_events cfg evs (set_pc p (Opening t (clock w)) w)"
| "exec_events cfg (Acquire p b # evs) w = exec_events cfg evs (acquire_step cfg b p w)"
| "exec_events cfg (Refresh p # evs) w = exec_events cfg evs (refresh_step p w)"
| "exec_events cfg (Release p # evs) w = exec_events cfg evs (release_step p w)"

definition race_events :: "int \<Rightarrow> lock_event list" where
  "race_events d = [Start 0 ''a'', Acquire 0 True, Acquire 0 True, Tick d,
     Start 1 ''b'', Acquire 1 True, Acquire 1 True, Acquire 1 True,
     Start 2 ''c'', Acquire 2 True, Acquire 2 True, Acquire 2 True,
     Acquire 1 True, Acquire 1 True, Acquire 1 True,
     Acquire 2 True, Acquire 2 True, Acquire 2 True]"

fun ok_events :: "lock_config \<Rightarrow> lock_event list \<Rightarrow> lock_world \<Rightarrow> bool" where
  "ok_events cfg [] w = True"
| "ok_events cfg (Tick d # evs) w = (0 \<le> d \<and> ok_events cfg evs (w\<lparr>clock := clock w + d\<rparr>))"
| "ok_events cfg (Start p t # evs) w =
     (pcs w p = Idle \<and> ok_events cfg evs (set_pc p (Opening t (clock w)) w))"
| "ok_events cfg (Acquire p b # evs) w = ok_events cfg evs (acquire_step cfg b p w)"
| "ok_events cfg (Refresh p # evs) w = ok_events cfg evs (refresh_step p w)"
| "ok_events cfg (Release p # evs) w = ok_events cfg evs (release_step p w)"

lemma exec_lock_run: "ok_events cfg evs w \<Longrightarrow> lock_run cfg w evs (exec_events cfg evs w)"
  by (induction cfg evs w rule: ok_events.induct) (auto intro: lock_run.intros lock_step.intros)

theorem stale_removal_race:
  "\<exists>evs w. lock_run (lock_options JUndef) lock_init evs w
     \<and> (\<exists>i. pcs w 1 = Holding ''b'' i) \<and> (\<exists>j. pcs w 2 = Holding ''c'' j)"
proof -
  let ?cfg = "lock_options JUndef" and ?evs = "race_events DEFAULT_LOCK_STALE_MS"
  have "ok_events ?cfg ?evs lock_init" by code_simp
  then have "lock_run ?cfg lock_init ?evs (exec_events ?cfg ?evs lock_init)" by (rule exec_lock_run)
  moreover have "pcs (exec_events ?cfg ?evs lock_init) 1 = Holding ''b'' 1" by code_simp
  moreover have "pcs (exec_events ?cfg ?evs lock_init) 2 = Holding ''c'' 2" by code_simp
  ultimately show ?thesis by blast
qed

text \<open>
  The process lock is not taken from a live owner before its age limit, is taken once the owner
  is gone or the limit passed, and is released only by the process whose id it carries.
\<close>

theorem process_lock_spec:
  assumes "f = Json (lock_payload owner started)" "date_parse started = Some t"
  shows "acquireLock kill now nowIso pid maxAge f =
      (if now - t < maxAge \<and> kill (JNum (Fin (of_int owner))) \<noteq> No_such_process then (f, False)
       else (Json (lock_payload pid nowIso), True))
    \<and> releaseLock pid f = (if pid = owner then Missing else f)"
  using assms
  by (auto simp: acquireLock_def lock_payload_def time_of_def releaseLock_def Let_def split: kill_answer.split)

theorem file_lock_mutual_exclusion_witness:
  "disk (exec_events (lock_options JUndef) [Start 0 ''a'', Acquire 0 True] lock_init) \<noteq> None"
proof -
  let ?cfg = "lock_options JUndef"
  define w1 where "w1 = exec_events ?cfg [Start 0 ''a''] lock_init"
  define w2 where "w2 = exec_events ?cfg [Start 0 ''a'', Acquire 0 True] lock_init"
  have "lock_step ?cfg lock_init (Start 0 ''a'') w1"
    unfolding w1_def exec_events.simps by (rule lock_step.start) (simp add: lock_init_def)
  moreover have "young ?cfg lock_init" by code_simp
  ultimately have "young_reach ?cfg w1" using young_reach.init young_reach.move by blast
  moreover have "lock_step ?cfg w1 (Acquire 0 True) w2"
    unfolding w1_def w2_def exec_events.simps by (rule lock_step.acquire)
  moreover have "young ?cfg w1" unfolding w1_def by code_simp
  ultimately have "young_reach ?cfg w2" using young_reach.move by blast
  moreover have "inside w2 0" unfolding w2_def by code_simp
  ultimately show ?thesis using file_lock_mutual_exclusion w2_def by blast
qed

theorem process_lock_spec_witness:
  "releaseLock 7 (Json (lock_payload 7 ''1970-01-01T00:00:00.000Z'')) = Missing"
proof -
  have "date_parse ''1970-01-01T00:00:00.000Z'' = Some 0" by code_simp
  from process_lock_spec [OF refl this, of "\<lambda>_. Alive" 0 "[]" 7 0 7] show ?thesis by simp
qed

end
