(* ===== verification/Sub_Positions.thy ===== *)
theory Sub_Positions
  imports Js_Value Js_Date
begin

text \<open>
  The ledger of sub-positions of \<^verbatim>\<open>shared/lib/runtime/sub_positions_ledger.js\<close>: order signatures,
  the entries and exits of strategies in one broker position, and the reconciliation with what
  the broker holds.

  Quantities and prices are JavaScript numbers; the descriptive fields keep the value the caller
  passed.  The ledger's file is absent, invalid, or a ledger in the shape that the module itself
  writes.  An operation runs under the file lock, so it is one atomic step here.
\<close>

section \<open>Order signatures\<close>

definition sig_char :: "char \<Rightarrow> bool" where
  "sig_char c = (is_alnum c \<or> c = CHR ''_'' \<or> c = CHR ''-'')"

definition cleanId :: "jsval \<Rightarrow> string" where
  "cleanId strategyId = to_lower (js_replace sig_char ''_'' (js_to_string strategyId))"

definition cleanTf :: "jsval \<Rightarrow> string" where
  "cleanTf timeframe = (let t = to_lower (js_replace is_alnum [] (js_to_string timeframe)) in
     if t = [] then ''1m'' else t)"

definition cleanSym :: "jsval \<Rightarrow> string" where
  "cleanSym symbol = (let t = to_upper (js_replace is_alnum [] (js_to_string symbol)) in
     if t = [] then ''POS'' else t)"

definition generateOrderSignature :: "jsval \<Rightarrow> jsval \<Rightarrow> jsval \<Rightarrow> jsval \<Rightarrow> int \<Rightarrow> string \<Rightarrow> string" where
  "generateOrderSignature strategyId timeframe src symbol timestamp hex =
     (let sid = cleanId (js_default strategyId (JStr ''manual''));
          tf = cleanTf (js_default timeframe (JStr ''1m''))
      in if js_default src (JStr ''bot'') = JStr ''manual'' \<or> sid = ''manual''
         then ''manual_cli_'' @ cleanSym (js_default symbol (JStr [])) @ ''_'' @ int_string timestamp @ ''_'' @ hex
         else ''strat_'' @ sid @ ''_'' @ tf @ ''_'' @ int_string timestamp @ ''_'' @ hex)"

record signature_meta =
  meta_source :: string
  meta_strategy :: string
  meta_symbol :: "string option"
  meta_timeframe :: "string option"
  meta_timestamp :: "jsnum option"
  meta_submitted_at :: "string option"

datatype ledger_error = Range_error | Invalid_entry | Load_failed

text \<open>\<^verbatim>\<open>new Date(n).toISOString()\<close>.\<close>

definition iso_of :: "jsnum \<Rightarrow> ledger_error + string" where
  "iso_of n = (case n of
     Fin q \<Rightarrow> (case to_iso (if 0 \<le> q then \<lfloor>q\<rfloor> else \<lceil>q\<rceil>) of Some s \<Rightarrow> Inr s | None \<Rightarrow> Inl Range_error)
   | _ \<Rightarrow> Inl Range_error)"

definition parse_meta ::
  "string \<Rightarrow> string \<Rightarrow> string option \<Rightarrow> string option \<Rightarrow> string \<Rightarrow> ledger_error + signature_meta option"
where
  "parse_meta src sid symb tf tsRaw =
     (let tsNum = string_to_number tsRaw in
      if js_is_finite tsNum \<and> js_lt (Fin 0) tsNum
      then rbind (iso_of tsNum) (\<lambda>s. Inr (Some \<lparr>meta_source = src, meta_strategy = sid, meta_symbol = symb,
             meta_timeframe = tf, meta_timestamp = Some tsNum, meta_submitted_at = Some s\<rparr>))
      else Inr (Some \<lparr>meta_source = src, meta_strategy = sid, meta_symbol = symb, meta_timeframe = tf,
             meta_timestamp = None, meta_submitted_at = None\<rparr>))"

definition parseOrderSignature :: "jsval \<Rightarrow> ledger_error + signature_meta option" where
  "parseOrderSignature sig =
     (if \<not> truthy sig \<or> \<not> is_string sig then Inr None
      else let s = js_to_string sig; parts = js_split (CHR ''_'') s; n = length parts in
        if starts_with s ''manual_cli_'' \<and> 4 \<le> n
        then parse_meta ''manual'' ''manual'' (Some (js_join ''_'' (drop 2 (take (n - 2) parts)))) None
               (parts ! (n - 2))
        else if starts_with s ''strat_'' \<and> 5 \<le> n
        then parse_meta ''bot'' (js_join ''_'' (drop 1 (take (n - 3) parts))) None (Some (parts ! (n - 3)))
               (parts ! (n - 2))
        else Inr None)"

section \<open>The ledger\<close>

record sub_position =
  sub_id :: string
  sub_symbol :: string
  strategy_id :: jsval
  source :: jsval
  quantity :: jsnum
  entry_price :: jsnum
  timeframe :: jsval
  confidence :: jsnum
  signature :: jsval
  order_id :: jsval
  submitted_at :: jsval
  status :: string
  closed_at :: "string option"
  exit_price :: "jsnum option"

record sub_ledger =
  last_updated :: string
  positions :: "(string \<times> sub_position list) list"
  history :: "sub_position list"

datatype ledger_file = No_ledger | Bad_ledger | Ledger sub_ledger

definition loadSubPositionsLedger :: "string \<Rightarrow> ledger_file \<Rightarrow> ledger_error + sub_ledger" where
  "loadSubPositionsLedger now f = (case f of
     Ledger l \<Rightarrow> Inr l
   | Bad_ledger \<Rightarrow> Inl Load_failed
   | No_ledger \<Rightarrow> Inr \<lparr>last_updated = now, positions = [], history = []\<rparr>)"

definition saveSubPositionsLedger :: "string \<Rightarrow> sub_ledger \<Rightarrow> ledger_file" where
  "saveSubPositionsLedger now l = Ledger (l\<lparr>history := slice_last 100 (history l), last_updated := now\<rparr>)"

definition positions_of :: "sub_ledger \<Rightarrow> string \<Rightarrow> sub_position list" where
  "positions_of l symb = (case map_of (positions l) symb of Some xs \<Rightarrow> xs | None \<Rightarrow> [])"

text \<open>
  Recording an entry; \<open>nowMs\<close> is the clock, \<open>now\<close> its ISO text and \<open>hex\<close> the random suffix.
\<close>

definition make_sub_position :: "jsval \<Rightarrow> string \<Rightarrow> jsnum \<Rightarrow> int \<Rightarrow> string \<Rightarrow> string \<Rightarrow> sub_position" where
  "make_sub_position entry symb qty nowMs now hex =
     (let g = js_get entry; strategyId = g ''strategyId''; src = g ''source'' in
      \<lparr>sub_id = ''sub_'' @ symb @ ''_'' @ js_to_string (js_or strategyId (JStr ''manual'')) @ ''_'' @ int_string nowMs,
       sub_symbol = symb,
       strategy_id = js_or strategyId (if src = JStr ''manual'' then JStr ''manual'' else JStr ''unknown''),
       source = js_or src (if strategyId = JStr ''manual'' then JStr ''manual'' else JStr ''bot''),
       quantity = qty,
       entry_price = js_to_number (js_or (g ''entryPrice'') (JNum (Fin 0))),
       timeframe = js_or (g ''timeframe'') (JStr ''1m''),
       confidence = js_to_number (js_or (g ''confidence'') (JNum (Fin 1))),
       signature = js_or (g ''signature'') (JStr (generateOrderSignature strategyId (g ''timeframe'') src
         (JStr symb) nowMs hex)),
       order_id = js_or (g ''orderId'') (JStr []),
       submitted_at = js_or (g ''submittedAt'') (JStr now),
       status = ''open'', closed_at = None, exit_price = None\<rparr>)"

definition recordSubPositionEntry ::
  "jsval \<Rightarrow> int \<Rightarrow> string \<Rightarrow> string \<Rightarrow> ledger_file \<Rightarrow> ledger_error + (sub_position \<times> ledger_file)"
where
  "recordSubPositionEntry entry nowMs now hex f =
     (let symb = to_upper (text_of (js_get entry ''symbol''));
          qty = js_to_number (js_get entry ''quantity'') in
      if symb = [] \<or> \<not> js_is_finite qty \<or> js_le qty (Fin 0) then Inl Invalid_entry
      else rbind (loadSubPositionsLedger now f) (\<lambda>l.
        let subPos = make_sub_position entry symb qty nowMs now hex;
            l' = l\<lparr>positions := AList.update symb (positions_of l symb @ [subPos]) (positions l)\<rparr>
        in Inr (subPos, saveSubPositionsLedger now l')))"

text \<open>
  The exit loop runs from the last sub-position to the first, so it gets the list reversed; it
  returns the list that is left, still reversed, the quantity totalClosed and the history.
\<close>

definition EPS :: jsnum where "EPS = fl (1 / 100000000)"

definition matches :: "jsval \<Rightarrow> sub_position \<Rightarrow> bool" where
  "matches strategyId sub = (strategy_id sub = strategyId \<and> status sub = ''open'')"

fun exit_loop ::
  "jsval \<Rightarrow> string \<Rightarrow> jsnum \<Rightarrow> sub_position list \<Rightarrow> jsnum \<Rightarrow> jsnum \<Rightarrow> sub_position list
   \<Rightarrow> sub_position list \<times> jsnum \<times> sub_position list"
where
  "exit_loop strategyId now price [] remaining totalClosed hist = ([], totalClosed, hist)"
| "exit_loop strategyId now price (sub # rest) remaining totalClosed hist =
     (let (kept, remaining', totalClosed', hist') =
        (if matches strategyId sub then
           (if js_le (quantity sub) (js_add remaining EPS) then
              let done = sub\<lparr>status := ''closed'', closed_at := Some now, exit_price := Some price\<rparr> in
              ([], js_sub remaining (quantity sub), js_add totalClosed (quantity sub), hist @ [done])
            else
              let sub' = sub\<lparr>quantity := js_max (Fin 0) (js_sub (quantity sub) remaining)\<rparr> in
              ([sub'], Fin 0, js_add totalClosed remaining,
               hist @ [sub'\<lparr>quantity := remaining, status := ''partially_closed'', closed_at := Some now,
                 exit_price := Some price\<rparr>]))
         else ([sub], remaining, totalClosed, hist))
      in if js_le remaining' (Fin 0) then (kept @ rest, totalClosed', hist')
         else let (rest', totalClosed'', hist'') = exit_loop strategyId now price rest remaining' totalClosed' hist'
           in (kept @ rest', totalClosed'', hist''))"

definition recordSubPositionExit ::
  "jsval \<Rightarrow> jsval \<Rightarrow> jsval \<Rightarrow> jsval \<Rightarrow> string \<Rightarrow> ledger_file \<Rightarrow> ledger_error + (jsnum \<times> ledger_file)"
where
  "recordSubPositionExit symbol strategyId quantityToClose exitMeta now f =
     (let qtyToClose = js_to_number quantityToClose in
      if \<not> js_is_finite qtyToClose \<or> js_le qtyToClose (Fin 0) then Inr (Fin 0, f)
      else let symb = to_upper (text_of symbol) in
        rbind (loadSubPositionsLedger now f) (\<lambda>l.
          let subs = positions_of l symb in
          if subs = [] then Inr (Fin 0, f)
          else let (left, totalClosed, hist) = exit_loop strategyId now
                   (js_to_number (js_or (js_get exitMeta ''exitPrice'') (JNum (Fin 0))))
                   (rev subs) qtyToClose (Fin 0) (history l);
                 ps = (if left = [] then AList.delete symb (positions l)
                       else AList.update symb (rev left) (positions l))
            in Inr (totalClosed, saveSubPositionsLedger now (l\<lparr>positions := ps, history := hist\<rparr>))))"

section \<open>Reconciliation\<close>

record item =
  item_sub_id :: string
  item_strategy_id :: jsval
  item_source :: string
  item_quantity :: jsnum
  item_averagePrice :: jsnum
  item_marketValue :: jsnum
  item_unrealizedPl :: jsnum
  item_confidence :: jsval
  item_timeframe :: jsval
  item_signature :: jsval
  item_submittedAt :: jsval

record reconciled =
  rec_symbol :: string
  rec_quantity :: jsnum
  rec_qty_available :: jsnum
  rec_averagePrice :: jsnum
  rec_marketValue :: jsnum
  rec_unrealizedPl :: jsnum
  subPositions :: "item list"

text \<open>\<^verbatim>\<open>Number(x || 0)\<close> of a number, and \<^verbatim>\<open>Number(a || b || 0)\<close> of two members.\<close>

definition num_or :: "jsnum \<Rightarrow> jsnum \<Rightarrow> jsnum" where
  "num_or x d = (if truthy (JNum x) then x else d)"

definition number_field :: "jsval \<Rightarrow> string \<Rightarrow> string \<Rightarrow> jsnum" where
  "number_field v k k' = js_to_number (js_or (js_get v k) (js_or (js_get v k') (JNum (Fin 0))))"

definition or_null :: "jsval \<Rightarrow> jsval" where
  "or_null v = js_or v JNull"

definition is_bot :: "sub_position \<Rightarrow> bool" where
  "is_bot sub = (source sub = JStr ''bot'' \<or> (truthy (strategy_id sub) \<and> strategy_id sub \<noteq> JStr ''manual''))"

definition bot_item :: "jsnum \<Rightarrow> jsnum \<Rightarrow> sub_position \<Rightarrow> item" where
  "bot_item avgPrice currentPrice sub =
     (let subQty = num_or (quantity sub) (Fin 0); subEntryPrice = num_or (entry_price sub) avgPrice in
      \<lparr>item_sub_id = sub_id sub, item_strategy_id = strategy_id sub, item_source = ''bot'',
       item_quantity = subQty, item_averagePrice = subEntryPrice,
       item_marketValue = js_mul subQty currentPrice,
       item_unrealizedPl = js_mul (js_sub currentPrice subEntryPrice) subQty,
       item_confidence = or_null (JNum (confidence sub)), item_timeframe = or_null (timeframe sub),
       item_signature = or_null (signature sub), item_submittedAt = or_null (submitted_at sub)\<rparr>)"

definition reconcile_one :: "int \<Rightarrow> sub_ledger \<Rightarrow> jsval \<Rightarrow> reconciled" where
  "reconcile_one nowMs l bp =
     (let symb = to_upper (text_of (js_get bp ''symbol''));
          brokerQty = js_max (Fin 0) (js_to_number (js_or (js_get bp ''quantity'') (JNum (Fin 0))));
          avail = js_get bp ''qty_available'';
          brokerQtyAvailable = (if avail \<notin> {JUndef, JNull} \<and> js_is_finite (js_to_number avail)
            then js_to_number avail else brokerQty);
          avgPrice = number_field bp ''averagePrice'' ''average_price'';
          marketVal = number_field bp ''marketValue'' ''market_value'';
          unrPl = number_field bp ''unrealizedPl'' ''unrealized_pl'';
          currentPrice = (if js_lt (Fin 0) brokerQty then js_div marketVal brokerQty else avgPrice);
          subList = filter (\<lambda>s. status s = ''open'') (positions_of l symb);
          itemized = map (bot_item avgPrice currentPrice) (filter is_bot subList);
          claimedBotQty = fold (\<lambda>i acc. js_add acc (item_quantity i)) itemized (Fin 0);
          residualManualQty = js_max (Fin 0) (js_sub brokerQty claimedBotQty);
          manualQty = (if js_lt (Fin 0) residualManualQty then residualManualQty else brokerQty);
          entry = find (\<lambda>s. source s = JStr ''manual'' \<or> strategy_id s = JStr ''manual'') subList;
          manual = \<lparr>item_sub_id = (case entry of
                Some s \<Rightarrow> if sub_id s \<noteq> [] then sub_id s else ''sub_'' @ symb @ ''_manual_residual''
              | None \<Rightarrow> ''sub_'' @ symb @ ''_manual_residual''),
            item_strategy_id = JStr ''manual'', item_source = ''manual'', item_quantity = manualQty,
            item_averagePrice = avgPrice, item_marketValue = js_mul manualQty currentPrice,
            item_unrealizedPl = js_mul (js_sub currentPrice avgPrice) manualQty,
            item_confidence = JNum (Fin 1), item_timeframe = JStr ''manual'',
            item_signature = js_or (case entry of Some s \<Rightarrow> signature s | None \<Rightarrow> JUndef)
              (JStr (''manual_cli_'' @ symb @ ''_'' @ int_string nowMs)),
            item_submittedAt = js_or (case entry of Some s \<Rightarrow> submitted_at s | None \<Rightarrow> JUndef)
              (or_null (js_get bp ''submittedAt''))\<rparr>
      in \<lparr>rec_symbol = symb, rec_quantity = brokerQty, rec_qty_available = brokerQtyAvailable,
          rec_averagePrice = avgPrice, rec_marketValue = marketVal, rec_unrealizedPl = unrPl,
          subPositions = (if js_lt (Fin 0) residualManualQty \<or> itemized = []
            then manual # itemized else itemized)\<rparr>)"

definition reconcilePositions ::
  "int \<Rightarrow> string \<Rightarrow> jsval list \<Rightarrow> ledger_file \<Rightarrow> ledger_error + reconciled list"
where
  "reconcilePositions nowMs now brokerPositions f =
     rbind (loadSubPositionsLedger now f) (\<lambda>l. Inr (map (reconcile_one nowMs l) brokerPositions))"

section \<open>Signatures round trip\<close>

lemma to_lower_set: "c \<in> set (to_lower s) \<Longrightarrow> \<exists>d \<in> set s. c = lower_char d"
  by (auto simp: to_lower_def)

lemma cleanTf_alnum: "\<forall>c \<in> set (cleanTf v). is_alnum c"
proof -
  have "is_alnum (lower_char c)" if "is_alnum c" for c
    using that by (auto simp: js_eval)
  then have "\<forall>c \<in> set (to_lower (js_replace is_alnum [] s)). is_alnum c" for s
    using set_js_replace [of _ is_alnum "[]"] by (fastforce dest!: to_lower_set)
  moreover have "\<forall>c \<in> set ''1m''. is_alnum c" by (simp add: js_eval)
  ultimately show ?thesis by (auto simp: cleanTf_def Let_def)
qed

lemma cleanSym_alnum: "\<forall>c \<in> set (cleanSym v). is_alnum c"
proof -
  have "is_alnum (upper_char c)" if "is_alnum c" for c
    using that by (auto simp: js_eval)
  then have "\<forall>c \<in> set (to_upper (js_replace is_alnum [] s)). is_alnum c" for s
    using set_js_replace [of _ is_alnum "[]"] by (fastforce simp: to_upper_def)
  moreover have "\<forall>c \<in> set ''POS''. is_alnum c" by (simp add: js_eval)
  ultimately show ?thesis by (auto simp: cleanSym_def Let_def)
qed

lemma alnum_no_underscore: "\<forall>c \<in> set s. is_alnum c \<Longrightarrow> CHR ''_'' \<notin> set s"
  by (auto simp: js_eval)

lemma int_string_no_underscore: "0 \<le> n \<Longrightarrow> CHR ''_'' \<notin> set (int_string n)"
  using dec_string_digits [of n "CHR ''_''"] by (auto simp: int_string_def js_eval)

lemma string_to_number_int_string:
  assumes "0 < n" "n < 2 ^ 53" shows "string_to_number (int_string n) = Fin (of_int n)"
proof -
  have d: "\<forall>c \<in> set (dec_string n). is_digit c" using assms(1) dec_string_digits [of n] by (simp add: less_imp_le)
  have tw: "takeWhile is_digit (dec_string n) = dec_string n" "dropWhile is_digit (dec_string n) = []"
    using d by (auto simp: takeWhile_eq_all_conv dropWhile_eq_Nil_conv)
  have trim: "js_trim (dec_string n) = dec_string n"
    by (rule trim_no_space) (use d in \<open>auto simp: list_all_iff js_eval\<close>)
  obtain c r where cr: "dec_string n = c # r" by (cases "dec_string n") auto
  have c: "is_digit c" using d cr by simp
  have ns: "\<not> starts_with (dec_string n) ''-''" "\<not> starts_with (dec_string n) ''+''"
    using c cr by (auto simp: starts_with_def js_eval)
  have "to_lower (take 2 (dec_string n)) = take 2 (dec_string n)"
    using d by (auto simp: to_lower_def js_eval intro!: map_idI dest!: in_set_takeD)
  then have p: "to_lower (take 2 (dec_string n)) \<noteq> [CHR ''0'', z]" if "\<not> is_digit z" for z
    using d that in_set_takeD [of z 2 "dec_string n"] by auto
  have nd: "\<not> is_digit CHR ''x''" "\<not> is_digit CHR ''o''" "\<not> is_digit CHR ''b''" "\<not> is_digit CHR ''I''"
    by (simp_all add: js_eval)
  have inf: "dec_string n \<noteq> ''Infinity''" using c cr nd(4) by auto
  have "parse_udecimal (dec_string n) = Some (of_int n)"
    using assms by (simp add: parse_udecimal_def tw starts_with_def parse_exponent_def pow10_def Let_def)
  moreover have "int_string n = dec_string n" using assms by (simp add: int_string_def)
  ultimately show ?thesis
    using p nd ns inf fl_of_int [of n] assms
    by (simp add: string_to_number_def trim Let_def parse_decimal_def)
qed

lemma parse_meta_valid:
  assumes "0 < ts" "to_iso ts = Some d"
  shows "parse_meta src sid sy tf (int_string ts) = Inr (Some \<lparr>meta_source = src, meta_strategy = sid,
     meta_symbol = sy, meta_timeframe = tf, meta_timestamp = Some (Fin (of_int ts)), meta_submitted_at = Some d\<rparr>)"
proof -
  have "\<bar>ts\<bar> \<le> max_time" using assms(2) by (simp add: to_iso_def split: if_splits)
  then have "ts < 2 ^ 53" by (simp add: max_time_def)
  then show ?thesis
    using assms string_to_number_int_string [of ts]
    by (simp add: parse_meta_def Let_def iso_of_def)
qed

lemma js_split_concat: "js_split c (m @ c # t) = js_split c m @ js_split c t"
  by (induction m) (auto split: list.splits)

text \<open>The parts of a signature, around a middle one that may itself contain separators.\<close>

lemma split_around:
  assumes "c \<notin> set a" "c \<notin> set x" "c \<notin> set y" "c \<notin> set z"
  shows "js_split c (a @ c # m @ c # x @ c # y @ c # z) = a # js_split c m @ [x, y, z]"
  using assms by (simp add: js_split_append js_split_concat js_split_no_sep)

section \<open>Whole units\<close>

text \<open>
  The accounting in doubles is exact on whole units: quantities that are positive integers below
  two to the 51.
\<close>

definition units :: "sub_position \<Rightarrow> int" where
  "units s = (case quantity s of Fin q \<Rightarrow> \<lfloor>q\<rfloor> | _ \<Rightarrow> 0)"

definition whole :: "sub_position \<Rightarrow> bool" where
  "whole s = (quantity s = Fin (of_int (units s)) \<and> 0 < units s \<and> units s < 2 ^ 51)"

definition open_units :: "jsval \<Rightarrow> sub_position list \<Rightarrow> int" where
  "open_units strategyId xs = sum_list (map units (filter (matches strategyId) xs))"

lemma EPS_bounds: "\<exists>e. EPS = Fin e \<and> 0 \<le> e \<and> e \<le> 1 / 2"
proof -
  have "js_le (fl 0) EPS" unfolding EPS_def by (rule fl_mono) simp
  moreover have "js_le EPS (fl (of_int 1 / 2))" unfolding EPS_def by (rule fl_mono) simp
  moreover have "fl (of_int 1 / 2) = Fin (1 / 2)" using fl_half [of 1] by simp
  ultimately have "js_le (Fin 0) EPS" "js_le EPS (Fin (1 / 2))" by (simp_all only: fl_0)
  moreover have "\<exists>e. x = Fin e \<and> 0 \<le> e \<and> e \<le> 1 / 2" if "js_le (Fin 0) x" "js_le x (Fin (1 / 2))" for x
    using that by (cases x) (simp_all add: js_le_def)
  ultimately show ?thesis by blast
qed

lemma within_tolerance:
  assumes "0 < r" "r < 2 ^ 51"
  shows "js_le (Fin (of_int n)) (js_add (Fin (of_int r)) EPS) \<longleftrightarrow> n \<le> r"
proof -
  obtain e where e: "EPS = Fin e" "0 \<le> e" "e \<le> 1 / 2" using EPS_bounds by blast
  obtain q where q: "fl (of_int r + e) = Fin q" "of_int r \<le> q" "q < of_int r + 1"
    using binary64.rnd_tolerance [OF e(2,3), of r] assms by auto
  have "of_int n \<le> q \<longleftrightarrow> n \<le> r"
  proof
    assume "of_int n \<le> q"
    then have "(of_int n :: rat) < of_int (r + 1)" using q(3) by simp
    then show "n \<le> r" using of_int_less_iff zless_add1_eq by auto
  next
    assume "n \<le> r"
    then have "(of_int n :: rat) \<le> of_int r" by simp
    with q(2) show "of_int n \<le> q" by linarith
  qed
  then show ?thesis by (simp add: e q(1))
qed

lemma open_units_nonneg: "\<forall>s \<in> set xs. matches a s \<longrightarrow> whole s \<Longrightarrow> 0 \<le> open_units a xs"
  by (induction xs) (auto simp: open_units_def whole_def)

lemma open_units_Cons:
  "open_units a (s # xs) = (if matches a s then units s else 0) + open_units a xs"
  by (simp add: open_units_def)

lemma open_units_rev: "open_units a (rev xs) = open_units a xs"
  by (simp add: open_units_def rev_filter [symmetric] rev_map [symmetric] sum_list_rev)

declare exit_loop.simps(2) [simp del]

lemma exit_loop_skip:
  assumes "\<not> matches a s" "0 < r"
  shows "exit_loop a now price (s # xs) (Fin (of_int r)) t hist =
    (let (rest, t', h) = exit_loop a now price xs (Fin (of_int r)) t hist in (s # rest, t', h))"
  using assms by (simp add: exit_loop.simps(2))

lemma exit_loop_full:
  fixes now :: string and price :: jsnum
  assumes m: "matches a s" and q: "quantity s = Fin (of_int n)" "0 < n" "n \<le> r"
    and b: "r < 2 ^ 51" "0 \<le> t" "t + r < 2 ^ 51"
  defines "d \<equiv> s\<lparr>status := ''closed'', closed_at := Some now, exit_price := Some price\<rparr>"
  shows "exit_loop a now price (s # xs) (Fin (of_int r)) (Fin (of_int t)) hist =
    (if r = n then (xs, Fin (of_int (t + n)), hist @ [d])
     else exit_loop a now price xs (Fin (of_int (r - n))) (Fin (of_int (t + n))) (hist @ [d]))"
proof -
  have "js_le (quantity s) (js_add (Fin (of_int r)) EPS)"
    unfolding q(1) using q b within_tolerance [of r n] by simp
  moreover have "js_sub (Fin (of_int r)) (quantity s) = Fin (of_int (r - n))"
    unfolding q(1) using q b by (intro js_sub_int) auto
  moreover have "js_add (Fin (of_int t)) (quantity s) = Fin (of_int (t + n))"
    unfolding q(1) using q b by (intro js_add_int) auto
  moreover have "js_le (Fin (of_int (r - n))) (Fin 0) \<longleftrightarrow> r = n" using q(3) by simp
  ultimately show ?thesis
    unfolding exit_loop.simps(2) d_def using m
    by (simp add: case_prod_unfold del: of_int_diff of_int_add js_le_Fin)
qed

lemma exit_loop_part:
  fixes now :: string and price :: jsnum
  assumes m: "matches a s" and q: "quantity s = Fin (of_int n)" "r < n" "n < 2 ^ 51"
    and b: "0 < r" "0 \<le> t" "t + r < 2 ^ 51"
  defines "s' \<equiv> s\<lparr>quantity := Fin (of_int (n - r))\<rparr>"
  shows "exit_loop a now price (s # xs) (Fin (of_int r)) (Fin (of_int t)) hist =
    (s' # xs, Fin (of_int (t + r)), hist @ [s'\<lparr>quantity := Fin (of_int r),
      status := ''partially_closed'', closed_at := Some now, exit_price := Some price\<rparr>])"
proof -
  have "\<not> js_le (quantity s) (js_add (Fin (of_int r)) EPS)"
    unfolding q(1) using q b within_tolerance [of r n] by simp
  moreover have "js_sub (quantity s) (Fin (of_int r)) = Fin (of_int (n - r))"
    unfolding q(1) using q b by (intro js_sub_int) auto
  moreover have "js_max (Fin 0) (Fin (of_int (n - r))) = Fin (of_int (n - r))"
    using q(2) by (simp add: max_def)
  moreover have "js_add (Fin (of_int t)) (Fin (of_int r)) = Fin (of_int (t + r))"
    using b by (intro js_add_int) auto
  ultimately show ?thesis
    unfolding exit_loop.simps(2) s'_def using m
    by (simp add: case_prod_unfold del: of_int_diff of_int_add js_add.simps js_max_Fin)
qed

text \<open>What the loop does to the list: \<open>closed_by r\<close> relates a list to what is left of it.\<close>

definition closes ::
  "jsval \<Rightarrow> int \<Rightarrow> sub_position list \<Rightarrow> sub_position list \<Rightarrow> sub_position list \<Rightarrow> bool"
where
  "closes a r xs rest recs = (open_units a rest = open_units a xs - min r (open_units a xs)
     \<and> filter (\<lambda>s. \<not> matches a s) rest = filter (\<lambda>s. \<not> matches a s) xs
     \<and> sum_list (map units recs) = min r (open_units a xs))"

lemma exit_loop_whole:
  assumes "\<forall>s \<in> set xs. matches a s \<longrightarrow> whole s" "0 < r" "r < 2 ^ 51" "0 \<le> t" "t + r < 2 ^ 51"
  shows "\<exists>rest recs. exit_loop a now price xs (Fin (of_int r)) (Fin (of_int t)) hist
        = (rest, Fin (of_int (t + min r (open_units a xs))), hist @ recs) \<and> closes a r xs rest recs"
  using assms
proof (induction xs arbitrary: r t hist)
  case Nil
  then show ?case by (simp add: open_units_def closes_def)
next
  case (Cons s xs)
  have nn: "0 \<le> open_units a xs" using Cons.prems(1) by (intro open_units_nonneg) simp
  have wh: "\<forall>s \<in> set xs. matches a s \<longrightarrow> whole s" using Cons.prems(1) by simp
  define n where "n = units s"
  consider (skip) "\<not> matches a s" | (part) "matches a s" "r < n" | (last) "matches a s" "r = n"
    | (full) "matches a s" "n < r" by linarith
  then show ?case
  proof cases
    case skip
    from Cons.IH [OF wh Cons.prems(2-5), of hist] skip exit_loop_skip [OF skip Cons.prems(2)] show ?thesis
      by (auto simp: open_units_Cons closes_def)
  next
    case part
    then have q: "quantity s = Fin (of_int n)" "n < 2 ^ 51" using Cons.prems(1) by (auto simp: whole_def n_def)
    show ?thesis unfolding exit_loop_part [OF part(1) q(1) part(2) q(2) Cons.prems(2,4,5)]
      using part nn n_def by (simp add: open_units_Cons closes_def matches_def units_def del: of_int_diff)
  next
    case last
    then have q: "quantity s = Fin (of_int n)" "0 < n" using Cons.prems(1) by (auto simp: whole_def n_def)
    have "n \<le> r" using last by simp
    then show ?thesis unfolding exit_loop_full [OF last(1) q \<open>n \<le> r\<close> Cons.prems(3-5)]
      using last nn n_def by (simp add: open_units_Cons closes_def units_def)
  next
    case full
    then have q: "quantity s = Fin (of_int n)" "0 < n" using Cons.prems(1) by (auto simp: whole_def n_def)
    define d where "d = s\<lparr>status := ''closed'', closed_at := Some now, exit_price := Some price\<rparr>"
    have "0 < r - n" "r - n < 2 ^ 51" "0 \<le> t + n" "(t + n) + (r - n) < 2 ^ 51"
      using full q Cons.prems by simp_all
    from Cons.IH [OF wh this, of "hist @ [d]"] obtain rest recs where
      ih: "exit_loop a now price xs (Fin (of_int (r - n))) (Fin (of_int (t + n))) (hist @ [d])
          = (rest, Fin (of_int (t + n + min (r - n) (open_units a xs))), (hist @ [d]) @ recs)"
      and cl: "closes a (r - n) xs rest recs" by blast
    have eq: "t + n + min (r - n) (open_units a xs) = t + min r (open_units a (s # xs))"
      using full n_def by (simp add: open_units_Cons min_def)
    have "exit_loop a now price (s # xs) (Fin (of_int r)) (Fin (of_int t)) hist
        = (rest, Fin (of_int (t + min r (open_units a (s # xs)))), hist @ (d # recs))"
      using ih full(2) unfolding exit_loop_full [OF full(1) q less_imp_le [OF full(2)] Cons.prems(3-5)]
        d_def [symmetric] eq by simp
    moreover have "units d = n" by (simp add: d_def units_def n_def)
    ultimately show ?thesis using cl full n_def
      by (intro exI [of _ rest] exI [of _ "d # recs"]) (auto simp: closes_def open_units_Cons min_def)
  qed
qed

section \<open>Properties\<close>

text \<open>
  Signatures round trip: parsing the signature of an order gives back the cleaned strategy (or
  that it is manual), the cleaned timeframe or symbol, and the time.
\<close>

theorem parse_generate:
  assumes ts: "0 < ts" "to_iso ts = Some d" and hex: "CHR ''_'' \<notin> set hex"
  shows "parseOrderSignature (JStr (generateOrderSignature sid tf src symbol ts hex)) = Inr (Some
    (if js_default src (JStr ''bot'') = JStr ''manual'' \<or> cleanId (js_default sid (JStr ''manual'')) = ''manual''
     then \<lparr>meta_source = ''manual'', meta_strategy = ''manual'',
       meta_symbol = Some (cleanSym (js_default symbol (JStr []))), meta_timeframe = None,
       meta_timestamp = Some (Fin (of_int ts)), meta_submitted_at = Some d\<rparr>
     else \<lparr>meta_source = ''bot'', meta_strategy = cleanId (js_default sid (JStr ''manual'')),
       meta_symbol = None, meta_timeframe = Some (cleanTf (js_default tf (JStr ''1m''))),
       meta_timestamp = Some (Fin (of_int ts)), meta_submitted_at = Some d\<rparr>))"
proof -
  let ?id = "cleanId (js_default sid (JStr ''manual''))" and ?tf = "cleanTf (js_default tf (JStr ''1m''))"
    and ?sy = "cleanSym (js_default symbol (JStr []))"
  have u: "CHR ''_'' \<notin> set (int_string ts)" "CHR ''_'' \<notin> set ?tf" "CHR ''_'' \<notin> set ?sy"
    using ts(1) by (simp_all add: int_string_no_underscore alnum_no_underscore cleanTf_alnum cleanSym_alnum)
  show ?thesis
  proof (cases "js_default src (JStr ''bot'') = JStr ''manual'' \<or> ?id = ''manual''")
    case True
    define s where "s = generateOrderSignature sid tf src symbol ts hex"
    have s: "s = ''manual'' @ CHR ''_'' # ''cli'' @ CHR ''_'' # ?sy @ CHR ''_'' # int_string ts @ CHR ''_'' # hex"
      using True by (simp add: s_def generateOrderSignature_def Let_def)
    have "js_split (CHR ''_'') s = [''manual'', ''cli'', ?sy, int_string ts, hex]"
      unfolding s using u hex by (simp add: js_split_append js_split_no_sep)
    moreover have "starts_with s ''manual_cli_''" "s \<noteq> []" by (simp_all add: s starts_with_iff)
    ultimately show ?thesis using True ts parse_meta_valid [OF ts]
      unfolding s_def [symmetric] by (simp add: parseOrderSignature_def Let_def is_string_def)
  next
    case False
    define s where "s = generateOrderSignature sid tf src symbol ts hex"
    have s: "s = ''strat'' @ CHR ''_'' # ?id @ CHR ''_'' # ?tf @ CHR ''_'' # int_string ts @ CHR ''_'' # hex"
      using False by (simp add: s_def generateOrderSignature_def Let_def)
    let ?ps = "js_split (CHR ''_'') ?id"
    have parts: "js_split (CHR ''_'') s = ''strat'' # ?ps @ [?tf, int_string ts, hex]"
      unfolding s using u hex by (intro split_around) simp_all
    have ne: "0 < length ?ps" by simp
    have "starts_with s ''strat_''" "s \<noteq> []" "\<not> starts_with s ''manual_cli_''"
      by (simp_all add: s starts_with_def)
    moreover have "drop 1 (take (length (js_split (CHR ''_'') s) - 3) (js_split (CHR ''_'') s)) = ?ps"
      "js_split (CHR ''_'') s ! (length (js_split (CHR ''_'') s) - 3) = ?tf"
      "js_split (CHR ''_'') s ! (length (js_split (CHR ''_'') s) - 2) = int_string ts"
      "5 \<le> length (js_split (CHR ''_'') s)"
      using ne by (simp_all add: parts nth_append nth_Cons' Suc_le_eq)
    ultimately show ?thesis using False parse_meta_valid [OF ts]
      unfolding s_def [symmetric] by (simp add: parseOrderSignature_def Let_def is_string_def js_join_split)
  qed
qed

text \<open>
  C16. An exit in whole units is conserved: it closes the smaller of what was asked and what the
  strategy has open, what the strategy has left is the difference, sub-positions of other
  strategies and other symbols are untouched, and the history stays bounded.
\<close>

theorem exit_conserves:
  assumes wh: "\<forall>s \<in> set (positions_of l (to_upper (text_of symbol))). matches a s \<longrightarrow> whole s"
    and r: "0 < r" "r < 2 ^ 51"
  shows "\<exists>l'. recordSubPositionExit symbol a (JNum (Fin (of_int r))) meta now (Ledger l)
      = Inr (Fin (of_int (min r (open_units a (positions_of l (to_upper (text_of symbol)))))), Ledger l')
    \<and> open_units a (positions_of l' (to_upper (text_of symbol)))
      = open_units a (positions_of l (to_upper (text_of symbol)))
        - min r (open_units a (positions_of l (to_upper (text_of symbol))))
    \<and> filter (\<lambda>s. \<not> matches a s) (positions_of l' (to_upper (text_of symbol)))
      = filter (\<lambda>s. \<not> matches a s) (positions_of l (to_upper (text_of symbol)))
    \<and> (\<forall>other. other = to_upper (text_of symbol) \<or> positions_of l' other = positions_of l other)
    \<and> length (history l') \<le> max 100 (length (history l))"
proof (cases "positions_of l (to_upper (text_of symbol)) = []")
  case True
  with r show ?thesis
    by (simp add: recordSubPositionExit_def Let_def loadSubPositionsLedger_def open_units_def)
next
  case False
  define sy where "sy = to_upper (text_of symbol)"
  define subs where "subs = positions_of l sy"
  define price where "price = js_to_number (js_or (js_get meta ''exitPrice'') (JNum (Fin 0)))"
  have wr: "\<forall>s \<in> set (rev subs). matches a s \<longrightarrow> whole s" using wh by (simp add: subs_def sy_def)
  from exit_loop_whole [OF wr r, of 0 now price "history l"] obtain rest recs where
    loop: "exit_loop a now price (rev subs) (Fin (of_int r)) (Fin 0) (history l)
       = (rest, Fin (of_int (min r (open_units a subs))), history l @ recs)"
    and cl: "closes a r (rev subs) rest recs" using r by (auto simp: open_units_rev)
  define ps where "ps = (if rest = [] then AList.delete sy (positions l) else AList.update sy (rev rest) (positions l))"
  define l' where "l' = l\<lparr>positions := ps, history := slice_last 100 (history l @ recs), last_updated := now\<rparr>"
  have "recordSubPositionExit symbol a (JNum (Fin (of_int r))) meta now (Ledger l)
      = Inr (Fin (of_int (min r (open_units a subs))), Ledger l')"
    using False r loop
    by (simp add: recordSubPositionExit_def Let_def loadSubPositionsLedger_def sy_def [symmetric]
        subs_def [symmetric] price_def [symmetric] saveSubPositionsLedger_def l'_def ps_def)
  moreover have pos: "positions_of l' sy = rev rest" "other \<noteq> sy \<Longrightarrow> positions_of l' other = positions_of l other" for other
    by (simp_all add: positions_of_def l'_def ps_def map_of_delete map_of_update)
  moreover have "open_units a (rev rest) = open_units a subs - min r (open_units a subs)"
    using cl by (simp add: closes_def open_units_rev)
  moreover have "filter (\<lambda>s. \<not> matches a s) (rev rest) = filter (\<lambda>s. \<not> matches a s) subs"
    using cl by (simp add: closes_def rev_filter [symmetric] rev_swap)
  moreover have "length (history l') \<le> 100" by (simp add: l'_def)
  ultimately show ?thesis unfolding sy_def [symmetric] subs_def [symmetric] by (intro exI [of _ l']) auto
qed

text \<open>
  Reconciliation in whole units accounts for every share: the itemised quantities add up to
  what the broker holds, or to what the bots claim if that is more, so no share is lost and a
  manual residual appears exactly when the broker holds more than the bots claim.
\<close>

lemma fold_whole:
  assumes "\<forall>s \<in> set xs. whole s" "0 \<le> t" "t + sum_list (map units xs) < 2 ^ 51"
  shows "fold (\<lambda>i acc. js_add acc (item_quantity i)) (map (bot_item p c) xs) (Fin (of_int t))
    = Fin (of_int (t + sum_list (map units xs)))"
  using assms
proof (induction xs arbitrary: t)
  case (Cons s xs)
  have q: "quantity s = Fin (of_int (units s))" "0 < units s" using Cons.prems by (simp_all add: whole_def)
  have nn: "0 \<le> sum_list (map units xs)" using Cons.prems(1) by (intro sum_list_nonneg) (auto simp: whole_def)
  have "js_add (Fin (of_int t)) (item_quantity (bot_item p c s)) = Fin (of_int (t + units s))"
    using q Cons.prems nn js_add_int [of t "units s"]
    by (simp add: bot_item_def Let_def num_or_def del: js_add.simps)
  then show ?case using Cons.IH [of "t + units s"] Cons.prems q by (simp add: add.assoc del: js_add.simps of_int_add)
qed simp

definition item_units :: "item \<Rightarrow> int" where
  "item_units i = (case item_quantity i of Fin q \<Rightarrow> \<lfloor>q\<rfloor> | _ \<Rightarrow> 0)"

lemma bot_item_units: "whole s \<Longrightarrow> item_units (bot_item p c s) = units s"
  by (auto simp: item_units_def bot_item_def Let_def num_or_def whole_def)

lemma ex_item: "\<exists>m :: item. item_quantity m = v"
proof -
  fix x have "item_quantity ((bot_item v v x)\<lparr>item_quantity := v\<rparr>) = v" by simp
  then show ?thesis by blast
qed

theorem reconcile_accounts:
  fixes l bp nowMs
  defines "r \<equiv> reconcile_one nowMs l bp"
  defines "bots \<equiv> filter is_bot (filter (\<lambda>s. status s = ''open'') (positions_of l (rec_symbol r)))"
  assumes q: "js_get bp ''quantity'' = JNum (Fin (of_int n))" "0 \<le> n" "n < 2 ^ 51"
    and wh: "\<forall>s \<in> set bots. whole s" and sum: "sum_list (map units bots) < 2 ^ 51"
  shows "sum_list (map item_units (subPositions r)) = max n (sum_list (map units bots))
    \<and> (length (subPositions r) = Suc (length bots) \<longleftrightarrow> sum_list (map units bots) < n \<or> bots = [])"
proof -
  define c where "c = sum_list (map units bots)"
  have c0: "0 \<le> c" unfolding c_def using wh by (intro sum_list_nonneg) (auto simp: whole_def)
  define symb where "symb = to_upper (text_of (js_get bp ''symbol''))"
  have rs: "rec_symbol r = symb" by (simp add: r_def reconcile_one_def Let_def symb_def)
  have bq: "js_max (Fin 0) (js_to_number (js_or (js_get bp ''quantity'') (JNum (Fin 0)))) = Fin (of_int n)"
    using q by (simp add: js_or_def)
  define p where "p = number_field bp ''averagePrice'' ''average_price''"
  define cp where "cp = (if js_lt (Fin 0) (Fin (of_int n)) then js_div (number_field bp ''marketValue'' ''market_value'')
    (Fin (of_int n)) else p)"
  have cl: "fold (\<lambda>i acc. js_add acc (item_quantity i)) (map (bot_item p cp) bots) (Fin 0) = Fin (of_int c)"
    using fold_whole [OF wh, of 0 p cp] sum by (simp add: c_def)
  have res: "js_max (Fin 0) (js_sub (Fin (of_int n)) (Fin (of_int c))) = Fin (of_int (max 0 (n - c)))"
    using js_sub_int [of n c] q c0 sum by (simp add: c_def)
  have bots: "filter is_bot (filter (\<lambda>s. status s = ''open'') (positions_of l symb)) = bots"
    by (simp add: bots_def rs)
  have "\<exists>m. subPositions r = (if 0 < n - c \<or> bots = [] then m # map (bot_item p cp) bots else map (bot_item p cp) bots)
      \<and> item_quantity m = Fin (of_int (if 0 < n - c then n - c else n))"
    unfolding r_def reconcile_one_def Let_def symb_def [symmetric] bq p_def [symmetric] cp_def [symmetric]
      bots cl res by (auto simp: max_def ex_item)
  then obtain m where m: "subPositions r = (if 0 < n - c \<or> bots = [] then m # map (bot_item p cp) bots
      else map (bot_item p cp) bots)" "item_units m = (if 0 < n - c then n - c else n)"
    by (auto simp: item_units_def)
  have "map item_units (map (bot_item p cp) bots) = map units bots"
    using wh by (simp add: bot_item_units)
  then have "sum_list (map item_units (map (bot_item p cp) bots)) = c" by (simp only: c_def)
  then show ?thesis using m q(2) c0 unfolding c_def [symmetric] by (auto simp: max_def c_def)
qed

text \<open>A ledger with two sub-positions of one symbol.\<close>

definition demo_entry :: "string \<Rightarrow> int \<Rightarrow> jsval" where
  "demo_entry sid n = JObj [(''symbol'', JStr ''aapl''), (''strategyId'', JStr sid), (''quantity'', JNum (Fin (of_int n)))]"

definition demo_sub :: "string \<Rightarrow> int \<Rightarrow> sub_position" where
  "demo_sub sid n = make_sub_position (demo_entry sid n) ''AAPL'' (Fin (of_int n)) 1 ''now'' ''ab12cd''"

definition demo_ledger :: sub_ledger where
  "demo_ledger = \<lparr>last_updated = ''now'',
     positions = [(''AAPL'', [demo_sub ''trend'' 5, demo_sub ''grid'' 3, demo_sub ''trend'' 2])], history = []\<rparr>"

lemma demo_symbol: "to_upper (text_of (JStr ''aapl'')) = ''AAPL''"
  by code_simp

lemma demo_positions:
  "positions_of demo_ledger ''AAPL'' = [demo_sub ''trend'' 5, demo_sub ''grid'' 3, demo_sub ''trend'' 2]"
  by (simp add: positions_of_def demo_ledger_def)

lemma demo_whole: "0 < n \<Longrightarrow> n < 2 ^ 51 \<Longrightarrow> whole (demo_sub sid n)"
  by (simp add: whole_def units_def demo_sub_def make_sub_position_def Let_def)

theorem parse_generate_witness:
  "parseOrderSignature (JStr (generateOrderSignature (JStr ''Trend_Up'') (JStr ''5m'') JUndef JUndef 1000 ''ab12cd''))
    = Inr (Some \<lparr>meta_source = ''bot'', meta_strategy = ''trend_up'', meta_symbol = None,
        meta_timeframe = Some ''5m'', meta_timestamp = Some (Fin 1000),
        meta_submitted_at = Some ''1970-01-01T00:00:01.000Z''\<rparr>)"
proof -
  have t: "to_iso 1000 = Some ''1970-01-01T00:00:01.000Z''" by code_simp
  have c: "cleanId (js_default (JStr ''Trend_Up'') (JStr ''manual'')) = ''trend_up''"
    "cleanTf (js_default (JStr ''5m'') (JStr ''1m'')) = ''5m''" by code_simp+
  have "CHR ''_'' \<notin> set ''ab12cd''" by simp
  from parse_generate [OF _ t this, of "JStr ''Trend_Up''" "JStr ''5m''" JUndef JUndef] show ?thesis
    by (simp add: c) (simp add: js_default_def)
qed

theorem exit_conserves_witness:
  "\<exists>l'. recordSubPositionExit (JStr ''aapl'') (JStr ''trend'') (JNum (Fin (of_int 4))) JUndef ''later''
      (Ledger demo_ledger) = Inr (Fin (of_int 4), Ledger l')
    \<and> open_units (JStr ''trend'') (positions_of l' ''AAPL'') = 3"
proof -
  have wh: "\<forall>s \<in> set (positions_of demo_ledger (to_upper (text_of (JStr ''aapl'')))).
      matches (JStr ''trend'') s \<longrightarrow> whole s"
    unfolding demo_symbol by (simp add: demo_positions demo_whole)
  have u: "open_units (JStr ''trend'') (positions_of demo_ledger (to_upper (text_of (JStr ''aapl'')))) = 7"
    by code_simp
  have "min 4 (7 :: int) = 4" by simp
  with exit_conserves [OF wh, of 4 JUndef "''later''"] show ?thesis
    unfolding u unfolding demo_symbol by auto
qed

theorem reconcile_accounts_witness:
  "sum_list (map item_units (subPositions (reconcile_one 1 demo_ledger
     (JObj [(''symbol'', JStr ''aapl''), (''quantity'', JNum (Fin (of_int 12)))])))) = 12"
proof -
  let ?bp = "JObj [(''symbol'', JStr ''aapl''), (''quantity'', JNum (Fin (of_int 12)))]"
  let ?bots = "filter is_bot (filter (\<lambda>s. status s = ''open'')
    (positions_of demo_ledger (rec_symbol (reconcile_one 1 demo_ledger ?bp))))"
  have sy: "rec_symbol (reconcile_one 1 demo_ledger ?bp) = ''AAPL''"
    using demo_symbol by (simp add: reconcile_one_def Let_def)
  have wh: "\<forall>s \<in> set ?bots. whole s" unfolding sy by (auto simp: demo_positions demo_whole)
  have s: "sum_list (map units ?bots) = 10" unfolding sy by code_simp
  have q: "js_get ?bp ''quantity'' = JNum (Fin (of_int 12))" by simp
  from reconcile_accounts [OF q _ _ wh] show ?thesis unfolding s by simp
qed

end
