(* ===== verification/Cluster_Coordinator.thy ===== *)
theory Cluster_Coordinator
  imports Js_Json Js_Date
begin

text \<open>
  Leader election and order locks of \<^verbatim>\<open>shared/lib/runtime/cluster_coordinator.js\<close>.

  The nodes share a directory: the lease file, one heartbeat file per node and one file per order
  lock.  Each operation first reads and then writes, and other nodes run in between; the two
  halves are separate definitions (\<open>decide\<close>, \<open>commit\<close>), and the operation is their composition on
  one state.  The clock is an argument, sha256 and \<^verbatim>\<open>localeCompare\<close> are parameters, and the polling
  of remote peers over HTTP is left out.
\<close>

definition DEFAULT_LEASE_TTL_MS :: int where "DEFAULT_LEASE_TTL_MS = 15000"
definition DEFAULT_HEARTBEAT_TTL_MS :: int where "DEFAULT_HEARTBEAT_TTL_MS = 15000"

definition id_char :: "char \<Rightarrow> bool" where
  "id_char c = (is_alnum c \<or> c = CHR ''_'' \<or> c = CHR ''-'')"

definition safeId :: "jsval \<Rightarrow> string \<Rightarrow> string" where
  "safeId str fallback = (let clean = js_replace id_char ''_'' (js_trim (text_of str)) in
     if clean = [] then fallback else clean)"

record node =
  nodeId :: string
  priority :: jsnum
  leaseTtlMs :: int
  heartbeatTtlMs :: int
  allowAutoElect :: bool
  hostname :: string
  pid :: int
  node_role :: string
  fencingToken :: jsnum

record cluster =
  lease_file :: json_file
  node_files :: "(string \<times> json_file) list"
  lock_files :: "(string \<times> json_file) list"

definition parsePeers :: "jsval \<Rightarrow> string list" where
  "parsePeers input =
     (if \<not> truthy input then []
      else filter (\<lambda>p. p \<noteq> []) (map js_trim (case input of
        JArr xs \<Rightarrow> map js_to_string xs | _ \<Rightarrow> js_split (CHR '','') (js_to_string input))))"

definition readJsonSync :: "json_file \<Rightarrow> jsval" where
  "readJsonSync f = (case f of Json v \<Rightarrow> v | _ \<Rightarrow> JNull)"

definition writeAtomicSync :: "jsval \<Rightarrow> json_file" where
  "writeAtomicSync data = Json (json_view data)"

definition iso_text :: "int \<Rightarrow> jsval" where
  "iso_text t = opt_value (to_iso t)"

text \<open>\<^verbatim>\<open>v.ms || Date.parse(v.text) || 0\<close>.\<close>

definition stamp :: "jsval \<Rightarrow> string \<Rightarrow> string \<Rightarrow> jsnum" where
  "stamp v ms text = js_to_number (js_or (js_get v ms)
     (js_or (case date_parse (js_to_string (js_get v text)) of
        Some t \<Rightarrow> JNum (Fin (of_int t)) | None \<Rightarrow> JNum NaN) (JNum (Fin 0))))"

definition finite_number :: "jsval \<Rightarrow> bool" where
  "finite_number v = (case v of JNum n \<Rightarrow> js_is_finite n | _ \<Rightarrow> False)"

section \<open>Heartbeats\<close>

definition getHeartbeatPath :: "jsval \<Rightarrow> string" where
  "getHeartbeatPath sid = safeId sid ''node-1'' @ ''.json''"

definition heartbeat :: "int \<Rightarrow> jsval \<Rightarrow> node \<Rightarrow> jsval" where
  "heartbeat now metadata nd = JObj
     [(''node_id'', JStr (nodeId nd)), (''priority'', JNum (priority nd)), (''role'', JStr (node_role nd)),
      (''fencing_token'', JNum (fencingToken nd)), (''hostname'', JStr (hostname nd)),
      (''pid'', JNum (Fin (of_int (pid nd)))), (''heartbeat_at'', iso_text now),
      (''heartbeat_ms'', JNum (Fin (of_int now))), (''metadata'', spread_update metadata [])]"

definition registerHeartbeat :: "int \<Rightarrow> jsval \<Rightarrow> node \<Rightarrow> cluster \<Rightarrow> cluster" where
  "registerHeartbeat now metadata nd c = c\<lparr>node_files := AList.update
     (getHeartbeatPath (JStr (nodeId nd))) (writeAtomicSync (heartbeat now metadata nd)) (node_files c)\<rparr>"

definition node_entry :: "int \<Rightarrow> int \<Rightarrow> jsval \<Rightarrow> jsval" where
  "node_entry now ttl data =
     (let ageMs = js_sub (Fin (of_int now)) (stamp data ''heartbeat_ms'' ''heartbeat_at'') in
      spread_update data [(''age_ms'', JNum ageMs),
        (''status'', JStr (if js_le ageMs (Fin (of_int ttl)) then ''healthy'' else ''unresponsive''))])"

text \<open>The comparison by falling priority, then by id; a stable sort inserts after equal elements.\<close>

definition node_after :: "(string \<Rightarrow> string \<Rightarrow> int) \<Rightarrow> jsval \<Rightarrow> jsval \<Rightarrow> bool" where
  "node_after localeCompare a b =
     (let d = js_sub (js_to_number (js_get b ''priority'')) (js_to_number (js_get a ''priority'')) in
      if truthy (JNum d) then js_lt (Fin 0) d
      else 0 < localeCompare (js_to_string (js_get a ''node_id'')) (js_to_string (js_get b ''node_id'')))"

fun insert_node :: "(string \<Rightarrow> string \<Rightarrow> int) \<Rightarrow> jsval \<Rightarrow> jsval list \<Rightarrow> jsval list" where
  "insert_node lc x [] = [x]"
| "insert_node lc x (y # ys) = (if node_after lc y x then x # y # ys else y # insert_node lc x ys)"

definition getClusterNodes :: "(string \<Rightarrow> string \<Rightarrow> int) \<Rightarrow> int \<Rightarrow> node \<Rightarrow> cluster \<Rightarrow> jsval list" where
  "getClusterNodes localeCompare now nd c =
     fold (insert_node localeCompare) (map (node_entry now (heartbeatTtlMs nd))
       (filter (\<lambda>d. truthy d \<and> truthy (js_get d ''node_id''))
         (map (\<lambda>(name, f). readJsonSync f) (filter (\<lambda>(name, f). ends_with name ''.json'') (node_files c))))) []"

section \<open>The lease\<close>

text \<open>The lease as a leader sees it: \<^verbatim>\<open>null\<close> when there is none or it has expired.\<close>

definition current_lease :: "int \<Rightarrow> cluster \<Rightarrow> jsval" where
  "current_lease now c =
     (let lease = readJsonSync (lease_file c) in
      if \<not> truthy lease \<or> \<not> truthy (js_get lease ''leader_id'') then JNull
      else if js_le (stamp lease ''expires_ms'' ''expires_at'') (Fin (of_int now)) then JNull
      else lease)"

definition getLeader :: "int \<Rightarrow> node \<Rightarrow> cluster \<Rightarrow> jsval \<times> node" where
  "getLeader now nd c =
     (let lease = current_lease now c in
      (lease, if truthy lease \<and> js_get lease ''leader_id'' = JStr (nodeId nd)
           \<and> finite_number (js_get lease ''fencing_token'')
         then nd\<lparr>fencingToken := js_to_number (js_get lease ''fencing_token'')\<rparr> else nd))"

definition isLeader :: "int \<Rightarrow> node \<Rightarrow> cluster \<Rightarrow> bool" where
  "isLeader now nd c = (let leader = fst (getLeader now nd c) in
     truthy leader \<and> js_get leader ''leader_id'' = JStr (nodeId nd))"

definition lease_json :: "int \<Rightarrow> node \<Rightarrow> jsnum \<Rightarrow> jsval \<Rightarrow> jsval" where
  "lease_json now nd token acquired = JObj
     [(''leader_id'', JStr (nodeId nd)), (''priority'', JNum (priority nd)), (''fencing_token'', JNum token),
      (''acquired_at'', acquired), (''renewed_at'', iso_text now),
      (''expires_at'', iso_text (now + leaseTtlMs nd)),
      (''expires_ms'', JNum (Fin (of_int (now + leaseTtlMs nd))))]"

datatype ballot = Renew jsnum jsval | Follow jsval jsnum | Disabled | Elect jsnum | Defer jsval

text \<open>What a node decides from what it reads.\<close>

definition decide_election ::
  "(string \<Rightarrow> string \<Rightarrow> int) \<Rightarrow> int \<Rightarrow> bool \<Rightarrow> node \<Rightarrow> cluster \<Rightarrow> ballot"
where
  "decide_election localeCompare now force nd0 c =
     (let (leader, nd) = getLeader now nd0 c in
      if truthy leader \<and> js_get leader ''leader_id'' = JStr (nodeId nd) then
        Renew (if finite_number (js_get leader ''fencing_token'')
                  \<and> js_lt (Fin 0) (js_to_number (js_get leader ''fencing_token''))
               then js_to_number (js_get leader ''fencing_token'') else js_max (Fin 1) (fencingToken nd))
          (js_or (js_get leader ''acquired_at'') (iso_text now))
      else if truthy leader then
        Follow (js_get leader ''leader_id'') (if finite_number (js_get leader ''fencing_token'')
          then js_to_number (js_get leader ''fencing_token'') else Fin 0)
      else if \<not> allowAutoElect nd \<and> \<not> force then Disabled
      else let expired = readJsonSync (lease_file c);
             expiredLeader = (if truthy expired \<and> truthy (js_get expired ''leader_id'')
               then js_get expired ''leader_id'' else JNull);
             lastToken = (if truthy expired \<and> finite_number (js_get expired ''fencing_token'')
               then js_to_number (js_get expired ''fencing_token'') else Fin 0);
             alive = filter (\<lambda>n. js_get n ''status'' = JStr ''healthy''
                 \<and> \<not> (truthy expiredLeader \<and> js_get n ''node_id'' = expiredLeader
                       \<and> js_get n ''node_id'' \<noteq> JStr (nodeId nd)))
               (getClusterNodes localeCompare now nd c);
             best = (case alive of n # _ \<Rightarrow> n
               | [] \<Rightarrow> JObj [(''node_id'', JStr (nodeId nd)), (''priority'', JNum (priority nd))])
        in if js_get best ''node_id'' = JStr (nodeId nd)
              \<or> js_le (js_to_number (js_or (js_get best ''priority'') (JNum (Fin 0)))) (priority nd)
           then Elect (js_add lastToken (Fin 1)) else Defer (js_get best ''node_id''))"

record election =
  elec_ok :: bool
  elec_role :: string
  elec_leader :: jsval
  elec_token :: jsnum
  elected :: bool
  renewed :: bool

text \<open>Carrying the decision out: the node's own state, the lease file and the heartbeat.\<close>

definition commit_election :: "int \<Rightarrow> ballot \<Rightarrow> node \<Rightarrow> cluster \<Rightarrow> election \<times> node \<times> cluster" where
  "commit_election now b nd c = (case b of
     Renew token acquired \<Rightarrow>
       let nd' = nd\<lparr>node_role := ''leader'', fencingToken := token\<rparr> in
       (\<lparr>elec_ok = True, elec_role = ''leader'', elec_leader = JStr (nodeId nd), elec_token = token,
         elected = False, renewed = True\<rparr>, nd',
        registerHeartbeat now (JObj []) nd'
          (c\<lparr>lease_file := writeAtomicSync (lease_json now nd' token acquired)\<rparr>))
   | Follow leader token \<Rightarrow>
       let nd' = nd\<lparr>node_role := ''follower'', fencingToken := token\<rparr> in
       (\<lparr>elec_ok = True, elec_role = ''follower'', elec_leader = leader, elec_token = token,
         elected = False, renewed = False\<rparr>, nd', registerHeartbeat now (JObj []) nd' c)
   | Disabled \<Rightarrow>
       let nd' = nd\<lparr>node_role := ''follower''\<rparr> in
       (\<lparr>elec_ok = False, elec_role = ''follower'', elec_leader = JNull, elec_token = Fin 0,
         elected = False, renewed = False\<rparr>, nd', registerHeartbeat now (JObj []) nd' c)
   | Elect token \<Rightarrow>
       let nd' = nd\<lparr>node_role := ''leader'', fencingToken := token\<rparr> in
       (\<lparr>elec_ok = True, elec_role = ''leader'', elec_leader = JStr (nodeId nd), elec_token = token,
         elected = True, renewed = False\<rparr>, nd',
        registerHeartbeat now (JObj []) nd'
          (c\<lparr>lease_file := writeAtomicSync (lease_json now nd' token (iso_text now))\<rparr>))
   | Defer leader \<Rightarrow>
       let nd' = nd\<lparr>node_role := ''follower''\<rparr> in
       (\<lparr>elec_ok = True, elec_role = ''follower'', elec_leader = leader, elec_token = Fin 0,
         elected = False, renewed = False\<rparr>, nd', registerHeartbeat now (JObj []) nd' c))"

definition evaluateElection ::
  "(string \<Rightarrow> string \<Rightarrow> int) \<Rightarrow> int \<Rightarrow> bool \<Rightarrow> node \<Rightarrow> cluster \<Rightarrow> election \<times> node \<times> cluster"
where
  "evaluateElection localeCompare now force nd c =
     commit_election now (decide_election localeCompare now force nd c) (snd (getLeader now nd c)) c"

definition stepDown :: "int \<Rightarrow> node \<Rightarrow> cluster \<Rightarrow> node \<times> cluster" where
  "stepDown now nd0 c =
     (let (leader, nd) = getLeader now (nd0\<lparr>node_role := ''follower'', fencingToken := Fin 0\<rparr>) c;
          c' = (if truthy leader \<and> js_get leader ''leader_id'' = JStr (nodeId nd)
                then c\<lparr>lease_file := Missing\<rparr> else c)
      in (nd, registerHeartbeat now (JObj []) nd c'))"

section \<open>Order locks\<close>

definition getOrderLockPath :: "(string \<Rightarrow> string) \<Rightarrow> jsval \<Rightarrow> string" where
  "getOrderLockPath sha256 key = take 32 (sha256 (js_to_string key)) @ ''.json''"

definition lock_at :: "cluster \<Rightarrow> string \<Rightarrow> json_file" where
  "lock_at c path = (case map_of (lock_files c) path of Some f \<Rightarrow> f | None \<Rightarrow> Missing)"

datatype lock_answer =
    Key_required
  | Stale_token jsnum jsval
  | Held_by_peer jsval
  | Acquired jsnum

text \<open>A lock of another node that has not expired.\<close>

definition held_by_other :: "int \<Rightarrow> node \<Rightarrow> jsval \<Rightarrow> bool" where
  "held_by_other now nd lock = (truthy lock
     \<and> js_lt (Fin (of_int now)) (stamp lock ''expires_ms'' ''expires_at'')
     \<and> js_get lock ''owner_node'' \<noteq> JStr (nodeId nd))"

definition lock_json :: "int \<Rightarrow> int \<Rightarrow> jsval \<Rightarrow> jsnum \<Rightarrow> node \<Rightarrow> jsval" where
  "lock_json now lockTtlMs key token nd = JObj
     [(''idempotency_key'', JStr (js_to_string key)), (''owner_node'', JStr (nodeId nd)),
      (''fencing_token'', JNum token), (''acquired_at'', iso_text now),
      (''expires_at'', iso_text (now + lockTtlMs)), (''expires_ms'', JNum (Fin (of_int (now + lockTtlMs))))]"

definition caller_token :: "jsval \<Rightarrow> node \<Rightarrow> jsnum" where
  "caller_token options nd = (if finite_number (js_get options ''fencing_token'')
     then js_to_number (js_get options ''fencing_token'') else fencingToken nd)"

definition stale_token :: "jsnum \<Rightarrow> jsval \<Rightarrow> bool" where
  "stale_token token leader = (truthy leader \<and> finite_number (js_get leader ''fencing_token'')
     \<and> js_lt (Fin 0) token \<and> js_lt token (js_to_number (js_get leader ''fencing_token'')))"

text \<open>
  The write half: \<open>existing\<close> is what was read before, the lock file may have changed since.  A file
  that was absent is created exclusively; one that was there is replaced.
\<close>

definition commit_lock ::
  "int \<Rightarrow> int \<Rightarrow> string \<Rightarrow> jsval \<Rightarrow> jsval \<Rightarrow> jsnum \<Rightarrow> node \<Rightarrow> cluster \<Rightarrow> lock_answer \<times> cluster"
where
  "commit_lock now lockTtlMs path key existing token nd c =
     (let lockData = lock_json now lockTtlMs key token nd;
          c' = c\<lparr>lock_files := AList.update path (writeAtomicSync lockData) (lock_files c)\<rparr>;
          competitor = readJsonSync (lock_at c path)
      in if \<not> truthy existing \<and> lock_at c path \<noteq> Missing \<and> held_by_other now nd competitor
         then (Held_by_peer (js_get competitor ''owner_node''), c)
         else (Acquired token, c'))"

definition acquireOrderLock ::
  "(string \<Rightarrow> string) \<Rightarrow> int \<Rightarrow> jsval \<Rightarrow> int \<Rightarrow> jsval \<Rightarrow> node \<Rightarrow> cluster \<Rightarrow> lock_answer \<times> node \<times> cluster"
where
  "acquireOrderLock sha256 now key lockTtlMs options nd c =
     (if \<not> truthy key then (Key_required, nd, c)
      else let callerToken = caller_token options nd; (leader, nd') = getLeader now nd c in
        if stale_token callerToken leader
        then (Stale_token callerToken (js_get leader ''fencing_token''), nd', c)
        else let path = getOrderLockPath sha256 key; existing = readJsonSync (lock_at c path) in
          if held_by_other now nd' existing then (Held_by_peer (js_get existing ''owner_node''), nd', c)
          else let (a, c') = commit_lock now lockTtlMs path key existing callerToken nd' c in (a, nd', c'))"

definition releaseOrderLock :: "(string \<Rightarrow> string) \<Rightarrow> jsval \<Rightarrow> node \<Rightarrow> cluster \<Rightarrow> bool \<times> cluster" where
  "releaseOrderLock sha256 key nd c =
     (let path = getOrderLockPath sha256 key; existing = readJsonSync (lock_at c path) in
      if truthy existing \<and> js_get existing ''owner_node'' = JStr (nodeId nd)
      then (True, c\<lparr>lock_files := AList.delete path (lock_files c)\<rparr>) else (False, c))"

section \<open>Runs of a cluster\<close>

datatype cluster_op =
    Elect_op bool
  | Step_down_op
  | Heartbeat_op jsval
  | Acquire_op jsval int jsval
  | Release_op jsval

record world =
  members :: "nat \<Rightarrow> node"
  shared :: cluster

text \<open>Member \<open>i\<close> performs one whole operation at a time.\<close>

definition run_op ::
  "(string \<Rightarrow> string) \<Rightarrow> (string \<Rightarrow> string \<Rightarrow> int) \<Rightarrow> int \<Rightarrow> nat \<Rightarrow> cluster_op \<Rightarrow> world \<Rightarrow> world"
where
  "run_op sha256 localeCompare now i op w =
     (let nd = members w i; c = shared w;
          (nd', c') = (case op of
             Elect_op force \<Rightarrow> snd (evaluateElection localeCompare now force nd c)
           | Step_down_op \<Rightarrow> stepDown now nd c
           | Heartbeat_op md \<Rightarrow> (nd, registerHeartbeat now md nd c)
           | Acquire_op key ttl opts \<Rightarrow> snd (acquireOrderLock sha256 now key ttl opts nd c)
           | Release_op key \<Rightarrow> (nd, snd (releaseOrderLock sha256 key nd c)))
      in w\<lparr>members := (members w)(i := nd'), shared := c'\<rparr>)"

fun run_ops ::
  "(string \<Rightarrow> string) \<Rightarrow> (string \<Rightarrow> string \<Rightarrow> int) \<Rightarrow> (int \<times> nat \<times> cluster_op) list \<Rightarrow> world \<Rightarrow> world"
where
  "run_ops sha256 lc [] w = w"
| "run_ops sha256 lc ((now, i, op) # ops) w = run_ops sha256 lc ops (run_op sha256 lc now i op w)"

lemmas cluster_ops = evaluateElection_def stepDown_def registerHeartbeat_def acquireOrderLock_def
  releaseOrderLock_def

lemma getLeader_id [simp]: "nodeId (snd (getLeader now nd c)) = nodeId nd"
  by (simp add: getLeader_def Let_def)

lemma commit_election_id [simp]:
  "nodeId (fst (snd (commit_election now b nd c))) = nodeId nd"
  "lock_files (snd (snd (commit_election now b nd c))) = lock_files c"
  by (simp_all add: commit_election_def Let_def registerHeartbeat_def split: ballot.split)

lemma stepDown_id [simp]:
  "nodeId (fst (stepDown now nd c)) = nodeId nd" "lock_files (snd (stepDown now nd c)) = lock_files c"
  using getLeader_id [of now "nd\<lparr>node_role := ''follower'', fencingToken := Fin 0\<rparr>" c]
  by (auto simp: stepDown_def registerHeartbeat_def Let_def case_prod_unfold)

lemma acquireOrderLock_id [simp]: "nodeId (fst (snd (acquireOrderLock sha now key ttl opts nd c))) = nodeId nd"
  by (auto simp: acquireOrderLock_def Let_def case_prod_unfold)

lemma run_op_id [simp]: "nodeId (members (run_op sha lc now i op w) j) = nodeId (members w j)"
  by (cases op) (auto simp: run_op_def Let_def evaluateElection_def case_prod_unfold)

section \<open>Order locks are exclusive\<close>

text \<open>The lock file that a node leaves behind when it acquires a lock.\<close>

definition owned :: "string \<Rightarrow> int \<Rightarrow> json_file \<Rightarrow> bool" where
  "owned owner until f = (\<exists>v. f = Json v \<and> truthy v \<and> js_get v ''owner_node'' = JStr owner
     \<and> js_get v ''expires_ms'' = JNum (Fin (of_int until)) \<and> 0 < until)"

lemma iso_text_defined [simp]: "iso_text t \<noteq> JUndef"
  by (simp add: iso_text_def opt_value_def split: option.split)

lemma lock_json_owned:
  "0 < now + ttl \<Longrightarrow> owned (nodeId nd) (now + ttl) (writeAtomicSync (lock_json now ttl key token nd))"
  by (simp add: owned_def writeAtomicSync_def lock_json_def)

lemma owned_held:
  assumes "owned owner until f" "now < until" "nodeId nd \<noteq> owner"
  shows "held_by_other now nd (readJsonSync f)"
  using assms by (auto simp: owned_def held_by_other_def readJsonSync_def stamp_def js_or_def)

lemma lock_at_update:
  "lock_at (c\<lparr>lock_files := AList.update p f (lock_files c)\<rparr>) q = (if p = q then f else lock_at c q)"
  by (simp add: lock_at_def map_of_update)

lemma lock_at_delete:
  "lock_at (c\<lparr>lock_files := AList.delete p (lock_files c)\<rparr>) q = (if p = q then Missing else lock_at c q)"
  by (simp add: lock_at_def map_of_delete)

lemma acquire_keeps_owned:
  assumes "owned owner until (lock_at c path)" "now < until" "nodeId nd \<noteq> owner"
  shows "lock_at (snd (snd (acquireOrderLock sha now key ttl opts nd c))) path = lock_at c path"
proof -
  have "nodeId (snd (getLeader now nd c)) \<noteq> owner" using assms(3) by simp
  from owned_held [OF assms(1,2) this]
  have h: "held_by_other now (snd (getLeader now nd c)) (readJsonSync (lock_at c path))" .
  show ?thesis
    by (cases "getOrderLockPath sha key = path")
       (use h in \<open>auto simp: acquireOrderLock_def commit_lock_def Let_def case_prod_unfold lock_at_update\<close>)
qed

lemma run_op_keeps_owned:
  assumes o: "owned owner until (lock_at (shared w) path)" "now < until" "nodeId (members w i) \<noteq> owner"
  shows "lock_at (shared (run_op sha lc now i op w)) path = lock_at (shared w) path"
proof (cases op)
  case (Acquire_op key ttl opts)
  then show ?thesis using acquire_keeps_owned [OF o] by (simp add: run_op_def Let_def case_prod_unfold)
next
  case (Release_op key)
  obtain v where "lock_at (shared w) path = Json v" "js_get v ''owner_node'' = JStr owner"
    using o(1) by (auto simp: owned_def)
  then show ?thesis using o(3) Release_op
    by (auto simp: run_op_def Let_def releaseOrderLock_def readJsonSync_def lock_at_delete)
qed (simp_all add: run_op_def Let_def evaluateElection_def case_prod_unfold lock_at_def registerHeartbeat_def)

section \<open>Fencing tokens\<close>

text \<open>The token of the lease on disk, expired or not.\<close>

definition lease_token :: "cluster \<Rightarrow> jsnum" where
  "lease_token c = (let v = readJsonSync (lease_file c) in
     if truthy v \<and> finite_number (js_get v ''fencing_token'') then js_to_number (js_get v ''fencing_token'')
     else Fin 0)"

definition lease_holder :: "cluster \<Rightarrow> jsval" where
  "lease_holder c = js_get (readJsonSync (lease_file c)) ''leader_id''"

lemma lease_json_token:
  "lease_token (c\<lparr>lease_file := writeAtomicSync (lease_json now nd (Fin q) a)\<rparr>) = Fin q"
  "js_get (readJsonSync (writeAtomicSync (lease_json now nd (Fin q) a))) ''leader_id'' = JStr (nodeId nd)"
  by (simp_all add: lease_token_def lease_holder_def writeAtomicSync_def readJsonSync_def lease_json_def
      finite_number_def Let_def)

lemma heartbeat_lease [simp]: "lease_file (registerHeartbeat now md nd c) = lease_file c"
  by (simp add: registerHeartbeat_def)

lemma lease_token_cong: "lease_file c = lease_file c' \<Longrightarrow> lease_token c = lease_token c'"
  by (simp add: lease_token_def)

lemma decide_Renew:
  assumes "decide_election lc now force nd c = Renew token a" "lease_token c = Fin q" "0 < q"
  shows "token = Fin q"
  using assms
  by (auto simp: decide_election_def getLeader_def current_lease_def lease_token_def Let_def
      finite_number_def split: if_splits jsval.splits list.splits)

lemma decide_Elect:
  assumes "decide_election lc now force nd c = Elect token" shows "token = js_add (lease_token c) (Fin 1)"
  using assms by (auto simp: decide_election_def getLeader_def lease_token_def Let_def split: if_splits)

section \<open>Properties\<close>


text \<open>
  Fencing tokens never go back in an election, and whoever wins a new term gets a token larger
  than every earlier one: from a lease with a positive token below two to the 53, an election
  leaves the token as it is, or one larger with the winner as the lease's holder.
\<close>

theorem fencing_monotone:
  assumes t: "lease_token c = Fin (of_int n)" "0 < n" "n + 1 < 2 ^ 53"
  shows "case evaluateElection lc now force nd c of (e, nd', c') \<Rightarrow>
    (if elected e
     then lease_token c' = Fin (of_int (n + 1)) \<and> fencingToken nd' = Fin (of_int (n + 1))
       \<and> lease_holder c' = JStr (nodeId nd)
     else lease_token c' = Fin (of_int n))"
proof -
  let ?nd = "snd (getLeader now nd c)"
  define b where "b = decide_election lc now force nd c"
  have add: "js_add (lease_token c) (Fin 1) = Fin (of_int (n + 1))"
    using js_add_int [of n 1] t by simp
  show ?thesis
  proof (cases b)
    case (Renew token a)
    then have "token = Fin (of_int n)" using decide_Renew [of lc now force nd c token a] t by (simp add: b_def)
    with Renew show ?thesis
      by (simp add: evaluateElection_def b_def [symmetric] commit_election_def Let_def
          lease_token_cong [OF heartbeat_lease] lease_json_token)
  next
    case (Elect token)
    then have "token = Fin (of_int (n + 1))"
      using decide_Elect [of lc now force nd c token] add by (simp add: b_def)
    with Elect show ?thesis
      by (simp add: evaluateElection_def b_def [symmetric] commit_election_def Let_def
          lease_token_cong [OF heartbeat_lease] lease_json_token lease_holder_def)
  qed (simp_all add: evaluateElection_def b_def [symmetric] commit_election_def Let_def
      lease_token_cong [OF heartbeat_lease] t)
qed

text \<open>
  A lock that nobody holds is created atomically, so of two nodes that both found no lock the
  second is refused; but a lock that has expired is taken over without exclusion, so of two
  nodes that both found the same expired lock both acquire it.
\<close>

theorem creation_and_takeover:
  assumes "nodeId a \<noteq> nodeId b" "0 < ttl" "0 < now" "truthy expired" "lock_at c path = Missing"
  shows "fst (commit_lock now ttl path key JNull ta a c) = Acquired ta
    \<and> fst (commit_lock now ttl path key JNull tb b (snd (commit_lock now ttl path key JNull ta a c)))
        = Held_by_peer (JStr (nodeId a))
    \<and> fst (commit_lock now ttl path key expired ta a c') = Acquired ta
    \<and> fst (commit_lock now ttl path key expired tb b (snd (commit_lock now ttl path key expired ta a c')))
        = Acquired tb"
proof -
  let ?f = "writeAtomicSync (lock_json now ttl key ta a)"
  have "owned (nodeId a) (now + ttl) ?f" using assms by (intro lock_json_owned) simp
  then have "held_by_other now b (readJsonSync ?f)" using assms by (intro owned_held) auto
  moreover have "js_get (readJsonSync ?f) ''owner_node'' = JStr (nodeId a)" "?f \<noteq> Missing"
    by (simp_all add: writeAtomicSync_def readJsonSync_def lock_json_def)
  ultimately show ?thesis
    using assms by (simp add: commit_lock_def Let_def lock_at_update)
qed

text \<open>
  An election is not atomic: two nodes that decide on the same state can both come out as
  leaders, with the same fencing token, so the token does not tell them apart.
\<close>

definition demo_node :: "string \<Rightarrow> node" where
  "demo_node name = \<lparr>nodeId = name, priority = Fin 100, leaseTtlMs = DEFAULT_LEASE_TTL_MS,
     heartbeatTtlMs = DEFAULT_HEARTBEAT_TTL_MS, allowAutoElect = True, hostname = ''h'', pid = 1,
     node_role = ''follower'', fencingToken = Fin 0\<rparr>"

definition empty_cluster :: cluster where
  "empty_cluster = \<lparr>lease_file = Missing, node_files = [], lock_files = []\<rparr>"

lemma decide_empty: "decide_election lc now False (demo_node name) empty_cluster = Elect (Fin 1)"
  by (simp add: decide_election_def getLeader_def current_lease_def empty_cluster_def demo_node_def
      readJsonSync_def getClusterNodes_def Let_def)

theorem election_race:
  "\<exists>a b c. nodeId a \<noteq> nodeId b \<and>
    (let (ea, a', c1) = commit_election now (decide_election lc now False a c) a c;
         (eb, b', c2) = commit_election now (decide_election lc now False b c) b c1
     in elected ea \<and> elected eb \<and> node_role a' = ''leader'' \<and> node_role b' = ''leader''
        \<and> fencingToken a' = fencingToken b')"
proof -
  have "nodeId (demo_node ''n1'') \<noteq> nodeId (demo_node ''n2'')" by (simp add: demo_node_def)
  moreover have "let (ea, a', c1) = commit_election now
         (decide_election lc now False (demo_node ''n1'') empty_cluster) (demo_node ''n1'') empty_cluster;
       (eb, b', c2) = commit_election now
         (decide_election lc now False (demo_node ''n2'') empty_cluster) (demo_node ''n2'') c1
     in elected ea \<and> elected eb \<and> node_role a' = ''leader'' \<and> node_role b' = ''leader''
        \<and> fencingToken a' = fencingToken b'"
    by (simp add: decide_empty commit_election_def Let_def)
  ultimately show ?thesis by blast
qed

definition demo_world :: world where
  "demo_world = \<lparr>members = (\<lambda>i. demo_node (if i = 0 then ''n1'' else ''n2'')),
     shared = snd (commit_lock 5 60000 ''k.json'' (JStr ''k'') JNull (Fin 1) (demo_node ''n1'') empty_cluster)\<rparr>"


definition demo_lease :: cluster where
  "demo_lease = empty_cluster\<lparr>lease_file := writeAtomicSync (lease_json 0 (demo_node ''n1'') (Fin 7) JNull)\<rparr>"

theorem fencing_monotone_witness:
  "case evaluateElection (\<lambda>a b. 0) 1000000 False (demo_node ''n2'') demo_lease of (e, nd', c') \<Rightarrow>
     elected e \<and> lease_token c' = Fin 8"
proof -
  have "lease_token demo_lease = Fin (of_int 7)" by (simp add: demo_lease_def lease_json_token)
  from fencing_monotone [OF this, where lc = "\<lambda>a b. 0" and now = 1000000 and force = False
      and nd = "demo_node ''n2''"]
  have f: "case evaluateElection (\<lambda>a b. 0) 1000000 False (demo_node ''n2'') demo_lease of (e, nd', c') \<Rightarrow>
    (if elected e then lease_token c' = Fin (of_int (7 + 1)) \<and> fencingToken nd' = Fin (of_int (7 + 1))
       \<and> lease_holder c' = JStr (nodeId (demo_node ''n2'')) else lease_token c' = Fin (of_int 7))" by simp
  have "elected (fst (evaluateElection (\<lambda>a b. 0) 1000000 False (demo_node ''n2'') demo_lease))" by code_simp
  with f show ?thesis by (auto simp: case_prod_unfold)
qed

theorem creation_and_takeover_witness:
  "fst (commit_lock 5 1000 ''k.json'' (JStr ''k'') JNull (Fin 1) (demo_node ''n1'') empty_cluster) = Acquired (Fin 1)"
proof -
  have "nodeId (demo_node ''n1'') \<noteq> nodeId (demo_node ''n2'')" "lock_at empty_cluster ''k.json'' = Missing"
    by (simp_all add: demo_node_def lock_at_def empty_cluster_def)
  with creation_and_takeover [of "demo_node ''n1''" "demo_node ''n2''" 1000 5 "JBool True" empty_cluster "''k.json''"]
  show ?thesis by simp
qed

end
