(* ===== verification/Fetch_Retry.thy ===== *)
theory Fetch_Retry
  imports Js_Value
begin

text \<open>
  \<^verbatim>\<open>shared/lib/runtime/fetch_retry.js\<close>: a request, or any asynchronous function, that is tried
  again after a transient failure.  The network and the wrapped function are a parameter, the
  outcome of each attempt; the waits between attempts are part of the result.  The number of
  attempts is any number that is at least one, also \<^verbatim>\<open>Infinity\<close>, so the loops are partial
  functions: \<open>None\<close> is a loop that never ends.
\<close>

section \<open>Errors and responses\<close>

record js_error =
  err_value :: jsval  \<comment> \<open>the thrown value, with the properties it inherits\<close>
  is_aggregate :: bool  \<comment> \<open>\<^verbatim>\<open>err instanceof AggregateError\<close>\<close>

record response =
  status :: jsval
  retry_after :: "jsval option"  \<comment> \<open>\<^verbatim>\<open>headers.get('retry-after')\<close>, if there are headers\<close>

definition RETRYABLE_CODES :: "string list" where
  "RETRYABLE_CODES = [''EACCES'', ''ECONNREFUSED'', ''ECONNRESET'', ''ETIMEDOUT'', ''ENOTFOUND'', ''EAI_AGAIN'']"

definition isRetryableError :: "jsval \<Rightarrow> bool" where
  "isRetryableError err = (truthy err \<and>
     (let cause = js_get err ''cause'';
          code = js_or (js_or (js_get err ''code'') (if truthy cause then js_get cause ''code'' else cause)) (JStr '''')
      in (case code of JStr c \<Rightarrow> c \<in> set RETRYABLE_CODES \<or> starts_with c ''UND_ERR_'' | _ \<Rightarrow> False)
       \<or> js_get err ''name'' = JStr ''TimeoutError''
       \<or> truthy cause \<and> js_get cause ''name'' = JStr ''TimeoutError''))"

definition isRetryableStatus :: "jsval \<Rightarrow> bool" where
  "isRetryableStatus s = (case s of JNum n \<Rightarrow> js_le (Fin 500) n | _ \<Rightarrow> False)"

section \<open>Options\<close>

record retry_options =
  attempts :: jsval
  baseDelayMs :: jsval
  retryOn429 :: jsval

definition num_attempts :: "retry_options \<Rightarrow> jsnum" where
  "num_attempts r = (case attempts r of JNum n \<Rightarrow> if js_le (Fin 1) n then js_floor n else Fin 3 | _ \<Rightarrow> Fin 3)"

definition base_delay :: "retry_options \<Rightarrow> jsnum" where
  "base_delay r = (case baseDelayMs r of JNum n \<Rightarrow> if js_le (Fin 0) n then n else Fin 300 | _ \<Rightarrow> Fin 300)"

definition retry_429 :: "retry_options \<Rightarrow> bool" where
  "retry_429 r = (retryOn429 r = JBool True)"

text \<open>\<^verbatim>\<open>baseDelayMs * Math.pow(2, k)\<close>, and the wait before attempt \<open>n\<close>.\<close>

definition backoff :: "retry_options \<Rightarrow> nat \<Rightarrow> jsnum" where
  "backoff r k = js_mul (base_delay r) (fl (2 ^ k))"

definition attempt_wait :: "retry_options \<Rightarrow> nat \<Rightarrow> jsnum list" where
  "attempt_wait r n = (if n > 0 then [backoff r (n - 1)] else [])"

section \<open>One attempt\<close>

text \<open>What is returned or thrown in the end; \<open>Gave_undefined\<close> returns or throws \<^verbatim>\<open>undefined\<close>.\<close>

datatype 'a outcome = Returned 'a | Threw js_error | Gave_undefined

record 'a retry_state =
  waits :: "jsnum list"
  lastError :: "js_error option"
  lastResponse :: "'a option"

definition wait_429 :: "retry_options \<Rightarrow> nat \<Rightarrow> response \<Rightarrow> jsnum list" where
  "wait_429 r n rs =
    (let raw = (case retry_after rs of Some h \<Rightarrow> js_mul (js_to_number h) (Fin 1000) | None \<Rightarrow> Fin 0);
         retryAfterMs = (if js_is_finite raw \<and> js_lt (Fin 0) raw then raw else Fin 0);
         waitMs = js_max (backoff r n) retryAfterMs
     in if js_lt (Fin 0) waitMs then [waitMs] else [])"

definition status_num :: "response \<Rightarrow> jsnum" where
  "status_num rs = js_to_number (status rs)"

definition fetch_step :: "retry_options \<Rightarrow> (nat \<Rightarrow> js_error + response) \<Rightarrow> response retry_state \<Rightarrow> nat
    \<Rightarrow> response retry_state + response outcome \<times> nat \<times> jsnum list" where
  "fetch_step r net st n =
    (let ws = waits st @ attempt_wait r n; stop = (\<lambda>x. Inr (x, Suc n, ws)) in
     case net n of
       Inr rs \<Rightarrow>
         if status rs = JNum (Fin 429) \<and> retry_429 r then
           if js_lt (Fin (of_nat n)) (js_sub (num_attempts r) (Fin 1))
           then Inl \<lparr>waits = ws @ wait_429 r n rs, lastError = None, lastResponse = Some rs\<rparr>
           else stop (Returned rs)
         else if js_le (Fin 400) (status_num rs) \<and> js_lt (status_num rs) (Fin 500) then stop (Returned rs)
         else if isRetryableStatus (status rs) then Inl \<lparr>waits = ws, lastError = None, lastResponse = Some rs\<rparr>
         else stop (Returned rs)
     | Inl e \<Rightarrow>
         if \<not> isRetryableError (err_value e) then stop (Threw e)
         else Inl \<lparr>waits = ws, lastError = Some e, lastResponse = None\<rparr>)"

definition fetch_finish :: "response retry_state \<Rightarrow> nat \<Rightarrow> response outcome \<times> nat \<times> jsnum list" where
  "fetch_finish st n = ((case lastError st of Some e \<Rightarrow> Threw e
     | None \<Rightarrow> (case lastResponse st of Some rs \<Rightarrow> Returned rs | None \<Rightarrow> Gave_undefined)), n, waits st)"

partial_function (option) fetch_loop :: "retry_options \<Rightarrow> (nat \<Rightarrow> js_error + response)
    \<Rightarrow> response retry_state \<Rightarrow> nat \<Rightarrow> (response outcome \<times> nat \<times> jsnum list) option" where
  "fetch_loop r net st n =
    (if js_lt (Fin (of_nat n)) (num_attempts r) then
       (case fetch_step r net st n of Inl st' \<Rightarrow> fetch_loop r net st' (Suc n) | Inr x \<Rightarrow> Some x)
     else Some (fetch_finish st n))"

definition fetchWithRetry :: "(nat \<Rightarrow> js_error + response) \<Rightarrow> retry_options
    \<Rightarrow> (response outcome \<times> nat \<times> jsnum list) option" where
  "fetchWithRetry net r = fetch_loop r net \<lparr>waits = [], lastError = None, lastResponse = None\<rparr> 0"

section \<open>Any asynchronous function\<close>

definition transient :: "js_error \<Rightarrow> bool" where
  "transient e = (case js_get (js_get (err_value e) ''response'') ''status'' of
     JNum s \<Rightarrow> isRetryableStatus (JNum s)
   | _ \<Rightarrow> isRetryableError (err_value e)
       \<or> truthy (err_value e) \<and> (is_aggregate e \<or> js_get (err_value e) ''name'' = JStr ''AggregateError''))"

definition transient_step :: "retry_options \<Rightarrow> (nat \<Rightarrow> js_error + 'a) \<Rightarrow> 'a retry_state \<Rightarrow> nat
    \<Rightarrow> 'a retry_state + 'a outcome \<times> nat \<times> jsnum list" where
  "transient_step r f st n =
    (let ws = waits st @ attempt_wait r n in
     case f n of Inr x \<Rightarrow> Inr (Returned x, Suc n, ws)
     | Inl e \<Rightarrow> if transient e then Inl (st\<lparr>waits := ws, lastError := Some e\<rparr>) else Inr (Threw e, Suc n, ws))"

definition transient_finish :: "'a retry_state \<Rightarrow> nat \<Rightarrow> 'a outcome \<times> nat \<times> jsnum list" where
  "transient_finish st n = ((case lastError st of Some e \<Rightarrow> Threw e | None \<Rightarrow> Gave_undefined), n, waits st)"

partial_function (option) transient_loop :: "retry_options \<Rightarrow> (nat \<Rightarrow> js_error + 'a)
    \<Rightarrow> 'a retry_state \<Rightarrow> nat \<Rightarrow> ('a outcome \<times> nat \<times> jsnum list) option" where
  "transient_loop r f st n =
    (if js_lt (Fin (of_nat n)) (num_attempts r) then
       (case transient_step r f st n of Inl st' \<Rightarrow> transient_loop r f st' (Suc n) | Inr x \<Rightarrow> Some x)
     else Some (transient_finish st n))"

definition retryTransient :: "(nat \<Rightarrow> js_error + 'a) \<Rightarrow> retry_options \<Rightarrow> ('a outcome \<times> nat \<times> jsnum list) option" where
  "retryTransient f r = transient_loop r f \<lparr>waits = [], lastError = None, lastResponse = None\<rparr> 0"

section \<open>The interface of a retry loop\<close>

text \<open>
  Both loops are instances of one scheme.  \<open>tries step limit s n t m\<close>: from state \<open>s\<close> before
  attempt \<open>n\<close> every attempt up to \<open>m\<close> is made and tried again, which gives \<open>t\<close>.
\<close>

inductive tries :: "('s \<Rightarrow> nat \<Rightarrow> 's + 'x) \<Rightarrow> jsnum \<Rightarrow> 's \<Rightarrow> nat \<Rightarrow> 's \<Rightarrow> nat \<Rightarrow> bool"
  for step :: "'s \<Rightarrow> nat \<Rightarrow> 's + 'x" and limit :: jsnum where
  here: "tries step limit s n s n"
| again: "js_lt (Fin (of_nat n)) limit \<Longrightarrow> step s n = Inl s' \<Longrightarrow> tries step limit s' (Suc n) t m \<Longrightarrow> tries step limit s n t m"


lemma tries_le: "tries step limit s n t m \<Longrightarrow> n \<le> m"
  by (induction rule: tries.induct) simp_all

lemma tries_same: "tries step limit s n t n \<Longrightarrow> t = s"
  by (erule tries.cases) (auto dest: tries_le)

lemma tries_before: "tries step limit s n t m \<Longrightarrow> n < m \<Longrightarrow> js_lt (Fin (of_nat (m - 1))) limit"
proof (induction rule: tries.induct)
  case (again n s s' t m)
  then show ?case by (cases "m = Suc n") simp_all
qed simp

text \<open>The loop stops with \<open>x\<close> in state \<open>t\<close> at attempt \<open>m\<close>.\<close>

definition stops :: "('s \<Rightarrow> nat \<Rightarrow> 's + 'x) \<Rightarrow> ('s \<Rightarrow> nat \<Rightarrow> 'x) \<Rightarrow> jsnum \<Rightarrow> 's \<Rightarrow> nat \<Rightarrow> 'x \<Rightarrow> bool" where
  "stops step finish limit t m x =
     (if js_lt (Fin (of_nat m)) limit then step t m = Inr x else x = finish t m)"

lemma least_step:
  assumes IH: "\<And>s n x. f s n = Some x \<Longrightarrow> \<exists>t m. tries step limit s n t m \<and> stops step finish limit t m x"
    and eq: "(if js_lt (Fin (of_nat n)) limit
      then (case step s n of Inl s' \<Rightarrow> f s' (Suc n) | Inr x \<Rightarrow> Some x) else Some (finish s n)) = Some x"
  shows "\<exists>t m. tries step limit s n t m \<and> stops step finish limit t m x"
proof (cases "js_lt (Fin (of_nat n)) limit")
  case True
  show ?thesis
  proof (cases "step s n")
    case (Inl s')
    with True eq IH [of s' "Suc n" x] obtain t m where t: "tries step limit s' (Suc n) t m" "stops step finish limit t m x"
      by auto
    show ?thesis by (intro exI conjI) (rule tries.again [where step = step, OF True Inl t(1)], rule t(2))
  next
    case (Inr y)
    with True eq have "stops step finish limit s n x" by (simp add: stops_def)
    then show ?thesis by (intro exI conjI) (rule tries.here)
  qed
next
  case False
  with eq have "stops step finish limit s n x" by (simp add: stops_def)
  then show ?thesis by (intro exI conjI) (rule tries.here)
qed

locale retry_loop =
  fixes loop :: "'s \<Rightarrow> nat \<Rightarrow> 'x option" and step :: "'s \<Rightarrow> nat \<Rightarrow> 's + 'x"
    and finish :: "'s \<Rightarrow> nat \<Rightarrow> 'x" and limit :: jsnum
  assumes unfold: "loop s n = (if js_lt (Fin (of_nat n)) limit
      then (case step s n of Inl s' \<Rightarrow> loop s' (Suc n) | Inr x \<Rightarrow> Some x) else Some (finish s n))"
    and least: "loop s n = Some x \<Longrightarrow> \<exists>t m. tries step limit s n t m \<and> stops step finish limit t m x"
begin

lemma tries_loop: "tries step limit s n t m \<Longrightarrow> loop s n = loop t m"
proof (induction rule: tries.induct)
  case (again n s s' t m)
  then show ?case by (subst unfold) simp
qed simp

lemma stops_loop: "stops step finish limit t m x \<Longrightarrow> loop t m = Some x"
  by (subst unfold) (simp add: stops_def split: if_splits)

lemma loop_iff: "loop s n = Some x \<longleftrightarrow> (\<exists>t m. tries step limit s n t m \<and> stops step finish limit t m x)"
  using least tries_loop stops_loop by metis

text \<open>A finite number of attempts is enough fuel.\<close>

lemma finite_returns:
  assumes "limit = Fin L"
  shows "\<exists>t m x. tries step limit s n t m \<and> stops step finish limit t m x \<and> (m = n \<or> of_nat m < L + 1)"
proof (induction "nat \<lceil>L\<rceil> - n" arbitrary: s n rule: less_induct)
  case (less n)
  show ?case
  proof (cases "js_lt (Fin (of_nat n)) limit")
    case False
    then have "stops step finish limit s n (finish s n)" by (simp add: stops_def)
    then show ?thesis by (intro exI conjI) (rule tries.here, assumption, simp)
  next
    case True
    then have L: "of_nat n < L" using assms by simp
    show ?thesis
    proof (cases "step s n")
      case (Inr x)
      then have "stops step finish limit s n x" using True by (simp add: stops_def)
      then show ?thesis by (intro exI conjI) (rule tries.here, assumption, simp)
    next
      case (Inl s')
      have "nat \<lceil>L\<rceil> - Suc n < nat \<lceil>L\<rceil> - n" using less_ceiling_iff [of "int n" L] L by simp
      from less [OF this, of s'] obtain t m x where t: "tries step limit s' (Suc n) t m"
        "stops step finish limit t m x" "m = Suc n \<or> of_nat m < L + 1" by (elim exE conjE)
      moreover from this have "of_nat m < L + 1" using L by auto
      ultimately show ?thesis
        by (intro exI conjI) (rule tries.again [where step = step, OF True Inl t(1)], assumption, simp)
    qed
  qed
qed

text \<open>Without a bound, a loop whose every attempt is tried again never ends.\<close>

lemma forever:
  assumes "limit = PInf" and "\<And>s k. n \<le> k \<Longrightarrow> \<exists>s'. step s k = Inl s'"
  shows "loop s n = None"
proof (rule ccontr)
  assume "loop s n \<noteq> None"
  then obtain x t m where "tries step limit s n t m" "stops step finish limit t m x"
    using least by (metis not_None_eq)
  then have "step t m = Inr x" "n \<le> m" using assms(1) tries_le by (auto simp: stops_def)
  then show False using assms(2) [of m t] by auto
qed

lemma tries_all:
  assumes "\<And>k. n \<le> k \<Longrightarrow> k < m \<Longrightarrow> js_lt (Fin (of_nat k)) limit \<and> (\<forall>s. \<exists>s'. step s k = Inl s')" "n \<le> m"
  shows "\<exists>t. tries step limit s n t m"
  using assms
proof (induction "m - n" arbitrary: n s)
  case 0
  then show ?case using tries.here by (metis diff_is_0_eq le_antisym)
next
  case (Suc d)
  then have nm: "n < m" "d = m - Suc n" by simp_all
  then obtain s' where s': "js_lt (Fin (of_nat n)) limit" "step s n = Inl s'" using Suc.prems(1) [of n] by auto
  have "\<exists>t. tries step limit s' (Suc n) t m" using Suc.hyps(1) [OF nm(2)] Suc.prems(1) nm(1) by simp
  then show ?case by (elim exE) (rule exI, rule tries.again [where step = step, OF s'])
qed

end

interpretation fetch_retries: retry_loop "fetch_loop r net" "fetch_step r net" fetch_finish "num_attempts r" for r net
proof
  fix s n
  show "fetch_loop r net s n = (if js_lt (Fin (of_nat n)) (num_attempts r)
      then (case fetch_step r net s n of Inl s' \<Rightarrow> fetch_loop r net s' (Suc n) | Inr x \<Rightarrow> Some x)
      else Some (fetch_finish s n))" by (rule fetch_loop.simps)
next
  fix s n x assume "fetch_loop r net s n = Some x"
  then show "\<exists>t m. tries (fetch_step r net) (num_attempts r) s n t m
      \<and> stops (fetch_step r net) fetch_finish (num_attempts r) t m x"
    by (rule fetch_loop.raw_induct [rotated]) (rule least_step)
qed

interpretation transient_retries:
  retry_loop "transient_loop r f" "transient_step r f" transient_finish "num_attempts r" for r f
proof
  fix s n
  show "transient_loop r f s n = (if js_lt (Fin (of_nat n)) (num_attempts r)
      then (case transient_step r f s n of Inl s' \<Rightarrow> transient_loop r f s' (Suc n) | Inr x \<Rightarrow> Some x)
      else Some (transient_finish s n))" by (rule transient_loop.simps)
next
  fix s n x assume "transient_loop r f s n = Some x"
  then show "\<exists>t m. tries (transient_step r f) (num_attempts r) s n t m
      \<and> stops (transient_step r f) transient_finish (num_attempts r) t m x"
    by (rule transient_loop.raw_induct [rotated]) (rule least_step)
qed

section \<open>What one attempt decides\<close>

lemma num_attempts_cases: "num_attempts r = PInf \<or> (\<exists>k :: nat. num_attempts r = Fin (of_nat k) \<and> 1 \<le> k)"
proof -
  have "\<exists>k :: nat. js_floor (Fin q) = Fin (of_nat k) \<and> 1 \<le> k" if "1 \<le> q" for q
    using that by (intro exI [of _ "nat \<lfloor>q\<rfloor>"]) (auto simp: js_floor_def nat_le_iff le_floor_iff le_nat_iff)
  moreover have "\<exists>k :: nat. Fin 3 = Fin (of_nat k) \<and> 1 \<le> k" by (rule exI [of _ 3]) simp
  ultimately show ?thesis
    by (auto simp: num_attempts_def js_floor_def js_le_def split: jsval.splits jsnum.splits)
qed

text \<open>An answer that the code tries again, as long as attempts are left.\<close>

definition retried :: "retry_options \<Rightarrow> js_error + response \<Rightarrow> bool" where
  "retried r a = (case a of Inl e \<Rightarrow> isRetryableError (err_value e)
     | Inr rs \<Rightarrow> status rs = JNum (Fin 429) \<and> retry_429 r \<or> isRetryableStatus (status rs))"

lemma server_error_not_4xx: "isRetryableStatus (status rs) \<Longrightarrow> \<not> js_lt (status_num rs) (Fin 500)"
  by (auto simp: isRetryableStatus_def status_num_def js_le_def split: jsval.splits)

lemma fetch_step_retried:
  "retried r (net n) \<Longrightarrow> js_lt (Fin (of_nat n)) (js_sub (num_attempts r) (Fin 1)) \<Longrightarrow>
   \<exists>st'. fetch_step r net st n = Inl st'"
  using server_error_not_4xx
  by (auto simp: retried_def fetch_step_def Let_def isRetryableStatus_def split: sum.splits)

lemma fetch_step_stops:
  "\<not> retried r (net n) \<Longrightarrow> \<exists>ws. fetch_step r net st n =
     Inr (case net n of Inl e \<Rightarrow> Threw e | Inr rs \<Rightarrow> Returned rs, Suc n, ws)"
  by (auto simp: retried_def fetch_step_def Let_def split: sum.splits)

lemma fetch_step_Inr:
  "fetch_step r net st n = Inr (x, k, ws) \<Longrightarrow> k = Suc n \<and> x \<noteq> Gave_undefined"
  by (auto simp: fetch_step_def Let_def split: sum.splits if_splits)

lemma fetch_step_Inl:
  "fetch_step r net st n = Inl st' \<Longrightarrow> lastError st' \<noteq> None \<or> lastResponse st' \<noteq> None"
  by (auto simp: fetch_step_def Let_def split: sum.splits if_splits)

lemma transient_step_eq:
  "transient_step r f st n = (case f n of Inr x \<Rightarrow> Inr (Returned x, Suc n, waits st @ attempt_wait r n)
     | Inl e \<Rightarrow> if transient e then Inl (st\<lparr>waits := waits st @ attempt_wait r n, lastError := Some e\<rparr>)
         else Inr (Threw e, Suc n, waits st @ attempt_wait r n))"
  by (simp add: transient_step_def Let_def)

text \<open>After at least one attempt something was answered.\<close>

lemma tries_answered:
  "tries (fetch_step r net) limit s n t m \<Longrightarrow> n < m \<Longrightarrow> lastError t \<noteq> None \<or> lastResponse t \<noteq> None"
proof (induction rule: tries.induct)
  case (again n s s' t m)
  show ?case
  proof (cases "Suc n < m")
    case False
    with again.prems have "m = Suc n" by simp
    with again.hyps(3) have "t = s'" by (auto dest: tries_same)
    then show ?thesis using fetch_step_Inl [OF again.hyps(2)] by simp
  qed (use again.IH in blast)
qed simp


lemma within_limit:
  assumes "js_lt (Fin (of_nat m)) (num_attempts r)" shows "js_le (Fin (of_nat (Suc m))) (num_attempts r)"
  using num_attempts_cases [of r] assms
  by (auto simp: js_le_def)

lemma fetch_result:
  assumes "fetchWithRetry net r = Some (x, k, ws)"
  shows "1 \<le> k \<and> js_le (Fin (of_nat k)) (num_attempts r) \<and> x \<noteq> Gave_undefined"
proof -
  obtain t m where t: "tries (fetch_step r net) (num_attempts r) \<lparr>waits = [], lastError = None, lastResponse = None\<rparr> 0 t m"
    "stops (fetch_step r net) fetch_finish (num_attempts r) t m (x, k, ws)"
    using assms fetch_retries.loop_iff unfolding fetchWithRetry_def by blast
  show ?thesis
  proof (cases "js_lt (Fin (of_nat m)) (num_attempts r)")
    case True
    then show ?thesis using t(2) fetch_step_Inr within_limit by (fastforce simp: stops_def)
  next
    case False
    then have f: "(x, k, ws) = fetch_finish t m" using t(2) by (simp add: stops_def)
    have "m \<noteq> 0" using False num_attempts_cases [of r] by auto
    then have "0 < m" "js_le (Fin (of_nat (Suc (m - 1)))) (num_attempts r)"
      using within_limit [OF tries_before [OF t(1)]] by simp_all
    then show ?thesis using tries_answered [OF t(1)] f by (auto simp: fetch_finish_def split: option.splits)
  qed
qed

lemma reaches_first:
  assumes "js_lt (Fin (of_nat n)) (num_attempts r)" "\<forall>k < n. retried r (net k)"
    and "num_attempts r = PInf \<or> js_lt (num_attempts r) (Fin (2 ^ 53))"
  shows "\<exists>t. tries (fetch_step r net) (num_attempts r) s 0 t n"
proof (rule fetch_retries.tries_all)
  fix k assume k: "k < n"
  have "js_lt (Fin (of_nat k)) (js_sub (num_attempts r) (Fin 1)) \<and> js_lt (Fin (of_nat k)) (num_attempts r)"
  proof -
    consider "num_attempts r = PInf" | a where "num_attempts r = Fin (of_int (int a))" "a < 2 ^ 53" "n < a"
      using num_attempts_cases [of r] assms(1,3) by auto
    then show ?thesis
    proof cases
      case 2
      have "js_sub (num_attempts r) (Fin (of_int 1)) = Fin (of_int (int a - 1))"
        unfolding 2(1) using 2(2,3) by (intro js_sub_int) auto
      moreover have "(of_nat k :: rat) < of_int (int a - 1)"
      proof -
        have "int k < int a - 1" using k 2(3) by simp
        then show ?thesis by (metis of_int_less_iff of_int_of_nat_eq)
      qed
      ultimately show ?thesis using 2 k by simp
    qed (simp add: js_sub_def)
  qed
  then show "js_lt (Fin (of_nat k)) (num_attempts r) \<and> (\<forall>s. \<exists>s'. fetch_step r net s k = Inl s')"
    using fetch_step_retried assms(2) k by blast
qed simp

lemma first_answer:
  assumes "js_lt (Fin (of_nat n)) (num_attempts r)" "\<forall>k < n. retried r (net k)" "\<not> retried r (net n)"
    and "num_attempts r = PInf \<or> js_lt (num_attempts r) (Fin (2 ^ 53))"
  shows "\<exists>ws. fetchWithRetry net r = Some (case net n of Inl e \<Rightarrow> Threw e | Inr rs \<Rightarrow> Returned rs, Suc n, ws)"
proof -
  define s :: "response retry_state" where "s = \<lparr>waits = [], lastError = None, lastResponse = None\<rparr>"
  obtain t where t: "tries (fetch_step r net) (num_attempts r) s 0 t n"
    using reaches_first [OF assms(1,2,4)] by blast
  obtain ws where "fetch_step r net t n = Inr (case net n of Inl e \<Rightarrow> Threw e | Inr rs \<Rightarrow> Returned rs, Suc n, ws)"
    using fetch_step_stops [where net = net, OF assms(3)] by blast
  then have "stops (fetch_step r net) fetch_finish (num_attempts r) t n
      (case net n of Inl e \<Rightarrow> Threw e | Inr rs \<Rightarrow> Returned rs, Suc n, ws)"
    using assms(1) by (simp add: stops_def)
  then show ?thesis using fetch_retries.tries_loop [OF t] fetch_retries.stops_loop
    unfolding fetchWithRetry_def s_def by metis
qed

text \<open>The wrapper of any function ends under the same condition, by the same loop lemmas.\<close>

lemma transient_stops:
  "\<not> (\<exists>e. f n = Inl e \<and> transient e) \<Longrightarrow> \<exists>x. transient_step r f st n = Inr x"
  by (auto simp: transient_step_eq split: sum.splits)

lemma retryTransient_returns_iff:
  "(\<exists>x. retryTransient f r = Some x) \<longleftrightarrow> num_attempts r \<noteq> PInf \<or> (\<exists>n. \<not> (\<exists>e. f n = Inl e \<and> transient e))"
proof -
  have "\<exists>x. retryTransient f r = Some x" if fin: "num_attempts r \<noteq> PInf"
  proof -
    obtain L where "num_attempts r = Fin L" using num_attempts_cases [of r] fin by auto
    from transient_retries.finite_returns [OF this] show ?thesis
      using transient_retries.loop_iff unfolding retryTransient_def by blast
  qed
  moreover have "\<exists>x. retryTransient f r = Some x"
    if inf: "num_attempts r = PInf" and ex: "\<exists>n. \<not> (\<exists>e. f n = Inl e \<and> transient e)"
  proof -
    obtain n where n: "\<not> (\<exists>e. f n = Inl e \<and> transient e)" "\<forall>k < n. \<exists>e. f k = Inl e \<and> transient e"
      using exists_least_iff [of "\<lambda>n. \<not> (\<exists>e. f n = Inl e \<and> transient e)"] ex by blast
    obtain t where t: "tries (transient_step r f) (num_attempts r) \<lparr>waits = [], lastError = None, lastResponse = None\<rparr> 0 t n"
      using transient_retries.tries_all [of 0 n r f] n(2) inf by (force simp: transient_step_eq)
    then show ?thesis
      using transient_stops [where f = f, OF n(1), of r t] transient_retries.tries_loop [OF t]
        transient_retries.stops_loop [of r f t n] inf
      unfolding retryTransient_def by (auto simp: stops_def)
  qed
  moreover have "retryTransient f r = None" if inf: "num_attempts r = PInf" and "\<forall>n. \<exists>e. f n = Inl e \<and> transient e"
    unfolding retryTransient_def
  proof (rule transient_retries.forever [OF inf])
    fix s k show "\<exists>s'. transient_step r f s k = Inl s'" using that(2) [rule_format, of k] by (auto simp: transient_step_eq)
  qed
  ultimately show ?thesis by (metis option.distinct(1))
qed

section \<open>Properties\<close>

text \<open>
  C27. \<open>fetchWithRetry\<close> ends unless the number of attempts is infinite and every answer is
  transient; in that case it never returns.  A call that ends made at least one request and no
  more than the attempts allow, and it returns a response or throws an error, never undefined.
\<close>

theorem fetch_terminates:
  "((\<exists>x. fetchWithRetry net r = Some x) \<longleftrightarrow> num_attempts r \<noteq> PInf \<or> (\<exists>n. \<not> retried r (net n)))
   \<and> (\<forall>x k ws. fetchWithRetry net r = Some (x, k, ws) \<longrightarrow>
        1 \<le> k \<and> js_le (Fin (of_nat k)) (num_attempts r) \<and> x \<noteq> Gave_undefined)"
proof -
  have "\<exists>x. fetchWithRetry net r = Some x" if fin: "num_attempts r \<noteq> PInf"
  proof -
    obtain L where "num_attempts r = Fin L" using num_attempts_cases [of r] fin by auto
    from fetch_retries.finite_returns [OF this] show ?thesis
      using fetch_retries.loop_iff unfolding fetchWithRetry_def by blast
  qed
  moreover have "\<exists>x. fetchWithRetry net r = Some x" if inf: "num_attempts r = PInf" and ex: "\<exists>n. \<not> retried r (net n)"
  proof -
    obtain n where "\<not> retried r (net n)" "\<forall>k < n. retried r (net k)"
      using exists_least_iff [of "\<lambda>n. \<not> retried r (net n)"] ex by blast
    then show ?thesis using first_answer [of n r net] inf by auto
  qed
  moreover have "fetchWithRetry net r = None" if inf: "num_attempts r = PInf" and "\<forall>n. retried r (net n)"
    unfolding fetchWithRetry_def using that
    by (intro fetch_retries.forever [OF inf] fetch_step_retried) (simp_all add: js_sub_def)
  ultimately have "(\<exists>x. fetchWithRetry net r = Some x) \<longleftrightarrow> num_attempts r \<noteq> PInf \<or> (\<exists>n. \<not> retried r (net n))"
    by (metis option.distinct(1))
  then show ?thesis using fetch_result by blast
qed

lemma fetch_terminates_witness:
  "(\<exists>x. fetchWithRetry (\<lambda>_. Inr \<lparr>status = JNum (Fin 503), retry_after = None\<rparr>)
       \<lparr>attempts = JUndef, baseDelayMs = JUndef, retryOn429 = JUndef\<rparr> = Some x)
   \<and> fetchWithRetry (\<lambda>_. Inr \<lparr>status = JNum (Fin 503), retry_after = None\<rparr>)
       \<lparr>attempts = JNum PInf, baseDelayMs = JUndef, retryOn429 = JUndef\<rparr> = None"
proof -
  have "retried r (Inr \<lparr>status = JNum (Fin 503), retry_after = None\<rparr>)" for r
    by (simp add: retried_def isRetryableStatus_def)
  then have "(\<exists>x. fetchWithRetry (\<lambda>_. Inr \<lparr>status = JNum (Fin 503), retry_after = None\<rparr>) r = Some x)
      \<longleftrightarrow> num_attempts r \<noteq> PInf" for r
    using fetch_terminates [of "\<lambda>_. Inr \<lparr>status = JNum (Fin 503), retry_after = None\<rparr>" r] by blast
  from this [of "\<lparr>attempts = JUndef, baseDelayMs = JUndef, retryOn429 = JUndef\<rparr>"]
    this [of "\<lparr>attempts = JNum PInf, baseDelayMs = JUndef, retryOn429 = JUndef\<rparr>"]
  show ?thesis by (simp add: num_attempts_def js_floor_def js_le_def) (metis option.exhaust prod_cases3)
qed

text \<open>
  C28. The first answer that is not transient decides, whatever came before it: when attempt
  \<open>n\<close> is allowed and the answers before it are transient, \<open>fetchWithRetry\<close> returns that
  response or throws that error after exactly \<open>n + 1\<close> requests.
\<close>

theorem first_final_answer_decides:
  assumes "js_lt (Fin (of_nat n)) (num_attempts r)" "\<forall>k < n. retried r (net k)" "\<not> retried r (net n)"
    and "num_attempts r = PInf \<or> js_lt (num_attempts r) (Fin (2 ^ 53))"
  shows "\<exists>ws. fetchWithRetry net r = Some (case net n of Inl e \<Rightarrow> Threw e | Inr rs \<Rightarrow> Returned rs, Suc n, ws)"
  by (rule first_answer [OF assms])

lemma first_final_answer_decides_witness:
  "\<exists>ws. fetchWithRetry (\<lambda>n. if n = 0 then Inl \<lparr>err_value = JObj [(''code'', JStr ''ECONNRESET'')], is_aggregate = False\<rparr>
        else Inr \<lparr>status = JNum (Fin 200), retry_after = None\<rparr>)
      \<lparr>attempts = JNum (Fin 2), baseDelayMs = JUndef, retryOn429 = JUndef\<rparr>
    = Some (Returned \<lparr>status = JNum (Fin 200), retry_after = None\<rparr>, 2, ws)"
  using first_final_answer_decides [of 1 "\<lparr>attempts = JNum (Fin 2), baseDelayMs = JUndef, retryOn429 = JUndef\<rparr>"
      "\<lambda>n. if n = 0 then Inl \<lparr>err_value = JObj [(''code'', JStr ''ECONNRESET'')], is_aggregate = False\<rparr>
        else Inr \<lparr>status = JNum (Fin 200), retry_after = None\<rparr>"]
  by (simp add: num_attempts_def js_floor_def retried_def isRetryableStatus_def isRetryableError_def js_or_def
      RETRYABLE_CODES_def numeral_2_eq_2)

end
