(* ===== verification/Timeframes.thy ===== *)
theory Timeframes
  imports Js_Value Js_Date
begin

text \<open>
  Timeframes and buckets, \<^verbatim>\<open>backend/scripts/data_ops/ingest_market_data/constants.js\<close>: the
  parser of texts such as \<^verbatim>\<open>15m\<close> or \<^verbatim>\<open>3mo\<close>, and \<open>bucketStartFor\<close>, the start of the bar
  that a time falls into.  The code divides with \<^verbatim>\<open>Math.floor(t / ms) * ms\<close> on floating point
  numbers; the lemmas show that this is exact on every time below \<open>2 ^ 53\<close>.
\<close>

datatype time_error = Unsupported_timeframe string | Invalid_time_value

section \<open>Parsing\<close>

definition ms_minute :: rat where "ms_minute = 60000"
definition ms_hour :: rat where "ms_hour = 3600000"
definition ms_day :: rat where "ms_day = 86400000"

definition SUPPORTED_INTERVALS :: "(string \<times> jsnum) list" where
  "SUPPORTED_INTERVALS =
     [(''1m'', Fin ms_minute), (''5m'', Fin (5 * ms_minute)), (''15m'', Fin (15 * ms_minute)),
      (''30m'', Fin (30 * ms_minute)), (''1h'', Fin ms_hour), (''4h'', Fin (4 * ms_hour)),
      (''1d'', Fin ms_day), (''1w'', Fin (7 * ms_day)), (''1mo'', Fin (30 * ms_day))]"

definition UNIT_MS :: "string \<Rightarrow> jsnum" where
  "UNIT_MS u = (if u = ''m'' then Fin ms_minute else if u = ''h'' then Fin ms_hour
     else if u = ''d'' then Fin ms_day else if u = ''w'' then Fin (7 * ms_day) else NaN)"

record timeframe =
  tf_unit :: string
  tf_n :: jsnum
  tf_ms :: jsnum
  calendar :: "string option"

text \<open>
  \<^verbatim>\<open>/^(\d+)(mo|m|h|d|w)$/\<close> on the trimmed text: no unit starts with a digit, so the digits
  are the longest prefix of digits.
\<close>

definition parseTimeframe :: "jsval \<Rightarrow> timeframe option" where
  "parseTimeframe tf =
    (let s = js_trim (js_to_string (js_nullish tf (JStr '''')));
         ds = takeWhile is_digit s; unit = dropWhile is_digit s; n = js_parse_int ds in
     if ds = [] \<or> unit \<notin> {''mo'', ''m'', ''h'', ''d'', ''w''} then None
     else if \<not> js_is_integer n \<or> js_le n (Fin 0) then None
     else if unit = ''mo'' then Some \<lparr>tf_unit = unit, tf_n = n,
       tf_ms = js_mul (js_mul n (Fin 30)) (UNIT_MS ''d''), calendar = Some ''mo''\<rparr>
     else if unit = ''w'' then Some \<lparr>tf_unit = unit, tf_n = n,
       tf_ms = js_mul n (UNIT_MS ''w''), calendar = Some ''w''\<rparr>
     else Some \<lparr>tf_unit = unit, tf_n = n, tf_ms = js_mul n (UNIT_MS unit), calendar = None\<rparr>)"

definition parseTimeframeMs :: "jsval \<Rightarrow> jsnum option" where
  "parseTimeframeMs tf = (case map_of SUPPORTED_INTERVALS (js_to_string tf) of
     Some ms \<Rightarrow> Some ms
   | None \<Rightarrow> map_option tf_ms (parseTimeframe tf))"

section \<open>Dates from numbers\<close>

text \<open>\<^verbatim>\<open>new Date(x)\<close>: the time value, cut to an integer; \<open>None\<close> is an invalid date.\<close>

definition rat_trunc :: "rat \<Rightarrow> int" where
  "rat_trunc r = (if 0 \<le> r then \<lfloor>r\<rfloor> else \<lceil>r\<rceil>)"

definition time_clip :: "jsnum \<Rightarrow> int option" where
  "time_clip x = (case x of Fin r \<Rightarrow> if \<bar>r\<bar> \<le> of_int max_time then Some (rat_trunc r) else None
     | _ \<Rightarrow> None)"

definition num_iso :: "jsnum \<Rightarrow> time_error + string" where
  "num_iso x = (case Option.bind (time_clip x) to_iso of
     None \<Rightarrow> Inl Invalid_time_value | Some s \<Rightarrow> Inr s)"

text \<open>\<^verbatim>\<open>new Date(v).getTime()\<close>: a text is parsed, anything else converted to a number.\<close>

definition date_time :: "jsval \<Rightarrow> int option" where
  "date_time v = (case v of
     JStr s \<Rightarrow> date_parse s
   | JArr _ \<Rightarrow> date_parse (js_to_string v)
   | JObj _ \<Rightarrow> date_parse (js_to_string v)
   | _ \<Rightarrow> time_clip (js_to_number v))"

text \<open>\<^verbatim>\<open>12 * d.getUTCFullYear() + d.getUTCMonth()\<close>, NaN for an invalid date.\<close>

definition abs_month :: "jsnum \<Rightarrow> jsnum" where
  "abs_month x = (case time_clip x of None \<Rightarrow> NaN
     | Some t \<Rightarrow> let c = civil_from_day (t div ms_per_day) in
         js_add (js_mul (Fin (of_int (cyear c))) (Fin 12)) (Fin (of_int (cmonth c))))"

text \<open>The remainder \<^verbatim>\<open>a % b\<close> has the sign of the dividend.\<close>

definition js_rem :: "jsnum \<Rightarrow> rat \<Rightarrow> jsnum" where
  "js_rem x b = (case x of Fin a \<Rightarrow> Fin (a - b * of_int (rat_trunc (a / b))) | _ \<Rightarrow> NaN)"

text \<open>\<^verbatim>\<open>Date.UTC(y, m, 1, 0, 0, 0, 0)\<close>; a year from 0 to 99 counts from 1900.\<close>

definition date_utc :: "jsnum \<Rightarrow> jsnum \<Rightarrow> jsnum" where
  "date_utc y m = (case (y, m) of
     (Fin a, Fin b) \<Rightarrow>
       (let yi = rat_trunc a; yr = (if 0 \<le> yi \<and> yi \<le> 99 then 1900 + yi else yi);
            t = make_day yr (rat_trunc b) 1 * ms_per_day
        in if \<bar>t\<bar> \<le> max_time then Fin (of_int t) else NaN)
   | _ \<Rightarrow> NaN)"

section \<open>Buckets\<close>

definition MONDAY_ANCHOR_MS :: jsnum where "MONDAY_ANCHOR_MS = Fin (4 * ms_day)"

definition floor_to :: "jsnum \<Rightarrow> jsnum \<Rightarrow> jsnum" where
  "floor_to x ms = js_mul (js_floor (js_div x ms)) ms"

definition bucketStartFor :: "jsnum \<Rightarrow> jsval \<Rightarrow> time_error + jsnum" where
  "bucketStartFor t tf = (case parseTimeframe tf of
     None \<Rightarrow> (case map_of SUPPORTED_INTERVALS (js_to_string tf) of
         None \<Rightarrow> Inl (Unsupported_timeframe (js_to_string tf))
       | Some ms \<Rightarrow> Inr (floor_to t ms))
   | Some p \<Rightarrow>
       if calendar p = Some ''w'' then
         let weeks = js_floor (js_div (js_sub t MONDAY_ANCHOR_MS) (UNIT_MS ''w''))
         in Inr (js_add MONDAY_ANCHOR_MS (js_mul (floor_to weeks (tf_n p)) (UNIT_MS ''w'')))
       else if calendar p = Some ''mo'' then
         let start = floor_to (abs_month t) (tf_n p)
         in Inr (date_utc (js_floor (js_div start (Fin 12))) (js_rem start 12))
       else Inr (floor_to t (tf_ms p)))"

lemmas [js_eval] = UNIT_MS_def ms_minute_def ms_hour_def ms_day_def SUPPORTED_INTERVALS_def

section \<open>Floor division is exact\<close>

text \<open>Rounding moves a normal number by at most one part in \<open>2 ^ 53\<close>.\<close>

lemma fl_abs_rel:
  assumes "pow2 (- 1022) \<le> s" shows "\<bar>fl_abs s - s\<bar> \<le> s / 2 ^ 53"
proof -
  have p: "0 < s" using assms pow2_pos [of "-1022"] by linarith
  have "- 1022 \<le> ilog2 s"
  proof (rule ccontr)
    assume "\<not> - 1022 \<le> ilog2 s"
    then have "pow2 (ilog2 s + 1) \<le> pow2 (- 1022)" by (intro pow2_mono) simp
    with assms ilog2_bounds(2) [OF p] show False by linarith
  qed
  then have e: "fl_exp s = ilog2 s - 52" by (simp add: fl_exp_def)
  define u where "u = pow2 (fl_exp s)"
  have u: "0 < u" "u \<le> s / 2 ^ 52"
    using ilog2_bounds(1) [OF p] pow2_nat [of 52] by (simp_all add: u_def e pow2_diff divide_right_mono)
  have "\<bar>fl_abs s - s\<bar> = \<bar>of_int (rnd_even (s / u)) - s / u\<bar> * u"
  proof -
    have "fl_abs s - s = (of_int (rnd_even (s / u)) - s / u) * u"
      using u(1) unfolding fl_abs_def u_def [symmetric] by (simp add: left_diff_distrib)
    then show ?thesis using u(1) by (simp add: abs_mult)
  qed
  also have "\<dots> \<le> 1 / 2 * u" using rnd_even_dist [of "s / u"] u(1) by (intro mult_right_mono) auto
  finally show ?thesis using u(2) by simp
qed

lemma fl_near:
  assumes t: "\<bar>t\<bar> < 2 ^ 53" and m: "0 < m" "m < 2 ^ 53"
  defines "r \<equiv> of_int t / of_int m :: rat"
  shows "\<exists>q. fl r = Fin q \<and> of_int (t div m) \<le> q \<and> \<bar>q - r\<bar> \<le> \<bar>r\<bar> / 2 ^ 53"
proof -
  have "\<bar>t div m\<bar> \<le> \<bar>t\<bar>" using m(1)
    by (smt (verit) div_by_1 div_pos_pos_trivial nonneg1_imp_zdiv_pos_iff pos_imp_zdiv_nonneg_iff zdiv_mono2 zdiv_mono2_neg)
  then have k: "\<bar>t div m\<bar> < 2 ^ 53" using t by linarith
  have ge: "of_int (t div m) \<le> r"
  proof -
    have "t div m * m \<le> t" using minus_mod_eq_div_mult [of t m] pos_mod_sign [OF m(1), of t] by linarith
    then have "of_int (t div m) * of_int m \<le> (of_int t :: rat)" by (simp only: of_int_le_iff flip: of_int_mult)
    then show ?thesis unfolding r_def using m(1) by (simp add: le_divide_eq)
  qed
  have "\<bar>r\<bar> \<le> of_int \<bar>t\<bar>" unfolding r_def using m(1)
    by (simp add: divide_le_eq mult_le_cancel_left1)
  then have "of_int (- \<bar>t\<bar>) \<le> r" "r \<le> of_int \<bar>t\<bar>" by auto
  then obtain q where q: "fl r = Fin q" using binary64.rnd_between [of "- \<bar>t\<bar>" r "\<bar>t\<bar>"] t by auto
  have "of_int (t div m) \<le> q" using fl_mono [OF ge] fl_of_int [OF k] q by simp
  moreover have "\<bar>q - r\<bar> \<le> \<bar>r\<bar> / 2 ^ 53"
  proof (cases "t = 0")
    case False
    then have "1 / of_int m \<le> \<bar>r\<bar>" unfolding r_def using m(1)
      by (simp add: divide_right_mono flip: of_int_abs)
    moreover have "pow2 (- 1022) \<le> 1 / of_int m"
    proof -
      have "pow2 (- 1022) \<le> pow2 (- 53)" by (rule pow2_mono) simp
      also have "\<dots> = 1 / of_int (2 ^ 53)" by (simp add: pow2_def)
      also have "\<dots> \<le> 1 / of_int m" using m by (intro divide_left_mono) (simp_all flip: of_int_power)
      finally show ?thesis .
    qed
    ultimately have "\<bar>fl_abs \<bar>r\<bar> - \<bar>r\<bar>\<bar> \<le> \<bar>r\<bar> / 2 ^ 53" by (intro fl_abs_rel) linarith
    moreover have "q = sgn r * fl_abs \<bar>r\<bar>" "r \<noteq> 0"
      using q False m(1) by (auto simp: fl_def r_def Let_def split: if_splits)
    ultimately show ?thesis by (cases "0 < r") auto
  qed (use q in \<open>simp add: r_def\<close>)
  ultimately show ?thesis using q by blast
qed

lemma js_floor_div:
  assumes "\<bar>t\<bar> < 2 ^ 53" "0 < m" "m < 2 ^ 53"
  shows "js_floor (js_div (Fin (of_int t)) (Fin (of_int m))) = Fin (of_int (t div m))"
proof -
  define r :: rat where "r = of_int t / of_int m"
  from fl_near [OF assms] obtain q where q: "fl r = Fin q" "of_int (t div m) \<le> q" "\<bar>q - r\<bar> \<le> \<bar>r\<bar> / 2 ^ 53"
    unfolding r_def by blast
  have "t + 1 \<le> (t div m + 1) * m"
    using pos_mod_bound [OF assms(2), of t] minus_mod_eq_div_mult [of t m] by (simp add: distrib_right)
  then have "(of_int (t + 1) :: rat) \<le> of_int ((t div m + 1) * m)" by (simp only: of_int_le_iff)
  then have "r + 1 / of_int m \<le> of_int (t div m) + 1"
    using assms(2) by (simp add: r_def divide_le_eq flip: add_divide_distrib)
  moreover have "\<bar>r\<bar> / 2 ^ 53 < 1 / of_int m"
  proof -
    have "\<bar>r\<bar> = of_int \<bar>t\<bar> / of_int m" using assms(2) by (simp add: r_def)
    moreover have "(of_int \<bar>t\<bar> :: rat) < of_int (2 ^ 53)" using assms(1) by (simp only: of_int_less_iff)
    then have "(of_int \<bar>t\<bar> :: rat) / 2 ^ 53 < 1" by simp
    then have "(of_int \<bar>t\<bar> :: rat) / 2 ^ 53 / of_int m < 1 / of_int m"
      using assms(2) by (intro divide_strict_right_mono) auto
    ultimately show ?thesis by (simp add: divide_divide_eq_left mult.commute)
  qed
  ultimately have "q < of_int (t div m) + 1" using q(3) by linarith
  with q(2) have "\<lfloor>q\<rfloor> = t div m" by (simp add: floor_eq_iff)
  with q(1) assms(2) show ?thesis by (simp add: r_def js_floor_def)
qed

text \<open>Hence the bucket of an integer time is the largest multiple of the span below it.\<close>

lemma floor_to_int:
  assumes "\<bar>t\<bar> < 2 ^ 53" "0 < m" "m < 2 ^ 53" "\<bar>t - t mod m\<bar> < 2 ^ 53"
  shows "floor_to (Fin (of_int t)) (Fin (of_int m)) = Fin (of_int (t - t mod m))"
proof -
  have "of_int (t div m) * of_int m = (of_int (t - t mod m) :: rat)"
    by (simp only: minus_mod_eq_div_mult flip: of_int_mult)
  then show ?thesis using fl_of_int [OF assms(4)]
    unfolding floor_to_def js_floor_div [OF assms(1-3)] js_mul.simps by simp
qed

section \<open>Months\<close>

text \<open>The day on which month \<open>k\<close> starts, months counted from the year 0.\<close>

definition month_first :: "int \<Rightarrow> int" where
  "month_first k = make_day 0 k 1"

lemma month_first_in_year:
  "0 \<le> m \<Longrightarrow> m \<le> 11 \<Longrightarrow> month_first (12 * y + m) = day_from_year y + month_start (leap_year y) m"
  by (simp add: month_first_def make_day_def Let_def)

lemma month_first_next_year: "month_first (12 * y + 12) = day_from_year (y + 1)"
  using month_first_in_year [of 0 "y + 1"] by (simp add: month_start_0 algebra_simps)

lemma month_start_less:
  assumes "0 \<le> m" "m < 11" shows "month_start lp m < month_start lp (m + 1)"
proof -
  have "m = 0 \<or> m = 1 \<or> m = 2 \<or> m = 3 \<or> m = 4 \<or> m = 5 \<or> m = 6 \<or> m = 7 \<or> m = 8 \<or> m = 9 \<or> m = 10"
    using assms by presburger
  then show ?thesis by (elim disjE) (simp_all add: month_start_def)
qed

lemma month_first_less: "month_first k < month_first (k + 1)"
proof -
  define y m where "y = k div 12" and "m = k mod 12"
  have k: "k = 12 * y + m" "0 \<le> m" "m \<le> 11" by (auto simp: y_def m_def)
  show ?thesis
  proof (cases "m = 11")
    case True
    then show ?thesis
      using month_first_in_year [of 11 y] month_first_next_year [of y] day_from_year_Suc [of y]
      by (simp add: k month_start_def add.commute split: if_splits)
  next
    case False
    then show ?thesis
      using month_first_in_year [of m y] month_first_in_year [of "m + 1" y] k
        month_start_less [of m "leap_year y"] by (simp add: add.assoc)
  qed
qed

lemma month_first_mono: "i \<le> j \<Longrightarrow> month_first i \<le> month_first j"
proof (induction j rule: int_ge_induct)
  case (step j)
  then show ?case using month_first_less [of j] by linarith
qed simp

lemma civil_month:
  fixes d :: int
  defines "k \<equiv> 12 * cyear (civil_from_day d) + cmonth (civil_from_day d)"
  shows "month_first k \<le> d" "d < month_first (k + 1)"
proof -
  define y where "y = year_from_day d"
  define dy where "dy = d - day_from_year y"
  define m where "m = month_down (leap_year y) dy 11"
  have k: "k = 12 * y + int m" by (simp add: k_def civil_from_day_def Let_def y_def dy_def m_def)
  have m: "m \<le> 11" unfolding m_def by (rule month_down_le)
  have dy: "0 \<le> dy" "d < day_from_year (y + 1)" using year_from_day_bounds [of d] by (simp_all add: dy_def y_def)
  show "month_first k \<le> d"
    using month_down_start [OF dy(1), of "leap_year y" 11, folded m_def] m
    by (simp add: k month_first_in_year) (simp add: dy_def)
  show "d < month_first (k + 1)"
  proof (cases "m = 11")
    case True
    then show ?thesis using dy(2) month_first_next_year [of y] by (simp add: k add.commute)
  next
    case False
    then have "dy < month_start (leap_year y) (int (Suc m))"
      using m m_def by (intro month_down_next [where n = 11]) auto
    then show ?thesis using False m month_first_in_year [of "int (Suc m)" y]
      by (simp add: k dy_def add.assoc add.commute [of 1])
  qed
qed

section \<open>The bucket of a time\<close>

text \<open>The interval a time belongs to: \<open>n\<close> minutes, hours or days from the epoch, \<open>n\<close> weeks from
  a Monday, or \<open>n\<close> calendar months from the year 0.\<close>

definition month_of :: "int \<Rightarrow> int" where
  "month_of t = (let c = civil_from_day (t div ms_per_day) in 12 * cyear c + cmonth c)"

definition unit_ms :: "string \<Rightarrow> int" where
  "unit_ms u = (if u = ''m'' then 60000 else if u = ''h'' then 3600000 else if u = ''d'' then 86400000 else 604800000)"

definition bucket_interval :: "string \<Rightarrow> int \<Rightarrow> int \<Rightarrow> int \<times> int" where
  "bucket_interval u n t =
    (if u = ''mo'' then let k = month_of t - month_of t mod n
       in (month_first k * ms_per_day, month_first (k + n) * ms_per_day)
     else let len = n * unit_ms u; a = (if u = ''w'' then 345600000 else 0); s = t - (t - a) mod len
       in (s, s + len))"

lemma bucket_interval_contains:
  assumes "0 < n"
  shows "fst (bucket_interval u n t) \<le> t" "t < snd (bucket_interval u n t)"
proof -
  define k where "k = month_of t"
  define d where "d = t div ms_per_day"
  have k: "month_first k \<le> d" "d < month_first (k + 1)"
    using civil_month [of d] by (simp_all add: k_def month_of_def Let_def d_def)
  have "month_first (k - k mod n) \<le> month_first k" "month_first (k + 1) \<le> month_first (k - k mod n + n)"
    using pos_mod_bound [OF assms, of k] pos_mod_sign [OF assms, of k] by (intro month_first_mono; linarith)+
  with k have a: "month_first (k - k mod n) \<le> d" "d + 1 \<le> month_first (k - k mod n + n)" by linarith+
  have d: "d * ms_per_day \<le> t" "t < (d + 1) * ms_per_day" by (simp_all add: d_def ms_per_day_def)
  have "month_first (k - k mod n) * ms_per_day \<le> d * ms_per_day"
    "(d + 1) * ms_per_day \<le> month_first (k - k mod n + n) * ms_per_day"
    using a by (intro mult_right_mono; simp add: ms_per_day_def)+
  with d have mo: "month_first (k - k mod n) * ms_per_day \<le> t" "t < month_first (k - k mod n + n) * ms_per_day"
    by linarith+
  have "0 < n * unit_ms u" using assms by (simp add: unit_ms_def)
  then have w: "0 \<le> (t - a) mod (n * unit_ms u)" "(t - a) mod (n * unit_ms u) < n * unit_ms u" for a by simp_all
  show "fst (bucket_interval u n t) \<le> t" "t < snd (bucket_interval u n t)"
    using mo w [of 0] w [of 345600000] by (simp_all add: bucket_interval_def Let_def k_def)
qed

lemma js_mul_int:
  assumes "\<bar>m * n\<bar> < 2 ^ 53"
  shows "js_mul (Fin (of_int m)) (Fin (of_int n)) = Fin (of_int (m * n))"
  using fl_of_int [OF assms] by simp

lemma parseTimeframe_text:
  assumes n: "0 < n" "n \<le> 1200" and u: "u \<in> {''m'', ''h'', ''d'', ''w'', ''mo''}"
  shows "parseTimeframe (JStr (dec_string n @ u)) = Some \<lparr>tf_unit = u, tf_n = Fin (of_int n),
     tf_ms = (if u = ''mo'' then Fin (of_int (n * 30 * 86400000)) else Fin (of_int (n * unit_ms u))),
     calendar = (if u \<in> {''w'', ''mo''} then Some u else None)\<rparr>"
proof -
  have dg: "list_all is_digit (dec_string n)" using n dec_string_digits [of n] by (auto simp: list_all_iff)
  have ns: "is_digit c \<Longrightarrow> \<not> is_space c" for c by (simp add: js_eval)
  have u': "list_all (\<lambda>c. \<not> is_space c) u" "takeWhile is_digit u = []" "dropWhile is_digit u = u"
    using u by (auto simp: js_eval)
  have s: "js_trim (dec_string n @ u) = dec_string n @ u"
    using dg u'(1) ns by (intro trim_no_space) (auto simp: list_all_iff)
  have tw: "takeWhile is_digit (dec_string n @ u) = dec_string n" "dropWhile is_digit (dec_string n @ u) = u"
    "takeWhile is_digit (dec_string n) = dec_string n"
    using dg u' by (simp_all add: list_all_iff takeWhile_append2 dropWhile_append2)
  have "hd (dec_string n) \<in> set (dec_string n)" by simp
  then have h: "is_digit (hd (dec_string n))" using dg unfolding list_all_iff by blast
  then have sg: "\<not> starts_with (dec_string n) ''-''" "\<not> starts_with (dec_string n) ''+''"
    by (cases "dec_string n"; auto simp: js_eval)+
  have "dropWhile is_space (dec_string n) = dec_string n"
    using ns [OF h] by (cases "dec_string n") auto
  then have pn: "js_parse_int (dec_string n) = Fin (of_int n)"
    using n sg fl_of_int [of n] unfolding js_parse_int_def Let_def by (simp add: tw(3) del: takeWhile_eq_all_conv)
  have ms: "js_mul (Fin (of_int n)) (Fin (of_int k)) = Fin (of_int (n * k))" if "0 < k" "k \<le> 604800000" for k
  proof (rule js_mul_int)
    have "n * k \<le> 1200 * 604800000" using n that by (intro mult_mono) auto
    then show "\<bar>n * k\<bar> < 2 ^ 53" using n that by simp
  qed
  have m30: "js_mul (Fin (of_int (n * 30))) (Fin (of_int 86400000)) = Fin (of_int (n * 30 * 86400000))"
    using n by (intro js_mul_int) simp
  have nl: "js_to_string (js_nullish (JStr x) (JStr '''')) = x" for x by (simp add: js_nullish_def)
  show ?thesis
    unfolding parseTimeframe_def Let_def nl s tw(1,2) pn
    using n u ms [of 60000] ms [of 3600000] ms [of 86400000] ms [of 604800000] ms [of 30] m30
    by (elim insertE emptyE)
      (simp_all add: js_is_integer_def UNIT_MS_def ms_minute_def ms_hour_def ms_day_def unit_ms_def
        del: js_mul.simps)
qed

lemma max_time_safe: "max_time < 2 ^ 53" by (simp add: max_time_def)

lemma abs_month_int:
  assumes "\<bar>t\<bar> \<le> max_time"
  shows "abs_month (Fin (of_int t)) = Fin (of_int (month_of t))"
proof -
  define c where "c = civil_from_day (t div ms_per_day)"
  have y: "\<bar>cyear c\<bar> < 10 ^ 6" using year_small [OF assms] by (simp add: c_def)
  have m: "0 \<le> cmonth c" "cmonth c \<le> 11" by (simp_all add: c_def civil_from_day_fields)
  have "time_clip (Fin (of_int t)) = Some t"
    using assms by (simp add: time_clip_def rat_trunc_def flip: of_int_abs)
  moreover have "js_add (js_mul (Fin (of_int (cyear c))) (Fin (of_int 12))) (Fin (of_int (cmonth c)))
      = Fin (of_int (cyear c * 12 + cmonth c))"
    using y m by (subst js_mul_int, simp, subst js_add_int) auto
  ultimately show ?thesis by (simp add: abs_month_def month_of_def Let_def c_def mult.commute del: js_add.simps js_mul.simps)
qed

lemma date_utc_month:
  assumes "1200 \<le> k" "month_first k * ms_per_day \<le> max_time"
  shows "date_utc (Fin (of_int (k div 12))) (Fin (of_int (k mod 12))) = Fin (of_int (month_first k * ms_per_day))"
proof -
  have "100 \<le> k div 12" using assms(1) by linarith
  moreover have "month_first 1200 \<le> month_first k" using assms(1) by (rule month_first_mono)
  then have "- 1000000 \<le> month_first k"
    using month_first_in_year [of 0 100] by (simp add: month_start_def day_from_year_def)
  then have "- max_time \<le> month_first k * ms_per_day" by (simp add: max_time_def ms_per_day_def)
  then have "\<bar>month_first k * ms_per_day\<bar> \<le> max_time" using assms(2) by linarith
  ultimately show ?thesis
    by (simp add: date_utc_def rat_trunc_def Let_def month_first_def make_day_def del: of_int_mult of_int_add)
qed

lemma month_of_bounds:
  assumes "0 \<le> t" "t \<le> max_time"
  shows "23640 \<le> month_of t" "month_of t < 2 ^ 30" "month_first (month_of t) * ms_per_day \<le> t"
proof -
  define d where "d = t div ms_per_day"
  have d: "0 \<le> d" "d * ms_per_day \<le> t" using assms(1) by (simp_all add: d_def ms_per_day_def)
  have k: "month_first (month_of t) \<le> d" "d < month_first (month_of t + 1)"
    using civil_month [of d] by (simp_all add: month_of_def Let_def d_def)
  show "23640 \<le> month_of t"
  proof (rule ccontr)
    assume "\<not> ?thesis"
    then have "month_first (month_of t + 1) \<le> month_first 23640" by (intro month_first_mono) simp
    also have "month_first 23640 = 0" using month_first_in_year [of 0 1970] by (simp add: month_start_def day_from_year_def)
    finally show False using k(2) d(1) by linarith
  qed
  show "month_of t < 2 ^ 30"
    using year_small [of t] civil_from_day_fields(2) [of d] assms by (simp add: month_of_def Let_def d_def)
  have "month_first (month_of t) * ms_per_day \<le> d * ms_per_day"
    using k(1) by (intro mult_right_mono) (simp_all add: ms_per_day_def)
  with d(2) show "month_first (month_of t) * ms_per_day \<le> t" by linarith
qed

lemma bucket_month:
  assumes n: "0 < n" "n \<le> 1200" and t: "0 \<le> t" "t \<le> max_time"
  defines "k \<equiv> month_of t - month_of t mod n"
  shows "bucketStartFor (Fin (of_int t)) (JStr (dec_string n @ ''mo'')) = Inr (Fin (of_int (month_first k * ms_per_day)))"
proof -
  note mb = month_of_bounds [OF t]
  have r: "0 \<le> month_of t mod n" "month_of t mod n < n" using n by simp_all
  have k: "1200 \<le> k" "k < 2 ^ 30" using mb n r by (simp_all add: k_def)
  have "floor_to (Fin (of_int (month_of t))) (Fin (of_int n)) = Fin (of_int k)"
    using mb n k unfolding k_def by (intro floor_to_int) simp_all
  moreover have "js_floor (js_div (Fin (of_int k)) (Fin (of_int 12))) = Fin (of_int (k div 12))"
    using k by (intro js_floor_div) simp_all
  moreover have "js_rem (Fin (of_int k)) 12 = Fin (of_int (k mod 12))"
    using k by (simp add: js_rem_def rat_trunc_def floor_divide_of_int_eq [of k 12, simplified] minus_div_mult_eq_mod [symmetric])
  moreover have "month_first k * ms_per_day \<le> max_time"
  proof -
    have "month_first k \<le> month_first (month_of t)" using r by (intro month_first_mono) (simp add: k_def)
    then have "month_first k * ms_per_day \<le> month_first (month_of t) * ms_per_day"
      by (intro mult_right_mono) (simp_all add: ms_per_day_def)
    with mb(3) t(2) show ?thesis by linarith
  qed
  ultimately show ?thesis
    using date_utc_month [OF k(1)] t n abs_month_int [of t]
    by (simp add: bucketStartFor_def parseTimeframe_text Let_def del: js_div.simps)
qed

lemma bucket_week:
  assumes n: "0 < n" "n \<le> 1200" and t: "0 \<le> t" "t \<le> max_time"
  shows "bucketStartFor (Fin (of_int t)) (JStr (dec_string n @ ''w''))
    = Inr (Fin (of_int (t - (t - 345600000) mod (n * 604800000))))"
proof -
  define a w :: int where "a = 345600000" and "w = 604800000"
  define k where "k = (t - a) div w"
  have t': "\<bar>t - a\<bar> < 2 ^ 53" "\<bar>t\<bar> < 2 ^ 53" using t by (simp_all add: a_def max_time_def)
  have kb: "\<bar>k\<bar> < 14285720" using t by (auto simp: k_def a_def w_def max_time_def)
  have r: "0 \<le> k mod n" "k mod n < n" using n by simp_all
  define j where "j = k - k mod n"
  have "js_sub (Fin (of_int t)) (Fin (of_int a)) = Fin (of_int (t - a))" using t'(1) by (rule js_sub_int)
  moreover have "js_floor (js_div (Fin (of_int (t - a))) (Fin (of_int w))) = Fin (of_int k)"
    unfolding k_def using t'(1) by (intro js_floor_div) (simp_all add: w_def)
  moreover have "floor_to (Fin (of_int k)) (Fin (of_int n)) = Fin (of_int j)"
    unfolding j_def using kb n r by (intro floor_to_int) simp_all
  moreover have "\<bar>j\<bar> < 14286920" using kb n r unfolding j_def by linarith
  then have b: "\<bar>j * w\<bar> < 2 ^ 53" "\<bar>a + j * w\<bar> < 2 ^ 53"
    unfolding w_def a_def abs_less_iff by auto
  then have "js_mul (Fin (of_int j)) (Fin (of_int w)) = Fin (of_int (j * w))"
    by (intro js_mul_int) simp
  moreover have "js_add (Fin (of_int a)) (Fin (of_int (j * w))) = Fin (of_int (a + j * w))"
    using b(2) by (rule js_add_int)
  moreover have "a + j * w = t - (t - a) mod (n * w)"
  proof -
    have "j * w = (t - a) div (n * w) * (n * w)"
      using n zdiv_zmult2_eq [of n "t - a" w]
      by (simp add: j_def minus_mod_eq_div_mult k_def mult.commute [of n] w_def)
    then show ?thesis using minus_mod_eq_div_mult [of "t - a" "n * w"] by linarith
  qed
  moreover have "MONDAY_ANCHOR_MS = Fin (of_int a)" "UNIT_MS ''w'' = Fin (of_int w)"
    by (simp_all add: MONDAY_ANCHOR_MS_def UNIT_MS_def ms_day_def a_def w_def)
  ultimately show ?thesis
    using n by (simp add: bucketStartFor_def parseTimeframe_text Let_def a_def w_def
        del: js_div.simps js_add.simps js_mul.simps of_int_diff of_int_add of_int_mult)
qed

lemma bucket_fixed:
  assumes n: "0 < n" "n \<le> 1200" and t: "0 \<le> t" "t \<le> max_time" and u: "u \<in> {''m'', ''h'', ''d''}"
  shows "bucketStartFor (Fin (of_int t)) (JStr (dec_string n @ u)) = Inr (Fin (of_int (t - t mod (n * unit_ms u))))"
proof -
  have l: "0 < n * unit_ms u" "n * unit_ms u < 2 ^ 53" using n by (simp_all add: unit_ms_def)
  moreover have "t mod (n * unit_ms u) \<le> t" using t l by (simp add: zmod_le_nonneg_dividend)
  ultimately have "floor_to (Fin (of_int t)) (Fin (of_int (n * unit_ms u))) = Fin (of_int (t - t mod (n * unit_ms u)))"
    using t max_time_safe pos_mod_sign [OF l(1), of t] by (intro floor_to_int) linarith+
  then show ?thesis using n u by (auto simp: bucketStartFor_def parseTimeframe_text)
qed

lemma bucket_error_cases:
  "bucketStartFor t tf = Inl e \<longleftrightarrow>
     parseTimeframe tf = None \<and> e = Unsupported_timeframe (js_to_string tf)"
proof -
  have "map_of SUPPORTED_INTERVALS (js_to_string tf) = None" if "parseTimeframe tf = None"
  proof (rule ccontr)
    assume "\<not> ?thesis"
    then have k: "js_to_string tf \<in> {''1m'', ''5m'', ''15m'', ''30m'', ''1h'', ''4h'', ''1d'', ''1w'', ''1mo''}"
      by (auto simp: SUPPORTED_INTERVALS_def split: if_splits)
    then have "js_nullish tf (JStr '''') = tf" by (cases tf) (auto simp: js_nullish_def)
    then have "parseTimeframe tf = parseTimeframe (JStr (js_to_string tf))"
      by (simp add: parseTimeframe_def js_nullish_def)
    moreover have "parseTimeframe (JStr s) \<noteq> None"
      if "s \<in> {''1m'', ''5m'', ''15m'', ''30m'', ''1h'', ''4h'', ''1d'', ''1w'', ''1mo''}" for s
      using that by (elim insertE emptyE) (simp_all only:, code_simp+)
    ultimately show False using k that by metis
  qed
  then show ?thesis by (auto simp: bucketStartFor_def Let_def split: option.splits)
qed

section \<open>Monotonicity\<close>

lemma js_le_not_NaN: "js_le x y \<Longrightarrow> x \<noteq> NaN \<and> y \<noteq> NaN"
  by (simp add: js_le_def)

lemma js_le_PInf [simp]: "js_le x PInf \<longleftrightarrow> x \<noteq> NaN" and js_le_NInf [simp]: "js_le NInf x \<longleftrightarrow> x \<noteq> NaN"
  by (cases x; simp add: js_le_def)+

lemma js_le_cases:
  assumes "js_le x y"
  obtains a b where "x = Fin a" "y = Fin b" "a \<le> b" | "x = NInf" "y \<noteq> NaN" | "y = PInf" "x \<noteq> NaN"
  using assms by (cases x; cases y) (auto simp: js_le_def)

lemma js_div_mono: "js_le x y \<Longrightarrow> 0 < m \<Longrightarrow> js_le (js_div x (Fin m)) (js_div y (Fin m))"
proof (erule js_le_cases)
  assume "x = NInf" "y \<noteq> NaN" "0 < m"
  then show ?thesis by (cases y) auto
next
  assume "y = PInf" "x \<noteq> NaN" "0 < m"
  then show ?thesis by (cases x) auto
qed (auto intro!: fl_mono divide_right_mono)

lemma js_mul_mono: "js_le x y \<Longrightarrow> 0 < m \<Longrightarrow> js_le (js_mul x (Fin m)) (js_mul y (Fin m))"
proof (erule js_le_cases)
  assume "x = NInf" "y \<noteq> NaN" "0 < m"
  then show ?thesis by (cases y) (auto simp: js_signed_inf_def)
next
  assume "y = PInf" "x \<noteq> NaN" "0 < m"
  then show ?thesis by (cases x) (auto simp: js_signed_inf_def)
qed (auto intro!: fl_mono mult_right_mono)

lemma js_add_mono: "js_le x y \<Longrightarrow> js_le (js_add x (Fin c)) (js_add y (Fin c))"
proof (erule js_le_cases)
  assume "x = NInf" "y \<noteq> NaN"
  then show ?thesis by (cases y) auto
next
  assume "y = PInf" "x \<noteq> NaN"
  then show ?thesis by (cases x) auto
qed (auto intro!: fl_mono)

lemma js_add_commute: "js_add x y = js_add y x"
  by (cases x; cases y) (simp_all add: add.commute)

lemma js_add_mono_right: "js_le x y \<Longrightarrow> js_le (js_add (Fin c) x) (js_add (Fin c) y)"
  using js_add_mono js_add_commute by metis

lemma js_floor_mono: "js_le x y \<Longrightarrow> js_le (js_floor x) (js_floor y)"
proof (erule js_le_cases)
  assume "x = NInf" "y \<noteq> NaN"
  then show ?thesis by (cases y) (auto simp: js_floor_def)
next
  assume "y = PInf" "x \<noteq> NaN"
  then show ?thesis by (cases x) (auto simp: js_floor_def)
qed (auto simp: js_floor_def floor_mono)

lemma floor_to_mono: "js_le x y \<Longrightarrow> 0 < m \<Longrightarrow> js_le (floor_to x (Fin m)) (floor_to y (Fin m))"
  unfolding floor_to_def by (intro js_mul_mono js_floor_mono js_div_mono)

text \<open>A parsed timeframe counts at least one unit, and its span is at least a millisecond.\<close>

lemma parseTimeframe_positive:
  assumes "parseTimeframe tf = Some p"
  shows "\<exists>n. tf_n p = Fin n \<and> 1 \<le> n" "js_le (Fin 1) (tf_ms p)"
proof -
  have ge: "js_le (Fin 1) (js_mul (Fin n) (Fin k))" if "1 \<le> n" "1 \<le> k" for n k
  proof -
    have "1 * 1 \<le> n * k" using that by (intro mult_mono) auto
    then show ?thesis using fl_mono [of 1 "n * k"] by simp
  qed
  have ge': "js_le (Fin 1) (js_mul x (Fin k))" if "js_le (Fin 1) x" "1 \<le> k" for x k
    using that ge by (cases x) (auto simp: js_signed_inf_def js_le_def)
  have unit: "\<exists>k. UNIT_MS u = Fin k \<and> 1 \<le> k" if "u \<in> {''m'', ''h'', ''d'', ''w''}" for u
    using that by (auto simp: UNIT_MS_def ms_minute_def ms_hour_def ms_day_def)
  have "1 \<le> n" if "0 < n" "of_int \<lfloor>n\<rfloor> = n" for n :: rat
    using that by (metis int_one_le_iff_zero_less of_int_0_less_iff of_int_1_le_iff)
  then have int: "\<exists>n. x = Fin n \<and> 1 \<le> n" if "js_is_integer x" "\<not> js_le x (Fin 0)" for x
    using that by (auto simp: js_is_integer_def split: jsnum.splits)
  have one: "js_le (Fin 1) (js_mul x (UNIT_MS u))"
    if "js_le (Fin 1) x" "u \<in> {''m'', ''h'', ''d'', ''w''}" for x u
    using ge' [OF that(1)] unit [OF that(2)] by auto
  define n u where "n = js_parse_int (takeWhile is_digit (js_trim (js_to_string (js_nullish tf (JStr '''')))))"
    and "u = dropWhile is_digit (js_trim (js_to_string (js_nullish tf (JStr ''''))))"
  note eq = parseTimeframe_def [of tf, unfolded Let_def, folded n_def u_def]
  have "js_is_integer n" "\<not> js_le n (Fin 0)" "tf_n p = n"
    using assms unfolding eq by (simp_all split: if_splits) (auto simp: timeframe.defs)
  with int [of n] have tn: "\<exists>k. tf_n p = Fin k \<and> 1 \<le> k" and n: "js_le (Fin 1) n" by auto
  from tn show "\<exists>n. tf_n p = Fin n \<and> 1 \<le> n" .
  have "tf_ms p = js_mul (js_mul n (Fin 30)) (UNIT_MS ''d'')
      \<or> u \<in> {''m'', ''h'', ''d'', ''w''} \<and> tf_ms p = js_mul n (UNIT_MS u)"
    using assms unfolding eq by (simp split: if_splits) (auto simp: timeframe.defs)
  then show "js_le (Fin 1) (tf_ms p)"
  proof (elim disjE conjE)
    assume "tf_ms p = js_mul (js_mul n (Fin 30)) (UNIT_MS ''d'')"
    then show ?thesis using one [OF ge' [OF n, of 30], of "''d''"] by (simp only:) simp
  next
    assume "u \<in> {''m'', ''h'', ''d'', ''w''}" "tf_ms p = js_mul n (UNIT_MS u)"
    then show ?thesis using one [OF n, of u] by (simp only:)
  qed
qed

text \<open>Later times never fall into earlier buckets, except in the month arithmetic of \<^verbatim>\<open>Date.UTC\<close>.\<close>

definition month_timeframe :: "jsval \<Rightarrow> bool" where
  "month_timeframe tf = (\<exists>p. parseTimeframe tf = Some p \<and> calendar p = Some ''mo'')"

lemma bucketStartFor_mono:
  assumes "\<not> month_timeframe tf" "a \<le> b"
    and "bucketStartFor (Fin a) tf = Inr (Fin x)" "bucketStartFor (Fin b) tf = Inr (Fin y)"
  shows "x \<le> y"
proof -
  obtain p where p: "parseTimeframe tf = Some p"
    using assms(3) bucket_error_cases [of "Fin a" tf] by (cases "parseTimeframe tf") auto
  then obtain n where n: "tf_n p = Fin n" "1 \<le> n" "js_le (Fin 1) (tf_ms p)"
    using parseTimeframe_positive by blast
  have ab: "js_le (Fin a) (Fin b)" using assms(2) by simp
  show ?thesis
  proof (cases "calendar p = Some ''w''")
    case True
    define w where "w = (\<lambda>t. floor_to (js_floor (js_div (js_sub (Fin t) MONDAY_ANCHOR_MS) (UNIT_MS ''w''))) (tf_n p))"
    have "js_le (w a) (w b)"
      using ab n(1,2) unfolding w_def js_sub_def MONDAY_ANCHOR_MS_def UNIT_MS_def
      by (auto intro!: floor_to_mono js_floor_mono js_div_mono js_add_mono simp: ms_day_def simp del: js_add.simps js_div.simps)
    then have "js_le (js_add MONDAY_ANCHOR_MS (js_mul (w a) (UNIT_MS ''w''))) (js_add MONDAY_ANCHOR_MS (js_mul (w b) (UNIT_MS ''w'')))"
      unfolding MONDAY_ANCHOR_MS_def UNIT_MS_def
      by (simp add: js_add_mono_right js_mul_mono ms_day_def del: js_add.simps js_mul.simps)
    then show ?thesis using assms(3,4) p True by (simp add: bucketStartFor_def w_def Let_def)
  next
    case False
    then have s: "floor_to (Fin a) (tf_ms p) = Fin x" "floor_to (Fin b) (tf_ms p) = Fin y"
      using assms p by (auto simp: bucketStartFor_def month_timeframe_def)
    then obtain m where m: "tf_ms p = Fin m" "0 < m"
      using n(3) by (cases "tf_ms p") (auto simp: js_le_def floor_to_def js_floor_def js_signed_inf_def)
    from floor_to_mono [OF ab m(2)] s m(1) show ?thesis by simp
  qed
qed

section \<open>Properties\<close>

text \<open>
  C25. \<open>bucketStartFor\<close> implements the calendar intervals: for \<open>n\<close> units up to 1200 and every
  time from the epoch to the last valid date, it returns the start of the interval of \<open>n\<close>
  minutes, hours, days, Monday-aligned weeks or calendar months that contains the time.
\<close>

theorem bucket_refines_calendar:
  assumes "0 < n" "n \<le> 1200" and "0 \<le> t" "t \<le> max_time"
    and "u \<in> {''m'', ''h'', ''d'', ''w'', ''mo''}"
  defines "iv \<equiv> bucket_interval u n t"
  shows "bucketStartFor (Fin (of_int t)) (JStr (dec_string n @ u)) = Inr (Fin (of_int (fst iv)))
    \<and> fst iv \<le> t \<and> t < snd iv"
proof -
  have "bucketStartFor (Fin (of_int t)) (JStr (dec_string n @ u)) = Inr (Fin (of_int (fst iv)))"
    using assms(5) bucket_fixed [OF assms(1-4), of u] bucket_week [OF assms(1-4)] bucket_month [OF assms(1-4)]
    by (auto simp: iv_def bucket_interval_def Let_def unit_ms_def)
  then show ?thesis using bucket_interval_contains [OF assms(1)] by (simp add: iv_def)
qed

lemma bucket_refines_calendar_witness:
  "bucketStartFor (Fin 1717243500000) (JStr (dec_string 3 @ ''mo''))
     = Inr (Fin (of_int (fst (bucket_interval ''mo'' 3 1717243500000))))
   \<and> fst (bucket_interval ''mo'' 3 1717243500000) = 1711929600000"
proof -
  have "fst (bucket_interval ''mo'' 3 1717243500000) = 1711929600000" by code_simp
  then show ?thesis using bucket_refines_calendar [of 3 1717243500000 "''mo''"]
    by (simp add: max_time_def)
qed

text \<open>
  \<open>bucketStartFor\<close> throws exactly on a timeframe that the parser rejects (the table of
  supported intervals adds nothing to what the parser accepts), and the error names it.
\<close>

theorem bucket_error_iff:
  "bucketStartFor t tf = Inl e \<longleftrightarrow>
     parseTimeframe tf = None \<and> e = Unsupported_timeframe (js_to_string tf)"
  by (rule bucket_error_cases)

end
