(* ===== verification/Rollup.thy ===== *)
theory Rollup
  imports Timeframes
begin

text \<open>
  The multi-grain rollup of \<^verbatim>\<open>shared/lib/market/multi_grain_rollup.js\<close>: bars of a base
  timeframe are sanitised and aggregated into coarser timeframes, either in one batch
  (\<open>deriveMultiGrainInMemory\<close>) or bar by bar (\<open>MultiGrainRollupPipeline\<close>).  A registered
  listener is a callback whose exceptions are swallowed: the model keeps the sequence of
  payloads that the pipeline hands to its listeners in the field \<open>notified\<close>.
\<close>

definition DEFAULT_ROLLUP_LADDER :: "string list" where
  "DEFAULT_ROLLUP_LADDER = [''5m'', ''15m'', ''30m'', ''1h'', ''4h'', ''1d'']"

section \<open>Sanitising a record\<close>

record ohlc =
  opn :: jsnum
  high :: jsnum
  low :: jsnum
  cls :: jsnum
  volume :: jsnum

record bar = ohlc +
  symbol :: string
  bar_timeframe :: string
  family :: jsval
  provider :: jsval
  timestamp :: string
  timestampMs :: jsnum
  coordinate_id :: jsval
  config_market :: jsval
  config_sector :: jsval
  derived_from :: jsval

definition record_ms :: "jsval \<Rightarrow> jsnum" where
  "record_ms r = (case js_get r ''timestamp'' of
     JStr s \<Rightarrow> (case date_parse s of None \<Rightarrow> NaN | Some t \<Rightarrow> Fin (of_int t))
   | v \<Rightarrow> js_to_number (js_or (js_or v (js_get r ''openTime'')) (js_get r ''ms'')))"

definition safe_ohlc :: "jsnum \<Rightarrow> jsnum \<Rightarrow> jsnum \<Rightarrow> jsnum \<Rightarrow> jsnum \<Rightarrow> ohlc" where
  "safe_ohlc o1 h l c v = \<lparr>opn = o1,
     high = (if js_is_finite h then js_max (js_max h o1) c else js_max o1 c),
     low = (if js_is_finite l then js_min (js_min l o1) c else js_min o1 c),
     cls = c, volume = (if js_is_finite v \<and> js_lt (Fin 0) v then v else Fin 0)\<rparr>"

definition sanitizeRecord :: "jsval \<Rightarrow> jsval \<Rightarrow> time_error + bar option" where
  "sanitizeRecord r defaultTimeframe =
    (if \<not> truthy r \<or> \<not> typeof_object r then Inr None
     else let ms = record_ms r;
              o1 = js_to_number (js_get r ''open''); c = js_to_number (js_get r ''close'') in
       if \<not> js_is_finite ms then Inr None
       else if \<not> js_is_finite o1 \<or> \<not> js_is_finite c then Inr None
       else rbind (num_iso ms) (\<lambda>iso. Inr (Some (ohlc.extend
         (safe_ohlc o1 (js_to_number (js_get r ''high'')) (js_to_number (js_get r ''low'')) c
            (js_to_number (js_get r ''volume'')))
         (bar.fields (to_upper (text_of (js_get r ''symbol'')))
            (js_to_string (js_or (js_get r ''timeframe'') defaultTimeframe))
            (js_or (js_get r ''family'') (JStr ''unknown''))
            (js_or (js_get r ''provider'') (JStr ''rollup''))
            iso ms
            (js_or (js_get r ''coordinate_id'') JUndef) (js_or (js_get r ''config_market'') JUndef)
            (js_or (js_get r ''config_sector'') JUndef)
            (js_or (js_get r ''derived_from_timeframe'') JUndef))))))"

section \<open>Buckets and derived bars\<close>

record bucket = ohlc +
  bk_symbol :: string
  bk_family :: jsval
  bk_provider :: jsval
  startMs :: jsnum

record derived_bar = ohlc +
  d_symbol :: string
  d_timeframe :: string
  d_family :: jsval
  d_provider :: jsval
  d_timestamp :: string
  derived_from_timeframe :: jsval

definition finalizeBucket :: "'a bucket_scheme \<Rightarrow> string \<Rightarrow> jsval \<Rightarrow> time_error + derived_bar" where
  "finalizeBucket b targetTf baseTf = rbind (num_iso (startMs b)) (\<lambda>iso. Inr
     \<lparr>opn = opn b, high = high b, low = low b, cls = cls b, volume = volume b,
      d_symbol = bk_symbol b, d_timeframe = targetTf, d_family = bk_family b,
      d_provider = bk_provider b, d_timestamp = iso, derived_from_timeframe = baseTf\<rparr>)"

text \<open>The update of an open bucket, the same in both forms of the rollup.\<close>

definition merge_bar :: "bar \<Rightarrow> 'a bucket_scheme \<Rightarrow> 'a bucket_scheme" where
  "merge_bar b k = k\<lparr>high := js_max (high k) (high b), low := js_min (low k) (low b),
     cls := cls b, volume := js_add (volume k) (volume b)\<rparr>"

definition open_bucket :: "string \<Rightarrow> jsval \<Rightarrow> jsval \<Rightarrow> jsnum \<Rightarrow> bar \<Rightarrow> bucket" where
  "open_bucket s fam prov start b =
     \<lparr>opn = opn b, high = high b, low = low b, cls = cls b, volume = volume b,
      bk_symbol = s, bk_family = fam, bk_provider = prov, startMs = start\<rparr>"

section \<open>The batch\<close>

record rollup_options =
  o_baseTimeframe :: jsval
  o_targetTimeframes :: "string list option"
  o_includeBase :: jsval

datatype source = Base_bar bar | Derived derived_bar | Partial derived_bar nat

record rollup =
  derived :: "(string \<times> derived_bar list) list"
  sources :: "source list"
  counts :: "(string \<times> nat) list"

definition ms_or :: "jsval \<Rightarrow> rat \<Rightarrow> jsnum" where
  "ms_or tf d = (case parseTimeframeMs tf of None \<Rightarrow> Fin d
     | Some ms \<Rightarrow> if ms = NaN \<or> ms = Fin 0 then Fin d else ms)"

definition coarser :: "jsval \<Rightarrow> string \<Rightarrow> bool" where
  "coarser baseTf tf = (case parseTimeframeMs (JStr tf) of None \<Rightarrow> False
     | Some ms \<Rightarrow> js_lt (ms_or baseTf 60000) ms)"

fun sanitize_all :: "jsval \<Rightarrow> jsval list \<Rightarrow> time_error + bar list" where
  "sanitize_all baseTf [] = Inr []"
| "sanitize_all baseTf (r # rs) = rbind (sanitizeRecord r baseTf) (\<lambda>s.
     rbind (sanitize_all baseTf rs) (\<lambda>bs. Inr (case s of
       None \<Rightarrow> bs | Some b \<Rightarrow> if symbol b \<noteq> [] then b # bs else bs)))"

text \<open>The comparator of the stable sort is the difference of two finite timestamps.\<close>

definition num_val :: "jsnum \<Rightarrow> rat" where
  "num_val x = (case x of Fin r \<Rightarrow> r | _ \<Rightarrow> 0)"

lemma num_val_Fin [simp]: "num_val (Fin r) = r"
  by (simp add: num_val_def)

definition sort_bars :: "bar list \<Rightarrow> bar list" where
  "sort_bars bs = sort_key (\<lambda>b. num_val (timestampMs b)) bs"

definition dedupe_step :: "bar list \<times> jsnum \<times> string \<Rightarrow> bar \<Rightarrow> bar list \<times> jsnum \<times> string" where
  "dedupe_step st cur = (case st of (deduped, prevMs, prevSym) \<Rightarrow>
     if js_num_eq (timestampMs cur) prevMs \<and> symbol cur = prevSym
     then (butlast deduped @ [cur], prevMs, prevSym)
     else (deduped @ [cur], timestampMs cur, symbol cur))"

definition dedupe :: "bar list \<Rightarrow> bar list" where
  "dedupe bs = fst (foldl dedupe_step ([], Fin (-1), []) bs)"

definition list_at :: "('k \<times> 'v list) list \<Rightarrow> 'k \<Rightarrow> 'v list" where
  "list_at m k = (case map_of m k of None \<Rightarrow> [] | Some xs \<Rightarrow> xs)"

definition group_step :: "(string \<times> bar list) list \<Rightarrow> bar \<Rightarrow> (string \<times> bar list) list" where
  "group_step m b = AList.update (symbol b) (list_at m (symbol b) @ [b]) m"

text \<open>One symbol and one timeframe: close the current bucket whenever its start changes.\<close>

fun roll_bars :: "string \<Rightarrow> jsval \<Rightarrow> jsval \<Rightarrow> string \<Rightarrow> jsval \<Rightarrow> bucket option \<Rightarrow> bar list
    \<Rightarrow> time_error + derived_bar list" where
  "roll_bars s fam prov tf baseTf cur [] = (case cur of None \<Rightarrow> Inr []
     | Some k \<Rightarrow> rbind (finalizeBucket k tf baseTf) (\<lambda>d. Inr [d]))"
| "roll_bars s fam prov tf baseTf cur (b # bs) =
     rbind (bucketStartFor (timestampMs b) (JStr tf)) (\<lambda>start. case cur of
       None \<Rightarrow> roll_bars s fam prov tf baseTf (Some (open_bucket s fam prov start b)) bs
     | Some k \<Rightarrow>
         if js_num_eq (startMs k) start
         then roll_bars s fam prov tf baseTf (Some (merge_bar b k)) bs
         else rbind (finalizeBucket k tf baseTf) (\<lambda>d.
           rbind (roll_bars s fam prov tf baseTf (Some (open_bucket s fam prov start b)) bs)
             (\<lambda>ds. Inr (d # ds))))"

fun roll_timeframes :: "string \<times> bar list \<Rightarrow> jsval \<Rightarrow> string list
    \<Rightarrow> (string \<times> derived_bar list) list \<times> (string \<times> nat) list
    \<Rightarrow> time_error + (string \<times> derived_bar list) list \<times> (string \<times> nat) list" where
  "roll_timeframes g baseTf [] st = Inr st"
| "roll_timeframes g baseTf (tf # tfs) (dv, cn) = (case g of (s, bs) \<Rightarrow>
     rbind (roll_bars s (family (hd bs)) (provider (hd bs)) tf baseTf None bs) (\<lambda>ds.
       let xs = list_at dv tf @ ds in
       roll_timeframes g baseTf tfs (AList.update tf xs dv, AList.update tf (length xs) cn)))"

fun roll_symbols :: "(string \<times> bar list) list \<Rightarrow> jsval \<Rightarrow> string list
    \<Rightarrow> (string \<times> derived_bar list) list \<times> (string \<times> nat) list
    \<Rightarrow> time_error + (string \<times> derived_bar list) list \<times> (string \<times> nat) list" where
  "roll_symbols [] baseTf tfs st = Inr st"
| "roll_symbols (g # gs) baseTf tfs st =
     rbind (roll_timeframes g baseTf tfs st) (\<lambda>st'. roll_symbols gs baseTf tfs st')"

definition empty_rollup :: rollup where
  "empty_rollup = \<lparr>derived = [], sources = [], counts = []\<rparr>"

definition target_timeframes :: "rollup_options \<Rightarrow> jsval \<Rightarrow> string list" where
  "target_timeframes opts baseTf = filter (coarser baseTf)
     (case o_targetTimeframes opts of None \<Rightarrow> DEFAULT_ROLLUP_LADDER | Some l \<Rightarrow> l)"

definition deriveMultiGrainInMemory :: "jsval \<Rightarrow> rollup_options \<Rightarrow> time_error + rollup" where
  "deriveMultiGrainInMemory records opts =
    (let rs = array_items records in
     if \<not> is_array records \<or> rs = [] then Inr empty_rollup
     else let baseTf = js_or (o_baseTimeframe opts) (js_or (js_get (hd rs) ''timeframe'') (JStr ''1m''));
              tfs = target_timeframes opts baseTf in
     rbind (sanitize_all baseTf rs) (\<lambda>sanitized.
       if sanitized = [] then Inr empty_rollup
       else let deduped = dedupe (sort_bars sanitized);
                dv = foldl (\<lambda>m tf. AList.update tf [] m) [] tfs;
                cn = foldl (\<lambda>m tf. AList.update tf 0 m) [] tfs in
         rbind (roll_symbols (foldl group_step [] deduped) baseTf tfs (dv, cn)) (\<lambda>(dv', cn').
           Inr \<lparr>derived = dv',
             sources = (if o_includeBase opts \<noteq> JBool False then map Base_bar deduped else [])
               @ concat (map (\<lambda>tf. map Derived (list_at dv' tf)) tfs),
             counts = cn'\<rparr>)))"

section \<open>The streaming pipeline\<close>

record active_bucket = bucket +
  ab_timeframe :: string
  ab_count :: nat

datatype event = Bar_closed string string derived_bar
  | Bar_updated string string derived_bar
  | Bar_retroactive string string jsnum bar

record pipeline =
  p_baseTimeframe :: jsval
  p_targetTimeframes :: "string list"
  activeBuckets :: "(string \<times> active_bucket) list"
  closedBuffer :: "derived_bar list"
  notified :: "event list"

record emitted =
  em_closed :: "event list"
  em_updated :: "event list"

definition pipeline_init :: "rollup_options \<Rightarrow> pipeline" where
  "pipeline_init opts = (let baseTf = js_or (o_baseTimeframe opts) (JStr ''1m'') in
     \<lparr>p_baseTimeframe = baseTf,
      p_targetTimeframes = filter (\<lambda>tf. js_lt (ms_or baseTf 60000) (ms_or (JStr tf) 0))
        (case o_targetTimeframes opts of None \<Rightarrow> DEFAULT_ROLLUP_LADDER | Some l \<Rightarrow> l),
      activeBuckets = [], closedBuffer = [], notified = []\<rparr>)"

definition bucketKey :: "string \<Rightarrow> string \<Rightarrow> string" where
  "bucketKey s tf = to_upper s @ '':'' @ tf"

definition notify :: "event \<Rightarrow> pipeline \<Rightarrow> pipeline" where
  "notify e p = p\<lparr>notified := notified p @ [e]\<rparr>"

definition new_active :: "bar \<Rightarrow> string \<Rightarrow> jsnum \<Rightarrow> active_bucket" where
  "new_active b tf start = bucket.extend (open_bucket (symbol b) (family b) (provider b) start b)
     (active_bucket.fields tf 1)"

text \<open>Store a bucket, then build and publish its \<^verbatim>\<open>bar_updated\<close> payload, which may throw.\<close>

definition publish_update :: "bar \<Rightarrow> string \<Rightarrow> active_bucket \<Rightarrow> pipeline \<times> emitted
    \<Rightarrow> pipeline \<times> (time_error + emitted)" where
  "publish_update b tf k st = (case st of (p, em) \<Rightarrow>
     let p' = p\<lparr>activeBuckets := AList.update (bucketKey (symbol b) tf) k (activeBuckets p)\<rparr> in
     case finalizeBucket k tf (p_baseTimeframe p) of
       Inl e \<Rightarrow> (p', Inl e)
     | Inr d \<Rightarrow> let ev = Bar_updated (symbol b) tf d in
         (notify ev p', Inr (em\<lparr>em_updated := em_updated em @ [ev]\<rparr>)))"

definition close_bucket :: "bar \<Rightarrow> string \<Rightarrow> derived_bar \<Rightarrow> pipeline \<times> emitted \<Rightarrow> pipeline \<times> emitted" where
  "close_bucket b tf d st = (case st of (p, em) \<Rightarrow>
     let ev = Bar_closed (symbol b) tf d in
     (notify ev (p\<lparr>closedBuffer := closedBuffer p @ [d]\<rparr>), em\<lparr>em_closed := em_closed em @ [ev]\<rparr>))"

definition ingest_tf :: "bar \<Rightarrow> string \<Rightarrow> pipeline \<times> emitted \<Rightarrow> pipeline \<times> (time_error + emitted)" where
  "ingest_tf b tf st = (case st of (p, em) \<Rightarrow>
     case bucketStartFor (timestampMs b) (JStr tf) of
       Inl e \<Rightarrow> (p, Inl e)
     | Inr start \<Rightarrow>
       (case map_of (activeBuckets p) (bucketKey (symbol b) tf) of
         None \<Rightarrow> publish_update b tf (new_active b tf start) (p, em)
       | Some k \<Rightarrow>
         if js_lt (startMs k) start then
           (case finalizeBucket k tf (p_baseTimeframe p) of
             Inl e \<Rightarrow> (p, Inl e)
           | Inr d \<Rightarrow> publish_update b tf (new_active b tf start) (close_bucket b tf d (p, em)))
         else if js_num_eq start (startMs k) then
           publish_update b tf ((merge_bar b k)\<lparr>ab_count := ab_count k + 1\<rparr>) (p, em)
         else (notify (Bar_retroactive (symbol b) tf start b) p, Inr em)))"

fun ingest_all :: "bar \<Rightarrow> string list \<Rightarrow> pipeline \<times> emitted \<Rightarrow> pipeline \<times> (time_error + emitted)" where
  "ingest_all b [] (p, em) = (p, Inr em)"
| "ingest_all b (tf # tfs) st = (case ingest_tf b tf st of
     (p, Inl e) \<Rightarrow> (p, Inl e) | (p, Inr em) \<Rightarrow> ingest_all b tfs (p, em))"

definition ingest :: "jsval \<Rightarrow> pipeline \<Rightarrow> pipeline \<times> (time_error + emitted option)" where
  "ingest rawBar p = (case sanitizeRecord rawBar (p_baseTimeframe p) of
     Inl e \<Rightarrow> (p, Inl e)
   | Inr None \<Rightarrow> (p, Inr None)
   | Inr (Some b) \<Rightarrow> if symbol b = [] then (p, Inr None) else
       (case ingest_all b (p_targetTimeframes p) (p, \<lparr>em_closed = [], em_updated = []\<rparr>) of
         (p', Inl e) \<Rightarrow> (p', Inl e) | (p', Inr em) \<Rightarrow> (p', Inr (Some em))))"

fun ingest_list :: "jsval list \<Rightarrow> pipeline \<Rightarrow> pipeline \<times> (time_error + emitted option list)" where
  "ingest_list [] p = (p, Inr [])"
| "ingest_list (r # rs) p = (case ingest r p of
     (p', Inl e) \<Rightarrow> (p', Inl e)
   | (p', Inr x) \<Rightarrow> (case ingest_list rs p' of
       (p'', Inl e) \<Rightarrow> (p'', Inl e) | (p'', Inr xs) \<Rightarrow> (p'', Inr (x # xs))))"

definition ingestBatch :: "jsval \<Rightarrow> pipeline \<Rightarrow> pipeline \<times> (time_error + emitted option list)" where
  "ingestBatch bars p = (if is_array bars then ingest_list (array_items bars) p else (p, Inr []))"

fun open_bars :: "string option \<Rightarrow> jsval \<Rightarrow> (string \<times> active_bucket) list
    \<Rightarrow> time_error + (derived_bar \<times> nat) list" where
  "open_bars target baseTf [] = Inr []"
| "open_bars target baseTf ((key, k) # m) =
     (if target = None \<or> target = Some (bk_symbol k)
      then rbind (finalizeBucket k (ab_timeframe k) baseTf) (\<lambda>d.
        rbind (open_bars target baseTf m) (\<lambda>ds. Inr ((d, ab_count k) # ds)))
      else open_bars target baseTf m)"

text \<open>An empty symbol after upper-casing selects every bucket, as no symbol does.\<close>

definition getOpenBuckets :: "jsval \<Rightarrow> pipeline \<Rightarrow> time_error + (derived_bar \<times> nat) list" where
  "getOpenBuckets s p = (let t = to_upper (js_to_string s) in
     open_bars (if truthy s \<and> t \<noteq> [] then Some t else None) (p_baseTimeframe p) (activeBuckets p))"

definition count_sources :: "source list \<Rightarrow> (string \<times> nat) list" where
  "count_sources xs = foldl (\<lambda>m x.
     let tf = (case x of Base_bar b \<Rightarrow> bar_timeframe b | Derived d \<Rightarrow> d_timeframe d | Partial d _ \<Rightarrow> d_timeframe d)
     in AList.update tf (Suc (case map_of m tf of None \<Rightarrow> 0 | Some n \<Rightarrow> n)) m) [] xs"

definition flush :: "bool \<Rightarrow> pipeline \<Rightarrow> pipeline \<times> (time_error + source list \<times> (string \<times> nat) list)" where
  "flush includeOpenBuckets p =
    (let src = map Derived (closedBuffer p); p' = p\<lparr>closedBuffer := []\<rparr> in
     (p', rbind (if includeOpenBuckets then getOpenBuckets JNull p' else Inr []) (\<lambda>opens.
       let xs = src @ map (\<lambda>(d, n). Partial d n) opens in Inr (xs, count_sources xs))))"

definition removeSymbol :: "jsval \<Rightarrow> pipeline \<Rightarrow> pipeline" where
  "removeSymbol s p = p\<lparr>activeBuckets :=
     filter (\<lambda>(key, k). \<not> starts_with key (to_upper (js_to_string s) @ '':'')) (activeBuckets p)\<rparr>"

definition clear :: "pipeline \<Rightarrow> pipeline" where
  "clear p = p\<lparr>activeBuckets := [], closedBuffer := []\<rparr>"

section \<open>Writing the index\<close>

datatype write_result = Empty_snapshot | Written nat "(string \<times> nat) list"

text \<open>The result, and the records handed to \<^verbatim>\<open>writeTsIndex\<close> when it is called.\<close>

definition writeMultiGrainTsIndex :: "jsval \<Rightarrow> rollup_options \<Rightarrow> time_error + write_result \<times> source list option" where
  "writeMultiGrainTsIndex snapshot opts =
    (if \<not> truthy snapshot \<or> \<not> is_array (js_get snapshot ''sources'') \<or> array_items (js_get snapshot ''sources'') = []
     then Inr (Empty_snapshot, None)
     else rbind (deriveMultiGrainInMemory (js_get snapshot ''sources'') opts) (\<lambda>r.
       Inr (Written (length (sources r)) (counts r), Some (sources r))))"

section \<open>Well-formed bars\<close>

definition wf_ohlc :: "'a ohlc_scheme \<Rightarrow> bool" where
  "wf_ohlc b = (js_is_finite (opn b) \<and> js_is_finite (cls b) \<and> js_is_finite (high b) \<and> js_is_finite (low b)
     \<and> js_le (low b) (opn b) \<and> js_le (low b) (cls b) \<and> js_le (opn b) (high b) \<and> js_le (cls b) (high b)
     \<and> js_le (Fin 0) (volume b))"

lemma safe_ohlc_wf: "js_is_finite o1 \<Longrightarrow> js_is_finite c \<Longrightarrow> wf_ohlc (safe_ohlc o1 h l c v)"
  by (auto simp: wf_ohlc_def safe_ohlc_def)

lemma sanitizeRecord_wf:
  "sanitizeRecord r d = Inr (Some b) \<Longrightarrow> wf_ohlc b \<and> js_is_finite (timestampMs b)"
  using safe_ohlc_wf
  by (fastforce simp: sanitizeRecord_def Let_def rbind_Inr_iff ohlc.extend_def wf_ohlc_def bar.fields_def
      split: if_splits)

lemma js_add_nonneg: "js_le (Fin 0) x \<Longrightarrow> js_le (Fin 0) y \<Longrightarrow> js_le (Fin 0) (js_add x y)"
  using binary64.rnd_nonneg by (cases x; cases y) (auto simp: js_le_def)

lemma merge_bar_wf: "wf_ohlc b \<Longrightarrow> wf_ohlc k \<Longrightarrow> wf_ohlc (merge_bar b k)"
  by (auto simp: wf_ohlc_def merge_bar_def js_add_nonneg)

lemma open_bucket_wf: "wf_ohlc b \<Longrightarrow> wf_ohlc (open_bucket s f p t b)"
  by (simp add: wf_ohlc_def open_bucket_def)

lemma finalizeBucket_wf: "finalizeBucket k tf base = Inr d \<Longrightarrow> wf_ohlc k \<Longrightarrow> wf_ohlc d"
  by (auto simp: wf_ohlc_def finalizeBucket_def rbind_Inr_iff)

lemmas rollup_wf = merge_bar_wf open_bucket_wf finalizeBucket_wf

lemma roll_bars_wf:
  "roll_bars s fam prov tf base cur bs = Inr ds \<Longrightarrow> \<forall>b \<in> set bs. wf_ohlc b \<Longrightarrow>
   (\<forall>k. cur = Some k \<longrightarrow> wf_ohlc k) \<Longrightarrow> \<forall>d \<in> set ds. wf_ohlc d"
proof (induction bs arbitrary: cur ds)
  case (Cons b bs)
  obtain start where st: "bucketStartFor (timestampMs b) (JStr tf) = Inr start"
    using Cons.prems(1) by (auto simp: rbind_Inr_iff)
  have b: "wf_ohlc b" "\<forall>b \<in> set bs. wf_ohlc b" using Cons.prems(2) by simp_all
  note IH = Cons.IH [OF _ b(2)]
  show ?case
  proof (cases cur)
    case None
    then show ?thesis using Cons.prems st b(1) by (intro IH) (auto intro: open_bucket_wf)
  next
    case (Some k)
    then have k: "wf_ohlc k" using Cons.prems(3) by simp
    show ?thesis
    proof (cases "js_num_eq (startMs k) start")
      case True
      then show ?thesis using Cons.prems(1) Some st k b(1) by (intro IH) (auto intro: merge_bar_wf)
    next
      case False
      then obtain d ds' where "ds = d # ds'" "finalizeBucket k tf base = Inr d"
        "roll_bars s fam prov tf base (Some (open_bucket s fam prov start b)) bs = Inr ds'"
        using Cons.prems(1) Some st by (auto simp: rbind_Inr_iff)
      then show ?thesis using IH [of "Some (open_bucket s fam prov start b)" ds'] k b(1)
        by (auto intro: rollup_wf)
    qed
  qed
qed (auto simp: rbind_Inr_iff split: option.splits intro: rollup_wf)

section \<open>One timeframe of the pipeline\<close>

text \<open>What a bar does to one timeframe of one symbol: the bars closed so far and the open bucket.\<close>

definition stream_step :: "jsval \<Rightarrow> string \<Rightarrow> bar \<Rightarrow> derived_bar list \<times> active_bucket option
    \<Rightarrow> (derived_bar list \<times> active_bucket option) option" where
  "stream_step baseTf tf b st = (case st of (cl, act) \<Rightarrow>
     case bucketStartFor (timestampMs b) (JStr tf) of
       Inl e \<Rightarrow> None
     | Inr start \<Rightarrow>
       if isl (num_iso start) then None else
       (case act of
         None \<Rightarrow> Some (cl, Some (new_active b tf start))
       | Some k \<Rightarrow>
         if js_lt (startMs k) start then
           (case finalizeBucket k tf baseTf of
             Inl e \<Rightarrow> None | Inr d \<Rightarrow> Some (cl @ [d], Some (new_active b tf start)))
         else if js_num_eq start (startMs k)
           then Some (cl, Some ((merge_bar b k)\<lparr>ab_count := ab_count k + 1\<rparr>))
         else Some (cl, act)))"

definition view :: "string \<Rightarrow> string \<Rightarrow> pipeline \<Rightarrow> derived_bar list \<times> active_bucket option" where
  "view s tf p = (filter (\<lambda>d. d_timeframe d = tf) (closedBuffer p), map_of (activeBuckets p) (bucketKey s tf))"

lemma startMs_simps [simp]:
  "startMs (merge_bar b k) = startMs k" "startMs (new_active b tf t) = t" "startMs (open_bucket s f p t b) = t"
  "startMs (bucket.truncate k') = startMs k'" "ab_timeframe (new_active b tf t) = tf"
  by (simp_all add: merge_bar_def new_active_def open_bucket_def bucket.defs active_bucket.defs)

lemma finalizeBucket_Inr: "num_iso (startMs k) = Inr i \<Longrightarrow> \<exists>d. finalizeBucket k tf base = Inr d"
  by (simp add: finalizeBucket_def)

lemma finalizeBucket_tf: "finalizeBucket k tf base = Inr d \<Longrightarrow> d_timeframe d = tf"
  by (auto simp: finalizeBucket_def rbind_Inr_iff)

lemma bucketKey_inject: "bucketKey s tf = bucketKey s tf' \<longleftrightarrow> tf = tf'"
  by (simp add: bucketKey_def)

lemma publish_update_ok:
  assumes "num_iso (startMs k) = Inr i"
  obtains p' em' where "publish_update b tf k (p, em) = (p', Inr em')"
    "closedBuffer p' = closedBuffer p"
    "activeBuckets p' = AList.update (bucketKey (symbol b) tf) k (activeBuckets p)"
    "p_baseTimeframe p' = p_baseTimeframe p" "p_targetTimeframes p' = p_targetTimeframes p"
  using finalizeBucket_Inr [OF assms, of tf "p_baseTimeframe p"]
  by (auto simp: publish_update_def notify_def Let_def)

text \<open>A step of the pipeline is a step of its timeframe and leaves the others alone.\<close>

lemma ingest_tf_step:
  assumes step: "stream_step (p_baseTimeframe p) tf b (view (symbol b) tf p) = Some v"
  shows "\<exists>p' em'. ingest_tf b tf (p, em) = (p', Inr em') \<and> view (symbol b) tf p' = v
    \<and> (\<forall>tf'. tf' \<noteq> tf \<longrightarrow> view (symbol b) tf' p' = view (symbol b) tf' p)
    \<and> p_baseTimeframe p' = p_baseTimeframe p \<and> p_targetTimeframes p' = p_targetTimeframes p"
proof -
  obtain start where st: "bucketStartFor (timestampMs b) (JStr tf) = Inr start"
    using step by (auto simp: stream_step_def view_def split: sum.splits)
  obtain i where i: "num_iso start = Inr i"
    using step st by (cases "num_iso start") (auto simp: stream_step_def view_def)
  note simps = stream_step_def ingest_tf_def view_def map_of_update bucketKey_inject js_num_eq_def
  show ?thesis
  proof (cases "map_of (activeBuckets p) (bucketKey (symbol b) tf)")
    case None
    from publish_update_ok [of "new_active b tf start" i b tf p em] i
    obtain p' em' where "publish_update b tf (new_active b tf start) (p, em) = (p', Inr em')"
      "closedBuffer p' = closedBuffer p"
      "activeBuckets p' = AList.update (bucketKey (symbol b) tf) (new_active b tf start) (activeBuckets p)"
      "p_baseTimeframe p' = p_baseTimeframe p" "p_targetTimeframes p' = p_targetTimeframes p" by auto
    with None step st i show ?thesis by (auto simp: simps)
  next
    case (Some k)
    consider "js_lt (startMs k) start" | "\<not> js_lt (startMs k) start" "start = startMs k" "start \<noteq> NaN"
      | "\<not> js_lt (startMs k) start" "\<not> js_num_eq start (startMs k)" by (auto simp: js_num_eq_def)
    then show ?thesis
    proof cases
      case 1
      then obtain d where d: "finalizeBucket k tf (p_baseTimeframe p) = Inr d"
        using step st i Some by (auto simp: stream_step_def view_def split: sum.splits)
      obtain q em1 where q: "close_bucket b tf d (p, em) = (q, em1)" "closedBuffer q = closedBuffer p @ [d]"
        "activeBuckets q = activeBuckets p" "p_baseTimeframe q = p_baseTimeframe p" "p_targetTimeframes q = p_targetTimeframes p"
        by (simp add: close_bucket_def notify_def Let_def)
      from publish_update_ok [of "new_active b tf start" i b tf q em1] i
      obtain p' em' where "publish_update b tf (new_active b tf start) (q, em1) = (p', Inr em')"
        "closedBuffer p' = closedBuffer q"
        "activeBuckets p' = AList.update (bucketKey (symbol b) tf) (new_active b tf start) (activeBuckets q)"
        "p_baseTimeframe p' = p_baseTimeframe q" "p_targetTimeframes p' = p_targetTimeframes q" by auto
      with 1 d q Some step st i finalizeBucket_tf [OF d] show ?thesis by (auto simp: simps)
    next
      case 2
      define k' where "k' = (merge_bar b k)\<lparr>ab_count := ab_count k + 1\<rparr>"
      from publish_update_ok [of k' i b tf p em] i 2
      obtain p' em' where "publish_update b tf k' (p, em) = (p', Inr em')"
        "closedBuffer p' = closedBuffer p"
        "activeBuckets p' = AList.update (bucketKey (symbol b) tf) k' (activeBuckets p)"
        "p_baseTimeframe p' = p_baseTimeframe p" "p_targetTimeframes p' = p_targetTimeframes p"
        by (auto simp: k'_def)
      with 2 Some step st i show ?thesis by (auto simp: simps k'_def)
    next
      case 3
      with Some step st i show ?thesis by (auto simp: simps notify_def)
    qed
  qed
qed

lemma ingest_all_steps:
  assumes "distinct tfs"
    and "\<forall>tf \<in> set tfs. stream_step (p_baseTimeframe p) tf b (view (symbol b) tf p) = Some (v tf)"
  shows "\<exists>p' em'. ingest_all b tfs (p, em) = (p', Inr em')
    \<and> (\<forall>tf. view (symbol b) tf p' = (if tf \<in> set tfs then v tf else view (symbol b) tf p))
    \<and> p_baseTimeframe p' = p_baseTimeframe p \<and> p_targetTimeframes p' = p_targetTimeframes p"
  using assms
proof (induction tfs arbitrary: p em)
  case (Cons tf tfs)
  then have "stream_step (p_baseTimeframe p) tf b (view (symbol b) tf p) = Some (v tf)" by simp
  from ingest_tf_step [OF this, of em] obtain q em1 where q: "ingest_tf b tf (p, em) = (q, Inr em1)"
    "view (symbol b) tf q = v tf" "\<forall>tf'. tf' \<noteq> tf \<longrightarrow> view (symbol b) tf' q = view (symbol b) tf' p"
    "p_baseTimeframe q = p_baseTimeframe p" "p_targetTimeframes q = p_targetTimeframes p" by blast
  have "\<forall>tf' \<in> set tfs. stream_step (p_baseTimeframe q) tf' b (view (symbol b) tf' q) = Some (v tf')"
  proof
    fix tf' assume "tf' \<in> set tfs"
    moreover from this have "tf' \<noteq> tf" using Cons.prems(1) by auto
    ultimately show "stream_step (p_baseTimeframe q) tf' b (view (symbol b) tf' q) = Some (v tf')"
      using Cons.prems(2) q by simp
  qed
  then obtain p' em' where p': "ingest_all b tfs (q, em1) = (p', Inr em')"
    "\<forall>tf'. view (symbol b) tf' p' = (if tf' \<in> set tfs then v tf' else view (symbol b) tf' q)"
    "p_baseTimeframe p' = p_baseTimeframe q" "p_targetTimeframes p' = p_targetTimeframes q"
    using Cons.IH [of q em1] Cons.prems(1) by auto
  have "view (symbol b) tf' p' = (if tf' \<in> set (tf # tfs) then v tf' else view (symbol b) tf' p)" for tf'
    using p'(2) q(2,3) by auto
  with p' q show ?case by auto
qed auto

fun stream_bars :: "jsval \<Rightarrow> string \<Rightarrow> bar list \<Rightarrow> derived_bar list \<times> active_bucket option
    \<Rightarrow> (derived_bar list \<times> active_bucket option) option" where
  "stream_bars baseTf tf [] st = Some st"
| "stream_bars baseTf tf (b # bs) st = Option.bind (stream_step baseTf tf b st) (stream_bars baseTf tf bs)"

lemma ingest_list_steps:
  assumes "distinct (p_targetTimeframes p)"
    and "map (\<lambda>r. sanitizeRecord r (p_baseTimeframe p)) rs = map (\<lambda>b. Inr (Some b)) bs"
    and "\<forall>b \<in> set bs. symbol b = s" "s \<noteq> []"
    and "\<forall>tf \<in> set (p_targetTimeframes p). stream_bars (p_baseTimeframe p) tf bs (view s tf p) = Some (v tf)"
  shows "\<exists>p' out. ingest_list rs p = (p', Inr out) \<and> (\<forall>tf \<in> set (p_targetTimeframes p). view s tf p' = v tf)
    \<and> (\<forall>tf. tf \<notin> set (p_targetTimeframes p) \<longrightarrow> view s tf p' = view s tf p)
    \<and> p_baseTimeframe p' = p_baseTimeframe p"
  using assms
proof (induction rs arbitrary: bs p)
  case (Cons r rs)
  then obtain b bs' where bs: "bs = b # bs'" "sanitizeRecord r (p_baseTimeframe p) = Inr (Some b)"
    "map (\<lambda>r. sanitizeRecord r (p_baseTimeframe p)) rs = map (\<lambda>b. Inr (Some b)) bs'"
    by (cases bs) auto
  define w where "w = (\<lambda>tf. the (stream_step (p_baseTimeframe p) tf b (view s tf p)))"
  have s: "symbol b = s" using Cons.prems(3) bs by simp
  have w: "stream_step (p_baseTimeframe p) tf b (view s tf p) = Some (w tf)
      \<and> stream_bars (p_baseTimeframe p) tf bs' (w tf) = Some (v tf)" if "tf \<in> set (p_targetTimeframes p)" for tf
    using Cons.prems(5) that bs(1) by (auto simp: w_def bind_eq_Some_conv)
  obtain q em where q: "ingest_all b (p_targetTimeframes p) (p, \<lparr>em_closed = [], em_updated = []\<rparr>) = (q, Inr em)"
    "\<forall>tf. view s tf q = (if tf \<in> set (p_targetTimeframes p) then w tf else view s tf p)"
    "p_baseTimeframe q = p_baseTimeframe p" "p_targetTimeframes q = p_targetTimeframes p"
    using ingest_all_steps [OF Cons.prems(1), where b = b and v = w] w s by blast
  obtain p' out where "ingest_list rs q = (p', Inr out)" "\<forall>tf \<in> set (p_targetTimeframes p). view s tf p' = v tf"
    "\<forall>tf. tf \<notin> set (p_targetTimeframes p) \<longrightarrow> view s tf p' = view s tf q" "p_baseTimeframe p' = p_baseTimeframe q"
    using Cons.IH [of q bs'] Cons.prems q bs w by auto
  with q bs s Cons.prems(4) show ?case by (auto simp: ingest_def)
qed auto

section \<open>Streaming against the batch\<close>

lemma truncate_simps:
  "finalizeBucket (bucket.truncate k) tf base = finalizeBucket k tf base"
  "bucket.truncate ((merge_bar b k)\<lparr>ab_count := n\<rparr>) = merge_bar b (bucket.truncate k)"
  "bucket.truncate (new_active b tf t) = open_bucket (symbol b) (family b) (provider b) t b"
  by (simp_all add: finalizeBucket_def bucket.defs merge_bar_def new_active_def open_bucket_def active_bucket.defs)

lemma roll_bars_start_ok:
  "roll_bars s fam prov tf base (Some k) bs = Inr ds \<Longrightarrow> \<exists>i. num_iso (startMs k) = Inr i"
proof (induction bs arbitrary: k ds)
  case (Cons b bs)
  from Cons.prems obtain start where st: "bucketStartFor (timestampMs b) (JStr tf) = Inr start"
    by (auto simp: rbind_Inr_iff)
  show ?case
  proof (cases "js_num_eq (startMs k) start")
    case True
    with Cons.prems st Cons.IH [of "merge_bar b k" ds] show ?thesis by simp
  qed (use Cons.prems st in \<open>auto simp: rbind_Inr_iff finalizeBucket_def\<close>)
qed (auto simp: rbind_Inr_iff finalizeBucket_def)

lemma num_iso_Fin: "num_iso x = Inr i \<Longrightarrow> \<exists>r. x = Fin r"
  by (cases x) (auto simp: num_iso_def time_clip_def)

definition batch_of :: "bar \<Rightarrow> string \<Rightarrow> jsval \<Rightarrow> active_bucket option \<Rightarrow> bar list \<Rightarrow> time_error + derived_bar list" where
  "batch_of b0 tf base act bs =
     roll_bars (symbol b0) (family b0) (provider b0) tf base (map_option bucket.truncate act) bs"

lemma batch_of_start_ok: "batch_of b0 tf base (Some k) bs = Inr ds \<Longrightarrow> \<exists>i. num_iso (startMs k) = Inr i"
  using roll_bars_start_ok [of _ _ _ _ _ "bucket.truncate k"] by (simp add: batch_of_def)

lemma stream_step_tf:
  "stream_step base tf b (c, act) = Some (c', Some k') \<Longrightarrow> (\<forall>k. act = Some k \<longrightarrow> ab_timeframe k = tf)
   \<Longrightarrow> ab_timeframe k' = tf"
  by (auto simp: stream_step_def merge_bar_def split: sum.splits option.splits if_splits)

text \<open>One bar: the batch either fails later, or it emits what the step closes.\<close>

lemma batch_of_step:
  assumes "batch_of b0 tf base act (b # bs) = Inr ds"
    and same: "symbol b = symbol b0" "family b = family b0" "provider b = provider b0"
    and mono: "\<And>k start. act = Some k \<Longrightarrow> bucketStartFor (timestampMs b) (JStr tf) = Inr start
      \<Longrightarrow> js_lt (startMs k) start \<or> js_num_eq start (startMs k) \<or> isl (num_iso start)"
  obtains cl act' ds' start where "stream_step base tf b (c, act) = Some (c @ cl, Some act')"
    "ds = cl @ ds'" "batch_of b0 tf base (Some act') bs = Inr ds'"
    "bucketStartFor (timestampMs b) (JStr tf) = Inr start" "startMs act' = start"
proof -
  from assms(1) obtain start where st: "bucketStartFor (timestampMs b) (JStr tf) = Inr start"
    by (auto simp: batch_of_def rbind_Inr_iff)
  note eqs = batch_of_def truncate_simps stream_step_def st same
  show ?thesis
  proof (cases act)
    case None
    with assms(1) st have r: "batch_of b0 tf base (Some (new_active b tf start)) bs = Inr ds"
      by (simp add: eqs)
    then obtain i where "num_iso start = Inr i" using roll_bars_start_ok by (fastforce simp: batch_of_def)
    with None r st that [of "[]" "new_active b tf start" ds start] show ?thesis by (simp add: stream_step_def)
  next
    case (Some k)
    show ?thesis
    proof (cases "js_num_eq (startMs k) start")
      case True
      define k' where "k' = (merge_bar b k)\<lparr>ab_count := ab_count k + 1\<rparr>"
      have r: "batch_of b0 tf base (Some k') bs = Inr ds" using assms(1) Some True st by (simp add: eqs k'_def)
      then obtain i where "num_iso (startMs k') = Inr i" using roll_bars_start_ok by (fastforce simp: batch_of_def)
      then have "stream_step base tf b (c, Some k) = Some (c, Some k')" "startMs k' = start"
        using True st by (auto simp: stream_step_def js_num_eq_def k'_def)
      with Some r st that [of "[]" k' ds start] show ?thesis by simp
    next
      case False
      then obtain d ds' where d: "ds = d # ds'" "finalizeBucket k tf base = Inr d"
        "batch_of b0 tf base (Some (new_active b tf start)) bs = Inr ds'"
        using assms(1) Some st by (auto simp: eqs rbind_Inr_iff)
      then obtain i where "num_iso start = Inr i" using roll_bars_start_ok by (fastforce simp: batch_of_def)
      moreover from this have "js_lt (startMs k) start"
        using mono [OF Some st] False by (auto simp: js_num_eq_def)
      ultimately show ?thesis using Some d st that [of "[d]" "new_active b tf start" ds' start]
        by (simp add: stream_step_def)
    qed
  qed
qed

lemma stream_equals_roll:
  assumes "batch_of b0 tf base act bs = Inr ds" and m: "\<not> month_timeframe (JStr tf)"
    and "\<forall>b \<in> set bs. symbol b = symbol b0 \<and> family b = family b0 \<and> provider b = provider b0"
    and "\<forall>b \<in> set bs. js_is_finite (timestampMs b)"
    and "sorted (map (\<lambda>b. num_val (timestampMs b)) bs)"
    and "\<forall>k. act = Some k \<longrightarrow> ab_timeframe k = tf \<and>
      (\<exists>t0. bucketStartFor (Fin t0) (JStr tf) = Inr (startMs k) \<and> (\<forall>b \<in> set bs. t0 \<le> num_val (timestampMs b)))"
  shows "\<exists>cl act'. stream_bars base tf bs (c, act) = Some (c @ cl, act')
    \<and> (\<forall>k. act' = Some k \<longrightarrow> ab_timeframe k = tf)
    \<and> (case act' of None \<Rightarrow> ds = cl \<and> act = None \<and> bs = [] | Some k \<Rightarrow> \<exists>d. finalizeBucket k tf base = Inr d \<and> ds = cl @ [d])"
  using assms(1,3-)
proof (induction bs arbitrary: act ds c)
  case Nil
  then show ?case by (cases act) (auto simp: batch_of_def rbind_Inr_iff truncate_simps)
next
  case (Cons b bs)
  define t where "t = num_val (timestampMs b)"
  have tb: "timestampMs b = Fin t" using Cons.prems(3) by (auto simp: t_def num_val_def)
  have mono: "js_lt (startMs k) start \<or> js_num_eq start (startMs k) \<or> isl (num_iso start)"
    if k: "act = Some k" and st: "bucketStartFor (timestampMs b) (JStr tf) = Inr start" for k start
  proof (cases "num_iso start")
    case (Inr i)
    then obtain y where y: "start = Fin y" using num_iso_Fin by blast
    obtain x where x: "startMs k = Fin x"
      using batch_of_start_ok [OF Cons.prems(1) [unfolded k]] num_iso_Fin by blast
    obtain t0 where "bucketStartFor (Fin t0) (JStr tf) = Inr (startMs k)" "t0 \<le> t"
      using Cons.prems(5) k by (auto simp: t_def)
    then have "x \<le> y" using bucketStartFor_mono [OF m] st x y tb by metis
    then show ?thesis using x y by (auto simp: js_num_eq_def)
  qed simp
  have same: "symbol b = symbol b0" "family b = family b0" "provider b = provider b0" using Cons.prems(2) by simp_all
  obtain cl act1 ds1 start where s: "stream_step base tf b (c, act) = Some (c @ cl, Some act1)"
    "ds = cl @ ds1" "batch_of b0 tf base (Some act1) bs = Inr ds1"
    "bucketStartFor (timestampMs b) (JStr tf) = Inr start" "startMs act1 = start"
    by (rule batch_of_step [OF Cons.prems(1) same mono])
  have tf1: "ab_timeframe act1 = tf"
    using stream_step_tf [OF s(1)] Cons.prems(5) by blast
  have "\<exists>t0. bucketStartFor (Fin t0) (JStr tf) = Inr (startMs act1) \<and> (\<forall>b \<in> set bs. t0 \<le> num_val (timestampMs b))"
    using s(4,5) tb Cons.prems(4) unfolding t_def [symmetric] by (intro exI [of _ t]) auto
  then have act1: "\<forall>k. Some act1 = Some k \<longrightarrow> ab_timeframe k = tf \<and>
      (\<exists>t0. bucketStartFor (Fin t0) (JStr tf) = Inr (startMs k) \<and> (\<forall>b \<in> set bs. t0 \<le> num_val (timestampMs b)))"
    using tf1 by blast
  have rest: "\<forall>b \<in> set bs. symbol b = symbol b0 \<and> family b = family b0 \<and> provider b = provider b0"
    "\<forall>b \<in> set bs. js_is_finite (timestampMs b)" "sorted (map (\<lambda>b. num_val (timestampMs b)) bs)"
    using Cons.prems(2-4) by simp_all
  from Cons.IH [OF s(3) rest act1, of "c @ cl"] obtain cl' act' where
    r: "stream_bars base tf bs (c @ cl, Some act1) = Some ((c @ cl) @ cl', act')"
    "\<forall>k. act' = Some k \<longrightarrow> ab_timeframe k = tf"
    "case act' of None \<Rightarrow> ds1 = cl' \<and> Some act1 = None \<and> bs = [] | Some k \<Rightarrow> \<exists>d. finalizeBucket k tf base = Inr d \<and> ds1 = cl' @ [d]"
    by blast
  obtain k' d where "act' = Some k'" "finalizeBucket k' tf base = Inr d" "ds1 = cl' @ [d]"
    using r(3) by (cases act') auto
  with s(1,2) r(1,2) show ?case by (intro exI [of _ "cl @ cl'"] exI [of _ act']) simp
qed

text \<open>The batch on bars of one symbol that arrive in order, each at a time of its own.\<close>

lemma sanitize_all_ok:
  "map (\<lambda>r. sanitizeRecord r base) rs = map (\<lambda>b. Inr (Some b)) bs \<Longrightarrow> \<forall>b \<in> set bs. symbol b \<noteq> []
   \<Longrightarrow> sanitize_all base rs = Inr bs"
  by (induction rs arbitrary: bs) (auto simp: map_eq_Cons_conv)

lemma sort_bars_sorted:
  "sorted_wrt (<) (map (\<lambda>b. num_val (timestampMs b)) bs) \<Longrightarrow> sort_bars bs = bs"
  unfolding sort_bars_def
  by (induction bs) (auto intro!: insort_is_Cons less_imp_le)

lemma dedupe_distinct:
  "sorted_wrt (<) (map (\<lambda>b. num_val (timestampMs b)) bs) \<Longrightarrow>
   \<forall>b \<in> set bs. \<not> (timestampMs b = m \<and> symbol b = s) \<Longrightarrow>
   fst (foldl dedupe_step (acc, m, s) bs) = acc @ bs"
proof (induction bs arbitrary: acc m s)
  case (Cons b bs)
  then have "\<forall>c \<in> set bs. \<not> (timestampMs c = timestampMs b \<and> symbol c = symbol b)" by auto
  moreover have "dedupe_step (acc, m, s) b = (acc @ [b], timestampMs b, symbol b)"
    using Cons.prems(2) by (auto simp: dedupe_step_def js_num_eq_def)
  ultimately show ?case using Cons by simp
qed simp

lemma group_one_symbol:
  "\<forall>b \<in> set bs. symbol b = s \<Longrightarrow> foldl group_step [(s, xs)] bs = [(s, xs @ bs)]"
  by (induction bs arbitrary: xs) (simp_all add: group_step_def list_at_def)

lemma list_at_update: "list_at (AList.update k x m) k' = (if k' = k then x else list_at m k')"
  by (simp add: list_at_def map_of_update)

lemma list_at_init: "\<forall>k. list_at m k = [] \<Longrightarrow> list_at (foldl (\<lambda>m tf. AList.update tf [] m) m tfs) k = []"
  by (induction tfs arbitrary: m) (simp_all add: list_at_update)

lemma roll_timeframes_each:
  assumes "roll_timeframes (s, bs) base tfs (dv, cn) = Inr (dv', cn')" "distinct tfs"
  shows "(\<forall>tf \<in> set tfs. \<exists>ds. roll_bars s (family (hd bs)) (provider (hd bs)) tf base None bs = Inr ds
      \<and> list_at dv' tf = list_at dv tf @ ds) \<and> (\<forall>tf. tf \<notin> set tfs \<longrightarrow> list_at dv' tf = list_at dv tf)"
  using assms
proof (induction tfs arbitrary: dv cn)
  case (Cons tf tfs)
  then obtain ds where ds: "roll_bars s (family (hd bs)) (provider (hd bs)) tf base None bs = Inr ds"
    "roll_timeframes (s, bs) base tfs (AList.update tf (list_at dv tf @ ds) dv,
       AList.update tf (length (list_at dv tf @ ds)) cn) = Inr (dv', cn')"
    by (auto simp: rbind_Inr_iff Let_def)
  from Cons.IH [OF ds(2)] Cons.prems(2) ds(1) show ?case by (auto simp: list_at_update)
qed auto

lemma targets_agree: "p_targetTimeframes (pipeline_init opts) = target_timeframes opts (js_or (o_baseTimeframe opts) (JStr ''1m''))"
proof -
  have one: "js_le (Fin 1) ms" if "parseTimeframeMs tf = Some ms" for tf ms
    using that parseTimeframe_positive(2)
    by (auto simp: parseTimeframeMs_def SUPPORTED_INTERVALS_def ms_minute_def ms_hour_def ms_day_def
        split: option.splits if_splits)
  have "js_le (Fin 1) (ms_or tf 60000)" for tf
    using one [of tf] by (auto simp: ms_or_def split: option.splits)
  then have z: "\<not> js_lt (ms_or tf 60000) (Fin 0)" for tf
    by (metis js_le_def js_le_Fin js_le_trans zero_le_one)
  have "js_lt (ms_or b 60000) (ms_or (JStr tf) 0) = coarser b tf" for b tf
    using z [of b] one [of "JStr tf"] by (auto simp: coarser_def ms_or_def [of "JStr tf"] js_le_def split: option.splits)
  then show ?thesis by (simp add: pipeline_init_def target_timeframes_def Let_def)
qed

lemma batch_one_symbol:
  assumes "deriveMultiGrainInMemory (JArr rs) opts = Inr res" and "truthy (o_baseTimeframe opts)"
    and "distinct (target_timeframes opts (o_baseTimeframe opts))"
    and "map (\<lambda>r. sanitizeRecord r (o_baseTimeframe opts)) rs = map (\<lambda>b. Inr (Some b)) (b0 # bs)"
    and "\<forall>b \<in> set (b0 # bs). symbol b = s" "s \<noteq> []"
    and "sorted_wrt (<) (map (\<lambda>b. num_val (timestampMs b)) (b0 # bs))"
    and "tf \<in> set (target_timeframes opts (o_baseTimeframe opts))"
  shows "batch_of b0 tf (o_baseTimeframe opts) None (b0 # bs) = Inr (list_at (derived res) tf)"
proof -
  define base tfs where "base = o_baseTimeframe opts" and "tfs = target_timeframes opts base"
  have sa: "sanitize_all base rs = Inr (b0 # bs)"
    using assms(4,5,6) unfolding base_def by (intro sanitize_all_ok) auto
  have dd: "dedupe (sort_bars (b0 # bs)) = b0 # bs"
    using dedupe_distinct [OF assms(7)] sort_bars_sorted [OF assms(7)] assms(5,6) by (simp add: dedupe_def)
  have gr: "foldl group_step [] (b0 # bs) = [(s, b0 # bs)]"
    using group_one_symbol [of bs s "[b0]"] assms(5) by (simp add: group_step_def list_at_def)
  have "rs \<noteq> []" using assms(4) by auto
  with assms(1,2) sa dd gr obtain dv cn where r:
    "roll_timeframes (s, b0 # bs) base tfs (foldl (\<lambda>m tf. AList.update tf [] m) [] tfs,
       foldl (\<lambda>m tf. AList.update tf 0 m) [] tfs) = Inr (dv, cn)" "derived res = dv"
    by (auto simp: deriveMultiGrainInMemory_def Let_def array_items_def is_array_def js_or_def base_def tfs_def rbind_Inr_iff)
  have "list_at (foldl (\<lambda>m tf. AList.update tf [] m) [] tfs) tf = []"
    by (rule list_at_init) (simp add: list_at_def)
  then show ?thesis
    using roll_timeframes_each [OF r(1)] r(2) assms(3,5,8)
    by (auto simp: batch_of_def base_def tfs_def simp del: roll_bars.simps)
qed

section \<open>Every bar of the batch is well-formed\<close>

lemma sanitize_all_wf: "sanitize_all base rs = Inr bs \<Longrightarrow> \<forall>b \<in> set bs. wf_ohlc b"
proof (induction rs arbitrary: bs)
  case (Cons r rs)
  then obtain s bs' where s: "sanitizeRecord r base = Inr s" "sanitize_all base rs = Inr bs'"
    "bs = (case s of None \<Rightarrow> bs' | Some b \<Rightarrow> if symbol b \<noteq> [] then b # bs' else bs')"
    by (auto simp: rbind_Inr_iff)
  then show ?case using Cons.IH [OF s(2)] sanitizeRecord_wf [of r base] by (cases s) auto
qed simp

lemma dedupe_subset: "set (fst (foldl dedupe_step (acc, m, s) bs)) \<subseteq> set acc \<union> set bs"
proof (induction bs arbitrary: acc m s)
  case (Cons b bs)
  obtain acc' m' s' where st: "dedupe_step (acc, m, s) b = (acc', m', s')" by (metis prod_cases3)
  then have "set acc' \<subseteq> insert b (set acc)"
    by (auto simp: dedupe_step_def split: if_splits dest: in_set_butlastD)
  then show ?case using Cons.IH [of acc' m' s'] st by auto
qed simp

lemma set_update_subset: "set (AList.update k v m) \<subseteq> insert (k, v) (set m)"
  by (induction m) auto

lemma set_list_at: "x \<in> set (list_at m k) \<Longrightarrow> \<exists>xs. (k, xs) \<in> set m \<and> x \<in> set xs"
  by (cases "map_of m k") (auto simp: list_at_def dest: map_of_SomeD)

lemma group_subset:
  "\<forall>(s, xs) \<in> set m. set xs \<subseteq> A \<Longrightarrow> set bs \<subseteq> A \<Longrightarrow>
   \<forall>(s, xs) \<in> set (foldl group_step m bs). set xs \<subseteq> A"
proof (induction bs arbitrary: m)
  case (Cons b bs)
  have "x \<in> A" if "x \<in> set (list_at m (symbol b))" for x
    using set_list_at [OF that] Cons.prems(1) by auto
  then have "set (list_at m (symbol b) @ [b]) \<subseteq> A" using Cons.prems(2) by auto
  then have "\<forall>(s, xs) \<in> set (group_step m b). set xs \<subseteq> A"
    using Cons.prems(1) set_update_subset [of "symbol b" "list_at m (symbol b) @ [b]" m]
    unfolding group_step_def by (auto dest!: subsetD)
  then show ?case using Cons by simp
qed simp

definition wf_derived :: "(string \<times> derived_bar list) list \<Rightarrow> bool" where
  "wf_derived dv = (\<forall>tf. \<forall>d \<in> set (list_at dv tf). wf_ohlc d)"

lemma roll_timeframes_wf:
  "roll_timeframes (s, bs) base tfs (dv, cn) = Inr (dv', cn') \<Longrightarrow> \<forall>b \<in> set bs. wf_ohlc b \<Longrightarrow>
   wf_derived dv \<Longrightarrow> wf_derived dv'"
proof (induction tfs arbitrary: dv cn)
  case (Cons tf tfs)
  then obtain ds where ds: "roll_bars s (family (hd bs)) (provider (hd bs)) tf base None bs = Inr ds"
    "roll_timeframes (s, bs) base tfs (AList.update tf (list_at dv tf @ ds) dv,
       AList.update tf (length (list_at dv tf @ ds)) cn) = Inr (dv', cn')"
    by (auto simp: rbind_Inr_iff Let_def)
  have "wf_derived (AList.update tf (list_at dv tf @ ds) dv)"
    using roll_bars_wf [OF ds(1) Cons.prems(2)] Cons.prems(3) by (auto simp: wf_derived_def list_at_update)
  then show ?case using Cons.IH [OF ds(2) Cons.prems(2)] by blast
qed simp

lemma roll_symbols_wf:
  "roll_symbols gs base tfs (dv, cn) = Inr (dv', cn') \<Longrightarrow> \<forall>(s, bs) \<in> set gs. set bs \<subseteq> {b. wf_ohlc b} \<Longrightarrow>
   wf_derived dv \<Longrightarrow> wf_derived dv'"
proof (induction gs arbitrary: dv cn)
  case (Cons g gs)
  obtain s bs where g: "g = (s, bs)" by (cases g)
  with Cons.prems(1) obtain dv1 cn1 where st: "roll_timeframes (s, bs) base tfs (dv, cn) = Inr (dv1, cn1)"
    "roll_symbols gs base tfs (dv1, cn1) = Inr (dv', cn')" by (auto simp: rbind_Inr_iff)
  have "wf_derived dv1" using roll_timeframes_wf [OF st(1)] Cons.prems(2,3) g by auto
  then show ?case using Cons.IH [OF st(2)] Cons.prems(2) by auto
qed simp

lemma derive_wf:
  assumes "deriveMultiGrainInMemory records opts = Inr res"
  shows "wf_derived (derived res) \<and> (\<forall>d. Derived d \<in> set (sources res) \<longrightarrow> wf_ohlc d)
    \<and> (\<forall>b. Base_bar b \<in> set (sources res) \<longrightarrow> wf_ohlc b)"
proof (cases "res = empty_rollup")
  case True
  then show ?thesis by (simp add: empty_rollup_def wf_derived_def list_at_def)
next
  case False
  define base where "base = js_or (o_baseTimeframe opts) (js_or (js_get (hd (array_items records)) ''timeframe'') (JStr ''1m''))"
  define tfs where "tfs = target_timeframes opts base"
  from assms False obtain bs dv cn where s: "sanitize_all base (array_items records) = Inr bs"
    "roll_symbols (foldl group_step [] (dedupe (sort_bars bs))) base tfs
       (foldl (\<lambda>m tf. AList.update tf [] m) [] tfs, foldl (\<lambda>m tf. AList.update tf 0 m) [] tfs) = Inr (dv, cn)"
    "derived res = dv" "sources res = (if o_includeBase opts \<noteq> JBool False then map Base_bar (dedupe (sort_bars bs)) else [])
       @ concat (map (\<lambda>tf. map Derived (list_at dv tf)) tfs)"
    by (auto simp: deriveMultiGrainInMemory_def Let_def base_def tfs_def rbind_Inr_iff split: if_splits)
  have wf: "set (dedupe (sort_bars bs)) \<subseteq> {b. wf_ohlc b}"
    using sanitize_all_wf [OF s(1)] dedupe_subset [of "[]" "Fin (-1)" "[]" "sort_bars bs"]
    by (auto simp: dedupe_def sort_bars_def)
  have "wf_derived dv"
  proof (rule roll_symbols_wf [OF s(2)])
    show "\<forall>(s, bs) \<in> set (foldl group_step [] (dedupe (sort_bars bs))). set bs \<subseteq> {b. wf_ohlc b}"
      using group_subset [OF _ wf, of "[]"] by simp
    have "list_at (foldl (\<lambda>m tf. AList.update tf ([] :: derived_bar list) m) [] tfs) k = []" for k
      by (rule list_at_init) (simp add: list_at_def)
    then show "wf_derived (foldl (\<lambda>m tf. AList.update tf [] m) [] tfs)" by (simp add: wf_derived_def)
  qed
  then show ?thesis using wf s(3,4) by (auto simp: wf_derived_def)
qed

section \<open>The pipeline keeps well-formed buckets\<close>

inductive pipeline_reach :: "pipeline \<Rightarrow> bool" where
  init: "pipeline_reach (pipeline_init opts)"
| ingest: "pipeline_reach p \<Longrightarrow> pipeline_reach (fst (ingest r p))"
| flush: "pipeline_reach p \<Longrightarrow> pipeline_reach (fst (flush b p))"
| remove: "pipeline_reach p \<Longrightarrow> pipeline_reach (removeSymbol s p)"
| clear: "pipeline_reach p \<Longrightarrow> pipeline_reach (clear p)"

definition wf_pipeline :: "pipeline \<Rightarrow> bool" where
  "wf_pipeline p = ((\<forall>d \<in> set (closedBuffer p). wf_ohlc d) \<and> (\<forall>(key, k) \<in> set (activeBuckets p). wf_ohlc k))"

lemma new_active_wf: "wf_ohlc b \<Longrightarrow> wf_ohlc (new_active b tf t)"
  by (simp add: wf_ohlc_def new_active_def open_bucket_def bucket.defs)

lemma publish_update_wf:
  assumes "wf_ohlc k" "wf_pipeline p" shows "wf_pipeline (fst (publish_update b tf k (p, em)))"
proof -
  have "\<forall>(key, k') \<in> set (AList.update (bucketKey (symbol b) tf) k (activeBuckets p)). wf_ohlc k'"
    using set_update_subset [of "bucketKey (symbol b) tf" k "activeBuckets p"] assms
    unfolding wf_pipeline_def by fast
  then show ?thesis using assms(2)
    by (simp add: publish_update_def wf_pipeline_def notify_def Let_def split: sum.splits)
qed

lemma ingest_tf_wf:
  assumes b: "wf_ohlc b" and p: "wf_pipeline p" shows "wf_pipeline (fst (ingest_tf b tf (p, em)))"
proof (cases "bucketStartFor (timestampMs b) (JStr tf)")
  case (Inr start)
  note na = new_active_wf [OF b, of tf start]
  show ?thesis
  proof (cases "map_of (activeBuckets p) (bucketKey (symbol b) tf)")
    case None
    then show ?thesis using Inr publish_update_wf [OF na p] by (simp add: ingest_tf_def)
  next
    case (Some k)
    have k: "wf_ohlc k" using p map_of_SomeD [OF Some] by (auto simp: wf_pipeline_def)
    have m: "wf_ohlc ((merge_bar b k)\<lparr>ab_count := ab_count k + 1\<rparr>)"
      using merge_bar_wf [OF b k] by (simp add: wf_ohlc_def)
    have c: "wf_pipeline (fst (close_bucket b tf d (p, em)))" if "finalizeBucket k tf base = Inr d" for d base
      using p finalizeBucket_wf [OF that k] by (auto simp: wf_pipeline_def close_bucket_def notify_def Let_def)
    have c': "wf_pipeline (fst (publish_update b tf (new_active b tf start) (close_bucket b tf d (p, em))))"
      if "finalizeBucket k tf base = Inr d" for d base
      using publish_update_wf [OF na c [OF that], of b tf "snd (close_bucket b tf d (p, em))"] by simp
    have n: "wf_pipeline (notify e p)" for e using p by (simp add: wf_pipeline_def notify_def)
    show ?thesis
      using Inr Some p publish_update_wf [OF m p] c' n by (simp add: ingest_tf_def split: sum.splits)
  qed
qed (simp add: ingest_tf_def p)

lemma ingest_all_wf: "wf_ohlc b \<Longrightarrow> wf_pipeline p \<Longrightarrow> wf_pipeline (fst (ingest_all b tfs (p, em)))"
proof (induction tfs arbitrary: p em)
  case (Cons tf tfs)
  then show ?case using ingest_tf_wf [OF Cons.prems, of tf em]
    by (auto split: prod.splits sum.splits)
qed simp

lemma ingest_wf: "wf_pipeline p \<Longrightarrow> wf_pipeline (fst (ingest r p))"
  using sanitizeRecord_wf [of r "p_baseTimeframe p"] ingest_all_wf [of _ p "p_targetTimeframes p"]
  by (auto simp: ingest_def split: sum.splits option.splits prod.splits) (metis fst_conv)+

section \<open>Properties\<close>

text \<open>
  The pipeline keeps only well-formed candles: in every state reachable by ingesting any
  values, flushing, removing symbols and clearing, every open bucket and every closed bar has
  finite prices with \<open>low \<le> open, close \<le> high\<close> and a volume that is not negative.
\<close>

theorem pipeline_buckets_well_formed:
  "pipeline_reach p \<Longrightarrow> (\<forall>d \<in> set (closedBuffer p). wf_ohlc d) \<and> (\<forall>(key, k) \<in> set (activeBuckets p). wf_ohlc k)"
proof -
  assume "pipeline_reach p"
  then have "wf_pipeline p"
  proof (induction p rule: pipeline_reach.induct)
    case (ingest p r)
    then show ?case by (intro ingest_wf)
  qed (auto simp: wf_pipeline_def pipeline_init_def flush_def removeSymbol_def clear_def Let_def)
  then show ?thesis by (simp add: wf_pipeline_def)
qed

definition demo_record :: "int \<Rightarrow> int \<Rightarrow> jsval" where
  "demo_record t x = JObj [(''symbol'', JStr ''btc''), (''ms'', JNum (Fin (of_int t))),
     (''open'', JNum (Fin (of_int x))), (''close'', JNum (Fin (of_int (x + 1)))), (''volume'', JNum (Fin 2))]"

definition demo_options :: rollup_options where
  "demo_options = \<lparr>o_baseTimeframe = JStr ''1m'', o_targetTimeframes = Some [''5m''], o_includeBase = JUndef\<rparr>"

definition demo_bar :: "int \<Rightarrow> int \<Rightarrow> string \<Rightarrow> bar" where
  "demo_bar t x ts = \<lparr>opn = Fin (of_int x), high = Fin (of_int (x + 1)), low = Fin (of_int x),
     cls = Fin (of_int (x + 1)), volume = Fin 2, symbol = ''BTC'', bar_timeframe = ''1m'',
     family = JStr ''unknown'', provider = JStr ''rollup'', timestamp = ts, timestampMs = Fin (of_int t),
     coordinate_id = JUndef, config_market = JUndef, config_sector = JUndef, derived_from = JUndef\<rparr>"

lemma pipeline_buckets_well_formed_witness:
  "\<exists>k. map_of (activeBuckets (fst (ingest (demo_record 60000 7) (pipeline_init demo_options)))) ''BTC:5m'' = Some k \<and> wf_ohlc k"
proof -
  define p where "p = fst (ingest (demo_record 60000 7) (pipeline_init demo_options))"
  have r: "pipeline_reach p" unfolding p_def by (intro pipeline_reach.intros)
  have "map_of (activeBuckets p) ''BTC:5m'' \<noteq> None" unfolding p_def by code_simp
  then obtain k where k: "map_of (activeBuckets p) ''BTC:5m'' = Some k" by blast
  with pipeline_buckets_well_formed [OF r] show ?thesis unfolding p_def [symmetric] by (auto dest: map_of_SomeD)
qed

text \<open>
  C39. Every bar that the batch rollup returns, base bars and derived bars alike, is a
  well-formed candle, whatever values the records hold.
\<close>

theorem derived_bars_well_formed:
  "deriveMultiGrainInMemory records opts = Inr res \<Longrightarrow>
     (\<forall>d. Derived d \<in> set (sources res) \<longrightarrow> wf_ohlc d) \<and> (\<forall>b. Base_bar b \<in> set (sources res) \<longrightarrow> wf_ohlc b)
   \<and> (\<forall>d \<in> set (list_at (derived res) tf). wf_ohlc d)"
  using derive_wf by (auto simp: wf_derived_def)

lemma derived_bars_well_formed_witness:
  "\<exists>res d. deriveMultiGrainInMemory (JArr [demo_record 60000 7, demo_record 120000 5]) demo_options = Inr res
     \<and> Derived d \<in> set (sources res) \<and> wf_ohlc d \<and> volume d = Fin 4"
proof -
  define r where "r = deriveMultiGrainInMemory (JArr [demo_record 60000 7, demo_record 120000 5]) demo_options"
  have "(case r of Inl _ \<Rightarrow> False | Inr res \<Rightarrow>
      list_ex (\<lambda>x. case x of Derived d \<Rightarrow> volume d = Fin 4 | _ \<Rightarrow> False) (sources res))"
    unfolding r_def by code_simp
  then obtain res d where "r = Inr res" "Derived d \<in> set (sources res)" "volume d = Fin 4"
    by (auto simp: list_ex_iff split: sum.splits source.splits) (metis source.exhaust)
  then show ?thesis using derived_bars_well_formed unfolding r_def by blast
qed



end
