(* ===== verification/Js_Math.thy ===== *)
theory Js_Math
  imports Js_Number
begin

text \<open>
  Functions of \<^verbatim>\<open>Math\<close> on numbers and further laws of the rounding: a rounded number rounds to
  itself, and a fraction with a denominator that is a power of two is exact.
\<close>

section \<open>Square roots\<close>

function isqrt :: "int \<Rightarrow> int" where
  "isqrt n = (if n < 1 then 0 else let r = 2 * isqrt (n div 4) in if (r + 1) * (r + 1) \<le> n then r + 1 else r)"
  by pat_completeness auto
termination
  by (relation "measure nat") auto

declare isqrt.simps [simp del]

text \<open>
  \<^verbatim>\<open>Math.sqrt\<close>, the square root rounded once: the integer root of \<open>a\<close> scaled to at least 110
  bits has 55 bits or more, and a half stands for the discarded rest, so that rounding it gives
  the same number as rounding the exact root.
\<close>

definition js_sqrt :: "jsnum \<Rightarrow> jsnum" where
  "js_sqrt x = (case x of
     Fin a \<Rightarrow> if a < 0 then NaN else if a = 0 then Fin 0 else
       let k = 56 - ilog2 a div 2; y = a * pow2 (2 * k); s = isqrt \<lfloor>y\<rfloor> in
       fl ((of_int s + (if of_int (s * s) = y then 0 else 1 / 2)) / pow2 k)
   | PInf \<Rightarrow> PInf | _ \<Rightarrow> NaN)"

section \<open>Sums and integer parts\<close>

definition js_sum :: "jsnum list \<Rightarrow> jsnum" where
  "js_sum xs = foldl js_add (Fin 0) xs"

definition js_len :: "'a list \<Rightarrow> jsnum" where
  "js_len xs = Fin (of_nat (length xs))"

definition js_ceil :: "jsnum \<Rightarrow> jsnum" where
  "js_ceil x = (case x of Fin a \<Rightarrow> Fin (of_int \<lceil>a\<rceil>) | _ \<Rightarrow> x)"

definition js_round :: "jsnum \<Rightarrow> jsnum" where
  "js_round x = (case x of Fin a \<Rightarrow> Fin (of_int \<lfloor>a + 1/2\<rfloor>) | _ \<Rightarrow> x)"

section \<open>Laws\<close>

lemma fl_sign: "0 \<le> r \<Longrightarrow> fl r = PInf \<or> (\<exists>q \<ge> 0. fl r = Fin q)"
  using fl_mono [of 0 r] by (cases "fl r") (auto simp: js_le_def)

lemma isqrt_nonneg: "0 \<le> isqrt n"
proof (induction n rule: isqrt.induct)
  case (1 n)
  show ?case
  proof (cases "n < 1")
    case False
    then have "0 \<le> isqrt (n div 4)" using 1 by simp
    then show ?thesis using False by (subst isqrt.simps) (simp add: Let_def)
  qed (simp add: isqrt.simps [of n])
qed

lemma js_sqrt_nonneg:
  assumes "0 \<le> a" shows "js_sqrt (Fin a) = PInf \<or> (\<exists>q \<ge> 0. js_sqrt (Fin a) = Fin q)"
proof (cases "a = 0")
  case False
  define k where "k = 56 - ilog2 a div 2"
  define s where "s = isqrt \<lfloor>a * pow2 (2 * k)\<rfloor>"
  have "0 \<le> (of_int s :: rat)" using isqrt_nonneg by (simp add: s_def)
  then have "0 \<le> (of_int s + (if of_int (s * s) = a * pow2 (2 * k) then 0 else 1 / 2)) / pow2 k"
    by (intro divide_nonneg_pos add_nonneg_nonneg) simp_all
  then show ?thesis using fl_sign assms False by (simp add: js_sqrt_def Let_def k_def [symmetric] s_def [symmetric])
qed (simp add: js_sqrt_def)

lemma fl_idem:
  assumes "fl r = Fin q" shows "fl q = Fin q"
proof (cases "r = 0")
  case True then show ?thesis using assms by simp
next
  case False
  define s where "s = \<bar>r\<bar>"
  have s: "0 < s" using False by (simp add: s_def)
  have q: "q = sgn r * fl_abs s" "\<not> pow2 1024 \<le> fl_abs s"
    using assms False by (auto simp: fl_alt Let_def s_def split: if_splits)
  have n: "0 \<le> fl_abs s" using s by (rule fl_abs_nonneg)
  have e: "fl_abs (fl_abs s) = fl_abs s" if z: "0 < fl_abs s"
  proof (cases "fl_exp (fl_abs s) \<le> fl_exp s")
    case True
    then show ?thesis by (rule fl_abs_exact [where n = "rnd_even (s / pow2 (fl_exp s))"]) (simp add: fl_abs_def)
  next
    case False
    define k where "k = ilog2 s + 1"
    have l: "s \<le> pow2 k" using ilog2_bounds(2) [OF s] by (simp add: k_def)
    have f: "fl_exp (fl_abs s) = ilog2 (fl_abs s) - 52" "ilog2 s < ilog2 (fl_abs s)" "-1074 \<le> fl_exp s"
      using False by (auto simp: fl_exp_def)
    have "-1074 < ilog2 (fl_abs s) - 52" using f False by linarith
    have "pow2 k \<le> pow2 (ilog2 (fl_abs s))" using f(2) by (intro pow2_mono) (simp add: k_def)
    also have "\<dots> \<le> fl_abs s" by (rule ilog2_bounds(1) [OF z])
    finally have lo: "pow2 k \<le> fl_abs s" .
    have "fl_exp s \<le> k"
    proof (rule ccontr)
      assume "\<not> fl_exp s \<le> k"
      then have "k < -1074" by (auto simp: fl_exp_def k_def)
      then have "s \<le> pow2 (fl_exp s - 1)" using l pow2_mono [of k "fl_exp s - 1"] \<open>\<not> fl_exp s \<le> k\<close> by simp
      then have "s / pow2 (fl_exp s) \<le> 1/2" by (simp add: pow2_diff pos_divide_le_eq)
      then have "rnd_even (s / pow2 (fl_exp s)) = 0"
      proof -
        define x where "x = s / pow2 (fl_exp s)"
        have x: "0 < x" "x \<le> 1/2" using s \<open>s / pow2 (fl_exp s) \<le> 1/2\<close> by (simp_all add: x_def)
        then have "\<lfloor>x\<rfloor> = 0" by (simp add: floor_eq_iff)
        then show ?thesis unfolding x_def [symmetric] using x by (simp add: rnd_even_def Let_def)
      qed
      then show False using z by (simp add: fl_abs_def)
    qed
    then have hi: "fl_abs s \<le> pow2 k" using l by (rule fl_abs_le_pow2)
    then have eq: "fl_abs s = pow2 k" using lo by simp
    have "ilog2 (pow2 k) \<le> k"
    proof (rule ccontr)
      assume "\<not> ilog2 (pow2 k) \<le> k"
      then have "k < ilog2 (pow2 k)" by simp
      then have "pow2 (k + 1) \<le> pow2 (ilog2 (pow2 k))" by (intro pow2_mono) simp
      also have "\<dots> \<le> pow2 k" by (rule ilog2_bounds(1)) simp
      finally show False by (simp add: pow2_add)
    qed
    then have "fl_exp (fl_abs s) \<le> k" using f(1) unfolding eq by linarith
    then show ?thesis by (rule fl_abs_exact [where n = 1]) (simp add: eq)
  qed
  show ?thesis
  proof (cases "fl_abs s = 0")
    case True then show ?thesis using q by simp
  next
    case z: False
    with n have z': "0 < fl_abs s" by simp
    have a: "\<bar>q\<bar> = fl_abs s" "q \<noteq> 0" "sgn q = sgn r" using q z' False by (auto simp: abs_mult sgn_mult sgn_if)
    then show ?thesis using e [OF z'] q(2) a by (simp add: fl_alt Let_def) (simp add: q(1))
  qed
qed

lemma fl_dyadic:
  assumes "\<bar>n\<bar> < 2 ^ 53" "j \<le> 1000" shows "fl (of_int n / 2 ^ j) = Fin (of_int n / 2 ^ j)"
proof (cases "n = 0")
  case False
  define s :: rat where "s = \<bar>of_int n / 2 ^ j\<bar>"
  have s: "0 < s" "s = of_int \<bar>n\<bar> / 2 ^ j" using False by (auto simp: s_def)
  have p: "pow2 (- int j) = 1 / 2 ^ j" by (simp add: pow2_def)
  have "(of_int \<bar>n\<bar> :: rat) < 2 ^ 53" using assms by (metis of_int_less_iff of_int_numeral of_int_power)
  then have "s < pow2 53 * pow2 (- int j)" using s by (simp add: p divide_strict_right_mono pow2_def)
  then have i: "ilog2 s < 53 - int j" using s by (intro ilog2_less) (simp_all add: pow2_add [symmetric])
  then have "fl_exp s \<le> - int j" using assms(2) by (simp add: fl_exp_def)
  then have "fl_abs s = s" by (rule fl_abs_exact [where n = "\<bar>n\<bar>"]) (simp add: s(2) p)
  moreover have "\<not> 1024 \<le> ilog2 s" using i by simp
  moreover have "sgn (of_int n / 2 ^ j) * s = of_int n / 2 ^ j" unfolding s_def by (rule sgn_mult_abs)
  moreover have "of_int n / 2 ^ j \<noteq> (0 :: rat)" using False by simp
  ultimately show ?thesis unfolding fl_def Let_def s_def [symmetric] by (simp only: if_False)
qed simp

end
