(* ===== verification/Streaming_Router.thy ===== *)
theory Streaming_Router
  imports Rollup Js_Math
begin

text \<open>
  \<^verbatim>\<open>shared/lib/market/streaming_quote_router.js\<close>: a ring buffer of the last bars with
  incremental RSI, ATR and Bollinger values, and the router that keeps one per symbol and
  timeframe and dispatches payloads to its listeners.  The environment variable
  \<^verbatim>\<open>SOVEREIGN_STREAMING_WINDOW_SIZE\<close>, the clock, the answers of the listeners and of their
  backpressure probes are parameters; so is \<^verbatim>\<open>calculateFeatureFrame\<close>, the indicator library,
  which only the features of a payload depend on.
\<close>

section \<open>Incremental indicators\<close>

record bollinger =
  bb_middle :: jsnum
  bb_upper :: jsnum
  bb_lower :: jsnum

record indicators =
  prevClose :: "jsnum option"
  sumGain :: jsnum
  sumLoss :: jsnum
  avgGain :: jsnum
  avgLoss :: jsnum
  rsi :: "jsnum option"
  rsiCount :: nat
  prevAtrClose :: "jsnum option"
  sumTr :: jsnum
  atr :: "jsnum option"
  atrCount :: nat
  bbBuffer :: "jsnum list"
  bbHead :: nat
  bbCount :: nat
  bbSum :: jsnum
  bbSumSq :: jsnum
  ring_bollinger :: "bollinger option"

definition rsiPeriod :: nat where "rsiPeriod = 14"
definition atrPeriod :: nat where "atrPeriod = 14"
definition bbPeriod :: nat where "bbPeriod = 20"

definition initial_indicators :: indicators where
  "initial_indicators = \<lparr>prevClose = None, sumGain = Fin 0, sumLoss = Fin 0, avgGain = Fin 0, avgLoss = Fin 0,
     rsi = None, rsiCount = 0, prevAtrClose = None, sumTr = Fin 0, atr = None, atrCount = 0,
     bbBuffer = replicate bbPeriod (Fin 0), bbHead = 0, bbCount = 0, bbSum = Fin 0, bbSumSq = Fin 0,
     ring_bollinger = None\<rparr>"

definition rsi_value :: "jsnum \<Rightarrow> jsnum \<Rightarrow> jsnum" where
  "rsi_value ag al = (if al = Fin 0 then Fin 100
     else js_sub (Fin 100) (js_div (Fin 100) (js_add (Fin 1) (js_div ag al))))"

text \<open>\<^verbatim>\<open>(avg * (period - 1) + x) / period\<close>, Wilder's smoothing.\<close>

definition smooth :: "nat \<Rightarrow> jsnum \<Rightarrow> jsnum \<Rightarrow> jsnum" where
  "smooth period avg x = js_div (js_add (js_mul avg (Fin (of_nat (period - 1)))) x) (Fin (of_nat period))"

definition update_rsi :: "jsnum \<Rightarrow> indicators \<Rightarrow> indicators" where
  "update_rsi close i = (case prevClose i of
     None \<Rightarrow> i\<lparr>prevClose := Some close\<rparr>
   | Some prev \<Rightarrow>
       let change = js_sub close prev;
           gain = (if js_lt (Fin 0) change then change else Fin 0);
           loss = (if js_lt change (Fin 0) then js_neg change else Fin 0);
           n = rsiCount i + 1;
           i1 = (if n \<le> rsiPeriod then
             let sg = js_add (sumGain i) gain; sl = js_add (sumLoss i) loss;
                 i2 = i\<lparr>sumGain := sg, sumLoss := sl\<rparr> in
             if n = rsiPeriod then
               let ag = js_div sg (Fin (of_nat rsiPeriod)); al = js_div sl (Fin (of_nat rsiPeriod)) in
               i2\<lparr>avgGain := ag, avgLoss := al, rsi := Some (rsi_value ag al)\<rparr>
             else i2
           else
             let ag = smooth rsiPeriod (avgGain i) gain; al = smooth rsiPeriod (avgLoss i) loss in
             i\<lparr>avgGain := ag, avgLoss := al, rsi := Some (rsi_value ag al)\<rparr>)
       in i1\<lparr>rsiCount := n, prevClose := Some close\<rparr>)"

definition finite_or :: "jsval \<Rightarrow> jsnum \<Rightarrow> jsnum" where
  "finite_or v d = (case v of JNum n \<Rightarrow> if js_is_finite n then n else d | _ \<Rightarrow> d)"

definition update_atr :: "jsnum \<Rightarrow> jsnum \<Rightarrow> jsnum \<Rightarrow> indicators \<Rightarrow> indicators" where
  "update_atr hi lo close i =
    (let tr0 = js_sub hi lo;
         tr = (case prevAtrClose i of None \<Rightarrow> tr0
           | Some p \<Rightarrow> js_max (js_max tr0 (js_abs (js_sub hi p))) (js_abs (js_sub lo p)));
         n = atrCount i + 1; i1 = i\<lparr>prevAtrClose := Some close, atrCount := n\<rparr> in
     if n \<le> atrPeriod then
       let s = js_add (sumTr i) tr; i2 = i1\<lparr>sumTr := s\<rparr> in
       if n = atrPeriod then i2\<lparr>atr := Some (js_div s (Fin (of_nat atrPeriod)))\<rparr> else i2
     else (case atr i of None \<Rightarrow> i1 | Some a \<Rightarrow> i1\<lparr>atr := Some (smooth atrPeriod a tr)\<rparr>))"

definition bb_slide :: "jsnum \<Rightarrow> indicators \<Rightarrow> indicators" where
  "bb_slide close i =
    (let h = bbHead i; i1 = i\<lparr>bbBuffer := (bbBuffer i)[h := close], bbHead := (h + 1) mod bbPeriod\<rparr> in
     if bbCount i < bbPeriod then
       i1\<lparr>bbCount := bbCount i + 1, bbSum := js_add (bbSum i) close, bbSumSq := js_add (bbSumSq i) (js_mul close close)\<rparr>
     else let old = bbBuffer i ! h in
       i1\<lparr>bbSum := js_add (bbSum i) (js_sub close old),
          bbSumSq := js_add (bbSumSq i) (js_sub (js_mul close close) (js_mul old old))\<rparr>)"

definition update_bollinger :: "jsnum \<Rightarrow> indicators \<Rightarrow> indicators" where
  "update_bollinger close i =
    (let i1 = bb_slide close i in
     if bbPeriod \<le> bbCount i1 then
       let mean = js_div (bbSum i1) (Fin (of_nat bbPeriod));
           variance = js_max (Fin 0) (js_sub (js_div (bbSumSq i1) (Fin (of_nat bbPeriod))) (js_mul mean mean));
           stdev = js_sqrt variance in
       i1\<lparr>ring_bollinger := Some \<lparr>bb_middle = mean, bb_upper = js_add mean (js_mul (Fin 2) stdev),
            bb_lower = js_sub mean (js_mul (Fin 2) stdev)\<rparr>\<rparr>
     else i1)"

definition updateIndicators :: "jsval \<Rightarrow> indicators \<Rightarrow> indicators" where
  "updateIndicators b i = (let close = js_to_number (js_get b ''close'') in
     if \<not> js_is_finite close then i
     else update_bollinger close
       (update_atr (finite_or (js_get b ''high'') close) (finite_or (js_get b ''low'') close) close
         (update_rsi close i)))"

section \<open>The ring buffer\<close>

definition resolveDefaultCapacity :: "jsval \<Rightarrow> jsval \<Rightarrow> nat" where
  "resolveDefaultCapacity env override =
    (case js_to_number override of
       Fin r \<Rightarrow> if 0 < r then nat \<lfloor>r\<rfloor> else
         (case js_to_number env of Fin q \<Rightarrow> if 0 < q then nat \<lfloor>q\<rfloor> else 200 | _ \<Rightarrow> 200)
     | _ \<Rightarrow> (case js_to_number env of Fin q \<Rightarrow> if 0 < q then nat \<lfloor>q\<rfloor> else 200 | _ \<Rightarrow> 200))"

datatype router_error = Invalid_array_length | Type_error | Rollup_error time_error

definition max_array_length :: int where "max_array_length = 4294967295"

text \<open>The head is \<open>None\<close> for NaN, which \<^verbatim>\<open>x % 0\<close> gives when the capacity is zero.\<close>

record ring =
  capacity :: nat
  buffer :: "jsval list"
  head :: "nat option"
  size :: nat
  ind :: indicators

definition js_mod :: "nat \<Rightarrow> nat \<Rightarrow> nat option" where
  "js_mod a m = (if m = 0 then None else Some (a mod m))"

definition new_ring :: "jsval \<Rightarrow> jsval \<Rightarrow> router_error + ring" where
  "new_ring env cap = (let c = resolveDefaultCapacity env cap in
     if int c > max_array_length then Inl Invalid_array_length
     else Inr \<lparr>capacity = c, buffer = replicate c JUndef, head = Some 0, size = 0, ind = initial_indicators\<rparr>)"

text \<open>\<^verbatim>\<open>xs[i] = v\<close>: writing past the end extends the array; a NaN index is no index.\<close>

definition array_set :: "'a \<Rightarrow> 'a list \<Rightarrow> nat option \<Rightarrow> 'a \<Rightarrow> 'a list" where
  "array_set d xs i v = (case i of None \<Rightarrow> xs
     | Some n \<Rightarrow> if n < length xs then xs[n := v] else xs @ replicate (n - length xs) d @ [v])"

definition push :: "jsval \<Rightarrow> ring \<Rightarrow> ring" where
  "push b r = r\<lparr>buffer := array_set JUndef (buffer r) (head r) b,
     head := Option.bind (head r) (\<lambda>h. js_mod (h + 1) (capacity r)),
     size := (if size r < capacity r then size r + 1 else size r),
     ind := updateIndicators b (ind r)\<rparr>"

text \<open>An index that is NaN or past the end reads \<^verbatim>\<open>undefined\<close>.\<close>

definition array_get :: "jsval list \<Rightarrow> nat option \<Rightarrow> jsval" where
  "array_get xs i = (case i of None \<Rightarrow> JUndef | Some n \<Rightarrow> if n < length xs then xs ! n else JUndef)"

definition toArray :: "ring \<Rightarrow> jsval list" where
  "toArray r = (if size r < capacity r then take (size r) (buffer r)
     else map (\<lambda>i. array_get (buffer r) (Option.bind (head r) (\<lambda>h. js_mod (h + i) (capacity r)))) [0..<capacity r])"

text \<open>\<^verbatim>\<open>new Array(target)\<close> throws after the capacity was assigned.\<close>

definition resize :: "jsval \<Rightarrow> jsval \<Rightarrow> ring \<Rightarrow> ring \<times> (router_error + nat)" where
  "resize env newCapacity r =
    (let target = resolveDefaultCapacity env newCapacity in
     if target = capacity r then (r, Inr (capacity r))
     else let items = toArray r; kept = drop (length items - target) items in
       if int target > max_array_length then (r\<lparr>capacity := target\<rparr>, Inl Invalid_array_length)
       else (r\<lparr>capacity := target, buffer := kept @ replicate (target - length kept) JUndef,
               head := js_mod (length kept) target, size := length kept\<rparr>, Inr target))"

definition getIncrementalIndicators :: "ring \<Rightarrow> jsnum option \<times> jsnum option \<times> bollinger option" where
  "getIncrementalIndicators r = (rsi (ind r), atr (ind r), ring_bollinger (ind r))"

section \<open>Dispatching to subscribers\<close>

record incremental_payload =
  pl_symbol :: string
  pl_timeframe :: string
  pl_bar :: jsval
  window_size :: nat
  features :: jsval
  incremental :: "jsnum option \<times> jsnum option \<times> bollinger option"
  pl_rollup :: "emitted option"

datatype payload = Quote incremental_payload | Rolled event

text \<open>
  A subscriber is known by a number.  \<open>probe\<close> is the answer of its \<^verbatim>\<open>checkBackpressure\<close> at
  the time of the dispatch, \<open>fails\<close> tells whether its listener throws on a payload.
\<close>

record subscriber =
  sub_id :: nat
  has_probe :: bool
  highWaterMark :: jsnum
  pendingCount :: nat
  coalescedPayload :: "payload option"

record listener_env =
  probe :: "nat \<Rightarrow> bool"
  fails :: "nat \<Rightarrow> payload \<Rightarrow> bool"

record bp_stats =
  total_dispatched :: nat
  total_dropped :: nat
  total_coalesced :: nat

text \<open>The calls made to listeners, in order: the subscriber and the payload.\<close>

type_synonym calls = "(nat \<times> payload) list"

definition deliver :: "listener_env \<Rightarrow> nat \<Rightarrow> payload \<Rightarrow> bp_stats \<times> calls \<Rightarrow> bp_stats \<times> calls" where
  "deliver env sid p st = (case st of (bp, cs) \<Rightarrow>
     (if fails env sid p then bp else bp\<lparr>total_dispatched := total_dispatched bp + 1\<rparr>, cs @ [(sid, p)]))"

definition is_backpressured :: "listener_env \<Rightarrow> subscriber \<Rightarrow> bool" where
  "is_backpressured env sub = (if has_probe sub then probe env (sub_id sub)
     else js_le (highWaterMark sub) (Fin (of_nat (pendingCount sub))))"

definition dispatchToBackpressuredSub :: "listener_env \<Rightarrow> payload \<Rightarrow> bool \<Rightarrow> subscriber \<Rightarrow> bp_stats \<times> calls
    \<Rightarrow> subscriber \<times> bp_stats \<times> calls" where
  "dispatchToBackpressuredSub env p isCritical sub st =
    (let bpd = is_backpressured env sub in
     if bpd \<and> \<not> isCritical then
       (sub\<lparr>coalescedPayload := Some p\<rparr>,
        (fst st)\<lparr>total_dropped := total_dropped (fst st) + 1, total_coalesced := total_coalesced (fst st) + 1\<rparr>, snd st)
     else case coalescedPayload sub of
       Some c \<Rightarrow> if \<not> bpd
         then (sub\<lparr>coalescedPayload := None\<rparr>, deliver env (sub_id sub) p (deliver env (sub_id sub) c st))
         else (sub, deliver env (sub_id sub) p st)
     | None \<Rightarrow> (sub, deliver env (sub_id sub) p st))"

fun dispatch_subs :: "listener_env \<Rightarrow> payload \<Rightarrow> bool \<Rightarrow> subscriber list \<Rightarrow> bp_stats \<times> calls
    \<Rightarrow> subscriber list \<times> bp_stats \<times> calls" where
  "dispatch_subs env p crit [] st = ([], st)"
| "dispatch_subs env p crit (sub # subs) st =
     (let (sub', st') = dispatchToBackpressuredSub env p crit sub st;
          (subs', st'') = dispatch_subs env p crit subs st' in (sub' # subs', st''))"

section \<open>The router\<close>

text \<open>The window configuration: a function, a \<^verbatim>\<open>Map\<close>, or any other value.\<close>

datatype window_config = Window_fun "string \<Rightarrow> string \<Rightarrow> jsval"
  | Window_map "(string \<times> jsval) list" | Window_value jsval

record router =
  windowConfig :: window_config
  env_window :: jsval  \<comment> \<open>\<^verbatim>\<open>process.env.SOVEREIGN_STREAMING_WINDOW_SIZE\<close>\<close>
  buffers :: "(string \<times> ring) list"
  listeners :: "nat list"
  bpSubscribers :: "subscriber list"
  bpStats :: bp_stats
  rollupPipeline :: "pipeline option"
  called :: calls  \<comment> \<open>every call made to a listener so far\<close>

definition dispatchToAll :: "listener_env \<Rightarrow> payload \<Rightarrow> bool \<Rightarrow> router \<Rightarrow> router" where
  "dispatchToAll env p isCritical ro =
    (let cs = called ro @ map (\<lambda>l. (l, p)) (listeners ro);
         (subs, bp, cs') = dispatch_subs env p isCritical (bpSubscribers ro) (bpStats ro, cs) in
     ro\<lparr>bpSubscribers := subs, bpStats := bp, called := cs'\<rparr>)"

definition getKey :: "string \<Rightarrow> string \<Rightarrow> string" where
  "getKey s tf = to_upper s @ '':'' @ tf"

definition resolveCapacity :: "router \<Rightarrow> string \<Rightarrow> string \<Rightarrow> jsval \<Rightarrow> nat" where
  "resolveCapacity ro s tf override =
    (let env = env_window ro in
     if override \<noteq> JUndef then resolveDefaultCapacity env override
     else case windowConfig ro of
       Window_fun f \<Rightarrow> resolveDefaultCapacity env (f s tf)
     | Window_map m \<Rightarrow> (case map_of m (getKey s tf) of
         Some v \<Rightarrow> if v \<noteq> JUndef then resolveDefaultCapacity env v else resolveDefaultCapacity env (JNum NaN)
       | None \<Rightarrow> resolveDefaultCapacity env (JNum NaN))
     | Window_value w \<Rightarrow>
         if truthy w \<and> typeof_object w \<and> js_get w (getKey s tf) \<noteq> JUndef
         then resolveDefaultCapacity env (js_get w (getKey s tf))
         else resolveDefaultCapacity env w)"

definition setCapacity :: "string \<Rightarrow> string \<Rightarrow> jsval \<Rightarrow> router \<Rightarrow> router \<times> (router_error + nat)" where
  "setCapacity s tf cap ro =
    (let key = getKey s tf; target = resolveDefaultCapacity (env_window ro) cap; t = JNum (Fin (of_nat target)) in
     case map_of (buffers ro) key of
       Some r \<Rightarrow> (case resize (env_window ro) t r of (r', res) \<Rightarrow>
         (ro\<lparr>buffers := AList.update key r' (buffers ro)\<rparr>, rbind res (\<lambda>_. Inr target)))
     | None \<Rightarrow> (case new_ring (env_window ro) t of Inl e \<Rightarrow> (ro, Inl e)
         | Inr r \<Rightarrow> (ro\<lparr>buffers := AList.update key r (buffers ro)\<rparr>, Inr target)))"

definition normalizeBar :: "string \<Rightarrow> string \<Rightarrow> string \<Rightarrow> jsval \<Rightarrow> jsval" where
  "normalizeBar now s tf b = spread_update b
     [(''symbol'', JStr (to_upper (js_to_string (js_or (js_get b ''symbol'') (JStr s))))),
      (''timeframe'', JStr (js_to_string (js_or (js_get b ''timeframe'') (JStr tf)))),
      (''family'', js_or (js_get b ''family'') (JStr ''crypto'')),
      (''timestamp'', js_or (js_get b ''timestamp'') (JStr now))]"

text \<open>The ring of a key: created when it is missing, resized when the call asks for a size.\<close>

definition prepare_ring :: "string \<Rightarrow> nat \<Rightarrow> bool \<Rightarrow> router \<Rightarrow> router \<times> (router_error + ring)" where
  "prepare_ring key target asked ro =
    (let t = JNum (Fin (of_nat target)) in
     case (case map_of (buffers ro) key of Some r \<Rightarrow> Inr r | None \<Rightarrow> new_ring (env_window ro) t) of
       Inl e \<Rightarrow> (ro, Inl e)
     | Inr r \<Rightarrow> (case (if asked then resize (env_window ro) t r else (r, Inr (capacity r))) of (r', res) \<Rightarrow>
         (ro\<lparr>buffers := AList.update key r' (buffers ro)\<rparr>, rbind res (\<lambda>_. Inr r'))))"

text \<open>The rollup, with the closed bars it announces; they are dispatched as critical payloads.\<close>

definition rollup_bar :: "listener_env \<Rightarrow> jsval \<Rightarrow> router \<Rightarrow> router \<times> (time_error + emitted option)" where
  "rollup_bar env b ro = (case rollupPipeline ro of None \<Rightarrow> (ro, Inr None)
     | Some pl \<Rightarrow> (case ingest b pl of (pl', res) \<Rightarrow>
         (fold (\<lambda>e. dispatchToAll env (Rolled e) True)
            (filter (\<lambda>e. case e of Bar_closed _ _ _ \<Rightarrow> True | _ \<Rightarrow> False) (drop (length (notified pl)) (notified pl')))
            (ro\<lparr>rollupPipeline := Some pl'\<rparr>), res)))"

definition frame_features :: "(jsval list \<Rightarrow> jsval) \<Rightarrow> ring \<Rightarrow> jsval" where
  "frame_features calculateFeatureFrame r =
    (if size r < 14 then JNull
     else let frame = calculateFeatureFrame (toArray r); fs = js_get frame ''features'' in
       if truthy frame \<and> is_array fs \<and> array_items fs \<noteq> [] then last (array_items fs) else JNull)"

definition ingestBar :: "(jsval list \<Rightarrow> jsval) \<Rightarrow> listener_env \<Rightarrow> string \<Rightarrow> string \<Rightarrow> jsval \<Rightarrow> string
    \<Rightarrow> jsval \<Rightarrow> jsval \<Rightarrow> router \<Rightarrow> router \<times> (router_error + incremental_payload)" where
  "ingestBar calculateFeatureFrame env now s b tf opt_capacity opt_windowSize ro =
    (let key = getKey s tf;
         target = resolveCapacity ro s tf (js_nullish opt_capacity opt_windowSize) in
     case prepare_ring key target (truthy opt_capacity \<or> truthy opt_windowSize) ro of
       (ro1, Inl e) \<Rightarrow> (ro1, Inl e)
     | (ro1, Inr r) \<Rightarrow>
       if b = JUndef \<or> b = JNull then (ro1, Inl Type_error) else
       let nb = normalizeBar now s tf b; r' = push nb r;
           ro2 = ro1\<lparr>buffers := AList.update key r' (buffers ro1)\<rparr> in
       case rollup_bar env nb ro2 of
         (ro3, Inl e) \<Rightarrow> (ro3, Inl (Rollup_error e))
       | (ro3, Inr em) \<Rightarrow>
         let p = \<lparr>pl_symbol = js_to_string (js_get nb ''symbol''), pl_timeframe = js_to_string (js_get nb ''timeframe''),
                  pl_bar = nb, window_size = size r', features = frame_features calculateFeatureFrame r',
                  incremental = getIncrementalIndicators r', pl_rollup = em\<rparr>
         in (dispatchToAll env (Quote p) (em \<noteq> None) ro3, Inr p))"

definition subscribe :: "nat \<Rightarrow> router \<Rightarrow> router" where
  "subscribe l ro = ro\<lparr>listeners := (if l \<in> set (listeners ro) then listeners ro else listeners ro @ [l])\<rparr>"

definition unsubscribe :: "nat \<Rightarrow> router \<Rightarrow> router" where
  "unsubscribe l ro = ro\<lparr>listeners := removeAll l (listeners ro)\<rparr>"

definition subscribeWithBackpressure :: "nat \<Rightarrow> bool \<Rightarrow> jsval \<Rightarrow> router \<Rightarrow> router" where
  "subscribeWithBackpressure sid hasProbe mark ro =
    (let m = js_to_number mark; w = js_max (Fin 1) (if m = NaN \<or> m = Fin 0 then Fin 50 else m) in
     ro\<lparr>bpSubscribers := bpSubscribers ro @
       [\<lparr>sub_id = sid, has_probe = hasProbe, highWaterMark = w, pendingCount = 0, coalescedPayload = None\<rparr>]\<rparr>)"

definition getBackpressureStats :: "listener_env \<Rightarrow> router \<Rightarrow> nat \<times> nat \<times> bp_stats" where
  "getBackpressureStats env ro = (length (listeners ro) + length (bpSubscribers ro),
     length (filter (\<lambda>sub. has_probe sub \<and> probe env (sub_id sub)) (bpSubscribers ro)), bpStats ro)"

definition flushRollup :: "bool \<Rightarrow> router \<Rightarrow> router \<times> (time_error + source list \<times> (string \<times> nat) list)" where
  "flushRollup includeOpen ro = (case rollupPipeline ro of None \<Rightarrow> (ro, Inr ([], []))
     | Some pl \<Rightarrow> (case flush includeOpen pl of (pl', res) \<Rightarrow> (ro\<lparr>rollupPipeline := Some pl'\<rparr>, res)))"

definition router_open_buckets :: "jsval \<Rightarrow> router \<Rightarrow> time_error + (derived_bar \<times> nat) list" where
  "router_open_buckets s ro = (case rollupPipeline ro of None \<Rightarrow> Inr [] | Some pl \<Rightarrow> getOpenBuckets s pl)"

section \<open>A bounded queue\<close>

text \<open>What a client may rely on: a queue holds the last elements that were pushed.\<close>

locale bounded_queue =
  fixes inv :: "'q \<Rightarrow> bool" and cap :: "'q \<Rightarrow> nat" and contents :: "'q \<Rightarrow> 'a list" and put :: "'a \<Rightarrow> 'q \<Rightarrow> 'q"
  assumes contents_put: "inv q \<Longrightarrow> contents (put x q) = slice_last (cap q) (contents q @ [x])"
    and inv_put: "inv q \<Longrightarrow> inv (put x q)"
    and cap_put: "inv q \<Longrightarrow> cap (put x q) = cap q"
begin

lemma slice_last_slice: "slice_last n (slice_last n xs @ ys) = slice_last n (xs @ ys)"
  by (cases "length xs \<le> n") (simp_all add: slice_last_def add.commute)

lemma puts:
  assumes "inv q" "length (contents q) \<le> cap q"
  shows "contents (fold put xs q) = slice_last (cap q) (contents q @ xs)
    \<and> inv (fold put xs q) \<and> cap (fold put xs q) = cap q"
  using assms
proof (induction xs arbitrary: q)
  case (Cons x xs)
  have "length (contents (put x q)) \<le> cap (put x q)" using Cons.prems by (simp add: contents_put cap_put)
  with Cons show ?case by (simp add: contents_put cap_put inv_put slice_last_slice)
qed simp

end

definition ring_inv :: "ring \<Rightarrow> bool" where
  "ring_inv r = (size r \<le> capacity r \<and> (0 < capacity r \<longrightarrow> length (buffer r) = capacity r \<and>
     (\<exists>h. head r = Some h \<and> h < capacity r \<and> (size r < capacity r \<longrightarrow> h = size r))))"

lemma new_ring_inv: "new_ring env c = Inr r \<Longrightarrow> ring_inv r \<and> toArray r = [] \<and> capacity r = resolveDefaultCapacity env c"
  by (auto simp: new_ring_def ring_inv_def toArray_def Let_def split: if_splits)

lemma length_toArray: "ring_inv r \<Longrightarrow> length (toArray r) = size r"
  by (auto simp: ring_inv_def toArray_def)

lemma push_inv: "ring_inv r \<Longrightarrow> ring_inv (push b r)"
  by (auto simp: ring_inv_def push_def array_set_def js_mod_def split: option.splits)

lemma toArray_full:
  assumes "ring_inv r" "size r = capacity r" "head r = Some h" "h < capacity r"
  shows "toArray r = drop h (buffer r) @ take h (buffer r)"
proof (rule nth_equalityI)
  have l: "length (buffer r) = capacity r" using assms by (auto simp: ring_inv_def)
  then show "length (toArray r) = length (drop h (buffer r) @ take h (buffer r))"
    using assms by (simp add: toArray_def)
  fix i assume "i < length (toArray r)"
  then have i: "i < capacity r" using assms by (simp add: toArray_def)
  show "toArray r ! i = (drop h (buffer r) @ take h (buffer r)) ! i"
  proof (cases "h + i < capacity r")
    case True
    then show ?thesis using assms l i by (simp add: toArray_def js_mod_def array_get_def nth_append less_diff_conv add.commute)
  next
    case False
    then have "(h + i) mod capacity r = h + i - capacity r" using assms(4) i by (simp add: le_mod_geq)
    then show ?thesis using False assms l i by (simp add: toArray_def js_mod_def array_get_def nth_append less_diff_conv add.commute)
  qed
qed

lemma toArray_push:
  assumes inv: "ring_inv r"
  shows "toArray (push b r) = slice_last (capacity r) (toArray r @ [b])"
proof (cases "capacity r = 0")
  case True
  then show ?thesis using inv by (simp add: ring_inv_def toArray_def push_def slice_last_def)
next
  case False
  then obtain h where h: "head r = Some h" "h < capacity r" "size r < capacity r \<longrightarrow> h = size r"
    "length (buffer r) = capacity r" "size r \<le> capacity r" using inv by (auto simp: ring_inv_def)
  have pb: "buffer (push b r) = (buffer r)[h := b]" "capacity (push b r) = capacity r"
    "head (push b r) = Some ((h + 1) mod capacity r)"
    using h False by (simp_all add: push_def array_set_def js_mod_def)
  consider "size r + 1 < capacity r" | "size r + 1 = capacity r" | "size r = capacity r" using h by linarith
  then show ?thesis
  proof cases
    case 1
    then have "h = size r" using h by simp
    moreover have "size (push b r) = size r + 1" using 1 by (simp add: push_def)
    ultimately show ?thesis using 1 h pb by (simp add: toArray_def take_Suc_conv_app_nth)
  next
    case 2
    then have hs: "h = size r" "(h + 1) mod capacity r = 0" using h by simp_all
    have "size (push b r) = capacity (push b r)" using 2 pb by (simp add: push_def)
    then have "toArray (push b r) = (buffer r)[h := b]"
      using toArray_full [OF push_inv [OF inv]] pb hs False by simp
    moreover have "toArray r = take h (buffer r)" using 2 hs by (simp add: toArray_def)
    moreover have "(buffer r)[h := b] = take h (buffer r) @ [b]"
      using h 2 hs by (simp add: upd_conv_take_nth_drop)
    ultimately show ?thesis using 2 hs h by simp
  next
    case 3
    have full: "toArray r = drop h (buffer r) @ take h (buffer r)" using toArray_full [OF inv 3 h(1,2)] .
    have s: "size (push b r) = capacity (push b r)" using 3 by (simp add: push_def)
    have "toArray (push b r) = drop (Suc h) (buffer r) @ take h (buffer r) @ [b]"
    proof (cases "Suc h = capacity r")
      case True
      then show ?thesis using toArray_full [OF push_inv [OF inv] s pb(3)] pb h
        by (simp add: upd_conv_take_nth_drop)
    next
      case nl: False
      then have "Suc h < capacity r" using h by simp
      then show ?thesis using toArray_full [OF push_inv [OF inv] s pb(3)] pb h
        by (simp add: take_Suc_conv_app_nth)
    qed
    moreover have "slice_last (capacity r) (toArray r @ [b]) = drop 1 (toArray r @ [b])"
      using 3 length_toArray [OF inv] by (simp add: slice_last_def)
    moreover have "drop h (buffer r) \<noteq> []" using h by simp
    ultimately show ?thesis unfolding full by (simp add: drop_Suc drop_tl tl_append2 flip: tl_drop)
  qed
qed

interpretation ring_queue: bounded_queue ring_inv capacity toArray push
proof
  fix q x assume "ring_inv q"
  then show "toArray (push x q) = slice_last (capacity q) (toArray q @ [x])" by (rule toArray_push)
  show "ring_inv (push x q)" using \<open>ring_inv q\<close> by (rule push_inv)
  show "capacity (push x q) = capacity q" by (simp add: push_def)
qed

lemma toArray_refill:
  fixes r :: ring
  assumes "length k \<le> n"
  defines "r' \<equiv> r\<lparr>capacity := n, buffer := k @ replicate (n - length k) JUndef, head := js_mod (length k) n, size := length k\<rparr>"
  shows "ring_inv r'" "toArray r' = k"
proof -
  show inv: "ring_inv r'" using assms(1) by (auto simp: ring_inv_def r'_def js_mod_def)
  show "toArray r' = k"
  proof (cases "length k < n \<or> n = 0")
    case True
    then show ?thesis using assms(1) by (auto simp: toArray_def r'_def)
  next
    case False
    then have "toArray r' = drop 0 (buffer r') @ take 0 (buffer r')"
      using assms(1) by (intro toArray_full [OF inv]) (auto simp: r'_def js_mod_def)
    then show ?thesis using False assms(1) by (simp add: r'_def)
  qed
qed

lemma toArray_resize:
  assumes "ring_inv r" "resize env c r = (r', Inr n)"
  shows "ring_inv r' \<and> toArray r' = slice_last n (toArray r) \<and> capacity r' = n"
proof (cases "resolveDefaultCapacity env c = capacity r")
  case True
  then show ?thesis using assms length_toArray [OF assms(1)] by (auto simp: resize_def ring_inv_def)
next
  case False
  define k where "k = slice_last n (toArray r)"
  have "r' = r\<lparr>capacity := n, buffer := k @ replicate (n - length k) JUndef, head := js_mod (length k) n, size := length k\<rparr>"
    using assms(2) False by (auto simp: resize_def Let_def k_def slice_last_def split: if_splits)
  moreover have "length k \<le> n" by (simp add: k_def)
  ultimately show ?thesis using toArray_refill [of k n r] by (simp add: k_def)
qed

section \<open>The relative strength index stays in range\<close>

text \<open>Prices up to \<open>2 ^ 48\<close> keep every sum and average of gains and losses finite.\<close>

definition price_bound :: int where "price_bound = 2 ^ 48"

definition ranged :: "int \<Rightarrow> jsnum \<Rightarrow> bool" where
  "ranged n x = (\<exists>q. x = Fin q \<and> 0 \<le> q \<and> q \<le> of_int n)"

definition rsi_inv :: "indicators \<Rightarrow> bool" where
  "rsi_inv i = ((\<forall>p. prevClose i = Some p \<longrightarrow> (\<exists>q. p = Fin q \<and> \<bar>q\<bar> \<le> of_int price_bound))
     \<and> ranged (int (min (rsiCount i) 14) * (2 * price_bound)) (sumGain i)
     \<and> ranged (int (min (rsiCount i) 14) * (2 * price_bound)) (sumLoss i)
     \<and> ranged (2 * price_bound) (avgGain i) \<and> ranged (2 * price_bound) (avgLoss i)
     \<and> (\<forall>x. rsi i = Some x \<longrightarrow> ranged 100 x))"

lemma fl_ranged: "0 \<le> r \<Longrightarrow> r \<le> of_int n \<Longrightarrow> n < 2 ^ 53 \<Longrightarrow> ranged n (fl r)"
  using binary64.rnd_between [of 0 r n] by (auto simp: ranged_def)

lemma ranged_mono: "ranged m x \<Longrightarrow> m \<le> n \<Longrightarrow> ranged n x"
  by (auto simp: ranged_def intro: order_trans)

lemma ranged_add: "ranged m x \<Longrightarrow> ranged n y \<Longrightarrow> m + n < 2 ^ 53 \<Longrightarrow> ranged (m + n) (js_add x y)"
  by (auto simp: ranged_def [of m] ranged_def [of n] intro!: fl_ranged add_mono)

lemma ranged_div:
  assumes "ranged (int k * n) x" "0 < k" "0 \<le> n" "n < 2 ^ 53" shows "ranged n (js_div x (Fin (of_nat k)))"
proof -
  obtain q where "x = Fin q" "0 \<le> q" "q \<le> of_int n * of_nat k" using assms(1) by (auto simp: ranged_def mult.commute)
  then show ?thesis using assms by (auto intro!: fl_ranged simp: divide_le_eq)
qed

lemma ranged_smooth:
  assumes "ranged n avg" "ranged n x" "0 \<le> n" "14 * n < 2 ^ 53"
  shows "ranged n (smooth 14 avg x)"
proof -
  obtain q where q: "avg = Fin q" "0 \<le> q" "q \<le> of_int n" using assms(1) by (auto simp: ranged_def)
  have "ranged (13 * n) (js_mul avg (Fin 13))"
    using q assms by (auto intro!: fl_ranged)
  from ranged_add [OF this assms(2)] have "ranged (int 14 * n) (js_add (js_mul avg (Fin 13)) x)"
    using assms(4) by simp
  then show ?thesis using ranged_div [of 14 n] assms by (simp add: smooth_def)
qed

lemma rsi_value_range:
  assumes "ranged m ag" "ranged n al" shows "ranged 100 (rsi_value ag al)"
proof (cases "al = Fin 0")
  case True
  then show ?thesis by (simp add: rsi_value_def ranged_def)
next
  case False
  obtain g l where gl: "ag = Fin g" "al = Fin l" "0 \<le> g" "0 \<le> l" using assms by (auto simp: ranged_def)
  define q where "q = js_add (Fin 1) (js_div ag al)"
  have "js_le (Fin 0) (js_div ag al)" using gl False binary64.rnd_nonneg [of "g / l"] by auto
  then have "js_le (Fin 1) q"
    unfolding q_def using js_add_mono_right [of "Fin 0" "js_div ag al" 1] by simp
  then have "ranged 100 (js_div (Fin 100) q)"
    by (cases q) (auto simp: js_le_def ranged_def [of _ "Fin 0"] divide_le_eq intro!: fl_ranged)
  then obtain x where x: "js_div (Fin 100) q = Fin x" "0 \<le> x" "x \<le> 100" by (auto simp: ranged_def)
  have "ranged 100 (fl (100 - x))" using x by (intro fl_ranged) auto
  then show ?thesis using False x(1) by (simp add: rsi_value_def q_def js_sub_def)
qed

lemma gain_loss_ranged:
  assumes "\<bar>a\<bar> \<le> of_int price_bound" "\<bar>b\<bar> \<le> of_int price_bound"
  defines "ch \<equiv> js_sub (Fin a) (Fin b)"
  shows "ranged (2 * price_bound) (if js_lt (Fin 0) ch then ch else Fin 0)"
    "ranged (2 * price_bound) (if js_lt ch (Fin 0) then js_neg ch else Fin 0)"
proof -
  have "a - b \<le> of_int (2 * price_bound)" "of_int (- (2 * price_bound)) \<le> a - b" using assms(1,2) by auto
  then obtain q where "ch = Fin q" "of_int (- (2 * price_bound)) \<le> q" "q \<le> of_int (2 * price_bound)"
    using binary64.rnd_between [of "- (2 * price_bound)" "a - b" "2 * price_bound"]
    by (auto simp: ch_def js_sub_def price_bound_def)
  then show "ranged (2 * price_bound) (if js_lt (Fin 0) ch then ch else Fin 0)"
    "ranged (2 * price_bound) (if js_lt ch (Fin 0) then js_neg ch else Fin 0)"
    by (auto simp: ranged_def price_bound_def)
qed

lemma update_rsi_inv:
  assumes inv: "rsi_inv i" and c: "\<bar>c\<bar> \<le> of_int price_bound"
  shows "rsi_inv (update_rsi (Fin c) i)"
proof (cases "prevClose i")
  case None
  then show ?thesis using inv c by (auto simp: update_rsi_def rsi_inv_def)
next
  case (Some p)
  define B where "B = 2 * price_bound"
  obtain q where q: "p = Fin q" "\<bar>q\<bar> \<le> of_int price_bound" using inv Some by (auto simp: rsi_inv_def)
  define ch where "ch = js_sub (Fin c) p"
  define g where "g = (if js_lt (Fin 0) ch then ch else Fin 0)"
  define l where "l = (if js_lt ch (Fin 0) then js_neg ch else Fin 0)"
  have gl: "ranged B g" "ranged B l"
    unfolding g_def l_def ch_def q(1) B_def by (rule gain_loss_ranged [OF c q(2)])+
  have B: "0 \<le> B" "14 * B < 2 ^ 53" by (simp_all add: B_def price_bound_def)
  define sg sl where "sg = js_add (sumGain i) g" and "sl = js_add (sumLoss i) l"
  have old: "ranged (int (min (rsiCount i) 14) * B) (sumGain i)" "ranged (int (min (rsiCount i) 14) * B) (sumLoss i)"
    "ranged B (avgGain i)" "ranged B (avgLoss i)" "\<forall>x. rsi i = Some x \<longrightarrow> ranged 100 x"
    using inv by (simp_all add: rsi_inv_def B_def)
  have sums: "ranged (int (rsiCount i + 1) * B) sg" "ranged (int (rsiCount i + 1) * B) sl" if "rsiCount i + 1 \<le> 14"
  proof -
    have "int (rsiCount i) * B + B < 2 ^ 53"
      using that B mult_right_mono [of "int (rsiCount i) + 1" 14 B] by (simp add: distrib_right)
    then show "ranged (int (rsiCount i + 1) * B) sg" "ranged (int (rsiCount i + 1) * B) sl"
      using ranged_add [OF old(1) gl(1)] ranged_add [OF old(2) gl(2)] that
      by (simp_all add: sg_def sl_def min_def distrib_right add.commute)
  qed
  define ag al where "ag = (if rsiCount i + 1 = 14 then js_div sg (Fin 14) else smooth 14 (avgGain i) g)"
    and "al = (if rsiCount i + 1 = 14 then js_div sl (Fin 14) else smooth 14 (avgLoss i) l)"
  have "ranged B ag" "ranged B al"
    using sums ranged_div [of 14 B sg] ranged_div [of 14 B sl] ranged_smooth [OF old(3) gl(1)] ranged_smooth [OF old(4) gl(2)] B
    by (auto simp: ag_def al_def)
  then have avg: "ranged B ag" "ranged B al" "ranged 100 (rsi_value ag al)" using rsi_value_range by blast+
  have up: "update_rsi (Fin c) i = (if rsiCount i + 1 \<le> 14 then
        (if rsiCount i + 1 = 14 then i\<lparr>sumGain := sg, sumLoss := sl, avgGain := ag, avgLoss := al, rsi := Some (rsi_value ag al)\<rparr>
         else i\<lparr>sumGain := sg, sumLoss := sl\<rparr>)
      else i\<lparr>avgGain := ag, avgLoss := al, rsi := Some (rsi_value ag al)\<rparr>)\<lparr>rsiCount := rsiCount i + 1, prevClose := Some (Fin c)\<rparr>"
    using Some by (auto simp: update_rsi_def Let_def rsiPeriod_def sg_def sl_def ag_def al_def g_def l_def ch_def)
  consider "rsiCount i + 1 < 14" | "rsiCount i + 1 = 14" | "14 < rsiCount i + 1" by linarith
  then show ?thesis
    using sums avg old c unfolding rsi_inv_def up B_def [symmetric] by cases (auto simp: min_absorb1 min_absorb2)
qed

section \<open>Sequences of ring operations\<close>

datatype ring_op = Push jsval | Resize jsval

fun ring_run :: "jsval \<Rightarrow> ring_op list \<Rightarrow> ring \<Rightarrow> ring option" where
  "ring_run env [] r = Some r"
| "ring_run env (Push b # ops) r = ring_run env ops (push b r)"
| "ring_run env (Resize c # ops) r = (case resize env c r of
     (r', Inr n) \<Rightarrow> ring_run env ops r' | (r', Inl e) \<Rightarrow> None)"

text \<open>The specification: a capacity and the last elements pushed.\<close>

fun queue_run :: "jsval \<Rightarrow> ring_op list \<Rightarrow> nat \<times> jsval list \<Rightarrow> nat \<times> jsval list" where
  "queue_run env [] q = q"
| "queue_run env (Push b # ops) (n, xs) = queue_run env ops (n, slice_last n (xs @ [b]))"
| "queue_run env (Resize c # ops) (n, xs) =
     (let m = resolveDefaultCapacity env c in queue_run env ops (m, slice_last m xs))"

lemma resize_ok:
  "int (resolveDefaultCapacity env c) \<le> max_array_length \<Longrightarrow>
   \<exists>r'. resize env c r = (r', Inr (resolveDefaultCapacity env c))"
  by (auto simp: resize_def Let_def)

lemma resize_ind: "ind (fst (resize env c r)) = ind r"
  by (auto simp: resize_def Let_def)

lemma ring_run_queue:
  assumes "ring_inv r" "\<forall>c. Resize c \<in> set ops \<longrightarrow> int (resolveDefaultCapacity env c) \<le> max_array_length"
  shows "\<exists>r'. ring_run env ops r = Some r' \<and> ring_inv r' \<and> (capacity r', toArray r') = queue_run env ops (capacity r, toArray r)"
  using assms
proof (induction env ops r rule: ring_run.induct)
  case (2 env b ops r)
  then show ?case using push_inv ring_queue.contents_put ring_queue.cap_put by simp
next
  case (3 env c ops r)
  then obtain r' where r': "resize env c r = (r', Inr (resolveDefaultCapacity env c))"
    using resize_ok [of env c r] by auto
  then have "ring_inv r' \<and> toArray r' = slice_last (resolveDefaultCapacity env c) (toArray r) \<and> capacity r' = resolveDefaultCapacity env c"
    using toArray_resize "3.prems"(1) by blast
  then show ?case using 3 r' by (auto simp: Let_def)
qed simp

definition bounded_bar :: "jsval \<Rightarrow> bool" where
  "bounded_bar b = (\<forall>q. js_to_number (js_get b ''close'') = Fin q \<longrightarrow> \<bar>q\<bar> \<le> of_int price_bound)"

lemma rsi_fields [simp]:
  "rsi (update_atr h l c i) = rsi i" "rsi (update_bollinger c i) = rsi i"
  "rsi_inv (update_atr h l c i) = rsi_inv i" "rsi_inv (update_bollinger c i) = rsi_inv i"
  by (auto simp: update_atr_def update_bollinger_def bb_slide_def rsi_inv_def Let_def split: option.splits)

lemma updateIndicators_inv: "bounded_bar b \<Longrightarrow> rsi_inv i \<Longrightarrow> rsi_inv (updateIndicators b i)"
  by (auto simp: updateIndicators_def bounded_bar_def Let_def intro: update_rsi_inv)

lemma ring_run_rsi:
  "ring_run env ops r = Some r' \<Longrightarrow> \<forall>b. Push b \<in> set ops \<longrightarrow> bounded_bar b \<Longrightarrow> rsi_inv (ind r) \<Longrightarrow> rsi_inv (ind r')"
proof (induction env ops r rule: ring_run.induct)
  case (2 env b ops r)
  then show ?case by (simp add: push_def updateIndicators_inv)
next
  case (3 env c ops r)
  then show ?case using resize_ind [of env c r] by (auto split: prod.splits sum.splits)
qed simp

lemma initial_rsi_inv: "rsi_inv initial_indicators"
  by (simp add: rsi_inv_def initial_indicators_def ranged_def price_bound_def)

section \<open>One subscriber\<close>

text \<open>A subscriber whose listener never throws, through a sequence of dispatches.\<close>

record dispatch =
  dp_payload :: payload
  dp_critical :: bool
  dp_env :: listener_env

definition sub_step :: "dispatch \<Rightarrow> subscriber \<times> bp_stats \<times> calls \<Rightarrow> subscriber \<times> bp_stats \<times> calls" where
  "sub_step d st = dispatchToBackpressuredSub (dp_env d) (dp_payload d) (dp_critical d) (fst st) (snd st)"

definition held_back :: "dispatch \<Rightarrow> subscriber \<Rightarrow> bool" where
  "held_back d sub = (is_backpressured (dp_env d) sub \<and> \<not> dp_critical d)"

lemma is_backpressured_coalesced [simp]:
  "is_backpressured env (sub\<lparr>coalescedPayload := c\<rparr>) = is_backpressured env sub"
  by (simp add: is_backpressured_def)

lemmas dispatch_defs = sub_step_def dispatchToBackpressuredSub_def held_back_def deliver_def Let_def

lemma sub_step_same:
  "is_backpressured env (fst (sub_step d st)) = is_backpressured env (fst st)"
  "sub_id (fst (sub_step d st)) = sub_id (fst st)"
  by (simp_all add: sub_step_def dispatchToBackpressuredSub_def Let_def split: option.split)

text \<open>The calls a dispatch makes: none, the payload, or the coalesced payload and then the payload.\<close>

lemma sub_step_calls:
  "snd (snd (sub_step d (sub, bp, cs))) = cs @ (if held_back d sub then [] else
     (case coalescedPayload sub of Some c \<Rightarrow> if is_backpressured (dp_env d) sub then [] else [(sub_id sub, c)] | None \<Rightarrow> [])
     @ [(sub_id sub, dp_payload d)])"
  by (simp add: dispatch_defs split: option.split)

lemma sub_step_coalesced:
  "coalescedPayload (fst (sub_step d (sub, bp, cs))) =
     (if held_back d sub then Some (dp_payload d)
      else if is_backpressured (dp_env d) sub then coalescedPayload sub else None)"
  by (simp add: dispatch_defs split: option.split)

lemma sub_step_dropped:
  "total_dropped (fst (snd (sub_step d (sub, bp, cs)))) = total_dropped bp + (if held_back d sub then 1 else 0)"
  by (simp add: dispatch_defs split: option.split)

declare sub_step_calls [simp] sub_step_coalesced [simp] sub_step_dropped [simp]

lemma fold_sub_step_same:
  "is_backpressured env (fst (fold sub_step ds st)) = is_backpressured env (fst st)"
  "sub_id (fst (fold sub_step ds st)) = sub_id (fst st)"
  by (induction ds arbitrary: st) (simp_all add: sub_step_same)

text \<open>The payloads a subscriber has been called with.\<close>

definition received :: "subscriber \<times> bp_stats \<times> calls \<Rightarrow> payload list" where
  "received st = map snd (filter (\<lambda>(l, p). l = sub_id (fst st)) (snd (snd st)))"

lemma received_step:
  "received (sub_step d st) = received st @ (if held_back d (fst st) then [] else
     (case coalescedPayload (fst st) of Some c \<Rightarrow> if is_backpressured (dp_env d) (fst st) then [] else [c] | None \<Rightarrow> [])
     @ [dp_payload d])"
  by (cases st) (simp add: received_def sub_step_same split: option.split)

lemma received_mono: "set (received st) \<subseteq> set (received (fold sub_step ds st))"
proof (induction ds arbitrary: st)
  case (Cons d ds)
  have "set (received st) \<subseteq> set (received (sub_step d st))" by (simp add: received_step)
  also note Cons.IH [of "sub_step d st"]
  finally show ?case by simp
qed simp

lemma critical_received:
  "dp_critical d \<Longrightarrow> d \<in> set ds \<Longrightarrow> dp_payload d \<in> set (received (fold sub_step ds st))"
proof (induction ds arbitrary: st)
  case (Cons e ds)
  show ?case
  proof (cases "d = e")
    case True
    then have "dp_payload d \<in> set (received (sub_step e st))"
      using Cons.prems(1) by (simp add: received_step held_back_def)
    then show ?thesis using received_mono [of "sub_step e st" ds] by auto
  next
    case False
    then show ?thesis using Cons by simp
  qed
qed simp

lemma latest_kept:
  "ds \<noteq> [] \<Longrightarrow> (let st' = fold sub_step ds st in
     coalescedPayload (fst st') = Some (dp_payload (last ds)) \<or> (received st' \<noteq> [] \<and> last (received st') = dp_payload (last ds)))"
proof (induction ds rule: rev_induct)
  case (snoc d ds)
  define s where "s = fold sub_step ds st"
  show ?case unfolding Let_def by (cases s) (auto simp: received_step simp flip: s_def)
qed simp

section \<open>Properties\<close>

text \<open>
  C11. The ring buffer refines a bounded queue: after any sequence of pushes and resizes (to
  lengths an array may have) that starts from a new ring, no operation throws, the capacity is
  the one asked for last, and \<open>toArray\<close> returns exactly the most recent bars, oldest first,
  with everything else dropped.
\<close>

theorem ring_refines_queue:
  assumes "new_ring env c = Inr r"
    and "\<forall>c. Resize c \<in> set ops \<longrightarrow> int (resolveDefaultCapacity env c) \<le> max_array_length"
  shows "\<exists>r'. ring_run env ops r = Some r'
    \<and> (capacity r', toArray r') = queue_run env ops (resolveDefaultCapacity env c, [])"
  using ring_run_queue [OF _ assms(2), of r] new_ring_inv [OF assms(1)] by auto

definition price_bar :: "int \<Rightarrow> jsval" where
  "price_bar x = JObj [(''close'', JNum (Fin (of_int x)))]"

lemma ring_refines_queue_witness:
  "\<exists>r r'. new_ring JUndef (JNum (Fin 2)) = Inr r
    \<and> ring_run JUndef [Push (price_bar 1), Push (price_bar 2), Push (price_bar 3), Resize (JStr ''4''), Push (price_bar 5)] r = Some r'
    \<and> toArray r' = [price_bar 2, price_bar 3, price_bar 5]"
proof -
  define ops where "ops = [Push (price_bar 1), Push (price_bar 2), Push (price_bar 3), Resize (JStr ''4''), Push (price_bar 5)]"
  have "isl (new_ring JUndef (JNum (Fin 2))) = False" by code_simp
  then obtain r where r: "new_ring JUndef (JNum (Fin 2)) = Inr r" by (cases "new_ring JUndef (JNum (Fin 2))") auto
  have "int (resolveDefaultCapacity JUndef (JStr ''4'')) \<le> max_array_length" by code_simp
  then have "\<forall>c. Resize c \<in> set ops \<longrightarrow> int (resolveDefaultCapacity JUndef c) \<le> max_array_length" by (simp add: ops_def)
  from ring_refines_queue [OF r this] obtain r' where "ring_run JUndef ops r = Some r'"
    "(capacity r', toArray r') = queue_run JUndef ops (resolveDefaultCapacity JUndef (JNum (Fin 2)), [])" by blast
  moreover have "queue_run JUndef ops (resolveDefaultCapacity JUndef (JNum (Fin 2)), []) = (4, [price_bar 2, price_bar 3, price_bar 5])"
    unfolding ops_def by code_simp
  ultimately show ?thesis using r unfolding ops_def by auto
qed

text \<open>
  The incremental relative strength index is a number from 0 to 100 in every state of a
  ring whose bars have closes of at most \<open>2 ^ 48\<close> in size (or no finite close at all),
  however the gains, losses and averages are rounded.
\<close>

theorem rsi_in_range:
  assumes "new_ring env c = Inr r" "ring_run env ops r = Some r'"
    and "\<forall>b. Push b \<in> set ops \<longrightarrow> bounded_bar b" "rsi (ind r') = Some x"
  shows "\<exists>q. x = Fin q \<and> 0 \<le> q \<and> q \<le> 100"
proof -
  have "ind r = initial_indicators" using assms(1) by (auto simp: new_ring_def Let_def split: if_splits)
  then have "rsi_inv (ind r')" using ring_run_rsi [OF assms(2,3)] initial_rsi_inv by simp
  then show ?thesis using assms(4) by (auto simp: rsi_inv_def ranged_def)
qed

lemma rsi_in_range_witness:
  "\<exists>r r' x q. new_ring JUndef (JNum (Fin 3)) = Inr r
    \<and> ring_run JUndef (replicate 14 (Push (price_bar 0)) @ [Push (price_bar 3)]) r = Some r'
    \<and> rsi (ind r') = Some x \<and> x = Fin q \<and> 0 \<le> q \<and> q \<le> 100"
proof -
  define ops where "ops = replicate 14 (Push (price_bar 0)) @ [Push (price_bar 3)]"
  have "case new_ring JUndef (JNum (Fin 3)) of Inl _ \<Rightarrow> False | Inr r \<Rightarrow>
      (case ring_run JUndef ops r of None \<Rightarrow> False | Some r' \<Rightarrow> rsi (ind r') \<noteq> None)"
    unfolding ops_def by code_simp
  then obtain r r' x where r: "new_ring JUndef (JNum (Fin 3)) = Inr r" "ring_run JUndef ops r = Some r'" "rsi (ind r') = Some x"
    by (auto split: sum.splits option.splits)
  have "bounded_bar b" if "Push b \<in> set ops" for b
  proof -
    have "b = price_bar 0 \<or> b = price_bar 3" using that by (auto simp: ops_def)
    then show ?thesis by (auto simp: bounded_bar_def price_bar_def price_bound_def)
  qed
  then show ?thesis using rsi_in_range [OF r(1,2) _ r(3)] r unfolding ops_def by blast
qed

text \<open>
  Backpressure drops only what is superseded: through any sequence of dispatches, whatever
  its probe answers, a subscriber is called with every critical payload, and the latest payload
  of all is either the last one it received or is held for it as the coalesced payload.
\<close>

theorem backpressure_keeps_latest:
  fixes st :: "subscriber \<times> bp_stats \<times> calls"
  assumes "ds \<noteq> []"
  defines "st' \<equiv> fold sub_step ds st"
  shows "(\<forall>d \<in> set ds. dp_critical d \<longrightarrow> dp_payload d \<in> set (received st'))
    \<and> (coalescedPayload (fst st') = Some (dp_payload (last ds))
       \<or> (received st' \<noteq> [] \<and> last (received st') = dp_payload (last ds)))"
  using critical_received latest_kept [OF assms(1), of st] by (auto simp: st'_def Let_def)

definition demo_payload :: "nat \<Rightarrow> payload" where
  "demo_payload n = Quote \<lparr>pl_symbol = ''BTC'', pl_timeframe = ''1m'', pl_bar = JNull, window_size = n,
     features = JNull, incremental = (None, None, None), pl_rollup = None\<rparr>"

definition demo_dispatch :: "nat \<Rightarrow> bool \<Rightarrow> bool \<Rightarrow> dispatch" where
  "demo_dispatch n crit busy = \<lparr>dp_payload = demo_payload n, dp_critical = crit,
     dp_env = \<lparr>probe = (\<lambda>_. busy), fails = (\<lambda>_ _. False)\<rparr>\<rparr>"

definition demo_subscriber :: subscriber where
  "demo_subscriber = \<lparr>sub_id = 1, has_probe = True, highWaterMark = Fin 50, pendingCount = 0, coalescedPayload = None\<rparr>"

definition no_stats :: bp_stats where
  "no_stats = \<lparr>total_dispatched = 0, total_dropped = 0, total_coalesced = 0\<rparr>"

lemma backpressure_keeps_latest_witness:
  "let st = fold sub_step [demo_dispatch 1 True True, demo_dispatch 2 False True] (demo_subscriber, no_stats, [])
   in demo_payload 1 \<in> set (received st) \<and> coalescedPayload (fst st) = Some (demo_payload 2)"
proof -
  define ds where "ds = [demo_dispatch 1 True True, demo_dispatch 2 False True]"
  have "received (fold sub_step ds (demo_subscriber, no_stats, [])) = [demo_payload 1]"
    unfolding ds_def by code_simp
  then show ?thesis
    using backpressure_keeps_latest [of ds "(demo_subscriber, no_stats, [])"]
    by (simp add: ds_def demo_dispatch_def demo_payload_def)
qed

text \<open>
  A critical payload does not flush the coalesced one: a quote held back under backpressure is
  delivered after a newer critical payload.
\<close>

lemma critical_overtakes:
  "received (fold sub_step [demo_dispatch 1 False True, demo_dispatch 2 True True, demo_dispatch 3 False False]
     (demo_subscriber, no_stats, [])) = [demo_payload 2, demo_payload 1, demo_payload 3]"
  by code_simp

text \<open>Without a probe a subscriber is never backpressured: its pending count stays zero.\<close>

lemma high_water_mark_unused:
  "\<not> has_probe sub \<Longrightarrow> pendingCount sub = 0 \<Longrightarrow> js_le (Fin 1) (highWaterMark sub) \<Longrightarrow> \<not> is_backpressured env sub"
  by (cases "highWaterMark sub") (auto simp: is_backpressured_def js_le_def)

end
