(* ===== verification/Prop_Firm_Guard.thy ===== *)
theory Prop_Firm_Guard
  imports Timeframes
begin

text \<open>
  The risk guard of \<^verbatim>\<open>shared/lib/risk/prop_firm_guard.js\<close>: drawdown limits, the lockout until
  the next UTC midnight, and the stop-loss adjustments of open positions.  The active profile
  that \<^verbatim>\<open>getActivePropFirmProfile\<close> reads from the configuration is an argument; the texts
  that explain a breach are not modelled.
\<close>

definition finitePositive :: "jsval \<Rightarrow> jsnum option \<Rightarrow> jsnum option" where
  "finitePositive v fallback = (let num = js_to_number v in
     if js_is_finite num \<and> js_lt (Fin 0) num then Some num else fallback)"

definition positive_or :: "jsval \<Rightarrow> jsnum \<Rightarrow> jsnum" where
  "positive_or v d = (case finitePositive v (Some d) of Some x \<Rightarrow> x | None \<Rightarrow> d)"

section \<open>Drawdown limits\<close>

record drawdown_options =
  o_profile :: jsval
  currentEquity :: jsval
  startingDailyEquity :: jsval
  highWaterMark :: jsval

record drawdown_report =
  daily_loss :: jsnum
  max_daily_loss :: jsnum
  total_drawdown :: jsnum
  max_total_loss :: jsnum
  profile_id :: jsval

datatype drawdown_result = Invalid_current_equity
  | Max_daily_loss_breached drawdown_report  \<comment> \<open>action \<^verbatim>\<open>liquidate_and_lockout\<close>\<close>
  | Max_total_loss_breached drawdown_report  \<comment> \<open>action \<^verbatim>\<open>freeze\<close>\<close>
  | Within_limits drawdown_report  \<comment> \<open>action \<^verbatim>\<open>continue\<close>\<close>

text \<open>\<^verbatim>\<open>Math.max(0, (from - to) / from)\<close>.\<close>

definition loss_ratio :: "jsnum \<Rightarrow> jsnum \<Rightarrow> jsnum" where
  "loss_ratio from cur = js_max (Fin 0) (js_div (js_sub from cur) from)"

definition evaluateDrawdownLimits :: "jsval \<Rightarrow> drawdown_options \<Rightarrow> drawdown_result" where
  "evaluateDrawdownLimits activeProfile opts =
    (let profile = js_or (o_profile opts) activeProfile;
         rules = js_get profile ''rules'';
         maxDailyLossPct = positive_or (js_get rules ''max_daily_loss'') (fl (4 / 100));
         maxTotalLossPct = positive_or (js_get rules ''max_total_loss'') (fl (6 / 100)) in
     case finitePositive (currentEquity opts) None of
       None \<Rightarrow> Invalid_current_equity
     | Some equity \<Rightarrow>
         let starting = positive_or (startingDailyEquity opts) equity;
             hwm = positive_or (highWaterMark opts) (js_max starting equity);
             dailyLoss = loss_ratio starting equity;
             totalDrawdown = loss_ratio hwm equity;
             rep = \<lparr>daily_loss = dailyLoss, max_daily_loss = maxDailyLossPct, total_drawdown = totalDrawdown,
                    max_total_loss = maxTotalLossPct, profile_id = js_or (js_get profile ''id'') (JStr ''default'')\<rparr> in
         if js_le maxDailyLossPct dailyLoss then Max_daily_loss_breached rep
         else if js_le maxTotalLossPct totalDrawdown then Max_total_loss_breached rep
         else Within_limits rep)"

section \<open>The lockout\<close>

text \<open>\<^verbatim>\<open>setUTCHours(24, 0, 0, 0)\<close>: the midnight that ends the UTC day of \<open>now\<close>.\<close>

definition next_utc_midnight :: "int \<Rightarrow> int" where
  "next_utc_midnight now = (now div ms_per_day + 1) * ms_per_day"

definition calculateNextUtcMidnight :: "int \<Rightarrow> time_error + string" where
  "calculateNextUtcMidnight now = (case to_iso (next_utc_midnight now) of
     None \<Rightarrow> Inl Invalid_time_value | Some s \<Rightarrow> Inr s)"

definition isLockoutActive :: "jsval \<Rightarrow> int \<Rightarrow> bool" where
  "isLockoutActive lockoutUntilUtc now =
     (truthy lockoutUntilUtc \<and> (case date_time lockoutUntilUtc of None \<Rightarrow> False | Some target \<Rightarrow> now < target))"

section \<open>Stop losses\<close>

datatype stop_error = Digits_out_of_range

definition starts_any :: "string list \<Rightarrow> string \<Rightarrow> bool" where
  "starts_any ps s = list_ex (starts_with s) ps"

definition resolveSymbolDigitsAndPipSize :: "jsval \<Rightarrow> jsval \<Rightarrow> jsval \<Rightarrow> jsnum \<times> jsnum" where
  "resolveSymbolDigitsAndPipSize sym0 explicitDigits explicitPipSize =
    (let s = to_upper (js_trim (text_of sym0));
         (dd, dp) =
           (if starts_any [''XAU'', ''XAG''] s \<or> starts_any [''US500'', ''US30'', ''NAS100'', ''SPX'', ''NDX'', ''DJI''] s
            then (Fin 2, fl (1 / 100))
            else if ends_with s ''JPY'' then (Fin 3, fl (1 / 100))
            else if starts_any [''BTC'', ''ETH'', ''SOL'', ''DOGE'', ''XRP''] s then (Fin 2, fl (1 / 100))
            else (Fin 5, fl (1 / 10000)));
         ed = js_to_number explicitDigits; ep = js_to_number explicitPipSize in
     (if js_is_finite ed then ed else dd, if js_is_finite ep \<and> js_lt (Fin 0) ep then ep else dp))"

text \<open>\<^verbatim>\<open>Number(x.toFixed(digits))\<close> with the digits cut to an integer; outside 0 to 100 it throws.\<close>

definition fixed_number :: "jsnum \<Rightarrow> jsnum \<Rightarrow> stop_error + jsnum" where
  "fixed_number digits x = (case digits of
     Fin d \<Rightarrow> let n = rat_trunc d in if 0 \<le> n \<and> n \<le> 100 then Inr (js_to_fixed (nat n) x) else Inl Digits_out_of_range
   | _ \<Rightarrow> Inl Digits_out_of_range)"

text \<open>\<^verbatim>\<open>Number(currentSl) || 0\<close>.\<close>

definition stop_of :: "jsval \<Rightarrow> jsnum" where
  "stop_of v = (let n = js_to_number v in if n = NaN then Fin 0 else n)"

definition is_buy :: "jsval \<Rightarrow> bool" where
  "is_buy side = (to_lower (js_to_string side) = ''buy'')"

record stop_request =
  s_symbol :: jsval
  side :: jsval
  openPrice :: jsval
  currentPrice :: jsval
  currentSl :: jsval
  distance :: jsval  \<comment> \<open>\<^verbatim>\<open>riskDistance\<close> or \<^verbatim>\<open>trailDistance\<close>\<close>
  pipSize :: jsval
  digits :: jsval

definition calculateBreakEvenSl :: "stop_request \<Rightarrow> jsnum \<Rightarrow> jsnum \<Rightarrow> stop_error + jsnum option" where
  "calculateBreakEvenSl r thresholdRMultiple bufferPips =
    (let (dg, pip) = resolveSymbolDigitsAndPipSize (s_symbol r) (digits r) (pipSize r);
         opn = js_to_number (openPrice r); cur = js_to_number (currentPrice r);
         sl = stop_of (currentSl r); risk = js_to_number (distance r) in
     if \<not> js_is_finite opn \<or> \<not> js_is_finite cur \<or> \<not> js_is_finite risk \<or> js_le risk (Fin 0) then Inr None
     else let trigger = js_mul thresholdRMultiple risk; buf = js_mul bufferPips pip in
       if is_buy (side r) then
         if js_le trigger (js_sub cur opn)
         then rbind (fixed_number dg (js_add opn buf)) (\<lambda>c. Inr (if js_lt sl c then Some c else None))
         else Inr None
       else
         if js_le trigger (js_sub opn cur)
         then rbind (fixed_number dg (js_sub opn buf)) (\<lambda>c. Inr (if sl = Fin 0 \<or> js_lt c sl then Some c else None))
         else Inr None)"

definition calculateTrailingSl :: "stop_request \<Rightarrow> stop_error + jsnum option" where
  "calculateTrailingSl r =
    (let (dg, pip) = resolveSymbolDigitsAndPipSize (s_symbol r) (digits r) (pipSize r);
         opn = js_to_number (openPrice r); cur = js_to_number (currentPrice r);
         sl = stop_of (currentSl r); dist = js_to_number (distance r) in
     if \<not> js_is_finite opn \<or> \<not> js_is_finite cur \<or> \<not> js_is_finite dist \<or> js_le dist (Fin 0) then Inr None
     else if is_buy (side r) then
       rbind (fixed_number dg (js_sub cur dist)) (\<lambda>c. Inr (if js_lt sl c \<and> js_lt opn c then Some c else None))
     else
       rbind (fixed_number dg (js_add cur dist)) (\<lambda>c.
         Inr (if (sl = Fin 0 \<or> js_lt c sl) \<and> js_lt c opn then Some c else None)))"

section \<open>Drawdown is monotone\<close>

lemma finitePositive_Fin: "0 < q \<Longrightarrow> finitePositive (JNum (Fin q)) d = Some (Fin q)"
  by (simp add: finitePositive_def)

lemma positive_or_Fin: "0 < q \<Longrightarrow> positive_or (JNum (Fin q)) d = Fin q"
  by (simp add: positive_or_def finitePositive_Fin)

lemma js_max_mono: "js_le x y \<Longrightarrow> js_le (js_max (Fin 0) x) (js_max (Fin 0) y)"
  by (cases x; cases y) (auto simp: js_max_def js_le_def)

lemma loss_ratio_antimono:
  assumes "0 < s" "a \<le> b" shows "js_le (loss_ratio (Fin s) (Fin b)) (loss_ratio (Fin s) (Fin a))"
proof -
  have "js_le (js_sub (Fin s) (Fin b)) (js_sub (Fin s) (Fin a))"
    using assms(2) fl_mono [of "s - b" "s - a"] by (simp add: js_sub_def)
  then show ?thesis unfolding loss_ratio_def by (intro js_max_mono js_div_mono assms(1))
qed

lemma loss_ratio_none: "0 < s \<Longrightarrow> s \<le> a \<Longrightarrow> loss_ratio (Fin s) (Fin a) = Fin 0"
proof -
  assume a: "0 < s" "s \<le> a"
  then have "js_le (js_sub (Fin s) (Fin a)) (Fin 0)" using fl_mono [of "s - a" 0] by (simp add: js_sub_def)
  from js_div_mono [OF this a(1)] have "js_le (js_div (js_sub (Fin s) (Fin a)) (Fin s)) (Fin 0)" using a(1) by simp
  then show ?thesis unfolding loss_ratio_def
    by (cases "js_div (js_sub (Fin s) (Fin a)) (Fin s)") (auto simp: js_max_def js_le_def)
qed

definition breached :: "drawdown_result \<Rightarrow> bool" where
  "breached r = (case r of Within_limits _ \<Rightarrow> False | _ \<Rightarrow> True)"

text \<open>The options of an account with a known start of the day and high-water mark.\<close>

definition account :: "jsval \<Rightarrow> rat \<Rightarrow> rat \<Rightarrow> rat \<Rightarrow> drawdown_options" where
  "account profile start hwm equity = \<lparr>o_profile = profile, currentEquity = JNum (Fin equity),
     startingDailyEquity = JNum (Fin start), highWaterMark = JNum (Fin hwm)\<rparr>"

lemma breached_account:
  assumes "0 < s" "0 < h" "0 < e"
  shows "breached (evaluateDrawdownLimits act (account prof s h e)) \<longleftrightarrow>
    (let rules = js_get (js_or prof act) ''rules'' in
       js_le (positive_or (js_get rules ''max_daily_loss'') (fl (4 / 100))) (loss_ratio (Fin s) (Fin e))
     \<or> js_le (positive_or (js_get rules ''max_total_loss'') (fl (6 / 100))) (loss_ratio (Fin h) (Fin e)))"
  using assms
  by (simp add: evaluateDrawdownLimits_def account_def finitePositive_Fin positive_or_Fin breached_def Let_def)

lemma positive_or_pos:
  assumes "js_lt (Fin 0) d" shows "js_lt (Fin 0) (positive_or v d)"
  using assms by (simp add: positive_or_def finitePositive_def Let_def)

lemma default_limits_positive: "js_lt (Fin 0) (fl (4 / 100))" "js_lt (Fin 0) (fl (6 / 100))"
  by code_simp+

section \<open>Stops over time\<close>

datatype adjustment = Trail jsval | Break_even jsval jsnum jsnum

text \<open>A position's stop after a price update; an error or no proposal leaves it alone.\<close>

definition adjust :: "stop_request \<Rightarrow> adjustment \<Rightarrow> jsnum \<Rightarrow> jsnum" where
  "adjust r a sl = (case (case a of
       Trail p \<Rightarrow> calculateTrailingSl (r\<lparr>currentPrice := p, currentSl := JNum sl\<rparr>)
     | Break_even p m b \<Rightarrow> calculateBreakEvenSl (r\<lparr>currentPrice := p, currentSl := JNum sl\<rparr>) m b)
     of Inr (Some c) \<Rightarrow> c | _ \<Rightarrow> sl)"

lemma trailing_accepts:
  assumes "calculateTrailingSl r = Inr (Some c)"
  shows "if is_buy (side r) then js_lt (stop_of (currentSl r)) c \<and> js_lt (js_to_number (openPrice r)) c
    else (stop_of (currentSl r) = Fin 0 \<or> js_lt c (stop_of (currentSl r))) \<and> js_lt c (js_to_number (openPrice r))"
  using assms by (auto simp: calculateTrailingSl_def Let_def rbind_Inr_iff split: if_splits prod.splits)

lemma break_even_accepts:
  assumes "calculateBreakEvenSl r m b = Inr (Some c)"
  shows "if is_buy (side r) then js_lt (stop_of (currentSl r)) c
    else stop_of (currentSl r) = Fin 0 \<or> js_lt c (stop_of (currentSl r))"
  using assms by (auto simp: calculateBreakEvenSl_def Let_def rbind_Inr_iff split: if_splits prod.splits)

lemma adjust_buy:
  assumes "is_buy (side r)" "sl \<noteq> NaN" shows "js_le sl (adjust r a sl)"
proof -
  have "stop_of (JNum sl) = sl" using assms(2) by (simp add: stop_of_def)
  then have "js_lt sl c" if "adjust r a sl = c" "c \<noteq> sl" for c
    using that assms(1) trailing_accepts [of "r\<lparr>currentPrice := p, currentSl := JNum sl\<rparr>" c for p]
      break_even_accepts [of "r\<lparr>currentPrice := p, currentSl := JNum sl\<rparr>" m b c for p m b]
    by (auto simp: adjust_def split: adjustment.splits sum.splits option.splits)
  then show ?thesis using assms(2) by (metis js_le_def js_lt_irrefl js_lt_not_NaN js_lt_trans)
qed

section \<open>Properties\<close>



text \<open>
  A lockout lasts exactly until the next UTC midnight: the time that
  \<open>calculateNextUtcMidnight\<close> writes is later than now by at most a day, and a lockout until
  then is active at a time exactly when that time is before it.
\<close>

theorem lockout_until_midnight:
  assumes "calculateNextUtcMidnight now = Inr s"
  shows "now < next_utc_midnight now \<and> next_utc_midnight now \<le> now + ms_per_day
    \<and> next_utc_midnight now mod ms_per_day = 0 \<and> (isLockoutActive (JStr s) t \<longleftrightarrow> t < next_utc_midnight now)"
proof -
  have "to_iso (next_utc_midnight now) = Some s"
    using assms by (auto simp: calculateNextUtcMidnight_def split: option.splits)
  then have "date_parse s = Some (next_utc_midnight now)" by (rule date_parse_to_iso)
  moreover from this have "s \<noteq> []" by (auto simp: date_parse_def parse_year_def)
  moreover have "now < (now div ms_per_day + 1) * ms_per_day" "(now div ms_per_day + 1) * ms_per_day \<le> now + ms_per_day"
    by (simp_all add: ms_per_day_def)
  ultimately show ?thesis by (simp add: isLockoutActive_def date_time_def next_utc_midnight_def)
qed

lemma lockout_until_midnight_witness:
  "\<exists>s. calculateNextUtcMidnight 1717243500000 = Inr s \<and> isLockoutActive (JStr s) 1717243500000
     \<and> \<not> isLockoutActive (JStr s) 1717286400000"
proof -
  have s: "calculateNextUtcMidnight 1717243500000 = Inr ''2024-06-02T00:00:00.000Z''" by code_simp
  have n: "next_utc_midnight 1717243500000 = 1717286400000" by (simp add: next_utc_midnight_def ms_per_day_def)
  show ?thesis using s n lockout_until_midnight [OF s, of 1717243500000] lockout_until_midnight [OF s, of 1717286400000]
    by (intro exI conjI) auto
qed


definition long_eurusd :: stop_request where
  "long_eurusd = \<lparr>s_symbol = JStr ''EURUSD'', side = JStr ''buy'', openPrice = JNum (Fin 1), currentPrice = JNull,
     currentSl = JNull, distance = JNum (Fin (1/4)), pipSize = JUndef, digits = JUndef\<rparr>"


text \<open>
  A short stop can vanish: a proposal that rounds to zero is returned as a stop, and zero means
  that there is none.
\<close>

lemma short_stop_rounds_to_zero:
  "calculateTrailingSl \<lparr>s_symbol = JStr ''DOGEUSD'', side = JStr ''sell'', openPrice = JNum (Fin (1/64)),
     currentPrice = JNum (Fin (1/512)), currentSl = JNum (Fin (1/128)), distance = JNum (Fin (1/512)),
     pipSize = JUndef, digits = JUndef\<rparr> = Inr (Some (Fin 0))"
  by code_simp

end
