(* ===== verification/Position_Sizing.thy ===== *)
theory Position_Sizing
  imports Timeframes
begin

text \<open>
  Position sizing, \<^verbatim>\<open>shared/lib/trading/position_sizing.js\<close>: a sizing intent (units, notional,
  risk budget, contracts or lots) becomes a quantity that is capped, rounded down to the
  quantity step of the instrument and checked against its minima.  The texts that explain a
  rejection and the instrument metadata that is copied into a result are not modelled; the code
  and the numeric details of a rejection are.
\<close>

definition SIZING_MODES :: "string list" where
  "SIZING_MODES = [''units'', ''notional'', ''risk_budget'', ''contracts'', ''lots'']"

definition finite_positive :: "jsval \<Rightarrow> jsnum option" where
  "finite_positive v = (let n = js_to_number v in if js_is_finite n \<and> js_lt (Fin 0) n then Some n else None)"

definition finite_non_negative :: "jsval \<Rightarrow> jsnum option" where
  "finite_non_negative v = (let n = js_to_number v in if js_is_finite n \<and> js_le (Fin 0) n then Some n else None)"

section \<open>Rounding to a step\<close>

text \<open>The part after the first \<^verbatim>\<open>e-\<close>, if there is one.\<close>

fun after_exponent :: "string \<Rightarrow> string option" where
  "after_exponent [] = None"
| "after_exponent (c # s) = (if starts_with (c # s) ''e-'' then Some (drop 1 s) else after_exponent s)"

definition decimalPlaces :: "jsnum \<Rightarrow> jsnum" where
  "decimalPlaces x = (let text = to_lower (num_to_string x) in
     case after_exponent text of
       Some e \<Rightarrow> (let n = string_to_number e in if n = NaN then Fin 0 else n)
     | None \<Rightarrow> (case js_split CHR ''.'' text of _ # p # _ \<Rightarrow> Fin (of_nat (length p)) | _ \<Rightarrow> Fin 0))"

definition precision_of :: "jsnum \<Rightarrow> nat" where
  "precision_of step = (case js_min (Fin 12) (js_max (decimalPlaces step) (Fin 0)) of
     Fin p \<Rightarrow> nat \<lfloor>p\<rfloor> | _ \<Rightarrow> 0)"

definition roundDownToStep :: "jsval \<Rightarrow> jsval \<Rightarrow> jsnum" where
  "roundDownToStep value step = (case (finite_positive value, finite_positive step) of
     (Some v, Some s) \<Rightarrow>
       let ratio = js_to_fixed 10 (js_div v s); steps = js_floor ratio
       in js_to_fixed (precision_of s) (js_mul steps s)
   | _ \<Rightarrow> Fin 0)"

definition stableDecimal :: "jsnum \<Rightarrow> jsnum" where
  "stableDecimal x = js_to_fixed 9 x"

section \<open>Sizing\<close>

record sized =
  reference_price :: jsnum
  raw_quantity :: jsnum
  quantity :: jsnum
  quantity_step :: jsnum
  contract_multiplier :: jsnum
  units_per_lot :: "jsnum option"
  projected_notional :: jsnum
  requested_notional :: "jsnum option"
  residual_notional :: "jsnum option"
  binding_caps :: "string list"

datatype sizing_result = Rejected string "(string \<times> jsnum) list" | Sized sized

definition six_capitals :: "string \<Rightarrow> bool" where
  "six_capitals s = (length s = 6 \<and> list_all is_upper s)"

text \<open>The multiplier from a quantity to its exposure; \<open>None\<close> is a lot size that is missing.\<close>

definition exposure_multiplier :: "string \<Rightarrow> jsval \<Rightarrow> jsnum \<Rightarrow> jsnum option" where
  "exposure_multiplier mode instrument contractMultiplier =
    (let unitsPerLot = finite_positive (js_get instrument ''unitsPerLot''); cls = js_get instrument ''assetClass'' in
     if mode = ''lots'' then map_option (js_mul contractMultiplier) unitsPerLot
     else case unitsPerLot of
       Some u \<Rightarrow> if cls = JStr ''fx'' \<or> cls = JStr ''commodities'' \<or> six_capitals (js_to_string (js_get instrument ''instrumentId''))
         then Some (js_mul contractMultiplier u) else Some contractMultiplier
     | None \<Rightarrow> Some contractMultiplier)"

text \<open>The quantity asked for; \<open>None\<close> is a stop price that is missing or too close.\<close>

definition asked_quantity :: "string \<Rightarrow> jsval \<Rightarrow> jsnum \<Rightarrow> jsnum \<Rightarrow> jsnum \<Rightarrow> jsnum option" where
  "asked_quantity mode intent value price mult =
    (if mode = ''notional'' then Some (js_div value (js_mul price mult))
     else if mode = ''risk_budget'' then
       (case finite_non_negative (js_get intent ''stopPrice'') of
          None \<Rightarrow> None
        | Some stop \<Rightarrow> let dist = js_abs (js_sub price stop) in
            if js_lt dist (fl (1 / 10 ^ 8)) then None else Some (js_div value (js_mul dist mult)))
     else Some value)"

definition cap_notional :: "jsval \<Rightarrow> jsnum \<Rightarrow> jsnum \<Rightarrow> jsnum \<times> string list \<Rightarrow> jsnum \<times> string list" where
  "cap_notional availableNotional price mult st = (case finite_positive availableNotional of
     None \<Rightarrow> st
   | Some available \<Rightarrow> let cash = js_div available (js_mul price mult) in
       (js_min (fst st) cash, if js_lt cash (fst st) then snd st @ [''available_notional''] else snd st))"

definition cap_quantity :: "jsval \<Rightarrow> jsnum \<times> string list \<Rightarrow> jsnum \<times> string list" where
  "cap_quantity maxQuantity st = (case finite_positive maxQuantity of
     Some m \<Rightarrow> if js_lt m (fst st) then (m, snd st @ [''max_quantity'']) else st
   | None \<Rightarrow> st)"

text \<open>\<^verbatim>\<open>min !== null && x < min\<close>.\<close>

definition below :: "jsnum \<Rightarrow> jsval \<Rightarrow> jsnum option" where
  "below x v = (case finite_positive v of Some m \<Rightarrow> if js_lt x m then Some m else None | None \<Rightarrow> None)"

definition finish_sizing :: "string \<Rightarrow> jsval \<Rightarrow> jsnum \<Rightarrow> jsnum \<Rightarrow> jsnum \<Rightarrow> jsnum \<Rightarrow> jsnum
    \<Rightarrow> jsnum \<times> string list \<Rightarrow> sizing_result" where
  "finish_sizing mode instrument value price step contractMultiplier mult st =
    (let raw = fst st; q = roundDownToStep (JNum raw) (JNum step) in
     if js_le q (Fin 0) then Rejected ''below_quantity_step'' [(''raw_quantity'', raw), (''quantity_step'', step)]
     else case below q (js_get instrument ''minQuantity'') of
       Some m \<Rightarrow> Rejected ''below_minimum_quantity'' [(''quantity'', q), (''min_quantity'', m), (''quantity_step'', step)]
     | None \<Rightarrow>
       let projected = stableDecimal (js_mul (js_mul q price) mult) in
       (case below projected (js_get instrument ''minNotional'') of
          Some m \<Rightarrow> Rejected ''below_minimum_notional''
            [(''quantity'', q), (''projected_notional'', projected), (''min_notional'', m)]
        | None \<Rightarrow>
          let requested = (if mode = ''notional'' then Some value else None) in
          Sized \<lparr>reference_price = price, raw_quantity = raw, quantity = q, quantity_step = step,
            contract_multiplier = contractMultiplier,
            units_per_lot = (if mode = ''lots'' then Some (js_to_number (js_get instrument ''unitsPerLot'')) else None),
            projected_notional = projected, requested_notional = requested,
            residual_notional = map_option (\<lambda>n. stableDecimal (js_max (Fin 0) (js_sub n projected))) requested,
            binding_caps = snd st\<rparr>))"

definition normalizeSizingIntent :: "jsval \<Rightarrow> jsval \<Rightarrow> jsval \<Rightarrow> jsval \<Rightarrow> sizing_result" where
  "normalizeSizingIntent intent instrument referencePrice availableNotional =
    (let mode = to_lower (js_trim (text_of (js_get intent ''mode''))) in
     if mode \<notin> set SIZING_MODES then Rejected ''unsupported_sizing_mode'' []
     else case finite_positive (js_get intent ''value'') of
       None \<Rightarrow> Rejected ''invalid_sizing_value'' []
     | Some value \<Rightarrow>
     (case finite_positive referencePrice of
       None \<Rightarrow> Rejected ''invalid_reference_price'' []
     | Some price \<Rightarrow>
     (case (finite_positive (js_get instrument ''quantityStep''), finite_positive (js_get instrument ''contractMultiplier'')) of
       (Some step, Some cm) \<Rightarrow>
         (case exposure_multiplier mode instrument cm of
            None \<Rightarrow> Rejected ''missing_units_per_lot'' []
          | Some mult \<Rightarrow>
            (case asked_quantity mode intent value price mult of
               None \<Rightarrow> Rejected ''invalid_stop_price'' []
             | Some asked \<Rightarrow> finish_sizing mode instrument value price step cm mult
                 (cap_quantity (js_get instrument ''maxQuantity'')
                   (cap_notional availableNotional price mult (asked, [])))))
     | _ \<Rightarrow> Rejected ''incomplete_instrument_contract'' [])))"

section \<open>Whole steps\<close>

lemma js_to_fixed_int:
  assumes "0 \<le> n" "n < 2 ^ 53" shows "js_to_fixed p (Fin (of_int n)) = Fin (of_int n)"
proof -
  have "\<lfloor>of_int n * 10 ^ p + 1 / 2 :: rat\<rfloor> = n * 10 ^ p"
    by (rule floor_unique) simp_all
  moreover have "(of_int (n * 10 ^ p) :: rat) / 10 ^ p = of_int n" by simp
  moreover have "(of_int n :: rat) < 10 ^ 21"
  proof -
    have "(of_int n :: rat) < of_int (2 ^ 53)" using assms(2) by (simp only: of_int_less_iff)
    then show ?thesis by simp
  qed
  ultimately show ?thesis
    using assms fl_of_int [of n] by (cases "n = 0") (simp_all add: js_to_fixed_def)
qed

lemma fixed_floor:
  assumes "0 \<le> x" "x < of_int (J + 1) - 1 / 10 ^ 10" "0 \<le> J" "J < 900000"
  shows "\<exists>j. js_floor (js_to_fixed 10 (Fin x)) = Fin (of_int j) \<and> 0 \<le> j \<and> j \<le> J"
proof -
  define n where "n = \<lfloor>x * 10 ^ 10 + 1 / 2\<rfloor>"
  have n0: "0 \<le> n" using assms(1) by (simp add: n_def le_floor_iff)
  have "x * 10 ^ 10 + 1 / 2 < of_int ((J + 1) * 10 ^ 10)" using assms(2) by (simp add: field_simps)
  then have "n < (J + 1) * 10 ^ 10" by (simp add: n_def floor_less_iff)
  then have n: "n div 10 ^ 10 \<le> J" "\<bar>n\<bar> < 2 ^ 53" using n0 assms(4) by (simp_all add: div_less_iff_less_mult)
  have "x < 10 ^ 21" using assms(2,4) by (simp add: less_le_trans)
  then have "js_to_fixed 10 (Fin x) = js_div (Fin (of_int n)) (Fin (of_int (10 ^ 10)))"
  proof (cases "x = 0")
    case True
    moreover have "\<lfloor>1 / 2 :: rat\<rfloor> = 0" by (rule floor_unique) simp_all
    ultimately show ?thesis by (simp add: js_to_fixed_def n_def)
  qed (use assms(1) in \<open>simp add: js_to_fixed_def n_def\<close>)
  then have "js_floor (js_to_fixed 10 (Fin x)) = Fin (of_int (n div 10 ^ 10))"
    using js_floor_div [OF n(2), of "10 ^ 10"] by simp
  then show ?thesis using n n0 by (intro exI [of _ "n div 10 ^ 10"]) (simp add: pos_imp_zdiv_nonneg_iff)
qed

lemma whole_steps:
  fixes M k :: int
  assumes "0 < k" "0 < M" "M < 900000 * k"
  shows "0 \<le> M div k" "M div k < 900000" "M div k * k \<le> M" "M + 1 \<le> (M div k + 1) * k"
proof -
  show *: "M div k * k \<le> M"
    using minus_mod_eq_div_mult [of M k] pos_mod_sign [OF assms(1), of M] by linarith
  show "0 \<le> M div k" using assms by (simp add: pos_imp_zdiv_nonneg_iff)
  show "M + 1 \<le> (M div k + 1) * k"
    using pos_mod_bound [OF assms(1), of M] minus_mod_eq_div_mult [of M k] by (simp add: distrib_right)
  show "M div k < 900000"
  proof (rule ccontr)
    assume "\<not> M div k < 900000"
    then have "900000 * k \<le> M div k * k" using assms(1) by (intro mult_right_mono) simp_all
    then show False using * assms(3) by linarith
  qed
qed

text \<open>
  The quotient of two whole numbers, rounded to a double, stays so far below the next whole number
  that ten decimals tell them apart.
\<close>

lemma ratio_below_next:
  assumes k: "0 < k" "k \<le> 10 ^ 9" and M: "0 < M" "M < 900000 * k"
  shows "\<exists>y. fl (of_int M / of_int k) = Fin y \<and> y < of_int (M div k + 1) - 1 / 10 ^ 10"
proof -
  define z :: rat where "z = of_int M / of_int k"
  define J where "J = M div k"
  note J = whole_steps [OF k(1) M, folded J_def]
  have Mb: "\<bar>M\<bar> < 2 ^ 53" "k < 2 ^ 53" using k M by simp_all
  obtain y where y: "fl z = Fin y" "\<bar>y - z\<bar> \<le> \<bar>z\<bar> / 2 ^ 53"
    using fl_near [OF Mb(1) k(1) Mb(2)] unfolding z_def by blast
  have kr: "(0 :: rat) < of_int k" "(of_int k :: rat) \<le> of_int (10 ^ 9)"
    using k by (simp_all only: of_int_le_iff of_int_0_less_iff)
  have "(of_int (M + 1) :: rat) \<le> of_int ((J + 1) * k)" using J(4) by (simp only: of_int_le_iff)
  then have a: "z + 1 / of_int k \<le> of_int (J + 1)"
    using kr(1) by (simp add: z_def divide_le_eq flip: add_divide_distrib)
  have b: "1 / 10 ^ 9 \<le> 1 / (of_int k :: rat)" using kr by (intro divide_left_mono) simp_all
  have z0: "0 \<le> z" using k(1) M(1) by (simp add: z_def)
  have "(of_int (J + 1) :: rat) \<le> of_int 900000" using J(2) by (simp only: of_int_le_iff)
  then have "z \<le> 900000" using a b by simp
  then have "y - z \<le> 900000 / 2 ^ 53"
    using y(2) z0 divide_right_mono [of z 900000 "2 ^ 53"] by (simp only: abs_le_iff abs_of_nonneg) (meson order_trans zero_le_numeral zero_le_power)
  then have "y < of_int (J + 1) - 1 / 10 ^ 10" using a b by simp
  then show ?thesis using y(1) unfolding z_def J_def by blast
qed

lemma round_down_whole:
  assumes k: "0 < k" "k \<le> 10 ^ 9" and M: "0 < M" "M < 900000 * k"
    and raw: "0 < raw" "raw \<le> of_int M"
  shows "\<exists>j. roundDownToStep (JNum (Fin raw)) (JNum (Fin (of_int k))) = Fin (of_int (j * k)) \<and> 0 \<le> j \<and> j * k \<le> M"
proof -
  define J where "J = M div k"
  note J = whole_steps [OF k(1) M, folded J_def]
  obtain y where y: "fl (of_int M / of_int k) = Fin y" "y < of_int (J + 1) - 1 / 10 ^ 10"
    using ratio_below_next [OF k M] unfolding J_def by blast
  have "raw / of_int k \<le> of_int M / of_int k" using raw(2) k(1) by (simp add: divide_right_mono)
  then have "js_le (fl (raw / of_int k)) (Fin y)" using fl_mono y(1) by metis
  moreover have "js_le (Fin 0) (fl (raw / of_int k))" using raw(1) k(1) by (intro binary64.rnd_nonneg) simp
  ultimately obtain x where x: "fl (raw / of_int k) = Fin x" "0 \<le> x" "x \<le> y"
    by (cases "fl (raw / of_int k)") (auto simp: js_le_def)
  have "x < of_int (J + 1) - 1 / 10 ^ 10" using x(3) y(2) by (rule le_less_trans)
  from fixed_floor [OF x(2) this J(1,2)]
  obtain j where j: "js_floor (js_to_fixed 10 (Fin x)) = Fin (of_int j)" "0 \<le> j" "j \<le> J" by blast
  have Mb: "M < 2 ^ 53" using k M by simp
  have "j * k \<le> J * k" using j(3) k(1) by (intro mult_right_mono) simp_all
  then have jM: "j * k \<le> M" using J(3) by (rule order_trans)
  have j0: "0 \<le> j * k" using j(2) k(1) by simp
  note jk = j0 jM
  have mul: "js_mul (Fin (of_int j)) (Fin (of_int k)) = Fin (of_int (j * k))" using jk Mb by (intro js_mul_int) linarith
  have fixed: "js_to_fixed p (Fin (of_int (j * k))) = Fin (of_int (j * k))" for p
    using jk Mb by (intro js_to_fixed_int) linarith+
  have pos: "finite_positive (JNum (Fin raw)) = Some (Fin raw)"
    "finite_positive (JNum (Fin (of_int k))) = Some (Fin (of_int k))"
    using raw(1) k(1) by (simp_all add: finite_positive_def)
  have "js_div (Fin raw) (Fin (of_int k)) = Fin x" using x(1) k(1) by simp
  then have "roundDownToStep (JNum (Fin raw)) (JNum (Fin (of_int k))) = Fin (of_int (j * k))"
    by (simp only: roundDownToStep_def pos j(1) mul fixed Let_def prod.case option.case)
  then show ?thesis using jk j(2) by blast
qed

section \<open>Properties\<close>

lemma cap_quantity_le:
  assumes "finite_positive v = Some (Fin m)" "fst (cap_quantity v st) = Fin q" shows "q \<le> m"
  using assms by (auto simp: cap_quantity_def split: if_splits)

lemma sized_cases:
  assumes "normalizeSizingIntent intent instrument ref av = Sized s"
  obtains mode amount price st cm mult asked where
    "finite_positive (js_get instrument ''quantityStep'') = Some st"
    "finish_sizing mode instrument amount price st cm mult
       (cap_quantity (js_get instrument ''maxQuantity'') (cap_notional av price mult (asked, []))) = Sized s"
  using assms
  by (auto simp: normalizeSizingIntent_def Let_def split: if_splits option.splits)

lemma finish_sized:
  assumes "finish_sizing mode instrument value price step cm mult st = Sized s"
  shows "quantity s = roundDownToStep (JNum (fst st)) (JNum step)" "raw_quantity s = fst st"
    "\<not> js_le (quantity s) (Fin 0)" "below (quantity s) (js_get instrument ''minQuantity'') = None"
    "below (projected_notional s) (js_get instrument ''minNotional'') = None" "quantity_step s = step"
  using assms by (auto simp: finish_sizing_def Let_def split: if_splits option.splits)

text \<open>
  C31. Sizing never exceeds the instrument: for an instrument with a whole quantity step up to
  \<open>10 ^ 9\<close> and a whole maximum of less than 900000 steps, every accepted quantity is a positive whole
  multiple of the step, at most the maximum and at least the minimum quantity, although the code
  rounds the ratio of quantity and step to ten decimals before it takes the floor.
\<close>

theorem sizing_within_limits:
  assumes "normalizeSizingIntent intent instrument ref av = Sized s"
    and "js_get instrument ''quantityStep'' = JNum (Fin (of_int k))" "0 < k" "k \<le> 10 ^ 9"
    and "js_get instrument ''maxQuantity'' = JNum (Fin (of_int M))" "0 < M" "M < 900000 * k"
  shows "\<exists>j. quantity s = Fin (of_int (j * k)) \<and> 0 < j \<and> j * k \<le> M
    \<and> (\<forall>m. js_get instrument ''minQuantity'' = JNum (Fin m) \<longrightarrow> m \<le> of_int (j * k))"
proof -
  obtain mode amount price st cm mult asked where f: "finite_positive (js_get instrument ''quantityStep'') = Some st"
    "finish_sizing mode instrument amount price st cm mult
       (cap_quantity (js_get instrument ''maxQuantity'') (cap_notional av price mult (asked, []))) = Sized s"
    by (rule sized_cases [OF assms(1)])
  define raw where "raw = fst (cap_quantity (js_get instrument ''maxQuantity'') (cap_notional av price mult (asked, [])))"
  have step: "st = Fin (of_int k)" using f(1) assms(2,3) by (simp add: finite_positive_def)
  note fs = finish_sized [OF f(2), folded raw_def]
  have "finite_positive (JNum raw) \<noteq> None"
    using fs(1,3) by (auto simp: roundDownToStep_def split: option.splits)
  then obtain q where q: "raw = Fin q" "0 < q" by (auto simp: finite_positive_def Let_def split: if_splits)
  have "finite_positive (js_get instrument ''maxQuantity'') = Some (Fin (of_int M))"
    using assms(5,6) by (simp add: finite_positive_def)
  from cap_quantity_le [OF this] q(1) have "q \<le> of_int M" unfolding raw_def by blast
  then obtain j where j: "quantity s = Fin (of_int (j * k))" "0 \<le> j" "j * k \<le> M"
    using round_down_whole [OF assms(3,4,6,7) q(2)] fs(1) q(1) step by auto
  have "0 < j" using fs(3) j(1,2) by (cases "j = 0") auto
  moreover have "m \<le> of_int (j * k)" if "js_get instrument ''minQuantity'' = JNum (Fin m)" for m
  proof (cases "0 < m")
    case True
    then show ?thesis using fs(4) that j(1) by (auto simp: below_def finite_positive_def not_less split: if_splits)
  next
    case False
    have "0 \<le> j * k" using j(2) assms(3) by simp
    then have "(0 :: rat) \<le> of_int (j * k)" by (simp only: of_int_0_le_iff)
    then show ?thesis using False by linarith
  qed
  ultimately show ?thesis using j by blast
qed

definition demo_instrument :: jsval where
  "demo_instrument = JObj [(''quantityStep'', JNum (Fin (of_int 5))), (''contractMultiplier'', JNum (Fin 1)),
     (''maxQuantity'', JNum (Fin (of_int 100)))]"

lemma sizing_within_limits_witness:
  "\<exists>s j. normalizeSizingIntent (JObj [(''mode'', JStr ''notional''), (''value'', JNum (Fin 470))]) demo_instrument (JNum (Fin 10)) JUndef = Sized s
     \<and> quantity s = Fin (of_int (j * 5)) \<and> j * 5 \<le> 100"
proof -
  define r where "r = normalizeSizingIntent (JObj [(''mode'', JStr ''notional''), (''value'', JNum (Fin 470))]) demo_instrument (JNum (Fin 10)) JUndef"
  have "case r of Sized _ \<Rightarrow> True | _ \<Rightarrow> False" unfolding r_def by code_simp
  then obtain s where s: "r = Sized s" by (auto split: sizing_result.splits)
  from sizing_within_limits [OF this [unfolded r_def], of 5 100] show ?thesis
    using s unfolding r_def by (auto simp: demo_instrument_def)
qed


text \<open>
  Rounding the ratio to ten decimals first means that the result is not always below its input: a
  quantity just under a whole number of steps is rounded up to it.
\<close>

lemma round_down_can_round_up:
  "let x = fl (1 - 1 / 10 ^ 11) in js_lt x (Fin 1) \<and> roundDownToStep (JNum x) (JNum (Fin 1)) = Fin 1"
  by code_simp

end
