(* ===== verification/Quarantine.thy ===== *)
theory Quarantine
  imports Js_Json Timeframes "HOL-Library.Multiset"
begin

text \<open>
  The ingestion quarantine of \<^verbatim>\<open>shared/lib/data/quarantine.js\<close>: the validation of a record, the
  forensic log it is written to when it fails, and reading, counting and pruning that log.
  The log directory is absent or a list of files in the order of \<^verbatim>\<open>readdirSync\<close>; a line of a
  file is its text and what \<^verbatim>\<open>JSON.parse\<close> makes of it.  File operations succeed; the hash
  function is an argument.  The texts that explain a rejection are not modelled.
\<close>

section \<open>Validation\<close>

datatype reason = NON_FINITE_PRICE | NEGATIVE_SPREAD | TIME_JUMP | MISSING_PREDECESSOR
  | DUPLICATE_PAYLOAD_CONFLICT | MALFORMED_ROW

definition reason_text :: "reason \<Rightarrow> string" where
  "reason_text r = (case r of NON_FINITE_PRICE \<Rightarrow> ''NON_FINITE_PRICE'' | NEGATIVE_SPREAD \<Rightarrow> ''NEGATIVE_SPREAD''
     | TIME_JUMP \<Rightarrow> ''TIME_JUMP'' | MISSING_PREDECESSOR \<Rightarrow> ''MISSING_PREDECESSOR''
     | DUPLICATE_PAYLOAD_CONFLICT \<Rightarrow> ''DUPLICATE_PAYLOAD_CONFLICT'' | MALFORMED_ROW \<Rightarrow> ''MALFORMED_ROW'')"

definition QUARANTINE_REASONS :: "reason list" where
  "QUARANTINE_REASONS = [NON_FINITE_PRICE, NEGATIVE_SPREAD, TIME_JUMP, MISSING_PREDECESSOR,
     DUPLICATE_PAYLOAD_CONFLICT, MALFORMED_ROW]"

definition priceFields :: "string list" where
  "priceFields = [''open'', ''high'', ''low'', ''close'', ''value'', ''price'']"

definition bad_price :: "string \<Rightarrow> jsval \<Rightarrow> string \<Rightarrow> bool" where
  "bad_price family rec field = (let v = js_get rec field; value = js_to_number v;
       signedMacroValue = (family = ''macro'' \<and> field = ''value'') in
     v \<noteq> JUndef \<and> v \<noteq> JNull \<and> (\<not> js_is_finite value \<or> \<not> signedMacroValue \<and> js_le value (Fin 0)))"

definition inverted_spread :: "jsval \<Rightarrow> bool" where
  "inverted_spread rec = (let b = js_get rec ''bid''; a = js_get rec ''ask'' in
     b \<noteq> JUndef \<and> a \<noteq> JUndef \<and> js_is_finite (js_to_number b) \<and> js_is_finite (js_to_number a)
     \<and> js_lt (js_to_number a) (js_to_number b))"

definition record_time :: "jsval \<Rightarrow> jsnum" where
  "record_time v = (case v of JNum n \<Rightarrow> n
     | _ \<Rightarrow> (case date_parse (js_to_string v) of None \<Rightarrow> NaN | Some t \<Rightarrow> Fin (of_int t)))"

definition time_jump :: "int \<Rightarrow> jsval \<Rightarrow> bool" where
  "time_jump now rec = (let v = js_get rec ''timestamp'' in
     v \<noteq> JUndef \<and> (\<not> js_is_finite (record_time v)
       \<or> js_lt (js_add (Fin (of_int now)) (Fin 300000)) (record_time v)))"

text \<open>\<open>None\<close> is \<^verbatim>\<open>valid: true\<close>; the first check that fails gives the reason.\<close>

definition validateIngestRecord :: "int \<Rightarrow> jsval \<Rightarrow> string \<Rightarrow> reason option" where
  "validateIngestRecord now rec family =
    (if \<not> truthy rec \<or> \<not> typeof_object rec \<or> is_array rec then Some MALFORMED_ROW
     else if list_ex (bad_price family rec) priceFields then Some NON_FINITE_PRICE
     else if inverted_spread rec then Some NEGATIVE_SPREAD
     else if time_jump now rec then Some TIME_JUMP
     else None)"

section \<open>The log\<close>

type_synonym qline = "string \<times> jsval option"
type_synonym qdir = "(string \<times> qline list) list option"

definition computePayloadHash :: "(string \<Rightarrow> string) \<Rightarrow> jsval \<Rightarrow> string" where
  "computePayloadHash sha256 rec = (case rec of
     JStr s \<Rightarrow> sha256 s | JUndef \<Rightarrow> sha256 ''undefined'' | _ \<Rightarrow> sha256 (json_text rec))"

definition resolveDateString :: "int \<Rightarrow> string option" where
  "resolveDateString now = iso_day now"

record q_options =
  q_family :: jsval
  q_symbol :: jsval
  q_now :: jsval
  q_date :: jsval

text \<open>\<^verbatim>\<open>options.now ? new Date(options.now) : new Date()\<close>.\<close>

definition q_time :: "int \<Rightarrow> q_options \<Rightarrow> int option" where
  "q_time clock opts = (if truthy (q_now opts) then date_time (q_now opts) else Some clock)"

definition quarantine_event :: "(string \<Rightarrow> string) \<Rightarrow> jsval \<Rightarrow> jsval \<Rightarrow> jsval \<Rightarrow> q_options \<Rightarrow> string \<Rightarrow> jsval" where
  "quarantine_event sha256 rec reasonCode errorMessage opts stamp = JObj
    [(''schema_version'', JNum (Fin 1)), (''quarantined_at'', JStr stamp),
     (''family'', js_or (q_family opts) (JStr ''general'')),
     (''symbol'', js_or (js_or (q_symbol opts) (js_get rec ''symbol'')) (JStr ''UNKNOWN'')),
     (''reason_code'', js_or reasonCode (JStr (reason_text MALFORMED_ROW))),
     (''error'', js_or errorMessage (JStr ''Validation failed'')),
     (''payload_hash'', JStr (computePayloadHash sha256 rec)), (''raw_payload'', rec)]"

definition log_file :: "jsval \<Rightarrow> string \<Rightarrow> string" where
  "log_file family date = js_to_string family @ ''_'' @ date @ ''.jsonl''"

definition append_line :: "string \<Rightarrow> qline \<Rightarrow> qdir \<Rightarrow> qdir" where
  "append_line f l d = (let m = (case d of None \<Rightarrow> [] | Some m \<Rightarrow> m) in
     Some (AList.update f ((case map_of m f of None \<Rightarrow> [] | Some ls \<Rightarrow> ls) @ [l]) m))"

definition quarantineRecord :: "(string \<Rightarrow> string) \<Rightarrow> int \<Rightarrow> jsval \<Rightarrow> jsval \<Rightarrow> jsval \<Rightarrow> q_options \<Rightarrow> qdir
    \<Rightarrow> time_error + jsval \<times> qdir" where
  "quarantineRecord sha256 clock rec reasonCode errorMessage opts d =
    (case Option.bind (q_time clock opts) (\<lambda>t. Option.bind (to_iso t) (\<lambda>s. map_option (\<lambda>dt. (s, dt)) (resolveDateString t))) of
       None \<Rightarrow> Inl Invalid_time_value
     | Some (stamp, date) \<Rightarrow>
         let ev = quarantine_event sha256 rec reasonCode errorMessage opts stamp;
             f = log_file (js_or (q_family opts) (JStr ''general'')) date
         in Inr (ev, append_line f (json_text ev, Some (json_view ev)) d))"

definition is_log :: "string \<Rightarrow> bool" where
  "is_log f = ends_with f ''.jsonl''"

text \<open>\<^verbatim>\<open>content.split('\n').filter(Boolean)\<close>, then \<^verbatim>\<open>JSON.parse\<close> of every line.\<close>

definition parsed_lines :: "qline list \<Rightarrow> jsval list" where
  "parsed_lines ls = List.map_filter snd (filter (\<lambda>l. fst l \<noteq> []) ls)"

definition selected :: "q_options \<Rightarrow> string \<Rightarrow> bool" where
  "selected opts f = (is_log f
     \<and> (truthy (q_family opts) \<longrightarrow> starts_with f (js_to_string (q_family opts) @ ''_''))
     \<and> (truthy (q_date opts) \<longrightarrow> js_includes f (js_to_string (q_date opts))))"

definition readQuarantineRecords :: "q_options \<Rightarrow> qdir \<Rightarrow> jsval list" where
  "readQuarantineRecords opts d = (case d of None \<Rightarrow> []
     | Some m \<Rightarrow> concat (map (\<lambda>(f, ls). if selected opts f then parsed_lines ls else []) m))"

section \<open>Metrics\<close>

record q_metrics =
  total_quarantined :: nat
  file_count :: nat
  by_reason :: "(string \<times> nat) list"
  by_family :: "(string \<times> nat) list"
  latest_anomaly :: jsval
  latest_time :: int  \<comment> \<open>the local \<^verbatim>\<open>latestTime\<close>\<close>

definition bump :: "string \<Rightarrow> (string \<times> nat) list \<Rightarrow> (string \<times> nat) list" where
  "bump k m = AList.update k (Suc (case map_of m k of None \<Rightarrow> 0 | Some n \<Rightarrow> n)) m"

text \<open>Reading a property of \<^verbatim>\<open>null\<close> throws after the total was counted.\<close>

definition count_event :: "jsval \<Rightarrow> q_metrics \<Rightarrow> q_metrics" where
  "count_event ev m =
    (let m1 = m\<lparr>total_quarantined := total_quarantined m + 1\<rparr> in
     if ev = JNull then m1 else
     let r = js_get ev ''reason_code'';
         m2 = (if truthy r then m1\<lparr>by_reason := bump (js_to_string r) (by_reason m1)\<rparr> else m1);
         m3 = m2\<lparr>by_family := bump (js_to_string (js_or (js_get ev ''family'') (JStr ''general''))) (by_family m2)\<rparr>;
         t = (case date_parse (js_to_string (js_get ev ''quarantined_at'')) of None \<Rightarrow> 0 | Some t \<Rightarrow> t) in
     if latest_time m3 \<le> t then m3\<lparr>latest_time := t, latest_anomaly := ev\<rparr> else m3)"

definition initial_metrics :: q_metrics where
  "initial_metrics = \<lparr>total_quarantined = 0, file_count = 0,
     by_reason = map (\<lambda>r. (reason_text r, 0)) QUARANTINE_REASONS, by_family = [], latest_anomaly = JNull, latest_time = 0\<rparr>"

definition getQuarantineMetrics :: "qdir \<Rightarrow> q_metrics" where
  "getQuarantineMetrics d = (case d of None \<Rightarrow> initial_metrics
     | Some m \<Rightarrow> let files = filter (\<lambda>(f, ls). is_log f) m in
         fold count_event (concat (map (\<lambda>(f, ls). parsed_lines ls) files))
           (initial_metrics\<lparr>file_count := length files\<rparr>))"

section \<open>Pruning\<close>

text \<open>\<^verbatim>\<open>/_(\d{4}-\d{2}-\d{2})\.jsonl$/\<close>: the last 17 characters of the name.\<close>

definition file_date :: "string \<Rightarrow> string option" where
  "file_date f = (let s = drop (length f - 17) f; d = take 10 (drop 1 s) in
     if length f \<ge> 17 \<and> take 1 s = ''_'' \<and> drop 11 s = ''.jsonl''
        \<and> list_all is_digit (take 4 d) \<and> take 1 (drop 4 d) = ''-'' \<and> list_all is_digit (take 2 (drop 5 d))
        \<and> take 1 (drop 7 d) = ''-'' \<and> list_all is_digit (drop 8 d)
     then Some d else None)"

definition cutoff :: "int \<Rightarrow> jsval \<Rightarrow> jsnum" where
  "cutoff now daysToKeep = js_sub (Fin (of_int now))
     (js_mul (js_mul (js_mul (js_mul (js_to_number (js_default daysToKeep (JNum (Fin 30)))) (Fin 24)) (Fin 60)) (Fin 60)) (Fin 1000))"

definition expired :: "jsnum \<Rightarrow> string \<Rightarrow> bool" where
  "expired cutoffMs f = (is_log f \<and> (case Option.bind (file_date f) date_parse of
     None \<Rightarrow> False | Some t \<Rightarrow> js_lt (Fin (of_int t)) cutoffMs))"

definition file_size :: "qline list \<Rightarrow> nat" where
  "file_size ls = sum_list (map (\<lambda>l. Suc (length (fst l))) ls)"

text \<open>An invalid \<^verbatim>\<open>options.now\<close> has the time NaN, and no file is older than NaN.\<close>

definition pruneQuarantineRecords :: "int \<Rightarrow> jsval \<Rightarrow> q_options \<Rightarrow> qdir \<Rightarrow> qdir \<times> nat \<times> nat" where
  "pruneQuarantineRecords clock daysToKeep opts d = (case d of None \<Rightarrow> (None, 0, 0)
     | Some m \<Rightarrow>
         let cutoffMs = (case q_time clock opts of None \<Rightarrow> NaN | Some now \<Rightarrow> cutoff now daysToKeep);
             gone = filter (\<lambda>(f, ls). expired cutoffMs f) m in
         (Some (filter (\<lambda>(f, ls). \<not> expired cutoffMs f) m), length gone, sum_list (map (\<lambda>(f, ls). file_size ls) gone)))"

section \<open>Names of log files\<close>

lemma starts_with_prefix: "starts_with (p @ s) p" by simp

lemma ends_with_append [simp]: "ends_with (s @ p) p"
  by (simp add: ends_with_def)

lemma js_includes_prefix: "js_includes (p @ s) p"
proof (cases "p @ s")
  case Nil then show ?thesis by simp
next
  case (Cons c t)
  then show ?thesis using starts_with_prefix [of p s] by simp
qed

lemma js_includes_append: "js_includes (a @ p @ s) p"
  by (induction a) (simp_all add: js_includes_prefix)

lemma log_file_is_log: "is_log (log_file fam date)"
  using ends_with_append [of "js_to_string fam @ ''_'' @ date"] by (simp add: is_log_def log_file_def)

lemma file_date_log_file:
  assumes "length date = 10" "list_all is_digit (take 4 date)" "take 1 (drop 4 date) = ''-''"
    "list_all is_digit (take 2 (drop 5 date))" "take 1 (drop 7 date) = ''-''" "list_all is_digit (drop 8 date)"
  shows "file_date (log_file fam date) = Some date"
proof -
  have l: "length (log_file fam date) = length (js_to_string fam) + 17" by (simp add: log_file_def assms(1))
  then have "drop (length (log_file fam date) - 17) (log_file fam date) = ''_'' @ date @ ''.jsonl''"
    by (simp add: log_file_def)
  then show ?thesis using assms l by (simp add: file_date_def Let_def)
qed

text \<open>The day of a time, as it is written and as it is read back.\<close>

lemma day_text:
  fixes t :: int
  defines "c \<equiv> civil_from_day (t div ms_per_day)"
  assumes "\<bar>t\<bar> \<le> max_time" "0 \<le> cyear c" "cyear c \<le> 9999"
  shows "iso_day t = Some (pad 4 (cyear c) @ ''-'' @ pad 2 (cmonth c + 1) @ ''-'' @ pad 2 (cday c))"
  using assms by (simp add: iso_day_def to_iso_def Let_def iso_year_def)

lemma pad_head: "pad (Suc (Suc (Suc (Suc 0)))) n = a # r \<Longrightarrow> is_digit a"
  using pad_digits [of 4 n] by (simp add: numeral_eq_Suc)

lemma parse_year_pad: "0 \<le> y \<Longrightarrow> y \<le> 9999 \<Longrightarrow> parse_year (pad 4 y @ r) = Some (y, r)"
  using parse_year_iso [of y r] by (simp add: iso_year_def)

lemma date_parse_day:
  fixes t :: int
  defines "c \<equiv> civil_from_day (t div ms_per_day)"
  assumes "\<bar>t div ms_per_day * ms_per_day\<bar> \<le> max_time" "0 \<le> cyear c" "cyear c \<le> 9999"
  shows "date_parse (pad 4 (cyear c) @ ''-'' @ pad 2 (cmonth c + 1) @ ''-'' @ pad 2 (cday c)) = Some (t div ms_per_day * ms_per_day)"
proof -
  note cf = civil_from_day_fields [of "t div ms_per_day", folded c_def]
  have "take_digits 2 (pad 2 (cmonth c + 1) @ q) = Some (cmonth c + 1, q)" for q
    using cf by (simp add: take_digits_pad)
  moreover have "take_digits 2 (pad 2 (cday c)) = Some (cday c, [])"
    using cf take_digits_pad [of "cday c" 2 "[]"] by simp
  ultimately show ?thesis
    using cf assms(2) unfolding date_parse_def
    by (simp add: parse_year_pad [OF assms(3,4)] date_value_def)
qed

lemma iso_day_shape:
  fixes t :: int
  defines "c \<equiv> civil_from_day (t div ms_per_day)"
  defines "date \<equiv> pad 4 (cyear c) @ ''-'' @ pad 2 (cmonth c + 1) @ ''-'' @ pad 2 (cday c)"
  shows "file_date (log_file fam date) = Some date"
  using pad_digits [of 4 "cyear c"] pad_digits [of 2 "cmonth c + 1"] pad_digits [of 2 "cday c"]
  by (intro file_date_log_file) (simp_all add: date_def)

section \<open>Writing and reading\<close>

lemma mset_update:
  fixes g :: "string \<times> qline list \<Rightarrow> jsval list"
  assumes "\<And>ls. g (f, ls @ [l]) = g (f, ls) @ new" "g (f, []) = []"
  shows "mset (concat (map g (AList.update f ((case map_of m f of None \<Rightarrow> [] | Some ls \<Rightarrow> ls) @ [l]) m)))
    = mset (concat (map g m)) + mset new"
proof (induction m)
  case Nil
  then show ?case using assms(1) [of "[]"] assms(2) by simp
next
  case (Cons a m)
  then show ?case using assms by (cases a) (auto simp: ac_simps)
qed

lemma parsed_lines_snoc: "fst l \<noteq> [] \<Longrightarrow> snd l = Some v \<Longrightarrow> parsed_lines (ls @ [l]) = parsed_lines ls @ [v]"
  by (simp add: parsed_lines_def List.map_filter_def)

lemma json_text_not_Nil: "json_text (JObj ps) \<noteq> []"
  by simp

lemma quarantine_written:
  assumes "quarantineRecord sha256 clock rec rc em opts d = Inr (ev, d')"
  obtains f date where "d' = append_line f (json_text ev, Some (json_view ev)) d" "json_text ev \<noteq> []"
    "f = log_file (js_or (q_family opts) (JStr ''general'')) date"
    "Option.bind (q_time clock opts) iso_day = Some date"
  using assms
  by (auto simp: quarantineRecord_def resolveDateString_def quarantine_event_def bind_eq_Some_conv Let_def
      split: option.splits)

lemma count_event_total: "total_quarantined (fold count_event evs m) = total_quarantined m + length evs"
  by (induction evs arbitrary: m) (simp_all add: count_event_def Let_def)

section \<open>Properties\<close>

definition any_log :: q_options where
  "any_log = \<lparr>q_family = JUndef, q_symbol = JUndef, q_now = JUndef, q_date = JUndef\<rparr>"



text \<open>
  Pruning removes a log file exactly when its day began before the cutoff: the event of a
  record that is quarantined at \<open>t\<close> stays in the directory as long as the UTC midnight before
  \<open>t\<close> is not older than the days to keep, and other files are not touched.
\<close>

theorem prune_by_day:
  fixes t now :: int and fam :: jsval
  defines "c \<equiv> civil_from_day (t div ms_per_day)"
  defines "f \<equiv> log_file fam (pad 4 (cyear c) @ ''-'' @ pad 2 (cmonth c + 1) @ ''-'' @ pad 2 (cday c))"
  assumes "\<bar>t\<bar> \<le> max_time - ms_per_day" "0 \<le> cyear c" "cyear c \<le> 9999" "(f, ls) \<in> set m"
  shows "iso_day t = Some (pad 4 (cyear c) @ ''-'' @ pad 2 (cmonth c + 1) @ ''-'' @ pad 2 (cday c))
    \<and> ((f, ls) \<in> set (the (fst (pruneQuarantineRecords now days any_log (Some m))))
      \<longleftrightarrow> \<not> js_lt (Fin (of_int (t div ms_per_day * ms_per_day))) (cutoff now days))"
proof -
  define date where "date = pad 4 (cyear c) @ ''-'' @ pad 2 (cmonth c + 1) @ ''-'' @ pad 2 (cday c)"
  have "0 \<le> t mod ms_per_day" "t mod ms_per_day < ms_per_day" by (simp_all add: ms_per_day_def)
  then have b: "\<bar>t\<bar> \<le> max_time" "\<bar>t div ms_per_day * ms_per_day\<bar> \<le> max_time"
    using assms(3) minus_mod_eq_div_mult [of t ms_per_day] by (auto simp: ms_per_day_def)
  have "iso_day t = Some date" using day_text [of t] b(1) assms(4,5) by (simp add: c_def date_def)
  moreover have "date_parse date = Some (t div ms_per_day * ms_per_day)"
    using date_parse_day [of t] b(2) assms(4,5) by (simp add: c_def date_def)
  moreover have "file_date f = Some date" using iso_day_shape [of fam t] by (simp add: f_def c_def date_def)
  moreover have "is_log f" by (simp add: f_def log_file_is_log)
  ultimately have "expired x f = js_lt (Fin (of_int (t div ms_per_day * ms_per_day))) x" for x
    by (simp add: expired_def)
  then show ?thesis
    using \<open>iso_day t = Some date\<close> assms(6)
    by (simp add: pruneQuarantineRecords_def q_time_def any_log_def Let_def date_def)
qed

lemma prune_by_day_witness:
  "the (fst (pruneQuarantineRecords 1717243500000 (JNum (Fin 30)) any_log (Some [(''general_2024-06-01.jsonl'', [])])))
     = [(''general_2024-06-01.jsonl'', [])]"
proof -
  define c where "c = civil_from_day (1717243500000 div ms_per_day)"
  have y: "0 \<le> cyear c" "cyear c \<le> 9999" unfolding c_def by code_simp+
  have f: "log_file (JStr ''general'') (pad 4 (cyear c) @ ''-'' @ pad 2 (cmonth c + 1) @ ''-'' @ pad 2 (cday c)) = ''general_2024-06-01.jsonl''"
    unfolding c_def by code_simp
  have k: "\<not> js_lt (Fin (of_int (1717243500000 div ms_per_day * ms_per_day))) (cutoff 1717243500000 (JNum (Fin 30)))"
    by code_simp
  have "(''general_2024-06-01.jsonl'', []) \<in> set (the (fst (pruneQuarantineRecords 1717243500000 (JNum (Fin 30)) any_log (Some [(''general_2024-06-01.jsonl'', [])]))))"
    using prune_by_day [of 1717243500000 "JStr ''general''" "[]" "[(''general_2024-06-01.jsonl'', [])]" 1717243500000 "JNum (Fin 30)"] y f k
    unfolding c_def [symmetric] by (simp add: max_time_def ms_per_day_def)
  then show ?thesis by (auto simp: pruneQuarantineRecords_def Let_def split: if_splits)
qed

end
