(* ===== verification/Js_Buffer.thy ===== *)
theory Js_Buffer
  imports Js_Number "HOL-Library.Word"
begin

text \<open>
  What the binary storage uses of \<^verbatim>\<open>Buffer\<close>: a buffer is a list of 8-bit words, unsigned integers
  are written in little-endian order, and a number is written as the 64 bits of its IEEE 754
  binary64 representation (\<^verbatim>\<open>writeDoubleLE\<close>, \<^verbatim>\<open>readDoubleLE\<close>).  Every number that is a double is
  read back unchanged; NaN has one representation here, and a negative zero is read as zero.
\<close>

type_synonym bytes = "8 word list"

section \<open>Little-endian integers\<close>

fun le_bytes :: "nat \<Rightarrow> int \<Rightarrow> bytes" where
  "le_bytes 0 n = []"
| "le_bytes (Suc k) n = word_of_int n # le_bytes k (n div 256)"

fun le_val :: "bytes \<Rightarrow> int" where
  "le_val [] = 0"
| "le_val (b # bs) = uint b + 256 * le_val bs"

lemma length_le_bytes [simp]: "length (le_bytes k n) = k"
  by (induction k n rule: le_bytes.induct) auto

lemma le_val_le_bytes:
  assumes "0 \<le> n" "n < 256 ^ k" shows "le_val (le_bytes k n) = n"
  using assms
proof (induction k n rule: le_bytes.induct)
  case (2 k n)
  have "n div 256 < 256 ^ k" using "2.prems" by (simp add: div_less_iff_less_mult)
  with 2 have "le_val (le_bytes k (n div 256)) = n div 256" by (simp add: pos_imp_zdiv_nonneg_iff)
  moreover have "uint (word_of_int n :: 8 word) = n mod 256" by (simp add: uint_word_of_int)
  ultimately show ?case by simp
qed simp

section \<open>Doubles\<close>

text \<open>The exponent field and the leading bit of a normal number overlap by one, hence the sum.\<close>

definition double_bits :: "jsnum \<Rightarrow> int" where
  "double_bits x = (case x of
     NaN \<Rightarrow> 2047 * 2 ^ 52 + 2 ^ 51
   | PInf \<Rightarrow> 2047 * 2 ^ 52
   | NInf \<Rightarrow> 2 ^ 63 + 2047 * 2 ^ 52
   | Fin r \<Rightarrow> if r = 0 then 0
       else (if r < 0 then 2 ^ 63 else 0) + (fl_exp \<bar>r\<bar> + 1074) * 2 ^ 52 + \<lfloor>\<bar>r\<bar> / pow2 (fl_exp \<bar>r\<bar>)\<rfloor>)"

definition bits_double :: "int \<Rightarrow> jsnum" where
  "bits_double b = (let neg = b div 2 ^ 63 mod 2 = 1; e = b div 2 ^ 52 mod 2048; m = b mod 2 ^ 52;
       sign = (if neg then - 1 else 1) in
     if e = 2047 then (if m \<noteq> 0 then NaN else if neg then NInf else PInf)
     else if e = 0 then Fin (sign * of_int m * pow2 (- 1074))
     else Fin (sign * of_int (2 ^ 52 + m) * pow2 (e - 1075)))"

definition write_double :: "jsnum \<Rightarrow> bytes" where
  "write_double x = le_bytes 8 (double_bits x)"

definition read_double :: "bytes \<Rightarrow> nat \<Rightarrow> jsnum" where
  "read_double buf off = bits_double (le_val (take 8 (drop off buf)))"

definition write_uint32 :: "int \<Rightarrow> bytes" where
  "write_uint32 n = le_bytes 4 n"

definition read_uint32 :: "bytes \<Rightarrow> nat \<Rightarrow> int" where
  "read_uint32 buf off = le_val (take 4 (drop off buf))"

text \<open>The numbers that exist: those that rounding leaves alone.\<close>

definition is_double :: "jsnum \<Rightarrow> bool" where
  "is_double x = (case x of Fin r \<Rightarrow> fl r = Fin r | _ \<Rightarrow> True)"

lemma length_write_double [simp]: "length (write_double x) = 8"
  by (simp add: write_double_def)

lemma length_write_uint32 [simp]: "length (write_uint32 n) = 4"
  by (simp add: write_uint32_def)

section \<open>The representation is faithful\<close>

lemma pow2_consts: "pow2 52 = of_int (2 ^ 52)" "pow2 53 = of_int (2 ^ 53)"
  by (simp_all add: pow2_def)

text \<open>A positive double is \<open>m\<close> units of its last place, with at most 53 bits.\<close>

lemma double_mantissa:
  assumes "fl s = Fin s" "0 < s"
  shows "\<exists>m. s = of_int m * pow2 (fl_exp s) \<and> 0 \<le> m \<and> m < 2 ^ 53
    \<and> (fl_exp s \<noteq> - 1074 \<longrightarrow> 2 ^ 52 \<le> m) \<and> fl_exp s \<le> 971 \<and> - 1074 \<le> fl_exp s"
proof -
  define e m where "e = fl_exp s" and "m = rnd_even (s / pow2 e)"
  have p: "0 < pow2 e" by simp
  have v: "fl_abs s = s" and top: "\<not> 1024 \<le> ilog2 s"
    using assms by (auto simp: fl_def Let_def split: if_splits)
  have s: "s = of_int m * pow2 e" using v by (simp add: fl_abs_def e_def m_def)
  have lo: "- 1074 \<le> e" by (simp add: e_def fl_exp_def)
  have hi: "e \<le> 971" using top by (simp add: e_def fl_exp_def)
  have "of_int m * pow2 e < pow2 (ilog2 s + 1)" using ilog2_bounds(2) [OF assms(2)] s by simp
  also have "\<dots> \<le> pow2 (e + 53)" by (rule pow2_mono) (simp add: e_def fl_exp_def)
  also have "\<dots> = of_int (2 ^ 53) * pow2 e" by (simp only: pow2_add pow2_consts mult.commute)
  finally have m53: "m < 2 ^ 53" using p by (simp only: mult_less_cancel_right_pos of_int_less_iff)
  have m0: "0 \<le> m" using assms(2) s p by (metis less_imp_le of_int_0_less_iff zero_less_mult_pos2)
  have "2 ^ 52 \<le> m" if "e \<noteq> - 1074"
  proof -
    have "ilog2 s = e + 52" using that by (auto simp: e_def fl_exp_def max_def split: if_splits)
    then have "pow2 (e + 52) \<le> of_int m * pow2 e" using ilog2_bounds(1) [OF assms(2)] by (simp flip: s)
    moreover have "pow2 (e + 52) = of_int (2 ^ 52) * pow2 e" by (simp only: pow2_add pow2_consts mult.commute)
    ultimately show ?thesis using p by (simp only: mult_le_cancel_right_pos of_int_le_iff)
  qed
  with s m0 m53 hi lo show ?thesis unfolding e_def by blast
qed

lemma bits_fields:
  fixes e m :: int
  assumes "0 \<le> m" "m < 2 ^ 53" "0 \<le> e" "e \<le> 2045" "e \<noteq> 0 \<longrightarrow> 2 ^ 52 \<le> m"
  shows "(sg * 2 ^ 63 + e * 2 ^ 52 + m) div 2 ^ 63 = sg"
    "(sg * 2 ^ 63 + e * 2 ^ 52 + m) div 2 ^ 52 mod 2048 = (if 2 ^ 52 \<le> m then e + 1 else 0)"
    "(sg * 2 ^ 63 + e * 2 ^ 52 + m) mod 2 ^ 52 = (if 2 ^ 52 \<le> m then m - 2 ^ 52 else m)"
proof -
  define k r where "k = (if 2 ^ 52 \<le> m then e + 1 else 0)" and "r = (if 2 ^ 52 \<le> m then m - 2 ^ 52 else m)"
  have e: "sg * 2 ^ 63 + e * 2 ^ 52 + m = (sg * 2048 + k) * 2 ^ 52 + r" using assms by (auto simp: k_def r_def)
  have k: "0 \<le> k" "k < 2048" and r: "0 \<le> r" "r < 2 ^ 52" using assms by (auto simp: k_def r_def)
  have d: "(sg * 2 ^ 63 + e * 2 ^ 52 + m) div 2 ^ 52 = sg * 2048 + k" unfolding e using r by simp
  show "(sg * 2 ^ 63 + e * 2 ^ 52 + m) div 2 ^ 52 mod 2048 = k" unfolding d using k by simp
  show "(sg * 2 ^ 63 + e * 2 ^ 52 + m) mod 2 ^ 52 = r" unfolding e using r by (simp only: mod_mult_self3 mod_pos_pos_trivial)
  have "(sg * 2 ^ 63 + e * 2 ^ 52 + m) div 2 ^ 63 = (sg * 2048 + k) div 2048"
    unfolding d [symmetric] by (simp flip: zdiv_zmult2_eq)
  also have "\<dots> = sg" using k by simp
  finally show "(sg * 2 ^ 63 + e * 2 ^ 52 + m) div 2 ^ 63 = sg" .
qed

lemma bits_double_fields:
  fixes e m :: int
  assumes "0 \<le> m" "m < 2 ^ 53" "0 \<le> e" "e \<le> 2045" "e \<noteq> 0 \<longrightarrow> 2 ^ 52 \<le> m" "sg = 0 \<or> sg = 1"
  shows "bits_double (sg * 2 ^ 63 + e * 2 ^ 52 + m) = Fin ((if sg = 1 then - 1 else 1) * of_int m * pow2 (e - 1074))"
proof -
  have s2: "sg mod 2 = sg" using assms(6) by auto
  note f = bits_fields [OF assms(1-5), of sg]
  show ?thesis
  proof (cases "2 ^ 52 \<le> m")
    case True
    have ex: "e + 1 - 1075 = e - 1074" "2 ^ 52 + (m - 2 ^ 52) = m" by simp_all
    have ne: "e + 1 \<noteq> 2047" "e + 1 \<noteq> 0" using assms(3,4) by simp_all
    have g: "(if 2 ^ 52 \<le> m then a else b) = a" for a b :: int using True by simp
    show ?thesis unfolding bits_double_def Let_def f s2 g by (simp only: ne if_False ex)
  next
    case False
    then have "e = 0" using assms(5) by blast
    moreover have g: "(if 2 ^ 52 \<le> m then a else b) = b" for a b :: int using False by simp
    ultimately show ?thesis unfolding bits_double_def Let_def f s2 g by simp
  qed
qed

lemma is_double_abs: "fl r = Fin r \<Longrightarrow> fl \<bar>r\<bar> = Fin \<bar>r\<bar>"
  by (cases "r = 0") (simp_all add: fl_def Let_def sgn_if abs_if split: if_splits)

lemma double_bits_fields:
  assumes "fl r = Fin r" "r \<noteq> 0"
  shows "\<exists>sg e m. double_bits (Fin r) = sg * 2 ^ 63 + e * 2 ^ 52 + m \<and> (sg = 0 \<or> sg = 1) \<and> 0 \<le> m \<and> m < 2 ^ 53
    \<and> 0 \<le> e \<and> e \<le> 2045 \<and> (e \<noteq> 0 \<longrightarrow> 2 ^ 52 \<le> m) \<and> r = (if sg = 1 then - 1 else 1) * of_int m * pow2 (e - 1074)"
proof -
  define s sg where "s = \<bar>r\<bar>" and "sg = (if r < 0 then 1 else 0 :: int)"
  have "fl s = Fin s" "0 < s" using assms is_double_abs by (simp_all add: s_def)
  then obtain m where m: "s = of_int m * pow2 (fl_exp s)" "0 \<le> m" "m < 2 ^ 53"
    "fl_exp s \<noteq> - 1074 \<longrightarrow> 2 ^ 52 \<le> m" "fl_exp s \<le> 971" "- 1074 \<le> fl_exp s" using double_mantissa by blast
  define e where "e = fl_exp s + 1074"
  have "s / pow2 (fl_exp s) = of_int m" by (subst m(1)) (simp add: less_imp_neq [OF pow2_pos, symmetric])
  then have b: "double_bits (Fin r) = sg * 2 ^ 63 + e * 2 ^ 52 + m"
    using assms(2) by (simp add: double_bits_def sg_def e_def flip: s_def)
  have e: "0 \<le> e" "e \<le> 2045" "e \<noteq> 0 \<longrightarrow> 2 ^ 52 \<le> m" using m(4-6) by (auto simp: e_def)
  have "r = (if sg = 1 then - 1 else 1) * s" by (simp add: s_def sg_def)
  also have "s = of_int m * pow2 (e - 1074)" using m(1) by (simp add: e_def)
  finally have "r = (if sg = 1 then - 1 else 1) * of_int m * pow2 (e - 1074)" by simp
  moreover have "sg = 0 \<or> sg = 1" by (simp add: sg_def)
  ultimately show ?thesis using b e m(2,3) by blast
qed

lemma bits_double_double_bits:
  assumes "is_double x" shows "bits_double (double_bits x) = x"
proof (cases x)
  case (Fin r)
  show ?thesis
  proof (cases "r = 0")
    case False
    have "fl r = Fin r" using assms Fin by (simp add: is_double_def)
    from double_bits_fields [OF this False] obtain sg e m where
      f: "double_bits (Fin r) = sg * 2 ^ 63 + e * 2 ^ 52 + m" "sg = 0 \<or> sg = 1" "0 \<le> m" "m < 2 ^ 53"
      "0 \<le> e" "e \<le> 2045" "e \<noteq> 0 \<longrightarrow> 2 ^ 52 \<le> m"
      and r: "r = (if sg = 1 then - 1 else 1) * of_int m * pow2 (e - 1074)" by blast
    show ?thesis unfolding Fin f(1) bits_double_fields [OF f(3-7,2)] by (simp only: r [symmetric])
  qed (simp add: Fin double_bits_def bits_double_def)
qed (simp_all add: double_bits_def bits_double_def)

lemma double_bits_range:
  assumes "is_double x" shows "0 \<le> double_bits x" "double_bits x < 256 ^ 8"
proof -
  have "0 \<le> double_bits x \<and> double_bits x < 256 ^ 8"
  proof (cases x)
    case (Fin r)
    show ?thesis
    proof (cases "r = 0")
      case False
      have "fl r = Fin r" using assms Fin by (simp add: is_double_def)
      from double_bits_fields [OF this False] obtain sg e m where
        f: "double_bits (Fin r) = sg * 2 ^ 63 + e * 2 ^ 52 + m" "sg = 0 \<or> sg = 1" "0 \<le> m" "m < 2 ^ 53"
        "0 \<le> e" "e \<le> 2045" by blast
      then show ?thesis unfolding Fin f(1) by auto
    qed (simp add: Fin double_bits_def)
  qed (simp_all add: double_bits_def)
  then show "0 \<le> double_bits x" "double_bits x < 256 ^ 8" by blast+
qed

lemma read_write_double:
  assumes "is_double x" shows "read_double (a @ write_double x @ b) (length a) = x"
  using le_val_le_bytes [OF double_bits_range [OF assms]] bits_double_double_bits [OF assms]
  by (simp add: read_double_def write_double_def)

lemma read_write_uint32:
  assumes "0 \<le> n" "n < 2 ^ 32" shows "read_uint32 (a @ write_uint32 n @ b) (length a) = n"
  using le_val_le_bytes [of n 4] assms by (simp add: read_uint32_def write_uint32_def)

lemma is_double_int: "\<bar>n\<bar> < 2 ^ 53 \<Longrightarrow> is_double (Fin (of_int n))"
  by (simp add: is_double_def fl_of_int)

text \<open>Conversely, every bit pattern is read as a number that exists.\<close>

lemma fl_mantissa:
  assumes "0 \<le> m" "m < 2 ^ 53" "- 1074 \<le> e" "e \<le> 971"
  shows "fl (of_int m * pow2 e) = Fin (of_int m * pow2 e)"
proof (cases "m = 0")
  case False
  define s where "s = of_int m * pow2 e"
  have s: "0 < s" using False assms(1) by (simp add: s_def)
  have "s < of_int (2 ^ 53) * pow2 e" unfolding s_def
    using assms(2) by (simp only: mult_less_cancel_right_pos pow2_pos of_int_less_iff)
  also have "\<dots> = pow2 (e + 53)" by (simp only: pow2_add pow2_consts mult.commute)
  finally have l: "ilog2 s < e + 53" using s by (intro ilog2_less)
  then have "fl_exp s \<le> e" using assms(3) by (simp add: fl_exp_def)
  then have "fl_abs s = s" by (rule fl_abs_exact [where n = m]) (simp add: s_def)
  moreover have "\<not> 1024 \<le> ilog2 s" using l assms(4) by simp
  ultimately show ?thesis using s by (simp add: fl_def Let_def flip: s_def)
qed simp

lemma fl_uminus: "fl (- r) = js_neg (fl r)"
  by (simp add: fl_def Let_def sgn_if abs_if)

lemma is_double_bits_double: "is_double (bits_double b)"
proof -
  define e m where "e = b div 2 ^ 52 mod 2048" and "m = b mod 2 ^ 52"
  have m: "0 \<le> m" "m < 2 ^ 52" and e: "0 \<le> e" "e < 2048" by (simp_all add: m_def e_def)
  have "fl (of_int m * pow2 (- 1074)) = Fin (of_int m * pow2 (- 1074))" using m by (intro fl_mantissa) simp_all
  moreover have "fl (of_int (2 ^ 52 + m) * pow2 (e - 1075)) = Fin (of_int (2 ^ 52 + m) * pow2 (e - 1075))"
    if "e \<noteq> 0" "e \<noteq> 2047" using m e that by (intro fl_mantissa) simp_all
  ultimately show ?thesis
    unfolding bits_double_def Let_def e_def [symmetric] m_def [symmetric] is_double_def
    by (auto simp: fl_uminus simp del: of_int_add)
qed

lemma is_double_read_double [simp]: "is_double (read_double buf off)"
  by (simp add: read_double_def is_double_bits_double)

end
