(* ===== verification/Segments.thy ===== *)
theory Segments
  imports Timeframes Js_Json Js_Buffer
begin

text \<open>
  Append-only binary segments of bars, \<^verbatim>\<open>shared/lib/market/append_only_segments.js\<close>.  A series
  (a symbol and a timeframe) has a directory with segment files and a manifest that lists the
  active ones with their checksums.  A store maps the name of a directory to its content.  A
  segment file is a buffer, the manifest a text of some size with what \<^verbatim>\<open>JSON.parse\<close> makes of it.
  Reading runs while no other process changes the files, writing runs under the writer lock,
  whose acquisition is the subject of \<^verbatim>\<open>File_Lock\<close>, and file operations succeed; sha256, the clock
  and the process id are arguments.
\<close>

definition TS_MAGIC :: string where "TS_MAGIC = ''SOVT''"
definition HEADER_BYTES :: nat where "HEADER_BYTES = 8"
definition RECORD_BYTES :: nat where "RECORD_BYTES = 48"
definition SEGMENT_VERSION :: jsval where "SEGMENT_VERSION = JNum (Fin 1)"
definition MANIFEST_MAX_BYTES :: int where "MANIFEST_MAX_BYTES = 1048576"

datatype seg_error = Integrity string | Type_error | Range_error

section \<open>Files\<close>

text \<open>What opening a path finds; a path that does not exist is absent from its directory.\<close>

datatype 'a node = Regular 'a | Symlink | Special | Unopenable

record segdir =
  files :: "(string \<times> bytes node) list"
  manifest :: "(int \<times> jsval option) node option"

type_synonym segstore = "(string \<times> segdir) list"

definition empty_dir :: segdir where
  "empty_dir = \<lparr>files = [], manifest = None\<rparr>"

definition openRegularFile :: "'a node option \<Rightarrow> string \<Rightarrow> bool \<Rightarrow> seg_error + 'a option" where
  "openRegularFile n missingReason allowMissing = (case n of
     None \<Rightarrow> if allowMissing then Inr None else Inl (Integrity missingReason)
   | Some Symlink \<Rightarrow> Inl (Integrity ''segment_symlink_rejected'')
   | Some Unopenable \<Rightarrow> Inl (Integrity ''segment_open_failed'')
   | Some Special \<Rightarrow> Inl (Integrity ''segment_not_regular_file'')
   | Some (Regular c) \<Rightarrow> Inr (Some c))"

definition safePart :: "jsval \<Rightarrow> string" where
  "safePart v = js_replace (\<lambda>c. is_alnum c \<or> c = CHR ''_'') ''_'' (js_to_string v)"

definition segment_key :: "jsval \<Rightarrow> jsval \<Rightarrow> string" where
  "segment_key symbol timeframe = safePart symbol @ ''_'' @ safePart timeframe"

definition dir_of :: "segstore \<Rightarrow> string \<Rightarrow> segdir" where
  "dir_of st key = (case map_of st key of None \<Rightarrow> empty_dir | Some d \<Rightarrow> d)"

section \<open>Records and buffers\<close>

text \<open>\<^verbatim>\<open>Date.parse(record.timestamp)\<close>; \<open>None\<close> is NaN.\<close>

definition record_ms_of :: "jsval \<Rightarrow> int option" where
  "record_ms_of r = date_parse (js_to_string (js_get r ''timestamp''))"

definition number_or_zero :: "jsval \<Rightarrow> jsnum" where
  "number_or_zero v = (let n = js_to_number v in if n = NaN then Fin 0 else n)"

definition bar_record :: "jsval \<Rightarrow> string \<Rightarrow> jsnum list \<Rightarrow> jsval" where
  "bar_record meta timestamp v = JObj
     [(''family'', js_get meta ''family''), (''provider'', js_get meta ''provider''),
      (''symbol'', js_get meta ''symbol''), (''timeframe'', js_get meta ''timeframe''),
      (''timestamp'', JStr timestamp), (''open'', JNum (v ! 0)), (''high'', JNum (v ! 1)),
      (''low'', JNum (v ! 2)), (''close'', JNum (v ! 3)), (''volume'', JNum (v ! 4)),
      (''coordinate_id'', js_or (js_get meta ''coordinate_id'') JUndef),
      (''config_market'', js_or (js_get meta ''config_market'') JUndef),
      (''config_sector'', js_or (js_get meta ''config_sector'') JUndef),
      (''derived_from_timeframe'', js_or (js_get meta ''derived_from'') JUndef)]"

definition decodeRecord :: "bytes \<Rightarrow> nat \<Rightarrow> jsval \<Rightarrow> seg_error + jsval" where
  "decodeRecord buffer offset meta =
    (let values = map (\<lambda>index. read_double buffer (offset + index * 8)) [0..<6] in
     if \<not> list_all js_is_finite values then Inl (Integrity ''invalid_segment_values'')
     else case num_iso (hd values) of
       Inl _ \<Rightarrow> Inl (Integrity ''invalid_segment_timestamps'')
     | Inr timestamp \<Rightarrow> Inr (bar_record meta timestamp (tl values)))"

definition push_unique :: "(int \<times> jsval) list \<Rightarrow> int \<times> jsval \<Rightarrow> (int \<times> jsval) list" where
  "push_unique unique item =
    (if unique = [] \<or> fst (last unique) \<noteq> fst item then unique @ [item] else unique)"

text \<open>Reading a property of \<^verbatim>\<open>null\<close> or \<^verbatim>\<open>undefined\<close> throws.\<close>

definition no_object :: "jsval \<Rightarrow> bool" where
  "no_object v = (v = JUndef \<or> v = JNull)"

definition normalizedRecords :: "jsval list \<Rightarrow> seg_error + (int \<times> jsval) list" where
  "normalizedRecords records =
    (if list_ex no_object records then Inl Type_error
     else Inr (foldl push_unique [] (sort_key fst
       (List.map_filter (\<lambda>r. map_option (\<lambda>ms. (ms, r)) (record_ms_of r)) records))))"

definition encode_item :: "int \<times> jsval \<Rightarrow> bytes" where
  "encode_item item = (case item of (ms, r) \<Rightarrow>
     write_double (Fin (of_int ms)) @ concat (map (\<lambda>k. write_double (number_or_zero (js_get r k)))
       [''open'', ''high'', ''low'', ''close'', ''volume'']))"

definition ascii_bytes :: "string \<Rightarrow> bytes" where
  "ascii_bytes s = map (\<lambda>c. word_of_int (int (char_code c))) s"

definition encodeRecords :: "(int \<times> jsval) list \<Rightarrow> bytes" where
  "encodeRecords items = ascii_bytes TS_MAGIC @ write_uint32 (int (length items)) @ concat (map encode_item items)"

section \<open>The manifest\<close>

definition is_segment_name :: "string \<Rightarrow> bool" where
  "is_segment_name s = (4 < length s \<and> ends_with s ''.bin''
     \<and> list_all (\<lambda>c. is_alnum c \<or> c = CHR ''.'' \<or> c = CHR ''_'' \<or> c = CHR ''-'') s)"

definition is_sha256 :: "string \<Rightarrow> bool" where
  "is_sha256 s = (length s = 64 \<and> list_all is_lower_hex s)"

definition valid_entry :: "jsval \<Rightarrow> jsval \<Rightarrow> jsval \<Rightarrow> bool" where
  "valid_entry symbol timeframe entry =
    (truthy entry \<and> is_segment_name (text_of (js_get entry ''file''))
     \<and> integer_number (js_get entry ''count'') \<and> \<not> js_le (js_to_number (js_get entry ''count'')) (Fin 0)
     \<and> finite_number (js_get entry ''first_ms'') \<and> finite_number (js_get entry ''last_ms'')
     \<and> \<not> js_lt (js_to_number (js_get entry ''last_ms'')) (js_to_number (js_get entry ''first_ms''))
     \<and> is_sha256 (text_of (js_get entry ''sha256''))
     \<and> truthy (js_get entry ''meta'') \<and> strict_eq (js_get (js_get entry ''meta'') ''symbol'') symbol
     \<and> strict_eq (js_get (js_get entry ''meta'') ''timeframe'') timeframe)"

definition assertManifest :: "jsval \<Rightarrow> jsval \<Rightarrow> jsval \<Rightarrow> seg_error + jsval" where
  "assertManifest m symbol timeframe =
    (if \<not> truthy m \<or> \<not> strict_eq (js_get m ''version'') SEGMENT_VERSION \<or> \<not> is_array (js_get m ''segments'')
     then Inl (Integrity ''invalid_manifest'')
     else if \<not> strict_eq (js_get m ''symbol'') symbol \<or> \<not> strict_eq (js_get m ''timeframe'') timeframe
     then Inl (Integrity ''manifest_identity_mismatch'')
     else if \<not> list_all (valid_entry symbol timeframe) (array_items (js_get m ''segments''))
     then Inl (Integrity ''invalid_manifest_entry'')
     else Inr m)"

definition readManifest :: "segdir \<Rightarrow> jsval \<Rightarrow> jsval \<Rightarrow> seg_error + jsval option" where
  "readManifest d symbol timeframe =
    rbind (openRegularFile (manifest d) ''missing_manifest'' True) (\<lambda>fd. case fd of
      None \<Rightarrow> Inr None
    | Some (sz, parsed) \<Rightarrow>
        if sz \<le> 0 \<or> MANIFEST_MAX_BYTES < sz then Inl (Integrity ''invalid_manifest_size'')
        else case parsed of
          None \<Rightarrow> Inl (Integrity ''invalid_manifest'')
        | Some m \<Rightarrow> rbind (assertManifest m symbol timeframe) (\<lambda>m. Inr (Some m)))"

text \<open>The text of a manifest is its JSON and a line feed, one byte for a character: names are ASCII.\<close>

definition manifest_size :: "jsval \<Rightarrow> int" where
  "manifest_size m = int (length (json_text m)) + 1"

definition writeManifest :: "segdir \<Rightarrow> jsval \<Rightarrow> segdir" where
  "writeManifest d m = d\<lparr>manifest := Some (Regular (manifest_size m, Some (json_view m)))\<rparr>"

definition segments_of :: "jsval \<Rightarrow> jsval list" where
  "segments_of m = array_items (js_get m ''segments'')"

section \<open>Appending\<close>

text \<open>\<^verbatim>\<open>{ ...meta }\<close> of an object.\<close>

definition segment_entry :: "string \<Rightarrow> string \<Rightarrow> string \<Rightarrow> jsval \<Rightarrow> (int \<times> jsval) list \<Rightarrow> jsval" where
  "segment_entry filename digest created meta items = JObj
     [(''file'', JStr filename), (''count'', JNum (Fin (of_nat (length items)))),
      (''first_ms'', JNum (Fin (of_int (fst (hd items))))), (''last_ms'', JNum (Fin (of_int (fst (last items))))),
      (''sha256'', JStr digest), (''meta'', spread_update meta []), (''created_at'', JStr created)]"

definition segment_name :: "int \<Rightarrow> int \<Rightarrow> string \<Rightarrow> string" where
  "segment_name now pid digest = ''segment-'' @ dec_string now @ ''-'' @ dec_string pid @ ''-'' @ take 12 digest @ ''.bin''"

definition publishSegment ::
  "(bytes \<Rightarrow> string) \<Rightarrow> int \<Rightarrow> int \<Rightarrow> segdir \<Rightarrow> jsval \<Rightarrow> (int \<times> jsval) list \<Rightarrow> seg_error + segdir \<times> jsval" where
  "publishSegment sha256 now pid d meta items =
    (let buffer = encodeRecords items; digest = sha256 buffer; filename = segment_name now pid digest;
       d' = d\<lparr>files := AList.update filename (Regular buffer) (files d)\<rparr> in
     if items = [] then Inl Type_error
     else case to_iso now of
       None \<Rightarrow> Inl Range_error
     | Some created \<Rightarrow> Inr (d', segment_entry filename digest created meta items))"

definition new_manifest :: "jsval \<Rightarrow> jsval \<Rightarrow> jsval" where
  "new_manifest symbol timeframe = JObj [(''version'', SEGMENT_VERSION), (''symbol'', symbol),
     (''timeframe'', timeframe), (''segments'', JArr [])]"

datatype append_result = Not_appended | Appended nat string string

text \<open>The work under the lock, on the directory of the series.\<close>

definition append_locked ::
  "(bytes \<Rightarrow> string) \<Rightarrow> int \<Rightarrow> int \<Rightarrow> segdir \<Rightarrow> jsval \<Rightarrow> (int \<times> jsval) list \<Rightarrow> seg_error + segdir \<times> append_result" where
  "append_locked sha256 now pid d meta items =
    (let symbol = js_get meta ''symbol''; timeframe = js_get meta ''timeframe'' in
     rbind (readManifest d symbol timeframe) (\<lambda>found.
     let existing = (case found of Some m \<Rightarrow> m | None \<Rightarrow> new_manifest symbol timeframe) in
     rbind (publishSegment sha256 now pid d meta items) (\<lambda>(d', entry).
       Inr (writeManifest d' (spread_update existing [(''segments'', JArr (segments_of existing @ [entry]))]),
            Appended (length items) (text_of (js_get entry ''file'')) (text_of (js_get entry ''sha256''))))))"

definition appendSegment ::
  "(bytes \<Rightarrow> string) \<Rightarrow> int \<Rightarrow> int \<Rightarrow> segstore \<Rightarrow> jsval \<Rightarrow> jsval list \<Rightarrow> seg_error + segstore \<times> append_result" where
  "appendSegment sha256 now pid st meta records =
    rbind (normalizedRecords records) (\<lambda>items.
      if items = [] then Inr (st, Not_appended)
      else let key = segment_key (js_get meta ''symbol'') (js_get meta ''timeframe'') in
        rbind (append_locked sha256 now pid (dir_of st key) meta items) (\<lambda>(d, result).
          Inr (AList.update key d st, result)))"

section \<open>Reading\<close>

text \<open>\<^verbatim>\<open>buffer.toString('ascii', 0, 4)\<close>; decoding ASCII clears the highest bit of a byte.\<close>

definition ascii_text :: "bytes \<Rightarrow> string" where
  "ascii_text b = map (\<lambda>w. char_of (nat (uint w mod 128))) b"

fun decode_all :: "bytes \<Rightarrow> jsval \<Rightarrow> nat list \<Rightarrow> int option \<Rightarrow> seg_error + jsval list" where
  "decode_all buffer meta [] prior = Inr []"
| "decode_all buffer meta (index # rest) prior =
    rbind (decodeRecord buffer (HEADER_BYTES + index * RECORD_BYTES) meta) (\<lambda>r.
      case record_ms_of r of
        None \<Rightarrow> Inl (Integrity ''invalid_segment_timestamps'')
      | Some ms \<Rightarrow>
          if (case prior of Some p \<Rightarrow> ms \<le> p | None \<Rightarrow> False) then Inl (Integrity ''invalid_segment_timestamps'')
          else rbind (decode_all buffer meta rest (Some ms)) (\<lambda>rs. Inr (r # rs)))"

definition ms_value :: "jsval \<Rightarrow> jsval" where
  "ms_value r = (case record_ms_of r of Some ms \<Rightarrow> JNum (Fin (of_int ms)) | None \<Rightarrow> JNum NaN)"

definition open_segment :: "(string \<times> bytes node) list \<Rightarrow> jsval \<Rightarrow> seg_error + bytes" where
  "open_segment fs entry = (case js_get entry ''file'' of
     JStr f \<Rightarrow> rbind (openRegularFile (map_of fs f) ''missing_segment_file'' False) (\<lambda>b. Inr (case b of Some c \<Rightarrow> c | None \<Rightarrow> []))
   | _ \<Rightarrow> Inl Type_error)"

definition readSegment :: "(bytes \<Rightarrow> string) \<Rightarrow> (string \<times> bytes node) list \<Rightarrow> jsval \<Rightarrow> seg_error + jsval list" where
  "readSegment sha256 fs entry = rbind (open_segment fs entry) (\<lambda>buffer.
     if JStr (sha256 buffer) \<noteq> js_get entry ''sha256'' then Inl (Integrity ''segment_checksum_mismatch'')
     else if length buffer < HEADER_BYTES \<or> ascii_text (take 4 buffer) \<noteq> TS_MAGIC
     then Inl (Integrity ''invalid_segment_header'')
     else let count = read_uint32 buffer 4 in
       if JNum (Fin (of_int count)) \<noteq> js_get entry ''count''
         \<or> int (length buffer) \<noteq> int HEADER_BYTES + count * int RECORD_BYTES
       then Inl (Integrity ''segment_length_mismatch'')
       else rbind (decode_all buffer (js_or (js_get entry ''meta'') (JObj [])) [0..<nat count] None) (\<lambda>records.
         if records = [] \<or> ms_value (hd records) \<noteq> js_get entry ''first_ms''
           \<or> ms_value (last records) \<noteq> js_get entry ''last_ms''
         then Inl (Integrity ''segment_range_mismatch'') else Inr records))"

text \<open>\<^verbatim>\<open>provider_priority.js\<close>; a provider is not named like a property that every object has.\<close>

definition PROVIDER_PRIORITY :: "(string \<times> int) list" where
  "PROVIDER_PRIORITY = [(''binance'', 3), (''alpaca'', 3), (''yahoo'', 1), (''twelvedata'', 1),
     (''frankfurter'', 1), (''ecb'', 1)]"

definition provider_priority :: "jsval \<Rightarrow> int" where
  "provider_priority r = (case map_of PROVIDER_PRIORITY (to_lower (text_of (js_get r ''provider''))) of
     Some p \<Rightarrow> p | None \<Rightarrow> 0)"

definition merge_step :: "(int \<times> jsval) list \<Rightarrow> jsval \<Rightarrow> (int \<times> jsval) list" where
  "merge_step byTimestamp r = (case record_ms_of r of
     None \<Rightarrow> byTimestamp
   | Some ms \<Rightarrow> (case map_of byTimestamp ms of
       None \<Rightarrow> AList.update ms r byTimestamp
     | Some prior \<Rightarrow> if provider_priority prior \<le> provider_priority r
         then AList.update ms r byTimestamp else byTimestamp))"

definition mergeRecords :: "jsval list list \<Rightarrow> seg_error + jsval list" where
  "mergeRecords recordSets =
    (if list_ex no_object (concat recordSets) then Inl Type_error
     else Inr (map snd (sort_key fst (foldl merge_step [] (concat recordSets)))))"

definition since_ok :: "jsval \<Rightarrow> jsval \<Rightarrow> bool" where
  "since_ok sinceMs r = (case sinceMs of
     JNum (Fin s) \<Rightarrow> (case record_ms_of r of Some ms \<Rightarrow> s \<le> of_int ms | None \<Rightarrow> False)
   | _ \<Rightarrow> True)"

fun read_entries :: "(bytes \<Rightarrow> string) \<Rightarrow> (string \<times> bytes node) list \<Rightarrow> jsval \<Rightarrow> jsval list \<Rightarrow> seg_error + jsval list" where
  "read_entries sha256 fs sinceMs [] = Inr []"
| "read_entries sha256 fs sinceMs (entry # entries) =
    rbind (readSegment sha256 fs entry) (\<lambda>rs.
      rbind (read_entries sha256 fs sinceMs entries) (\<lambda>rest. Inr (filter (since_ok sinceMs) rs @ rest)))"

definition readSegmentsFromManifest ::
  "(bytes \<Rightarrow> string) \<Rightarrow> segdir \<Rightarrow> jsval \<Rightarrow> jsval \<Rightarrow> seg_error + jsval list" where
  "readSegmentsFromManifest sha256 d m sinceMs =
    rbind (read_entries sha256 (files d) sinceMs (segments_of m)) (\<lambda>records. mergeRecords [records])"

definition read_dir :: "(bytes \<Rightarrow> string) \<Rightarrow> segdir \<Rightarrow> jsval \<Rightarrow> jsval \<Rightarrow> jsval \<Rightarrow> seg_error + jsval list option" where
  "read_dir sha256 d symbol timeframe sinceMs =
    rbind (readManifest d symbol timeframe) (\<lambda>found. case found of
      None \<Rightarrow> Inr None
    | Some m \<Rightarrow> rbind (readSegmentsFromManifest sha256 d m sinceMs) (\<lambda>rs. Inr (Some rs)))"

definition readSegments ::
  "(bytes \<Rightarrow> string) \<Rightarrow> segstore \<Rightarrow> jsval \<Rightarrow> jsval \<Rightarrow> jsval \<Rightarrow> seg_error + jsval list option" where
  "readSegments sha256 st symbol timeframe sinceMs =
    read_dir sha256 (dir_of st (segment_key symbol timeframe)) symbol timeframe sinceMs"

section \<open>The latest record\<close>

definition readLatestSegment :: "(bytes \<Rightarrow> string) \<Rightarrow> (string \<times> bytes node) list \<Rightarrow> jsval \<Rightarrow> seg_error + jsval" where
  "readLatestSegment sha256 fs entry = rbind (open_segment fs entry) (\<lambda>buffer.
     let count = js_to_number (js_get entry ''count'');
       expectedBytes = js_add (Fin (of_nat HEADER_BYTES)) (js_mul count (Fin (of_nat RECORD_BYTES)));
       n = (case count of Fin c \<Rightarrow> nat \<lfloor>c\<rfloor> | _ \<Rightarrow> 0); tailCount = min 2 n;
       tailPosition = HEADER_BYTES + (n - tailCount) * RECORD_BYTES in
     if Fin (of_nat (length buffer)) \<noteq> expectedBytes then Inl (Integrity ''segment_length_mismatch'')
     else if JStr (sha256 buffer) \<noteq> js_get entry ''sha256'' then Inl (Integrity ''segment_checksum_mismatch'')
     else if ascii_text (take 4 buffer) \<noteq> TS_MAGIC \<or> Fin (of_int (read_uint32 buffer 4)) \<noteq> count
     then Inl (Integrity ''invalid_segment_header'')
     else if JNum (read_double buffer HEADER_BYTES) \<noteq> js_get entry ''first_ms''
     then Inl (Integrity ''segment_range_mismatch'')
     else rbind (decodeRecord buffer (tailPosition + (tailCount - 1) * RECORD_BYTES) (js_get entry ''meta'')) (\<lambda>r.
       if ms_value r \<noteq> js_get entry ''last_ms'' then Inl (Integrity ''segment_range_mismatch'')
       else if tailCount = 2 \<and> js_le (js_to_number (ms_value r)) (read_double buffer tailPosition)
       then Inl (Integrity ''invalid_segment_timestamps'') else Inr r))"

text \<open>
  The count that accompanies the latest record is always \<^verbatim>\<open>null\<close>; the model returns the record.
  The later of two records; on a tie the higher priority, and then the later segment.
\<close>

definition newer :: "jsval \<Rightarrow> jsval \<Rightarrow> jsval" where
  "newer latest r = (case (record_ms_of r, record_ms_of latest) of
     (Some recordMs, Some latestMs) \<Rightarrow>
       if latestMs < recordMs \<or> recordMs = latestMs \<and> provider_priority latest \<le> provider_priority r
       then r else latest
   | _ \<Rightarrow> latest)"

fun latest_of :: "(bytes \<Rightarrow> string) \<Rightarrow> (string \<times> bytes node) list \<Rightarrow> jsval list \<Rightarrow> jsval option \<Rightarrow> seg_error + jsval option" where
  "latest_of sha256 fs [] latest = Inr latest"
| "latest_of sha256 fs (entry # entries) latest =
    rbind (readLatestSegment sha256 fs entry) (\<lambda>r.
      latest_of sha256 fs entries (Some (case latest of None \<Rightarrow> r | Some l \<Rightarrow> newer l r)))"

definition readLatestSegmentsWithMetadata ::
  "(bytes \<Rightarrow> string) \<Rightarrow> segstore \<Rightarrow> jsval \<Rightarrow> jsval \<Rightarrow> seg_error + jsval option" where
  "readLatestSegmentsWithMetadata sha256 st symbol timeframe =
    (let d = dir_of st (segment_key symbol timeframe) in
     rbind (readManifest d symbol timeframe) (\<lambda>found. case found of
       None \<Rightarrow> Inr None
     | Some m \<Rightarrow> if segments_of m = [] then Inl (Integrity ''empty_active_generation'')
         else latest_of sha256 (files d) (segments_of m) None))"

definition readLatestSegments ::
  "(bytes \<Rightarrow> string) \<Rightarrow> segstore \<Rightarrow> jsval \<Rightarrow> jsval \<Rightarrow> seg_error + jsval" where
  "readLatestSegments sha256 st symbol timeframe =
    rbind (readLatestSegmentsWithMetadata sha256 st symbol timeframe) (\<lambda>latest. Inr (case latest of
      Some r \<Rightarrow> r | None \<Rightarrow> JNull))"

section \<open>Compaction and coverage\<close>

datatype compact_result = Not_compacted nat | No_records | Compacted nat "jsval list"

definition compact_locked ::
  "(bytes \<Rightarrow> string) \<Rightarrow> int \<Rightarrow> int \<Rightarrow> segdir \<Rightarrow> jsval \<Rightarrow> jsval \<Rightarrow> seg_error + segdir \<times> compact_result" where
  "compact_locked sha256 now pid d symbol timeframe =
    rbind (readManifest d symbol timeframe) (\<lambda>found.
    case found of
      None \<Rightarrow> Inr (d, Not_compacted 0)
    | Some m \<Rightarrow>
      if length (segments_of m) \<le> 1 then Inr (d, Not_compacted (length (segments_of m)))
      else rbind (readSegmentsFromManifest sha256 d m JNull) (\<lambda>records.
        if records = [] then Inr (d, No_records)
        else rbind (normalizedRecords records) (\<lambda>items.
          rbind (publishSegment sha256 now pid d (js_or (js_get (hd (segments_of m)) ''meta'')
              (JObj [(''symbol'', symbol), (''timeframe'', timeframe)])) items) (\<lambda>(d', entry).
            Inr (writeManifest d' (JObj [(''version'', SEGMENT_VERSION), (''symbol'', symbol), (''timeframe'', timeframe),
                (''segments'', JArr [entry]), (''compacted_at'', opt_value (to_iso now))]),
              Compacted (length (segments_of m)) (map (\<lambda>e. js_get e ''file'') (segments_of m)))))))"

definition compactSegments ::
  "(bytes \<Rightarrow> string) \<Rightarrow> int \<Rightarrow> int \<Rightarrow> segstore \<Rightarrow> jsval \<Rightarrow> jsval \<Rightarrow> seg_error + segstore \<times> compact_result" where
  "compactSegments sha256 now pid st symbol timeframe =
    (let key = segment_key symbol timeframe in
     rbind (compact_locked sha256 now pid (dir_of st key) symbol timeframe) (\<lambda>(d, result).
       Inr (AList.update key d st, result)))"

record coverage =
  cov_count :: nat
  firstBarMs :: "int option"
  lastBarMs :: "int option"
  cov_provider :: jsval
  derivedFrom :: jsval

definition segmentCoverage ::
  "(bytes \<Rightarrow> string) \<Rightarrow> segstore \<Rightarrow> jsval \<Rightarrow> jsval \<Rightarrow> seg_error + coverage option" where
  "segmentCoverage sha256 st symbol timeframe =
    rbind (readSegments sha256 st symbol timeframe JNull) (\<lambda>found. Inr (case found of
      None \<Rightarrow> None
    | Some records \<Rightarrow>
        if records = [] then Some \<lparr>cov_count = 0, firstBarMs = None, lastBarMs = None, cov_provider = JUndef, derivedFrom = JUndef\<rparr>
        else Some \<lparr>cov_count = length records, firstBarMs = record_ms_of (hd records), lastBarMs = record_ms_of (last records),
          cov_provider = js_or (js_get (last records) ''provider'') (JStr ''unknown''),
          derivedFrom = js_or (js_get (last records) ''derived_from_timeframe'') JNull\<rparr>))"

end
