(* ===== verification/Segment_Records.thy ===== *)
theory Segment_Records
  imports Segments
begin

text \<open>
  Laws of the records of \<^verbatim>\<open>Segments\<close>: a segment file reads back as the items that were encoded, by the
  full read and by the bounded read of its last record; merging is, per time, a choice by priority
  and then by age; the newest record of a log is the last record of its merge; and what a batch is
  reduced to before it is published.
\<close>

section \<open>A segment is read back as it was written\<close>

definition price_fields :: "string list" where
  "price_fields = [''open'', ''high'', ''low'', ''close'', ''volume'']"

text \<open>What a stored item is read as.\<close>

definition stored :: "jsval \<Rightarrow> int \<times> jsval \<Rightarrow> jsval" where
  "stored meta item = bar_record meta (case to_iso (fst item) of Some s \<Rightarrow> s | None \<Rightarrow> [])
     (map (\<lambda>k. number_or_zero (js_get (snd item) k)) price_fields)"

text \<open>Items with finite prices; \<^verbatim>\<open>Date.parse\<close> gives times in the range of dates.\<close>

definition clean_item :: "int \<times> jsval \<Rightarrow> bool" where
  "clean_item item = (\<bar>fst item\<bar> \<le> max_time
     \<and> (\<forall>k \<in> set price_fields. js_is_finite (number_or_zero (js_get (snd item) k))
          \<and> is_double (number_or_zero (js_get (snd item) k))))"

lemma encode_item_fields:
  "encode_item (ms, r) = concat (map write_double
     (Fin (of_int ms) # map (\<lambda>k. number_or_zero (js_get r k)) price_fields))"
  by (simp add: encode_item_def price_fields_def)

lemma length_encode_item [simp]: "length (encode_item item) = RECORD_BYTES"
  by (cases item) (simp add: encode_item_def RECORD_BYTES_def)

lemma drop_blocks:
  assumes "\<And>x. length (f x) = n" shows "drop (i * n) (concat (map f xs)) = concat (map f (drop i xs))"
proof (induction xs arbitrary: i)
  case (Cons x xs)
  show ?case by (cases i) (simp_all add: Cons assms)
qed simp

lemma length_blocks:
  assumes "\<And>x. length (f x) = n" shows "length (concat (map f xs)) = length xs * n"
  by (induction xs) (simp_all add: assms)

lemma length_encodeRecords: "length (encodeRecords items) = HEADER_BYTES + length items * RECORD_BYTES"
  by (simp add: encodeRecords_def ascii_bytes_def TS_MAGIC_def HEADER_BYTES_def length_blocks [of encode_item RECORD_BYTES])

lemma length_magic [simp]: "length (ascii_bytes TS_MAGIC) = 4"
  by (simp add: ascii_bytes_def TS_MAGIC_def)

lemma drop_encodeRecords:
  "drop (HEADER_BYTES + i * RECORD_BYTES) (encodeRecords items) = concat (map encode_item (drop i items))"
proof -
  define h where "h = ascii_bytes TS_MAGIC @ write_uint32 (int (length items))"
  have "encodeRecords items = h @ concat (map encode_item items)" "length h = HEADER_BYTES"
    by (simp_all add: h_def encodeRecords_def HEADER_BYTES_def)
  then show ?thesis using drop_blocks [of encode_item RECORD_BYTES i items] by simp
qed

lemma read_double_drop: "read_double buffer (off + i) = read_double (drop off buffer) i"
  by (simp add: read_double_def add.commute)

lemma read_block:
  assumes "i < length xs" "is_double (xs ! i)"
  shows "read_double (concat (map write_double xs) @ rest) (i * 8) = xs ! i"
proof -
  have l: "length (concat (map write_double xs)) = length xs * 8" by (rule length_blocks) simp
  have "drop (i * 8) (concat (map write_double xs)) = concat (map write_double (drop i xs))"
    by (rule drop_blocks) simp
  also have "\<dots> = write_double (xs ! i) @ concat (map write_double (drop (Suc i) xs))"
    using assms(1) by (simp flip: Cons_nth_drop_Suc)
  finally have d: "drop (i * 8) (concat (map write_double xs) @ rest)
      = [] @ write_double (xs ! i) @ (concat (map write_double (drop (Suc i) xs)) @ rest)"
    using assms(1) l by simp
  have "read_double (concat (map write_double xs) @ rest) (i * 8 + 0) = xs ! i"
    unfolding read_double_drop d using read_write_double [OF assms(2), of "[]"] by simp
  then show ?thesis by simp
qed

lemma time_clip_int: "\<bar>t\<bar> \<le> max_time \<Longrightarrow> time_clip (Fin (of_int t)) = Some t"
  by (simp add: time_clip_def rat_trunc_def flip: of_int_abs)

lemma num_iso_int:
  assumes "\<bar>t\<bar> \<le> max_time" shows "\<exists>s. num_iso (Fin (of_int t)) = Inr s \<and> to_iso t = Some s"
proof -
  obtain s where "to_iso t = Some s" using assms by (auto simp: to_iso_def Let_def)
  then show ?thesis by (simp add: num_iso_def time_clip_int [OF assms])
qed

definition item_values :: "int \<times> jsval \<Rightarrow> jsnum list" where
  "item_values item = Fin (of_int (fst item)) # map (\<lambda>k. number_or_zero (js_get (snd item) k)) price_fields"

lemma item_values_clean:
  assumes "clean_item item"
  shows "list_all is_double (item_values item)" "list_all js_is_finite (item_values item)"
proof -
  have "is_double (Fin (of_int (fst item)))"
    using assms max_time_safe by (intro is_double_int) (simp add: clean_item_def)
  then show "list_all is_double (item_values item)" "list_all js_is_finite (item_values item)"
    using assms by (auto simp: item_values_def clean_item_def list_all_iff)
qed

lemma read_encoded:
  assumes "i < length items" "clean_item (items ! i)" "j < 6"
  shows "read_double (encodeRecords items) (HEADER_BYTES + i * RECORD_BYTES + j * 8) = item_values (items ! i) ! j"
proof -
  have "drop (HEADER_BYTES + i * RECORD_BYTES) (encodeRecords items)
      = concat (map write_double (item_values (items ! i))) @ concat (map encode_item (drop (Suc i) items))"
    using assms(1) encode_item_fields [of "fst (items ! i)" "snd (items ! i)"]
    by (simp add: drop_encodeRecords item_values_def flip: Cons_nth_drop_Suc)
  moreover have "length (item_values (items ! i)) = 6" by (simp add: item_values_def price_fields_def)
  ultimately show ?thesis
    unfolding read_double_drop [of _ "HEADER_BYTES + i * RECORD_BYTES"]
    using assms(3) item_values_clean(1) [OF assms(2)] by (simp add: read_block list_all_length)
qed

lemma decode_encoded:
  assumes "i < length items" "clean_item (items ! i)"
  shows "decodeRecord (encodeRecords items) (HEADER_BYTES + i * RECORD_BYTES) meta = Inr (stored meta (items ! i))"
proof -
  have vals: "map (\<lambda>j. read_double (encodeRecords items) (HEADER_BYTES + i * RECORD_BYTES + j * 8)) [0..<6] = item_values (items ! i)"
    using read_encoded [OF assms] by (intro nth_equalityI) (simp_all add: item_values_def price_fields_def)
  obtain s where "num_iso (Fin (of_int (fst (items ! i)))) = Inr s" "to_iso (fst (items ! i)) = Some s"
    using num_iso_int assms(2) by (auto simp: clean_item_def)
  then show ?thesis unfolding decodeRecord_def vals Let_def
    using item_values_clean(2) [OF assms(2)] by (simp add: item_values_def stored_def)
qed

lemma record_ms_bar: "to_iso t = Some s \<Longrightarrow> record_ms_of (bar_record meta s v) = Some t"
  using date_parse_to_iso by (simp add: record_ms_of_def bar_record_def)

lemma record_ms_stored:
  assumes "clean_item item" shows "record_ms_of (stored meta item) = Some (fst item)"
proof -
  obtain s where "to_iso (fst item) = Some s" using assms num_iso_int by (auto simp: clean_item_def)
  then show ?thesis by (simp add: stored_def record_ms_bar)
qed

lemma decode_all_encoded:
  assumes "\<And>i. i \<in> set ns \<Longrightarrow> i < length items \<and> clean_item (items ! i)"
    and "sorted_wrt (<) (map (\<lambda>i. fst (items ! i)) ns)"
    and "\<And>p i. prior = Some p \<Longrightarrow> i \<in> set ns \<Longrightarrow> p < fst (items ! i)"
  shows "decode_all (encodeRecords items) meta ns prior = Inr (map (\<lambda>i. stored meta (items ! i)) ns)"
  using assms
proof (induction ns arbitrary: prior)
  case (Cons i ns)
  have i: "i < length items" "clean_item (items ! i)" using Cons.prems(1) by simp_all
  have "decode_all (encodeRecords items) meta ns (Some (fst (items ! i))) = Inr (map (\<lambda>i. stored meta (items ! i)) ns)"
    using Cons.prems by (intro Cons.IH) auto
  moreover have "\<not> (case prior of Some p \<Rightarrow> fst (items ! i) \<le> p | None \<Rightarrow> False)"
    using Cons.prems(3) by (cases prior) fastforce+
  ultimately show ?case using decode_encoded [OF i] record_ms_stored [OF i(2)] by simp
qed simp

text \<open>An entry of the manifest whose file holds the items.\<close>

definition entry_for :: "(bytes \<Rightarrow> string) \<Rightarrow> (string \<times> bytes node) list \<Rightarrow> jsval \<Rightarrow> (int \<times> jsval) list \<Rightarrow> bool" where
  "entry_for sha256 fs entry items =
    (items \<noteq> [] \<and> list_all clean_item items \<and> sorted_wrt (<) (map fst items) \<and> length items < 2 ^ 32
     \<and> (\<exists>f. js_get entry ''file'' = JStr f \<and> map_of fs f = Some (Regular (encodeRecords items)))
     \<and> js_get entry ''sha256'' = JStr (sha256 (encodeRecords items))
     \<and> js_get entry ''count'' = JNum (Fin (of_nat (length items)))
     \<and> js_get entry ''first_ms'' = JNum (Fin (of_int (fst (hd items))))
     \<and> js_get entry ''last_ms'' = JNum (Fin (of_int (fst (last items))))
     \<and> truthy (js_get entry ''meta''))"

lemma header_encoded:
  assumes "length items < 2 ^ 32"
  shows "ascii_text (take 4 (encodeRecords items)) = TS_MAGIC" "read_uint32 (encodeRecords items) 4 = int (length items)"
    "take 4 (encodeRecords items) = ascii_bytes TS_MAGIC"
proof -
  show *: "take 4 (encodeRecords items) = ascii_bytes TS_MAGIC" by (simp add: encodeRecords_def)
  have "ascii_text (ascii_bytes TS_MAGIC) = TS_MAGIC" by code_simp
  then show "ascii_text (take 4 (encodeRecords items)) = TS_MAGIC" by (simp only: *)
  have "int (length items) < int (2 ^ 32)" using assms by (simp only: of_nat_less_iff)
  then show "read_uint32 (encodeRecords items) 4 = int (length items)"
    using read_write_uint32 [of "int (length items)" "ascii_bytes TS_MAGIC"] by (simp add: encodeRecords_def)
qed

lemma open_segment_entry:
  "entry_for sha256 fs entry items \<Longrightarrow> open_segment fs entry = Inr (encodeRecords items)"
  by (auto simp: entry_for_def open_segment_def openRegularFile_def)

lemma readSegment_entry:
  assumes "entry_for sha256 fs entry items"
  shows "readSegment sha256 fs entry = Inr (map (stored (js_get entry ''meta'')) items)"
proof -
  let ?m = "js_get entry ''meta''"
  have e: "items \<noteq> []" "list_all clean_item items" "sorted_wrt (<) (map fst items)" "length items < 2 ^ 32"
    using assms by (simp_all add: entry_for_def)
  have "decode_all (encodeRecords items) ?m [0..<length items] None = Inr (map (\<lambda>i. stored ?m (items ! i)) [0..<length items])"
  proof (rule decode_all_encoded)
    have "map (\<lambda>i. fst (items ! i)) [0..<length items] = map fst items" by (intro nth_equalityI) simp_all
    then show "sorted_wrt (<) (map (\<lambda>i. fst (items ! i)) [0..<length items])" using e(3) by simp
  qed (use e(2) in \<open>simp_all add: list_all_length\<close>)
  also have "map (\<lambda>i. stored ?m (items ! i)) [0..<length items] = map (stored ?m) items"
    by (intro nth_equalityI) simp_all
  finally have d: "decode_all (encodeRecords items) ?m [0..<length items] None = Inr (map (stored ?m) items)" .
  have "clean_item (hd items)" "clean_item (last items)" using e(1,2) by (simp_all add: list_all_iff)
  then have ms: "ms_value (stored ?m (hd items)) = js_get entry ''first_ms''"
    "ms_value (stored ?m (last items)) = js_get entry ''last_ms''"
    using assms by (simp_all add: ms_value_def record_ms_stored entry_for_def)
  show ?thesis
    using assms d ms header_encoded [OF e(4)] e(1) unfolding readSegment_def open_segment_entry [OF assms]
    by (simp add: entry_for_def length_encodeRecords js_or_def hd_map last_map Let_def)
qed

lemma expected_bytes:
  assumes "n < 2 ^ 32"
  shows "js_add (Fin (of_nat HEADER_BYTES)) (js_mul (Fin (of_nat n)) (Fin (of_nat RECORD_BYTES)))
    = Fin (of_nat (HEADER_BYTES + n * RECORD_BYTES))"
proof -
  have "int n < int (2 ^ 32)" using assms by (simp only: of_nat_less_iff)
  then have n: "int n < 2 ^ 32" by simp
  have "js_mul (Fin (of_int (int n))) (Fin (of_int 48)) = Fin (of_int (int n * 48))" using n by (intro js_mul_int) simp
  moreover have "js_add (Fin (of_int 8)) (Fin (of_int (int n * 48))) = Fin (of_int (8 + int n * 48))"
    using n by (intro js_add_int) simp
  moreover have "(of_nat n :: rat) = of_int (int n)" "(of_nat HEADER_BYTES :: rat) = of_int 8"
    "(of_nat RECORD_BYTES :: rat) = of_int 48" "(of_nat (HEADER_BYTES + n * RECORD_BYTES) :: rat) = of_int (8 + int n * 48)"
    by (simp_all add: HEADER_BYTES_def RECORD_BYTES_def)
  ultimately show ?thesis by (simp only:)
qed

lemma readLatestSegment_entry:
  assumes "entry_for sha256 fs entry items"
  shows "readLatestSegment sha256 fs entry = Inr (stored (js_get entry ''meta'') (last items))"
proof -
  let ?m = "js_get entry ''meta''" and ?b = "encodeRecords items"
  define n t where "n = length items" and "t = min 2 n"
  have e: "items \<noteq> []" "list_all clean_item items" "sorted_wrt (<) (map fst items)" "length items < 2 ^ 32"
    using assms by (simp_all add: entry_for_def)
  have n: "0 < n" using e(1) by (simp add: n_def)
  have cl: "clean_item (items ! i)" if "i < n" for i using that e(2) by (simp add: n_def list_all_length)
  have pos: "HEADER_BYTES + (n - t) * RECORD_BYTES + (t - 1) * RECORD_BYTES = HEADER_BYTES + (n - 1) * RECORD_BYTES"
    using n by (simp add: t_def min_def add_mult_distrib [symmetric])
  have lst: "items ! (n - 1) = last items" using e(1) by (simp add: n_def last_conv_nth)
  have dec: "decodeRecord ?b (HEADER_BYTES + (n - t) * RECORD_BYTES + (t - 1) * RECORD_BYTES) ?m = Inr (stored ?m (last items))"
    unfolding pos using decode_encoded [of "n - 1" items ?m] cl [of "n - 1"] n lst by (simp add: n_def)
  have first: "read_double ?b HEADER_BYTES = Fin (of_int (fst (hd items)))"
    using read_encoded [of 0 items 0] cl [of 0] n by (simp add: item_values_def n_def hd_conv_nth)
  have lastms: "ms_value (stored ?m (last items)) = JNum (Fin (of_int (fst (last items))))"
    using cl [of "n - 1"] n lst by (simp add: ms_value_def record_ms_stored)
  have tail: "\<not> js_le (Fin (of_int (fst (last items)))) (read_double ?b (HEADER_BYTES + (n - t) * RECORD_BYTES))" if "t = 2"
  proof -
    have n2: "2 \<le> n" using that by (simp add: t_def min_def split: if_splits)
    have "read_double ?b (HEADER_BYTES + (n - t) * RECORD_BYTES) = Fin (of_int (fst (items ! (n - 2))))"
      using read_encoded [of "n - 2" items 0] cl [of "n - 2"] n2 that by (simp add: item_values_def n_def)
    moreover have "fst (items ! (n - 2)) < fst (items ! (n - 1))"
      using e(3) n2 by (simp add: sorted_wrt_iff_nth_less n_def)
    ultimately show ?thesis using lst by simp
  qed
  have cnt: "js_to_number (js_get entry ''count'') = Fin (of_nat n)"
    using assms by (simp add: entry_for_def js_to_number_def n_def)
  have nn: "(case Fin (of_nat n) of Fin c \<Rightarrow> nat \<lfloor>c\<rfloor> | _ \<Rightarrow> 0) = n" by simp
  have eqs: "js_get entry ''sha256'' = JStr (sha256 ?b)" "js_get entry ''first_ms'' = JNum (Fin (of_int (fst (hd items))))"
    "js_get entry ''last_ms'' = JNum (Fin (of_int (fst (last items))))"
    using assms by (simp_all add: entry_for_def)
  have len: "Fin (of_nat (length ?b)) = js_add (Fin (of_nat HEADER_BYTES)) (js_mul (Fin (of_nat n)) (Fin (of_nat RECORD_BYTES)))"
    using expected_bytes [OF e(4)] by (simp only: length_encodeRecords n_def)
  have cnt2: "Fin (of_int (read_uint32 ?b 4)) = Fin (of_nat n)" using header_encoded(2) [OF e(4)] by (simp add: n_def)
  have num: "js_to_number (JNum x) = x" for x by (simp add: js_to_number_def)
  show ?thesis
    unfolding readLatestSegment_def open_segment_entry [OF assms] rbind_simps Let_def cnt nn t_def [symmetric]
      len [symmetric] eqs first header_encoded(1) [OF e(4)] cnt2 dec lastms num
    using tail by simp
qed

section \<open>Merging\<close>

text \<open>
  The abstract view of a log of records: at a time, the newest among the records of the highest
  priority.
\<close>

definition winner_step :: "int \<Rightarrow> jsval option \<Rightarrow> jsval \<Rightarrow> jsval option" where
  "winner_step ms best r = (if record_ms_of r \<noteq> Some ms then best
     else case best of Some p \<Rightarrow> if provider_priority p \<le> provider_priority r then Some r else Some p | None \<Rightarrow> Some r)"

definition bar_winner :: "jsval list \<Rightarrow> int \<Rightarrow> jsval option" where
  "bar_winner rs ms = foldl (winner_step ms) None rs"

definition bar_at :: "jsval list \<Rightarrow> int \<Rightarrow> jsval option" where
  "bar_at rs ms = List.find (\<lambda>r. record_ms_of r = Some ms) rs"

definition merged :: "jsval list \<Rightarrow> jsval list" where
  "merged rs = map snd (sort_key fst (foldl merge_step [] rs))"

definition incr_times :: "jsval list \<Rightarrow> bool" where
  "incr_times rs = (list_all (\<lambda>r. record_ms_of r \<noteq> None) rs \<and> sorted_wrt (<) (map (the \<circ> record_ms_of) rs))"

definition keyed :: "(int \<times> jsval) list \<Rightarrow> bool" where
  "keyed m = (distinct (map fst m) \<and> list_all (\<lambda>(k, r). record_ms_of r = Some k) m)"

lemma update_fresh: "k \<notin> fst ` set m \<Longrightarrow> AList.update k v m = m @ [(k, v)]"
  by (induction m) auto

lemma set_alist_update: "set (AList.update k r m) \<subseteq> insert (k, r) (set m)"
  by (induction m) auto

lemma dom_update_keys: "fst ` set (AList.update k v m) = insert k (fst ` set m)"
  by (induction m) auto

lemma keyed_update:
  assumes "keyed m" "record_ms_of r = Some k" shows "keyed (AList.update k r m)"
  using assms set_alist_update [of k r m] by (auto simp: keyed_def list_all_iff distinct_update)

lemma keyed_merge_step: "keyed m \<Longrightarrow> keyed (merge_step m r)"
  by (auto simp: merge_step_def keyed_update split: option.splits)

lemma keyed_merge: "keyed m \<Longrightarrow> keyed (foldl merge_step m rs)"
  by (induction rs arbitrary: m) (simp_all add: keyed_merge_step)

lemma merge_lookup: "map_of (foldl merge_step m rs) ms = foldl (winner_step ms) (map_of m ms) rs"
proof (induction rs arbitrary: m)
  case (Cons r rs)
  have "map_of (merge_step m r) ms = winner_step ms (map_of m ms) r"
    by (auto simp: merge_step_def winner_step_def map_of_update split: option.splits)
  then show ?case using Cons.IH by simp
qed simp

lemma keyed_sort: "keyed m \<Longrightarrow> keyed (sort_key fst m)"
  by (auto simp: keyed_def list_all_iff distinct_map)

lemma find_keyed: "keyed m \<Longrightarrow> bar_at (map snd m) ms = map_of m ms"
  by (induction m) (auto simp: keyed_def bar_at_def)

lemma map_of_sort: "keyed m \<Longrightarrow> map_of (sort_key fst m) = map_of m"
  using keyed_sort [of m] by (simp add: keyed_def map_of_inject_set)

lemma bar_at_merged: "bar_at (merged rs) ms = bar_winner rs ms"
proof -
  have k: "keyed (foldl merge_step [] rs)" by (intro keyed_merge) (simp add: keyed_def)
  then show ?thesis
    by (simp add: merged_def find_keyed [OF keyed_sort] map_of_sort merge_lookup bar_winner_def)
qed

lemma incr_keyed:
  assumes "keyed m" "sorted (map fst m)" shows "incr_times (map snd m)"
proof -
  have "map (the \<circ> record_ms_of) (map snd m) = map fst m"
    using assms(1) by (auto simp: keyed_def list_all_iff)
  moreover have "sorted_wrt (<) (map fst m)" using assms by (simp add: strict_sorted_iff keyed_def)
  ultimately have "sorted_wrt (<) (map (the \<circ> record_ms_of) (map snd m))" by (simp only:)
  then show ?thesis using assms(1) by (auto simp: incr_times_def keyed_def list_all_iff)
qed

lemma incr_merged: "incr_times (merged rs)"
proof -
  have "keyed (foldl merge_step [] rs)" by (intro keyed_merge) (simp add: keyed_def)
  then show ?thesis unfolding merged_def by (intro incr_keyed keyed_sort) simp_all
qed

lemma set_merge_step: "snd ` set (merge_step m r) \<subseteq> insert r (snd ` set m)"
proof (cases "record_ms_of r")
  case (Some k)
  have "snd ` set (AList.update k r m) \<subseteq> insert r (snd ` set m)"
    using image_mono [OF set_alist_update [of k r m], of snd] by simp
  then show ?thesis using Some by (auto simp: merge_step_def split: option.splits)
qed (auto simp: merge_step_def)

lemma set_merged: "set (merged rs) \<subseteq> set rs"
proof -
  have "snd ` set (foldl merge_step m rs) \<subseteq> snd ` set m \<union> set rs" for m
  proof (induction rs arbitrary: m)
    case (Cons r rs)
    show ?case using Cons.IH [of "merge_step m r"] set_merge_step [of m r] by auto
  qed simp
  from this [of "[]"] show ?thesis by (simp add: merged_def)
qed

lemma merge_incr:
  assumes "incr_times rs" "\<And>k r. k \<in> fst ` set m \<Longrightarrow> r \<in> set rs \<Longrightarrow> k < the (record_ms_of r)"
  shows "foldl merge_step m rs = m @ map (\<lambda>r. (the (record_ms_of r), r)) rs"
  using assms
proof (induction rs arbitrary: m)
  case (Cons r rs)
  obtain ms where ms: "record_ms_of r = Some ms" using Cons.prems(1) by (auto simp: incr_times_def)
  have "ms \<notin> fst ` set m" using Cons.prems(2) [of ms r] ms by auto
  then have s: "merge_step m r = m @ [(ms, r)]"
    using ms by (simp add: merge_step_def update_fresh map_of_eq_None_iff [THEN iffD2])
  have "foldl merge_step (m @ [(ms, r)]) rs = (m @ [(ms, r)]) @ map (\<lambda>r. (the (record_ms_of r), r)) rs"
    using Cons.prems ms by (intro Cons.IH) (auto simp: incr_times_def)
  then show ?case using s ms by simp
qed simp

lemma merged_incr:
  assumes "incr_times rs" shows "merged rs = rs"
proof -
  let ?m = "map (\<lambda>r. (the (record_ms_of r), r)) rs"
  have "sorted (map fst ?m)"
    using assms by (simp add: incr_times_def comp_def strict_sorted_iff)
  then have "sort_key fst ?m = ?m" by (rule sort_key_id_if_sorted)
  then show ?thesis using merge_incr [of rs "[]"] assms by (simp add: merged_def comp_def)
qed

lemma winner_append: "bar_winner (rs @ ss) ms = foldl (winner_step ms) (bar_winner rs ms) ss"
  by (simp add: bar_winner_def)

text \<open>On records with increasing times a time has at most one record.\<close>

lemma winner_none: "list_all (\<lambda>r. record_ms_of r \<noteq> Some ms) rs \<Longrightarrow> foldl (winner_step ms) best rs = best"
  by (induction rs arbitrary: best) (auto simp: winner_step_def)

lemma winner_incr:
  assumes "incr_times rs"
  shows "foldl (winner_step ms) best rs = (case bar_at rs ms of None \<Rightarrow> best | Some r \<Rightarrow> winner_step ms best r)"
  using assms
proof (induction rs arbitrary: best)
  case (Cons r rs)
  show ?case
  proof (cases "record_ms_of r = Some ms")
    case True
    then have "list_all (\<lambda>r. record_ms_of r \<noteq> Some ms) rs"
      using Cons.prems by (fastforce simp: incr_times_def list_all_iff)
    then show ?thesis using True by (simp add: bar_at_def winner_none)
  next
    case False
    then show ?thesis using Cons by (simp add: bar_at_def incr_times_def winner_step_def)
  qed
qed (simp add: bar_at_def)

section \<open>The newest record\<close>

definition newest :: "jsval \<Rightarrow> jsval list \<Rightarrow> jsval" where
  "newest r rs = foldl newer r rs"

lemma newest_last:
  assumes "incr_times rs" "rs \<noteq> []" "record_ms_of l = Some L"
  shows "newest l rs = newer l (last rs)"
  using assms
proof (induction rs arbitrary: l L)
  case (Cons r rs)
  obtain ms where ms: "record_ms_of r = Some ms" using Cons.prems(1) by (auto simp: incr_times_def)
  show ?case
  proof (cases "rs = []")
    case False
    have inc: "incr_times rs" using Cons.prems(1) by (simp add: incr_times_def)
    have mem: "last rs \<in> set rs" using False by simp
    then obtain z where z: "record_ms_of (last rs) = Some z"
      using inc by (auto simp: incr_times_def list_all_iff)
    have lt: "ms < z" using Cons.prems(1) mem z ms by (auto simp: incr_times_def)
    have "\<exists>t. record_ms_of (newer l r) = Some t" using ms Cons.prems(3) by (auto simp: newer_def)
    then have "newest (newer l r) rs = newer (newer l r) (last rs)" using Cons.IH [OF inc False] by blast
    also have "\<dots> = newer l (last rs)" using ms z lt Cons.prems(3) by (auto simp: newer_def)
    finally show ?thesis using False by (simp add: newest_def)
  qed (simp add: newest_def)
qed simp

text \<open>Reading everything and taking the last record is the same as looking for the newest record.\<close>

lemma newest_merged:
  assumes "list_all (\<lambda>r. record_ms_of r \<noteq> None) (r # rs)"
  shows "\<exists>M. record_ms_of (newest r rs) = Some M \<and> map_of (foldl merge_step [] (r # rs)) M = Some (newest r rs)
    \<and> (\<forall>k \<in> fst ` set (foldl merge_step [] (r # rs)). k \<le> M)"
  using assms
proof (induction rs rule: rev_induct)
  case Nil
  then show ?case by (auto simp: newest_def merge_step_def)
next
  case (snoc x rs)
  define m where "m = foldl merge_step [] (r # rs)"
  obtain M where M: "record_ms_of (newest r rs) = Some M" "map_of m M = Some (newest r rs)" "\<forall>k \<in> fst ` set m. k \<le> M"
    using snoc unfolding m_def by auto
  obtain t where t: "record_ms_of x = Some t" using snoc.prems by auto
  have n: "newest r (rs @ [x]) = newer (newest r rs) x" by (simp add: newest_def)
  have f: "foldl merge_step [] (r # rs @ [x]) = merge_step m x" by (simp add: m_def)
  consider "M < t" | "t = M" | "t < M" by linarith
  then show ?case unfolding n f
  proof cases
    case 1
    then have "map_of m t = None" using M(3) by (force simp: map_of_eq_None_iff)
    then have "merge_step m x = AList.update t x m" "newer (newest r rs) x = x"
      using 1 t M(1) by (simp_all add: merge_step_def newer_def)
    then show "\<exists>M. record_ms_of (newer (newest r rs) x) = Some M \<and> map_of (merge_step m x) M = Some (newer (newest r rs) x)
        \<and> (\<forall>k \<in> fst ` set (merge_step m x). k \<le> M)"
      using 1 t M(3) by (force simp: map_of_update dom_update_keys)
  next
    case 2
    have "merge_step m x = (if provider_priority (newest r rs) \<le> provider_priority x then AList.update M x m else m)"
      "newer (newest r rs) x = (if provider_priority (newest r rs) \<le> provider_priority x then x else newest r rs)"
      using t M(1,2) 2 by (simp_all add: merge_step_def newer_def)
    moreover have "M \<in> fst ` set m" using map_of_SomeD [OF M(2)] by force
    ultimately show "\<exists>M. record_ms_of (newer (newest r rs) x) = Some M \<and> map_of (merge_step m x) M = Some (newer (newest r rs) x)
        \<and> (\<forall>k \<in> fst ` set (merge_step m x). k \<le> M)"
      using M t 2 by (intro exI [of _ M]) (simp add: map_of_update dom_update_keys insert_absorb del: image_iff ball_simps)
  next
    case 3
    have "newer (newest r rs) x = newest r rs" using 3 t M(1) by (simp add: newer_def)
    moreover have "map_of (merge_step m x) M = map_of m M"
      using 3 t by (simp add: merge_step_def map_of_update split: option.split)
    moreover have "fst ` set (merge_step m x) \<subseteq> insert t (fst ` set m)"
      using t by (simp add: merge_step_def dom_update_keys subset_insertI del: image_subset_iff split: option.split)
    moreover have "\<forall>k \<in> insert t (fst ` set m). k \<le> M" using 3 M(3) by (simp only: ball_simps) simp
    ultimately show "\<exists>M. record_ms_of (newer (newest r rs) x) = Some M \<and> map_of (merge_step m x) M = Some (newer (newest r rs) x)
        \<and> (\<forall>k \<in> fst ` set (merge_step m x). k \<le> M)"
      using M(1,2) by (metis subsetD)
  qed
qed

lemma sorted_last:
  assumes "sorted (map f xs)" "x \<in> set xs" shows "f x \<le> f (last xs)"
proof -
  have ne: "xs \<noteq> []" using assms(2) by auto
  then have "sorted (map f (butlast xs) @ [f (last xs)])"
    using assms(1) by (metis append_butlast_last_id list.simps(8,9) map_append)
  then have "\<forall>x \<in> set (butlast xs @ [last xs]). f x \<le> f (last xs)" by (auto simp: sorted_append)
  then show ?thesis using assms(2) append_butlast_last_id [OF ne] by metis
qed

lemma last_sorted_max:
  assumes "keyed m" "map_of m M = Some r" "\<forall>k \<in> fst ` set m. k \<le> M"
  shows "last (map snd (sort_key fst m)) = r"
proof -
  let ?s = "sort_key fst m"
  have mem: "(M, r) \<in> set ?s" using assms(2) by (simp add: map_of_SomeD)
  then have ne: "?s \<noteq> []" by (metis empty_iff empty_set)
  have "M \<le> fst (last ?s)" using sorted_last [OF sorted_sort_key mem] by simp
  moreover have "fst (last ?s) \<le> M" using assms(3) ne last_in_set [OF ne] by auto
  ultimately have "fst (last ?s) = M" by simp
  moreover have "last ?s \<in> set m" using last_in_set [OF ne] by simp
  ultimately have "last ?s = (M, r)"
    using assms(1) mem by (metis eq_key_imp_eq_value keyed_def prod.collapse set_sort)
  then show ?thesis using ne by (simp add: last_map)
qed

lemma last_merged:
  assumes "list_all (\<lambda>r. record_ms_of r \<noteq> None) (r # rs)"
  shows "last (merged (r # rs)) = newest r rs" "merged (r # rs) \<noteq> []"
proof -
  have k: "keyed (foldl merge_step [] (r # rs))" by (intro keyed_merge) (simp add: keyed_def)
  obtain M where M: "map_of (foldl merge_step [] (r # rs)) M = Some (newest r rs)"
    "\<forall>k \<in> fst ` set (foldl merge_step [] (r # rs)). k \<le> M" using newest_merged [OF assms] by blast
  show "last (merged (r # rs)) = newest r rs" unfolding merged_def by (rule last_sorted_max [OF k M])
  have "set (foldl merge_step [] (r # rs)) \<noteq> {}" using map_of_SomeD [OF M(1)] by (metis empty_iff)
  then show "merged (r # rs) \<noteq> []" unfolding merged_def by (metis list.map_disc_iff set_empty set_sort)
qed

section \<open>What an operation publishes\<close>

lemma push_unique_strict:
  assumes "sorted_wrt (<) (map fst u)" "sorted (map fst (u @ x # xs))"
  shows "sorted_wrt (<) (map fst (push_unique u x))" "map_of (push_unique u x @ xs) = map_of (u @ x # xs)"
    "sorted (map fst (push_unique u x @ xs))"
proof -
  have "sorted_wrt (<) (map fst (push_unique u x)) \<and> map_of (push_unique u x @ xs) = map_of (u @ x # xs)
    \<and> sorted (map fst (push_unique u x @ xs))"
  proof (cases "u = [] \<or> fst (last u) \<noteq> fst x")
    case True
    have "fst x \<notin> fst ` set u"
    proof
      assume "fst x \<in> fst ` set u"
      then obtain y where y: "y \<in> set u" "fst y = fst x" by auto
      then have "fst y \<le> fst (last u)" using assms(2) by (intro sorted_last) (simp_all add: sorted_append)
      moreover have "last u \<in> set u" using y by (intro last_in_set) auto
      then have "fst (last u) \<le> fst x" using assms(2) by (simp add: sorted_append)
      ultimately show False using y True by auto
    qed
    then have "sorted_wrt (<) (map fst (u @ [x]))"
      using assms by (simp add: strict_sorted_iff sorted_append)
    then show ?thesis using True assms(2) by (simp add: push_unique_def)
  next
    case False
    then have "fst x \<in> fst ` set u" by (metis image_eqI last_in_set)
    then have "fst x \<in> dom (map_of u)" by (simp add: dom_map_of_conv_image_fst)
    then have "map_of (u @ x # xs) = map_of (u @ xs)"
      by (cases x) (auto simp: map_add_def fun_eq_iff split: option.splits)
    then show ?thesis using False assms by (simp add: push_unique_def sorted_append)
  qed
  then show "sorted_wrt (<) (map fst (push_unique u x))" "map_of (push_unique u x @ xs) = map_of (u @ x # xs)"
    "sorted (map fst (push_unique u x @ xs))" by blast+
qed

lemma push_all:
  assumes "sorted_wrt (<) (map fst u)" "sorted (map fst (u @ xs))"
  shows "sorted_wrt (<) (map fst (foldl push_unique u xs)) \<and> map_of (foldl push_unique u xs) = map_of (u @ xs)
    \<and> set (foldl push_unique u xs) \<subseteq> set u \<union> set xs"
  using assms
proof (induction xs arbitrary: u)
  case (Cons x xs)
  note p = push_unique_strict [OF Cons.prems]
  have "set (push_unique u x) \<subseteq> insert x (set u)" by (auto simp: push_unique_def)
  then show ?case using Cons.IH [OF p(1,3)] p(2) by auto
qed simp

lemma map_of_first: "map_of xs k = (case filter (\<lambda>y. fst y = k) xs of [] \<Rightarrow> None | y # _ \<Rightarrow> Some (snd y))"
  by (induction xs) auto

lemma map_of_sort_stable: "map_of (sort_key fst xs) k = map_of xs k"
  unfolding map_of_first by (simp only: sort_key_stable)

lemma normalized_items:
  assumes "normalizedRecords records = Inr items"
  shows "sorted_wrt (<) (map fst items)" "\<And>ms. map_of items ms = bar_at records ms"
    "\<And>ms r. (ms, r) \<in> set items \<Longrightarrow> r \<in> set records \<and> record_ms_of r = Some ms"
proof -
  define ks where "ks = List.map_filter (\<lambda>r. map_option (\<lambda>ms. (ms, r)) (record_ms_of r)) records"
  have items: "items = foldl push_unique [] (sort_key fst ks)"
    using assms by (simp add: normalizedRecords_def ks_def split: if_splits)
  have p: "sorted_wrt (<) (map fst items)" "map_of items = map_of (sort_key fst ks)" "set items \<subseteq> set ks"
    using push_all [of "[]" "sort_key fst ks"] by (simp_all add: items)
  show "sorted_wrt (<) (map fst items)" by (rule p(1))
  have "map_of ks ms = bar_at records ms" for ms
    unfolding ks_def bar_at_def by (induction records) (auto simp: List.map_filter_def)
  then show "map_of items ms = bar_at records ms" for ms using p(2) by (simp add: map_of_sort_stable)
  show "r \<in> set records \<and> record_ms_of r = Some ms" if "(ms, r) \<in> set items" for ms r
    using that p(3) by (auto simp: ks_def List.map_filter_def)
qed

lemma normalized_incr:
  assumes "incr_times rs" "list_all (\<lambda>r. \<not> no_object r) rs"
  shows "normalizedRecords rs = Inr (map (\<lambda>r. (the (record_ms_of r), r)) rs)"
proof -
  let ?m = "map (\<lambda>r. (the (record_ms_of r), r)) rs"
  have mf: "List.map_filter (\<lambda>r. map_option (\<lambda>ms. (ms, r)) (record_ms_of r)) rs = ?m"
    using assms(1) unfolding incr_times_def
    by (induction rs) (auto simp: List.map_filter_def)
  have "sorted_wrt (<) (map fst ?m)" using assms(1) by (simp add: incr_times_def comp_def)
  moreover have "foldl push_unique u xs = u @ xs" if "sorted_wrt (<) (map fst (u @ xs))" for u xs
    using that
  proof (induction xs arbitrary: u)
    case (Cons x xs)
    have "fst (last u) \<noteq> fst x" if "u \<noteq> []" using Cons.prems last_in_set [OF that] by (force simp: sorted_wrt_append)
    then show ?case using Cons.IH [of "u @ [x]"] Cons.prems by (auto simp: push_unique_def)
  qed simp
  moreover have "sort_key fst ?m = ?m" using calculation(1) by (intro sort_key_id_if_sorted) (simp add: strict_sorted_iff)
  moreover have "\<not> list_ex no_object rs" using assms(2) by (simp add: list_ex_iff list_all_iff)
  ultimately show ?thesis by (simp add: normalizedRecords_def mf)
qed

end
