(* ===== verification/Segment_Store.thy ===== *)
theory Segment_Store
  imports Segment_Records
begin

text \<open>
  Laws of the store of \<^verbatim>\<open>Segments\<close>: every operation publishes an entry that describes its file and
  keeps the invariant of the directory; the stores that appends and compactions reach; and, for
  those, what reading, appending and compacting a series mean.
\<close>

lemma segment_name_ok:
  assumes "is_sha256 digest" "0 \<le> now" "0 \<le> pid" shows "is_segment_name (segment_name now pid digest)"
proof -
  have d: "list_all (\<lambda>c. is_alnum c \<or> c = CHR ''.'' \<or> c = CHR ''_'' \<or> c = CHR ''-'') (dec_string n)" if "0 \<le> n" for n
    using dec_string_digits [OF that] by (auto simp: list_all_iff is_alnum_def)
  have "c \<in> set digest \<Longrightarrow> is_alnum c" for c
    using assms(1) by (auto simp: is_sha256_def list_all_iff is_lower_hex_def is_alnum_def is_lower_def in_range_def)
  then have h: "list_all (\<lambda>c. is_alnum c \<or> c = CHR ''.'' \<or> c = CHR ''_'' \<or> c = CHR ''-'') (take 12 digest)"
    using set_take_subset [of 12 digest] by (auto simp: list_all_iff)
  have c: "list_all (\<lambda>c. is_alnum c \<or> c = CHR ''.'' \<or> c = CHR ''_'' \<or> c = CHR ''-'') ''segment-.bin''" by code_simp
  show ?thesis using d [OF assms(2)] d [OF assms(3)] h c
    by (simp add: is_segment_name_def segment_name_def ends_with_def starts_with_def)
qed

text \<open>The series a directory belongs to is named by texts.\<close>

definition meta_of :: "string \<Rightarrow> string \<Rightarrow> jsval \<Rightarrow> bool" where
  "meta_of symbol timeframe meta = (\<exists>ps. meta = JObj ps \<and> js_get meta ''symbol'' = JStr symbol
     \<and> js_get meta ''timeframe'' = JStr timeframe)"

definition good_items :: "(int \<times> jsval) list \<Rightarrow> bool" where
  "good_items items = (items \<noteq> [] \<and> list_all clean_item items \<and> sorted_wrt (<) (map fst items) \<and> length items < 2 ^ 32)"

lemma published:
  assumes p: "publishSegment sha256 now pid d meta items = Inr (d', entry)"
    and "is_sha256 (sha256 (encodeRecords items))" "0 \<le> now" "0 \<le> pid" "meta_of s t meta" "good_items items"
  shows "entry_for sha256 (files d') (json_view entry) items" "valid_entry (JStr s) (JStr t) (json_view entry)"
    "js_get (json_view entry) ''meta'' = json_view meta" "manifest d' = manifest d"
    "files d' = AList.update (segment_name now pid (sha256 (encodeRecords items))) (Regular (encodeRecords items)) (files d)"
    "js_get entry ''file'' = JStr (segment_name now pid (sha256 (encodeRecords items)))"
proof -
  obtain ps where ps: "meta = JObj ps" "js_get meta ''symbol'' = JStr s" "js_get meta ''timeframe'' = JStr t"
    using assms(5) by (auto simp: meta_of_def)
  define digest name where "digest = sha256 (encodeRecords items)" and "name = segment_name now pid digest"
  obtain c where c: "to_iso now = Some c" and e: "entry = segment_entry name digest c meta items"
    and d: "d' = d\<lparr>files := AList.update name (Regular (encodeRecords items)) (files d)\<rparr>"
    using p by (auto simp: publishSegment_def Let_def digest_def name_def split: if_splits option.splits)
  have sp: "spread_update meta [] = meta" by (simp add: spread_update_def ps(1))
  have v: "json_view entry = JObj
     [(''file'', JStr name), (''count'', JNum (Fin (of_nat (length items)))),
      (''first_ms'', JNum (Fin (of_int (fst (hd items))))), (''last_ms'', JNum (Fin (of_int (fst (last items))))),
      (''sha256'', JStr digest), (''meta'', json_view meta), (''created_at'', JStr c)]"
    unfolding e segment_entry_def sp by (simp add: ps(1))
  have g: "items \<noteq> []" "sorted_wrt (<) (map fst items)" using assms(6) by (simp_all add: good_items_def)
  have le: "fst (hd items) \<le> fst (last items)"
    using g sorted_last [of fst items "hd items"] by (simp add: strict_sorted_iff)
  have mv: "js_get (json_view meta) ''symbol'' = JStr s" "js_get (json_view meta) ''timeframe'' = JStr t" "truthy (json_view meta)"
    using ps js_get_view_string by auto
  show "js_get (json_view entry) ''meta'' = json_view meta" unfolding v by simp
  show "entry_for sha256 (files d') (json_view entry) items"
    unfolding v entry_for_def using assms(6) mv(3) by (simp add: good_items_def d map_of_update digest_def)
  have nm: "is_segment_name name" "name \<noteq> []" "digest \<noteq> []" "is_sha256 digest"
    using segment_name_ok [OF assms(2-4)] assms(2) by (auto simp: name_def digest_def is_segment_name_def is_sha256_def)
  show "valid_entry (JStr s) (JStr t) (json_view entry)"
    unfolding v valid_entry_def using nm mv g(1) le
    by (simp add: text_of_def js_or_def integer_number_def finite_number_def js_is_integer_def js_to_number_def)
  show "manifest d' = manifest d" by (simp add: d)
  show "files d' = AList.update (segment_name now pid (sha256 (encodeRecords items))) (Regular (encodeRecords items)) (files d)"
    by (simp add: d name_def digest_def)
  show "js_get entry ''file'' = JStr (segment_name now pid (sha256 (encodeRecords items)))"
    by (simp add: e segment_entry_def name_def digest_def)
qed

section \<open>Readable directories\<close>

text \<open>Records that come out of a segment.\<close>

definition decoded :: "jsval \<Rightarrow> bool" where
  "decoded r = (\<exists>meta t s v. r = bar_record meta s v \<and> to_iso t = Some s \<and> length v = 5
     \<and> list_all js_is_finite v \<and> list_all is_double v)"

lemma decoded_object:
  assumes "decoded r" shows "\<not> no_object r" "record_ms_of r \<noteq> None"
proof -
  obtain meta t s v where r: "r = bar_record meta s v" "to_iso t = Some s" using assms by (auto simp: decoded_def)
  show "record_ms_of r \<noteq> None" using record_ms_bar [OF r(2)] by (simp add: r(1))
  show "\<not> no_object r" by (simp add: r(1) no_object_def bar_record_def)
qed

lemma list_all_tl: "list_all P xs \<Longrightarrow> list_all P (tl xs)"
  by (cases xs) simp_all

lemma decodeRecord_decoded:
  assumes "decodeRecord buffer offset meta = Inr r" shows "decoded r"
proof -
  define v where "v = map (\<lambda>i. read_double buffer (offset + i * 8)) [0..<6]"
  have v: "list_all is_double v" "length (tl v) = 5" by (simp_all add: v_def list_all_iff)
  have e: "(if \<not> list_all js_is_finite v then Inl (Integrity ''invalid_segment_values'')
     else case num_iso (hd v) of Inl _ \<Rightarrow> Inl (Integrity ''invalid_segment_timestamps'')
       | Inr s \<Rightarrow> Inr (bar_record meta s (tl v))) = Inr r"
    using assms unfolding decodeRecord_def Let_def v_def .
  then have f: "list_all js_is_finite v" by (cases "list_all js_is_finite v") simp_all
  with e obtain s where s: "num_iso (hd v) = Inr s" "r = bar_record meta s (tl v)"
    by (cases "num_iso (hd v)") simp_all
  then obtain t where "to_iso t = Some s"
    by (cases "Option.bind (time_clip (hd v)) to_iso") (auto simp: num_iso_def bind_eq_Some_conv)
  then show ?thesis using s(2) v(2) list_all_tl [OF f] list_all_tl [OF v(1)] unfolding decoded_def by blast
qed

lemma decode_all_decoded:
  assumes "decode_all buffer meta ns prior = Inr rs"
  shows "list_all decoded rs \<and> incr_times rs \<and> (\<forall>p. prior = Some p \<longrightarrow> (\<forall>r \<in> set rs. p < the (record_ms_of r)))"
  using assms
proof (induction ns arbitrary: prior rs)
  case (Cons n ns)
  obtain r where r: "decodeRecord buffer (HEADER_BYTES + n * RECORD_BYTES) meta = Inr r"
    using Cons.prems by (auto simp: rbind_Inr_iff)
  obtain ms where ms: "record_ms_of r = Some ms" using decoded_object [OF decodeRecord_decoded [OF r]] by auto
  have pr: "\<not> (case prior of Some p \<Rightarrow> ms \<le> p | None \<Rightarrow> False)"
    using Cons.prems r ms by (auto split: if_splits)
  obtain rs' where rs': "decode_all buffer meta ns (Some ms) = Inr rs'" "rs = r # rs'"
    using Cons.prems r ms pr by (auto simp: rbind_Inr_iff)
  have ih: "list_all decoded rs'" "incr_times rs'" "\<forall>x \<in> set rs'. ms < the (record_ms_of x)"
    using Cons.IH [OF rs'(1)] by auto
  have "p < ms" if "prior = Some p" for p using pr that by simp
  then show ?case using ih decodeRecord_decoded [OF r] ms
    by (auto simp: rs'(2) incr_times_def)
qed (simp add: incr_times_def)

lemma readSegment_decoded:
  assumes "readSegment sha256 fs entry = Inr rs" shows "list_all decoded rs" "incr_times rs" "rs \<noteq> []"
  using assms decode_all_decoded
  by (fastforce simp: readSegment_def rbind_Inr_iff Let_def split: if_splits)+

lemma since_null [simp]: "since_ok JNull = (\<lambda>r. True)"
  by (simp add: since_ok_def fun_eq_iff)

lemma read_entries_decoded:
  "read_entries sha256 fs JNull es = Inr rs \<Longrightarrow> list_all decoded rs"
  by (induction es arbitrary: rs) (auto simp: rbind_Inr_iff dest: readSegment_decoded(1))

lemma merge_decoded: "list_all decoded rs \<Longrightarrow> mergeRecords [rs] = Inr (merged rs)"
  using decoded_object by (auto simp: mergeRecords_def merged_def list_ex_iff list_all_iff)

lemma read_manifest_records:
  "readSegmentsFromManifest sha256 d m JNull = Inr rs \<longleftrightarrow>
     (\<exists>raw. read_entries sha256 (files d) JNull (segments_of m) = Inr raw \<and> rs = merged raw)"
  by (auto simp: readSegmentsFromManifest_def rbind_Inr_iff merge_decoded read_entries_decoded)

lemma readManifest_Some:
  "readManifest d symbol timeframe = Inr (Some m) \<longleftrightarrow>
     (\<exists>sz. manifest d = Some (Regular (sz, Some m)) \<and> 0 < sz \<and> sz \<le> MANIFEST_MAX_BYTES
        \<and> assertManifest m symbol timeframe = Inr m)"
proof (cases "manifest d")
  case (Some n)
  have a: "assertManifest x symbol timeframe = Inr y \<Longrightarrow> y = x" for x y
    by (auto simp: assertManifest_def split: if_splits)
  show ?thesis
  proof (cases n)
    case (Regular c)
    obtain sz p where c: "c = (sz, p)" by fastforce
    show ?thesis using Some Regular c
      by (cases p) (auto simp: readManifest_def openRegularFile_def rbind_Inr_iff dest: a)
  qed (use Some in \<open>simp_all add: readManifest_def openRegularFile_def\<close>)
qed (simp add: readManifest_def openRegularFile_def)

lemma readManifest_valid:
  "readManifest d symbol timeframe = Inr (Some m) \<Longrightarrow> list_all (valid_entry symbol timeframe) (segments_of m)"
  by (auto simp: readManifest_Some assertManifest_def segments_of_def split: if_splits)

lemma readManifest_write:
  assumes "manifest_size m \<le> MANIFEST_MAX_BYTES" "js_get (json_view m) ''version'' = SEGMENT_VERSION"
    and "js_get (json_view m) ''symbol'' = JStr s" "js_get (json_view m) ''timeframe'' = JStr t"
    and "js_get (json_view m) ''segments'' = JArr es" "list_all (valid_entry (JStr s) (JStr t)) es"
  shows "readManifest (writeManifest d m) (JStr s) (JStr t) = Inr (Some (json_view m))"
proof -
  have "truthy (json_view m)" using assms(3) by (cases "json_view m") (simp_all add: js_get_def)
  then show ?thesis using assms
    by (simp add: readManifest_Some writeManifest_def manifest_size_def assertManifest_def array_items_def is_array_def
        strict_eq_num SEGMENT_VERSION_def)
qed

lemma valid_entry_meta:
  assumes "valid_entry (JStr s) (JStr t) e" shows "meta_of s t (js_get e ''meta'')"
  using assms by (cases "js_get e ''meta''") (auto simp: valid_entry_def meta_of_def js_get_def [of _ "''symbol''"])

text \<open>A record under new metadata: the same bar of the series, attributed to another source.\<close>

definition relabel :: "jsval \<Rightarrow> jsval \<Rightarrow> jsval" where
  "relabel meta r = bar_record meta (text_of (js_get r ''timestamp'')) (map (\<lambda>k. js_to_number (js_get r k)) price_fields)"

lemma decoded_item:
  assumes "decoded r" defines "item \<equiv> (the (record_ms_of r), r)"
  shows "clean_item item" "stored meta item = relabel meta r"
proof -
  obtain meta' t s v where r: "r = bar_record meta' s v" "to_iso t = Some s" "length v = 5"
    "list_all js_is_finite v" "list_all is_double v" using assms(1) by (auto simp: decoded_def)
  have ms: "record_ms_of r = Some t" using record_ms_bar [OF r(2)] by (simp add: r(1))
  have v: "map (\<lambda>k. js_get r k) price_fields = map JNum v"
    using r(3) by (simp add: r(1) bar_record_def price_fields_def) (auto simp: length_Suc_conv numeral_eq_Suc)
  have nz: "number_or_zero (JNum x) = x" "js_to_number (JNum x) = x" if "js_is_finite x" for x
    using that by (auto simp: number_or_zero_def js_to_number_def)
  have vals: "map (\<lambda>k. number_or_zero (js_get r k)) price_fields = v" "map (\<lambda>k. js_to_number (js_get r k)) price_fields = v"
  proof -
    have "map (\<lambda>k. number_or_zero (js_get r k)) price_fields = map number_or_zero (map JNum v)"
      unfolding v [symmetric] by simp
    also have "\<dots> = v" using r(4) nz by (simp add: list_all_iff map_idI)
    finally show "map (\<lambda>k. number_or_zero (js_get r k)) price_fields = v" .
    have "map (\<lambda>k. js_to_number (js_get r k)) price_fields = map js_to_number (map JNum v)"
      unfolding v [symmetric] by simp
    also have "\<dots> = v" using r(4) nz by (simp add: list_all_iff map_idI)
    finally show "map (\<lambda>k. js_to_number (js_get r k)) price_fields = v" .
  qed
  have "\<bar>t\<bar> \<le> max_time" using r(2) by (simp add: to_iso_def split: if_splits)
  moreover have "\<forall>x \<in> set (map (\<lambda>k. number_or_zero (js_get r k)) price_fields). js_is_finite x \<and> is_double x"
    unfolding vals using r(4,5) by (simp add: list_all_iff)
  ultimately show "clean_item item" by (simp add: clean_item_def item_def ms)
  have "s \<noteq> []" using r(2) by (auto simp: to_iso_def Let_def split: if_splits)
  then have "text_of (js_get r ''timestamp'') = s" by (simp add: r(1) bar_record_def text_of_def js_or_def)
  then show "stored meta item = relabel meta r"
    unfolding stored_def relabel_def item_def fst_conv snd_conv vals ms by (simp add: r(2))
qed

text \<open>The invariant of a directory: every active segment holds the items its entry describes.\<close>

definition wf_dir :: "(bytes \<Rightarrow> string) \<Rightarrow> string \<Rightarrow> string \<Rightarrow> segdir \<Rightarrow> bool" where
  "wf_dir sha256 s t d = (manifest d = None \<or> (\<exists>m. readManifest d (JStr s) (JStr t) = Inr (Some m) \<and> json_view m = m \<and> segments_of m \<noteq> []
     \<and> (\<forall>e \<in> set (segments_of m). \<exists>items. entry_for sha256 (files d) e items)))"

lemma compact_cases:
  assumes "compact_locked sha256 now pid d symbol timeframe = Inr (d', Compacted n fs)"
  obtains m raw items d1 entry where "readManifest d symbol timeframe = Inr (Some m)" "segments_of m \<noteq> []"
    "read_entries sha256 (files d) JNull (segments_of m) = Inr raw" "merged raw \<noteq> []"
    "normalizedRecords (merged raw) = Inr items"
    "publishSegment sha256 now pid d (js_get (hd (segments_of m)) ''meta'') items = Inr (d1, entry)"
    "d' = writeManifest d1 (JObj [(''version'', SEGMENT_VERSION), (''symbol'', symbol), (''timeframe'', timeframe),
       (''segments'', JArr [entry]), (''compacted_at'', opt_value (to_iso now))])"
proof -
  obtain found where f: "readManifest d symbol timeframe = Inr found"
    using assms by (auto simp: compact_locked_def rbind_Inr_iff)
  then obtain m where m: "found = Some m" "\<not> length (segments_of m) \<le> 1"
    using assms by (cases found) (auto simp: compact_locked_def split: if_splits)
  obtain rs where rs: "readSegmentsFromManifest sha256 d m JNull = Inr rs" "rs \<noteq> []"
    using assms f m by (auto simp: compact_locked_def rbind_Inr_iff split: if_splits)
  obtain raw where raw: "read_entries sha256 (files d) JNull (segments_of m) = Inr raw" "rs = merged raw"
    using rs(1) by (auto simp: read_manifest_records)
  have ne: "segments_of m \<noteq> []" using m(2) by auto
  then have "valid_entry symbol timeframe (hd (segments_of m))"
    using readManifest_valid f m(1) by (auto simp: list_all_iff)
  then have "js_or (js_get (hd (segments_of m)) ''meta'') x = js_get (hd (segments_of m)) ''meta''" for x
    by (simp add: valid_entry_def js_or_def)
  then show thesis using assms f m rs raw that ne
    by (auto simp: compact_locked_def rbind_Inr_iff)
qed

definition fits :: "segdir \<Rightarrow> bool" where
  "fits d = (case manifest d of Some (Regular (sz, _)) \<Rightarrow> sz \<le> MANIFEST_MAX_BYTES | _ \<Rightarrow> True)"

lemma fits_write: "fits (writeManifest d m) \<longleftrightarrow> manifest_size m \<le> MANIFEST_MAX_BYTES"
  by (simp add: fits_def writeManifest_def)

lemma incr_stored:
  assumes "good_items items" shows "incr_times (map (stored meta) items)"
proof -
  have ms: "record_ms_of (stored meta x) = Some (fst x)" if "x \<in> set items" for x
    using that assms by (intro record_ms_stored) (simp add: good_items_def list_all_iff)
  then have "map (the \<circ> record_ms_of) (map (stored meta) items) = map fst items" by simp
  then have "sorted_wrt (<) (map (the \<circ> record_ms_of) (map (stored meta) items))"
    using assms by (simp only: good_items_def)
  then show ?thesis using ms by (simp add: incr_times_def list_all_iff)
qed

lemma entry_good: "entry_for sha256 fs e items \<Longrightarrow> good_items items"
  by (simp add: entry_for_def good_items_def)

lemma merged_decoded:
  "list_all decoded raw \<Longrightarrow> list_all decoded (merged raw) \<and> list_all (\<lambda>r. \<not> no_object r) (merged raw)"
  using set_merged [of raw] decoded_object(1) by (auto simp: list_all_iff)

lemma compaction_items:
  assumes "list_all decoded rs" "incr_times rs" "rs \<noteq> []" "length rs < 2 ^ 32"
  defines "items \<equiv> map (\<lambda>r. (the (record_ms_of r), r)) rs"
  shows "normalizedRecords rs = Inr items" "good_items items" "map (stored meta) items = map (relabel meta) rs"
proof -
  show "normalizedRecords rs = Inr items"
    unfolding items_def using assms(1,2) decoded_object(1) by (intro normalized_incr) (auto simp: list_all_iff)
  show "good_items items"
    using assms decoded_item(1) by (auto simp: good_items_def items_def list_all_iff incr_times_def comp_def)
  show "map (stored meta) items = map (relabel meta) rs"
    using assms(1) decoded_item(2) by (auto simp: items_def list_all_iff)
qed

lemma compact_dir:
  assumes c: "compact_locked sha256 now pid d (JStr s) (JStr t) = Inr (d', Compacted n fs)"
    and sha: "\<And>b. is_sha256 (sha256 b)" and np: "0 \<le> now" "0 \<le> pid"
    and r: "read_dir sha256 d (JStr s) (JStr t) JNull = Inr (Some rs)" "length rs < 2 ^ 32" and f: "fits d'"
  shows "wf_dir sha256 s t d' \<and> (\<exists>meta. meta_of s t meta
    \<and> read_dir sha256 d' (JStr s) (JStr t) JNull = Inr (Some (map (relabel (json_view meta)) rs)))"
proof -
  obtain m raw items d1 entry where m: "readManifest d (JStr s) (JStr t) = Inr (Some m)" "segments_of m \<noteq> []"
    and raw: "read_entries sha256 (files d) JNull (segments_of m) = Inr raw" "merged raw \<noteq> []"
    and it: "normalizedRecords (merged raw) = Inr items"
    and p: "publishSegment sha256 now pid d (js_get (hd (segments_of m)) ''meta'') items = Inr (d1, entry)"
    and d': "d' = writeManifest d1 (JObj [(''version'', SEGMENT_VERSION), (''symbol'', JStr s), (''timeframe'', JStr t),
       (''segments'', JArr [entry]), (''compacted_at'', opt_value (to_iso now))])" (is "_ = writeManifest d1 ?M")
    using c by (rule compact_cases)
  define meta where "meta = js_get (hd (segments_of m)) ''meta''"
  have rs: "rs = merged raw" using r(1) m(1) raw(1) by (auto simp: read_dir_def rbind_Inr_iff read_manifest_records)
  have dec: "list_all decoded rs" using merged_decoded [OF read_entries_decoded [OF raw(1)]] by (simp add: rs)
  note ci = compaction_items [OF dec incr_merged [of raw, folded rs] raw(2) [folded rs] r(2)]
  have items: "good_items items" "map (stored x) items = map (relabel x) rs" for x
    using ci it by (simp_all add: rs)
  have mo: "meta_of s t meta"
    using readManifest_valid [OF m(1)] m(2) unfolding meta_def by (intro valid_entry_meta) (simp add: list_all_iff)
  note pub = published [OF p [folded meta_def] sha np mo items(1)]
  define M M' where "M = ?M" and "M' = json_view M"
  have "M' = JObj [(''version'', SEGMENT_VERSION), (''symbol'', JStr s), (''timeframe'', JStr t),
       (''segments'', JArr [json_view entry]), (''compacted_at'', opt_value (to_iso now))]"
    by (simp add: M'_def M_def SEGMENT_VERSION_def opt_value_def split: option.split)
  then have g: "js_get M' ''version'' = SEGMENT_VERSION" "js_get M' ''symbol'' = JStr s"
    "js_get M' ''timeframe'' = JStr t" "js_get M' ''segments'' = JArr [json_view entry]" by simp_all
  have rm: "readManifest d' (JStr s) (JStr t) = Inr (Some M')"
    using f readManifest_write [of M s t, folded M'_def, OF _ g, of d1] pub(2)
    unfolding d' M_def [symmetric] fits_write by simp
  have seg: "segments_of M' = [json_view entry]" by (simp add: g(4) segments_of_def array_items_def)
  have fs: "files d' = files d1" by (simp add: d' writeManifest_def)
  have "readSegment sha256 (files d') (json_view entry) = Inr (map (relabel (json_view meta)) rs)"
    using readSegment_entry [OF pub(1)] by (simp add: fs pub(3) items(2))
  then have "read_entries sha256 (files d') JNull (segments_of M') = Inr (map (relabel (json_view meta)) rs)"
    by (simp add: seg)
  moreover have "merged (map (relabel (json_view meta)) rs) = map (relabel (json_view meta)) rs"
    using incr_stored [OF items(1), of "json_view meta"] by (simp add: items(2) merged_incr)
  ultimately have "readSegmentsFromManifest sha256 d' M' JNull = Inr (map (relabel (json_view meta)) rs)"
    by (auto simp: read_manifest_records)
  then have "read_dir sha256 d' (JStr s) (JStr t) JNull = Inr (Some (map (relabel (json_view meta)) rs))"
    by (simp add: read_dir_def rm)
  moreover have "wf_dir sha256 s t d'" unfolding wf_dir_def using rm pub(1) seg fs M'_def by auto
  ultimately show ?thesis using mo by blast
qed

text \<open>Appending keeps the old segments, when the new file has a new name.\<close>

lemma entry_for_update:
  assumes "entry_for sha256 fs e items" "f \<notin> fst ` set fs"
  shows "entry_for sha256 (AList.update f c fs) e items"
proof -
  obtain g where g: "js_get e ''file'' = JStr g" "map_of fs g = Some (Regular (encodeRecords items))"
    using assms(1) by (auto simp: entry_for_def)
  then have "g \<noteq> f" using assms(2) by (metis domI dom_map_of_conv_image_fst)
  then show ?thesis using assms(1) g by (auto simp: entry_for_def map_of_update)
qed

lemma readSegment_update:
  assumes "readSegment sha256 fs e = Inr rs" "f \<notin> fst ` set fs"
  shows "readSegment sha256 (AList.update f c fs) e = Inr rs"
proof -
  obtain b where b: "open_segment fs e = Inr b" using assms(1) by (auto simp: readSegment_def rbind_Inr_iff)
  then obtain g where g: "js_get e ''file'' = JStr g"
    by (cases "js_get e ''file''") (simp_all add: open_segment_def)
  then have "map_of fs g \<noteq> None" using b by (cases "map_of fs g") (simp_all add: open_segment_def openRegularFile_def)
  then have "g \<noteq> f" using assms(2) by (auto simp: map_of_eq_None_iff)
  then have "open_segment (AList.update f c fs) e = open_segment fs e" using g by (simp add: open_segment_def map_of_update)
  then show ?thesis using assms(1) by (simp add: readSegment_def)
qed

lemma read_entries_update:
  assumes "read_entries sha256 fs JNull es = Inr rs" "f \<notin> fst ` set fs"
  shows "read_entries sha256 (AList.update f c fs) JNull es = Inr rs"
  using assms(1) by (induction es arbitrary: rs) (auto simp: rbind_Inr_iff readSegment_update [OF _ assms(2)])

lemma read_entries_append:
  "read_entries sha256 fs JNull (es @ es') = rbind (read_entries sha256 fs JNull es)
     (\<lambda>rs. rbind (read_entries sha256 fs JNull es') (\<lambda>rs'. Inr (rs @ rs')))"
  by (induction es) (auto simp: rbind_def split: sum.splits)

text \<open>A value that has been through JSON; so have its parts.\<close>

lemma json_fixed:
  assumes "json_view (JObj ps) = JObj ps" "(k, v) \<in> set ps" shows "v \<noteq> JUndef" "json_view v = v"
proof -
  have e: "map (\<lambda>(k, v). (k, json_view v)) (filter (\<lambda>(k, v). v \<noteq> JUndef) ps) = ps" using assms(1) by simp
  then have "length (filter (\<lambda>(k, v). v \<noteq> JUndef) ps) = length ps" by (metis length_map)
  then have f: "filter (\<lambda>(k, v). v \<noteq> JUndef) ps = ps" by (metis filter_id_conv length_filter_less less_irrefl)
  then show "v \<noteq> JUndef" using assms(2) by (auto simp: filter_id_conv)
  have "map (\<lambda>(k, v). (k, json_view v)) ps = map (\<lambda>x. x) ps" using e f by simp
  then have "(\<lambda>(k, v). (k, json_view v)) (k, v) = (k, v)" using assms(2) unfolding map_eq_conv by blast
  then show "json_view v = v" by simp
qed

text \<open>Adding an entry to a manifest and writing it keeps the other fields and entries.\<close>

lemma extended_manifest:
  assumes "json_view m = m" "js_get m ''segments'' = JArr es" "json_view entry = entry'"
  defines "m' \<equiv> json_view (spread_update m [(''segments'', JArr (es @ [entry]))])"
  shows "js_get m' ''segments'' = JArr (es @ [entry'])" "k \<noteq> ''segments'' \<Longrightarrow> js_get m' k = js_get m k"
proof -
  obtain ps where m: "m = JObj ps" using assms(2) by (cases m) (simp_all add: js_get_def)
  define qs where "qs = AList.update ''segments'' (JArr (es @ [entry])) ps"
  have m': "m' = json_view (JObj qs)" by (simp add: m'_def spread_update_def m qs_def)
  have v: "v \<noteq> JUndef" "json_view v = v" if "(k, v) \<in> set ps" for k v
    using json_fixed [of ps k v] assms(1) that m by simp_all
  have q: "v \<noteq> JUndef" if "(k, v) \<in> set qs" for k v
    using that set_alist_update [of "''segments''" "JArr (es @ [entry])" ps] v(1) by (auto simp: qs_def)
  have get: "js_get (JObj qs) k = (if k = ''segments'' then JArr (es @ [entry]) else js_get m k)" for k
    by (simp add: js_get_def m qs_def map_of_update)
  have "(''segments'', JArr es) \<in> set ps"
    using assms(2) by (auto simp: m js_get_def map_of_SomeD split: option.splits)
  then have "map json_view es = es" using v(2) [of "''segments''" "JArr es"] by simp
  then show "js_get m' ''segments'' = JArr (es @ [entry'])"
    using js_get_view_defined [OF q, where k = "''segments''"] by (simp only: m' get) (simp add: assms(3))
  show "js_get m' k = js_get m k" if "k \<noteq> ''segments''"
  proof (cases "map_of ps k")
    case (Some x)
    then have "json_view x = x" "x \<noteq> JUndef" using v map_of_SomeD by metis+
    then show ?thesis using js_get_view_defined [OF q, where k = k] that Some by (simp only: m' get) (simp add: m js_get_def)
  next
    case None
    then show ?thesis using js_get_view_defined [OF q, where k = k] that by (simp only: m' get) (simp add: m js_get_def)
  qed
qed

text \<open>The log of a directory: the records of its active segments, oldest segment first.\<close>

definition log_of :: "(bytes \<Rightarrow> string) \<Rightarrow> string \<Rightarrow> string \<Rightarrow> segdir \<Rightarrow> seg_error + jsval list" where
  "log_of sha256 s t d = rbind (readManifest d (JStr s) (JStr t)) (\<lambda>found.
     case found of None \<Rightarrow> Inr [] | Some m \<Rightarrow> read_entries sha256 (files d) JNull (segments_of m))"

lemma wf_log:
  assumes "wf_dir sha256 s t d"
  obtains "manifest d = None" "log_of sha256 s t d = Inr []"
  | m raw where "readManifest d (JStr s) (JStr t) = Inr (Some m)" "segments_of m \<noteq> []"
    "read_entries sha256 (files d) JNull (segments_of m) = Inr raw" "log_of sha256 s t d = Inr raw"
proof (cases "manifest d")
  case None
  then have "log_of sha256 s t d = Inr []" by (simp add: log_of_def readManifest_def openRegularFile_def)
  with None that(1) show thesis by blast
next
  case (Some n)
  then obtain m where m: "readManifest d (JStr s) (JStr t) = Inr (Some m)" "segments_of m \<noteq> []"
    "\<forall>e \<in> set (segments_of m). \<exists>items. entry_for sha256 (files d) e items" using assms by (auto simp: wf_dir_def)
  have "\<exists>raw. read_entries sha256 (files d) JNull es = Inr raw" if "set es \<subseteq> set (segments_of m)" for es
    using that
  proof (induction es)
    case (Cons e es)
    then obtain items where "entry_for sha256 (files d) e items" using m(3) by auto
    then show ?case using Cons readSegment_entry by fastforce
  qed simp
  then obtain raw where "read_entries sha256 (files d) JNull (segments_of m) = Inr raw" by blast
  with m that(2) show thesis by (simp add: log_of_def)
qed

text \<open>The manifest an append starts from.\<close>

lemma existing_manifest:
  assumes wf: "wf_dir sha256 s t d" and fd: "readManifest d (JStr s) (JStr t) = Inr found"
  defines "m \<equiv> (case found of Some m \<Rightarrow> m | None \<Rightarrow> new_manifest (JStr s) (JStr t))"
  shows "json_view m = m \<and> js_get m ''version'' = SEGMENT_VERSION \<and> js_get m ''symbol'' = JStr s
    \<and> js_get m ''timeframe'' = JStr t \<and> js_get m ''segments'' = JArr (segments_of m)
    \<and> list_all (valid_entry (JStr s) (JStr t)) (segments_of m)
    \<and> (\<forall>e \<in> set (segments_of m). \<exists>items. entry_for sha256 (files d) e items)
    \<and> log_of sha256 s t d = read_entries sha256 (files d) JNull (segments_of m)"
proof (cases found)
  case None
  then show ?thesis
    using fd by (simp add: m_def new_manifest_def segments_of_def array_items_def SEGMENT_VERSION_def log_of_def)
next
  case (Some x)
  then have fd: "readManifest d (JStr s) (JStr t) = Inr (Some m)" using fd by (simp add: m_def)
  then have "assertManifest m (JStr s) (JStr t) = Inr m" by (auto simp: readManifest_Some)
  then have "js_get m ''version'' = SEGMENT_VERSION" "js_get m ''symbol'' = JStr s" "js_get m ''timeframe'' = JStr t"
    "js_get m ''segments'' = JArr (segments_of m)"
    by (auto simp: assertManifest_def SEGMENT_VERSION_def segments_of_def array_items_def is_array_def
        split: if_splits jsval.splits)
  moreover have "manifest d \<noteq> None" using fd by (auto simp: readManifest_Some)
  ultimately show ?thesis using wf fd readManifest_valid by (auto simp: wf_dir_def log_of_def)
qed

lemma append_dir:
  assumes a: "append_locked sha256 now pid d meta items = Inr (d', res)"
    and sha: "\<And>b. is_sha256 (sha256 b)" and np: "0 \<le> now" "0 \<le> pid" and mo: "meta_of s t meta"
    and it: "good_items items" and wf: "wf_dir sha256 s t d"
    and fresh: "segment_name now pid (sha256 (encodeRecords items)) \<notin> fst ` set (files d)" and f: "fits d'"
  shows "wf_dir sha256 s t d' \<and> manifest d' \<noteq> None
    \<and> (\<exists>raw. log_of sha256 s t d = Inr raw \<and> log_of sha256 s t d' = Inr (raw @ map (stored (json_view meta)) items))"
proof -
  have st: "js_get meta ''symbol'' = JStr s" "js_get meta ''timeframe'' = JStr t" using mo by (auto simp: meta_of_def)
  obtain found where fd: "readManifest d (JStr s) (JStr t) = Inr found"
    using a st by (auto simp: append_locked_def Let_def rbind_Inr_iff)
  define m where "m = (case found of Some m \<Rightarrow> m | None \<Rightarrow> new_manifest (JStr s) (JStr t))"
  obtain d1 entry where p: "publishSegment sha256 now pid d meta items = Inr (d1, entry)"
    and d': "d' = writeManifest d1 (spread_update m [(''segments'', JArr (segments_of m @ [entry]))])"
    using a st fd by (auto simp: append_locked_def Let_def rbind_Inr_iff m_def)
  note pub = published [OF p sha np mo it]
  have old: "json_view m = m" "js_get m ''version'' = SEGMENT_VERSION" "js_get m ''symbol'' = JStr s"
    "js_get m ''timeframe'' = JStr t" "js_get m ''segments'' = JArr (segments_of m)"
    "list_all (valid_entry (JStr s) (JStr t)) (segments_of m)"
    "\<forall>e \<in> set (segments_of m). \<exists>items. entry_for sha256 (files d) e items"
    "log_of sha256 s t d = read_entries sha256 (files d) JNull (segments_of m)"
    using existing_manifest [OF wf fd, folded m_def] by blast+
  define M where "M = spread_update m [(''segments'', JArr (segments_of m @ [entry]))]"
  define M' where "M' = json_view M"
  note ext = extended_manifest [OF old(1,5) refl, where entry = entry, folded M_def, folded M'_def]
  have g: "js_get M' ''version'' = SEGMENT_VERSION" "js_get M' ''symbol'' = JStr s" "js_get M' ''timeframe'' = JStr t"
    using ext(2) old(2-4) by simp_all
  have rm: "readManifest d' (JStr s) (JStr t) = Inr (Some M')"
    using f readManifest_write [of M s t, folded M'_def, OF _ g ext(1), of d1] pub(2) old(6)
    unfolding d' M_def [symmetric] fits_write by simp
  have seg: "segments_of M' = segments_of m @ [json_view entry]" by (simp add: ext(1) segments_of_def array_items_def)
  have fs: "files d' = files d1" by (simp add: d' writeManifest_def)
  obtain raw where raw: "log_of sha256 s t d = Inr raw" using wf by (rule wf_log) auto
  then have "read_entries sha256 (files d') JNull (segments_of m) = Inr raw"
    using read_entries_update [OF _ fresh] old(8) by (simp add: fs pub(5))
  moreover have "read_entries sha256 (files d') JNull [json_view entry] = Inr (map (stored (json_view meta)) items)"
    using readSegment_entry [OF pub(1)] by (simp add: fs pub(3))
  ultimately have "log_of sha256 s t d' = Inr (raw @ map (stored (json_view meta)) items)"
    by (simp add: log_of_def rm seg read_entries_append)
  moreover have "wf_dir sha256 s t d'"
    unfolding wf_dir_def using rm M'_def seg pub(1) old(7) entry_for_update [OF _ fresh] by (auto simp: fs pub(5)) blast
  moreover have "manifest d' \<noteq> None" using rm by (auto simp: readManifest_Some)
  ultimately show ?thesis using raw by blast
qed

section \<open>Reachable stores\<close>

definition finite_prices :: "jsval \<Rightarrow> bool" where
  "finite_prices r = (\<forall>k \<in> set price_fields. js_is_finite (number_or_zero (js_get r k)) \<and> is_double (number_or_zero (js_get r k)))"

definition new_file :: "segdir \<Rightarrow> append_result \<Rightarrow> bool" where
  "new_file d res = (case res of Appended _ f _ \<Rightarrow> f \<notin> fst ` set (files d) | Not_appended \<Rightarrow> True)"

text \<open>
  The stores that appends and compactions of one series produce; what happens to other series
  leaves its directory alone.  File names do not repeat, prices are finite, and the manifest stays
  below its limit.
\<close>

inductive seg_reachable :: "(bytes \<Rightarrow> string) \<Rightarrow> string \<Rightarrow> string \<Rightarrow> segstore \<Rightarrow> bool"
  for sha256 s t where
  empty: "seg_reachable sha256 s t []"
| append: "seg_reachable sha256 s t st \<Longrightarrow> appendSegment sha256 now pid st meta records = Inr (st', res) \<Longrightarrow>
    meta_of s t meta \<Longrightarrow> 0 \<le> now \<Longrightarrow> 0 \<le> pid \<Longrightarrow> list_all finite_prices records \<Longrightarrow> length records < 2 ^ 32 \<Longrightarrow>
    new_file (dir_of st (segment_key (JStr s) (JStr t))) res \<Longrightarrow>
    fits (dir_of st' (segment_key (JStr s) (JStr t))) \<Longrightarrow> seg_reachable sha256 s t st'"
| compact: "seg_reachable sha256 s t st \<Longrightarrow> compactSegments sha256 now pid st (JStr s) (JStr t) = Inr (st', res) \<Longrightarrow>
    0 \<le> now \<Longrightarrow> 0 \<le> pid \<Longrightarrow>
    (\<And>rs. readSegments sha256 st (JStr s) (JStr t) JNull = Inr (Some rs) \<Longrightarrow> length rs < 2 ^ 32) \<Longrightarrow>
    fits (dir_of st' (segment_key (JStr s) (JStr t))) \<Longrightarrow> seg_reachable sha256 s t st'"
| other: "seg_reachable sha256 s t st \<Longrightarrow>
    dir_of st' (segment_key (JStr s) (JStr t)) = dir_of st (segment_key (JStr s) (JStr t)) \<Longrightarrow> seg_reachable sha256 s t st'"

lemma dir_of_update [simp]: "dir_of (AList.update k d st) k = d"
  by (simp add: dir_of_def map_of_update)

lemma normalized_good:
  assumes "normalizedRecords records = Inr items" "items \<noteq> []" "list_all finite_prices records" "length records < 2 ^ 32"
  shows "good_items items"
proof -
  note n = normalized_items [OF assms(1)]
  have "clean_item item" if "item \<in> set items" for item
  proof -
    obtain ms r where i: "item = (ms, r)" by fastforce
    then have r: "r \<in> set records" "record_ms_of r = Some ms" using n(3) that by auto
    then have "\<bar>ms\<bar> \<le> max_time" unfolding record_ms_of_def by (intro date_parse_range)
    then show ?thesis using r(1) assms(3) by (auto simp: i clean_item_def finite_prices_def list_all_iff)
  qed
  moreover have "length items \<le> length records"
  proof -
    have d: "distinct (map fst items)" using n(1) by (simp add: strict_sorted_iff)
    then have "length items = card (fst ` set items)" by (metis distinct_card length_map list.set_map)
    also have "fst ` set items \<subseteq> (the \<circ> record_ms_of) ` set records" using n(3) by force
    then have "card (fst ` set items) \<le> card ((the \<circ> record_ms_of) ` set records)" by (intro card_mono) simp_all
    also have "\<dots> \<le> card (set records)" by (intro card_image_le) simp
    also have "\<dots> \<le> length records" by (rule card_length)
    finally show ?thesis .
  qed
  ultimately show ?thesis using n(1) assms(2,4) by (simp add: good_items_def list_all_iff)
qed

lemma append_cases:
  assumes "appendSegment sha256 now pid st meta records = Inr (st', res)" "meta_of s t meta"
  obtains "st' = st" "res = Not_appended" "normalizedRecords records = Inr []"
  | items d' where "normalizedRecords records = Inr items" "items \<noteq> []"
    "append_locked sha256 now pid (dir_of st (segment_key (JStr s) (JStr t))) meta items = Inr (d', res)"
    "st' = AList.update (segment_key (JStr s) (JStr t)) d' st"
proof -
  obtain items where i: "normalizedRecords records = Inr items"
    using assms(1) by (auto simp: appendSegment_def rbind_Inr_iff)
  have st: "js_get meta ''symbol'' = JStr s" "js_get meta ''timeframe'' = JStr t" using assms(2) by (auto simp: meta_of_def)
  show thesis
  proof (cases "items = []")
    case True
    then show thesis using assms(1) i that(1) by (simp add: appendSegment_def)
  next
    case False
    then obtain d' where "append_locked sha256 now pid (dir_of st (segment_key (JStr s) (JStr t))) meta items = Inr (d', res)"
      "st' = AList.update (segment_key (JStr s) (JStr t)) d' st"
      using assms(1) i st by (auto simp: appendSegment_def Let_def rbind_Inr_iff)
    then show thesis using i False that(2) by blast
  qed
qed

lemma append_names_file:
  assumes "append_locked sha256 now pid d meta items = Inr (d', res)" "meta_of s t meta"
  shows "\<exists>n h. res = Appended n (segment_name now pid (sha256 (encodeRecords items))) h"
proof -
  have "segment_name now pid x \<noteq> []" for x by (simp add: segment_name_def)
  then show ?thesis using assms
    by (auto simp: append_locked_def Let_def rbind_Inr_iff publishSegment_def segment_entry_def text_of_def js_or_def
        split: if_splits option.splits)
qed

lemma append_fresh:
  assumes "append_locked sha256 now pid d meta items = Inr (d', res)" "meta_of s t meta" "new_file d res"
  shows "segment_name now pid (sha256 (encodeRecords items)) \<notin> fst ` set (files d)"
proof -
  obtain n h where "res = Appended n (segment_name now pid (sha256 (encodeRecords items))) h"
    using append_names_file [OF assms(1,2)] by blast
  then show ?thesis using assms(3) by (simp add: new_file_def)
qed

lemma wf_reads:
  assumes "wf_dir sha256 s t d"
  shows "manifest d = None \<and> log_of sha256 s t d = Inr [] \<and> read_dir sha256 d (JStr s) (JStr t) JNull = Inr None
    \<or> (\<exists>raw. log_of sha256 s t d = Inr raw \<and> read_dir sha256 d (JStr s) (JStr t) JNull = Inr (Some (merged raw)))"
  using assms
proof (cases rule: wf_log)
  case 1
  then show ?thesis by (simp add: read_dir_def readManifest_def openRegularFile_def)
next
  case (2 m raw)
  then have "readSegmentsFromManifest sha256 d m JNull = Inr (merged raw)" by (auto simp: read_manifest_records)
  with 2 show ?thesis by (simp add: read_dir_def)
qed

lemma reachable_wf:
  assumes "seg_reachable sha256 s t st" "\<And>b. is_sha256 (sha256 b)"
  shows "wf_dir sha256 s t (dir_of st (segment_key (JStr s) (JStr t)))"
  using assms(1)
proof induction
  case empty
  then show ?case by (simp add: dir_of_def empty_dir_def wf_dir_def)
next
  case (append st now pid meta records st' res)
  from append.hyps(2) append.hyps(3) show ?case
  proof (cases rule: append_cases)
    case 1
    then show ?thesis using append.IH by simp
  next
    case (2 items d')
    note fresh = append_fresh [OF 2(3) append.hyps(3,8)]
    have "wf_dir sha256 s t d'"
      using append_dir [OF 2(3) assms(2) append.hyps(4,5,3) normalized_good [OF 2(1,2) append.hyps(6,7)] append.IH fresh] append.hyps(9)
      by (simp add: 2(4))
    then show ?thesis by (simp add: 2(4))
  qed
next
  case (compact st now pid st' res)
  let ?k = "segment_key (JStr s) (JStr t)"
  obtain d' where d': "compact_locked sha256 now pid (dir_of st ?k) (JStr s) (JStr t) = Inr (d', res)" "st' = AList.update ?k d' st"
    using compact.hyps(2) by (auto simp: compactSegments_def Let_def rbind_Inr_iff)
  show ?case
  proof (cases res)
    case (Compacted n fs)
    obtain rs where rs: "read_dir sha256 (dir_of st ?k) (JStr s) (JStr t) JNull = Inr (Some rs)"
    proof -
      obtain m where "readManifest (dir_of st ?k) (JStr s) (JStr t) = Inr (Some m)"
        using d'(1) [unfolded Compacted] by (rule compact_cases) auto
      then show thesis using wf_reads [OF compact.IH] that by (auto simp: readManifest_Some)
    qed
    show ?thesis
      using compact_dir [OF d'(1) [unfolded Compacted] assms(2) compact.hyps(3,4) rs] compact.hyps(5) [of rs] rs compact.hyps(6)
      by (simp add: d'(2) readSegments_def)
  next
    case (Not_compacted n)
    then have "d' = dir_of st ?k" using d'(1)
      by (auto simp: compact_locked_def rbind_Inr_iff split: option.splits if_splits)
    then show ?thesis using compact.IH by (simp add: d'(2))
  next
    case No_records
    then have "d' = dir_of st ?k" using d'(1)
      by (auto simp: compact_locked_def rbind_Inr_iff split: option.splits if_splits)
    then show ?thesis using compact.IH by (simp add: d'(2))
  qed
next
  case (other st st')
  then show ?case by simp
qed

lemma bar_at_stored:
  "list_all clean_item items \<Longrightarrow> bar_at (map (stored meta) items) ms = map_option (\<lambda>r. stored meta (ms, r)) (map_of items ms)"
proof (induction items)
  case (Cons x items)
  then show ?case using record_ms_stored [of x meta] by (cases x) (simp add: bar_at_def)
qed (simp add: bar_at_def)

lemma entry_reads:
  assumes "entry_for sha256 fs e items"
  obtains rs where "readSegment sha256 fs e = Inr rs" "readLatestSegment sha256 fs e = Inr (last rs)" "incr_times rs" "rs \<noteq> []"
  using that [of "map (stored (js_get e ''meta'')) items"] readSegment_entry [OF assms] readLatestSegment_entry [OF assms]
    incr_stored [OF entry_good [OF assms]] entry_good [OF assms]
  by (simp add: last_map good_items_def)

lemma latest_entries:
  assumes "\<forall>e \<in> set es. \<exists>items. entry_for sha256 fs e items" "read_entries sha256 fs JNull es = Inr raw"
    and "record_ms_of l = Some L"
  shows "latest_of sha256 fs es (Some l) = Inr (Some (newest l raw))"
  using assms
proof (induction es arbitrary: l L raw)
  case (Cons e es)
  obtain items where i: "entry_for sha256 fs e items" using Cons.prems(1) by auto
  obtain rs where rs: "readSegment sha256 fs e = Inr rs" "readLatestSegment sha256 fs e = Inr (last rs)" "incr_times rs" "rs \<noteq> []"
    using i by (rule entry_reads)
  obtain raw' where raw': "read_entries sha256 fs JNull es = Inr raw'" "raw = rs @ raw'"
    using Cons.prems(2) rs(1) by (auto simp: rbind_Inr_iff)
  have nw: "newest l rs = newer l (last rs)" by (rule newest_last [OF rs(3,4) Cons.prems(3)])
  have "\<exists>M. record_ms_of (newer l (last rs)) = Some M"
    using Cons.prems(3) rs(3,4) by (auto simp: newer_def incr_times_def list_all_iff split: option.splits)
  then obtain M where "record_ms_of (newer l (last rs)) = Some M" by blast
  then have "latest_of sha256 fs es (Some (newer l (last rs))) = Inr (Some (newest (newer l (last rs)) raw'))"
    using Cons.IH Cons.prems(1) raw'(1) by simp
  then show ?case using rs(2) nw by (simp add: raw'(2) newest_def)
qed (simp add: newest_def)

lemma latest_all:
  assumes "\<forall>e \<in> set es. \<exists>items. entry_for sha256 fs e items" "read_entries sha256 fs JNull es = Inr raw" "es \<noteq> []"
  shows "latest_of sha256 fs es None = Inr (Some (last (merged raw))) \<and> merged raw \<noteq> []"
proof -
  obtain e es' where es: "es = e # es'" using assms(3) by (cases es) auto
  obtain items where i: "entry_for sha256 fs e items" using assms(1) es by auto
  obtain rs where rs: "readSegment sha256 fs e = Inr rs" "readLatestSegment sha256 fs e = Inr (last rs)" "incr_times rs" "rs \<noteq> []"
    using i by (rule entry_reads)
  obtain raw' where raw': "read_entries sha256 fs JNull es' = Inr raw'" "raw = rs @ raw'"
    using assms(2) rs(1) by (auto simp: es rbind_Inr_iff)
  obtain r rest where r: "rs = r # rest" using rs(4) by (cases rs) auto
  have inc: "incr_times rest" and ms: "record_ms_of r \<noteq> None" using rs(3) by (auto simp: r incr_times_def)
  have l: "newest r rest = last rs"
  proof (cases "rest = []")
    case False
    obtain y z where y: "record_ms_of r = Some y" and z: "record_ms_of (last rest) = Some z"
      using ms inc last_in_set [OF False] by (auto simp: incr_times_def list_all_iff)
    have "y < the (record_ms_of (last rest))" using rs(3) last_in_set [OF False] y by (simp add: r incr_times_def)
    then show ?thesis using newest_last [OF inc False y] False y z by (simp add: r newer_def)
  qed (simp add: r newest_def)
  have "list_all decoded raw" using assms(2) by (rule read_entries_decoded)
  then have all: "list_all (\<lambda>r. record_ms_of r \<noteq> None) (r # rest @ raw')"
    using decoded_object(2) by (auto simp: raw'(2) r list_all_iff)
  obtain L where L: "record_ms_of (last rs) = Some L"
    using rs(3) last_in_set [OF rs(4)] by (auto simp: incr_times_def list_all_iff)
  have "latest_of sha256 fs es None = Inr (Some (newest (last rs) raw'))"
    using latest_entries [OF _ raw'(1) L] assms(1) rs(2) by (simp add: es)
  also have "newest (last rs) raw' = newest r (rest @ raw')" by (simp add: newest_def flip: l)
  finally show ?thesis using last_merged [OF all] by (simp add: raw'(2) r)
qed

section \<open>Properties\<close>


text \<open>
  C2. An append is a prioritised update of the series: afterwards a time that is in the batch reads
  as the batch's first record for it, unless the store already had a record of a provider with a
  higher priority, and every other time reads as before.
\<close>

theorem append_updates:
  assumes "seg_reachable sha256 s t st" "\<And>b. is_sha256 (sha256 b)"
    and "appendSegment sha256 now pid st meta records = Inr (st', res)" "meta_of s t meta" "0 \<le> now" "0 \<le> pid"
    and "list_all finite_prices records" "length records < 2 ^ 32"
    and "new_file (dir_of st (segment_key (JStr s) (JStr t))) res" "fits (dir_of st' (segment_key (JStr s) (JStr t)))"
    and "readSegments sha256 st (JStr s) (JStr t) JNull = Inr old" "res \<noteq> Not_appended"
  shows "\<exists>new. readSegments sha256 st' (JStr s) (JStr t) JNull = Inr (Some new)
    \<and> (\<forall>ms. bar_at new ms = (case bar_at records ms of
         None \<Rightarrow> bar_at (case old of Some rs \<Rightarrow> rs | None \<Rightarrow> []) ms
       | Some r \<Rightarrow> winner_step ms (bar_at (case old of Some rs \<Rightarrow> rs | None \<Rightarrow> []) ms) (stored (json_view meta) (ms, r))))"
  using assms(3,4)
proof (cases rule: append_cases)
  case (2 items d')
  let ?d = "dir_of st (segment_key (JStr s) (JStr t))"
  have wf: "wf_dir sha256 s t ?d" using assms(1,2) by (rule reachable_wf)
  have good: "good_items items" by (rule normalized_good [OF 2(1,2) assms(7,8)])
  from append_dir [OF 2(3) assms(2,5,6,4) good wf append_fresh [OF 2(3) assms(4,9)]] assms(10)
  obtain raw where d': "wf_dir sha256 s t d'" "manifest d' \<noteq> None" "log_of sha256 s t ?d = Inr raw"
    "log_of sha256 s t d' = Inr (raw @ map (stored (json_view meta)) items)" by (auto simp: 2(4))
  define new where "new = merged (raw @ map (stored (json_view meta)) items)"
  have new: "readSegments sha256 st' (JStr s) (JStr t) JNull = Inr (Some new)"
    using wf_reads [OF d'(1)] d'(2,4) by (simp add: 2(4) readSegments_def new_def)
  have old: "bar_at (case old of Some rs \<Rightarrow> rs | None \<Rightarrow> []) ms = bar_winner raw ms" for ms
  proof -
    consider "raw = []" "old = None" | "old = Some (merged raw)"
      using wf_reads [OF wf] d'(3) assms(11) by (auto simp: readSegments_def)
    then show ?thesis by cases (simp_all add: bar_at_merged, simp add: bar_at_def bar_winner_def)
  qed
  have inc: "incr_times (map (stored (json_view meta)) items)" using good by (rule incr_stored)
  have "bar_at (map (stored (json_view meta)) items) ms = map_option (\<lambda>r. stored (json_view meta) (ms, r)) (bar_at records ms)" for ms
    using good bar_at_stored normalized_items(2) [OF 2(1)] by (simp add: good_items_def)
  then have "bar_at new ms = (case bar_at records ms of None \<Rightarrow> bar_winner raw ms
      | Some r \<Rightarrow> winner_step ms (bar_winner raw ms) (stored (json_view meta) (ms, r)))" for ms
    unfolding new_def bar_at_merged winner_append winner_incr [OF inc] by (simp split: option.split)
  then show ?thesis using new unfolding old by blast
qed (use assms(12) in simp)

text \<open>
  C14. Compaction preserves what is read: after a successful compaction the series has the same times
  with the same prices and volumes; only the metadata becomes that of one segment.
\<close>

theorem compaction_preserves:
  assumes "seg_reachable sha256 s t st" "\<And>b. is_sha256 (sha256 b)"
    and "compactSegments sha256 now pid st (JStr s) (JStr t) = Inr (st', Compacted n fs)" "0 \<le> now" "0 \<le> pid"
    and "readSegments sha256 st (JStr s) (JStr t) JNull = Inr (Some rs)" "length rs < 2 ^ 32"
    and "fits (dir_of st' (segment_key (JStr s) (JStr t)))"
  shows "\<exists>meta. meta_of s t meta
    \<and> readSegments sha256 st' (JStr s) (JStr t) JNull = Inr (Some (map (relabel (json_view meta)) rs))"
proof -
  let ?k = "segment_key (JStr s) (JStr t)"
  obtain d' where d': "compact_locked sha256 now pid (dir_of st ?k) (JStr s) (JStr t) = Inr (d', Compacted n fs)"
    "st' = AList.update ?k d' st"
    using assms(3) by (auto simp: compactSegments_def Let_def rbind_Inr_iff)
  show ?thesis
    using compact_dir [OF d'(1) assms(2,4,5) _ assms(7), of] assms(6,8) by (simp add: d'(2) readSegments_def)
qed

section \<open>A run\<close>

definition zero_sha :: "bytes \<Rightarrow> string" where "zero_sha b = replicate 64 CHR ''0''"

definition day_bar :: "string \<Rightarrow> jsval" where
  "day_bar day = JObj [(''timestamp'', JStr day)]"

definition small_meta :: "string \<Rightarrow> jsval" where
  "small_meta provider = JObj [(''provider'', JStr provider), (''symbol'', JStr ''B''), (''timeframe'', JStr ''d'')]"

definition run_entry :: "string \<Rightarrow> string \<Rightarrow> int \<Rightarrow> int \<Rightarrow> nat \<Rightarrow> string \<Rightarrow> jsval" where
  "run_entry name provider first l n created = JObj
     [(''file'', JStr name), (''count'', JNum (Fin (of_nat n))), (''first_ms'', JNum (Fin (of_int first))),
      (''last_ms'', JNum (Fin (of_int l))), (''sha256'', JStr (zero_sha [])), (''meta'', small_meta provider),
      (''created_at'', JStr created)]"

definition run_manifest :: "jsval list \<Rightarrow> jsval" where
  "run_manifest es = JObj [(''version'', SEGMENT_VERSION), (''symbol'', JStr ''B''), (''timeframe'', JStr ''d''), (''segments'', JArr es)]"

definition run_name :: "char \<Rightarrow> string" where
  "run_name c = ''segment-'' @ [c] @ ''-7-000000000000.bin''"

definition run_time :: "char \<Rightarrow> string" where
  "run_time c = ''1970-01-01T00:00:00.00'' @ [c] @ ''Z''"

definition run_items :: "(int \<times> jsval) list" where
  "run_items = [(0, day_bar ''1970-01-01''), (86400000, day_bar ''1970-01-02'')]"

definition run_entries :: "jsval list" where
  "run_entries = [run_entry (run_name CHR ''1'') ''yahoo'' 0 0 1 (run_time CHR ''1''),
     run_entry (run_name CHR ''2'') ''binance'' 86400000 86400000 1 (run_time CHR ''2'')]"

definition run_dir :: "nat \<Rightarrow> segdir" where
  "run_dir n = \<lparr>files = take n [(run_name CHR ''1'', Regular (encodeRecords [run_items ! 0])),
       (run_name CHR ''2'', Regular (encodeRecords [run_items ! 1]))],
     manifest = Some (Regular (manifest_size (run_manifest (take n run_entries)), Some (run_manifest (take n run_entries))))\<rparr>"

lemma run_names:
  "segment_name 1 7 (zero_sha b) = run_name CHR ''1''" "segment_name 2 7 (zero_sha b) = run_name CHR ''2''"
  "segment_name 3 7 (zero_sha b) = run_name CHR ''3''"
proof -
  have z: "zero_sha b = zero_sha []" by (simp add: zero_sha_def)
  show "segment_name 1 7 (zero_sha b) = run_name CHR ''1''" "segment_name 2 7 (zero_sha b) = run_name CHR ''2''"
    "segment_name 3 7 (zero_sha b) = run_name CHR ''3''" unfolding z by code_simp+
qed

lemma run_times:
  "to_iso 1 = Some (run_time CHR ''1'')" "to_iso 2 = Some (run_time CHR ''2'')" "to_iso 3 = Some (run_time CHR ''3'')"
  by code_simp+

lemma run_normalized:
  "normalizedRecords [day_bar ''1970-01-01''] = Inr [run_items ! 0]"
  "normalizedRecords [day_bar ''1970-01-02''] = Inr [run_items ! 1]"
  by code_simp+

lemma run_sizes:
  "manifest_size (run_manifest (take 1 run_entries)) \<le> MANIFEST_MAX_BYTES"
  "manifest_size (run_manifest (take 2 run_entries)) \<le> MANIFEST_MAX_BYTES"
  by code_simp+

lemma run_view: "json_view (run_manifest (take n run_entries)) = run_manifest (take n run_entries)"
proof -
  have "map json_view run_entries = run_entries"
    by (simp add: run_entries_def run_entry_def small_meta_def)
  then have "map json_view (take n run_entries) = take n run_entries" by (simp flip: take_map)
  then show ?thesis by (simp add: run_manifest_def SEGMENT_VERSION_def)
qed

lemma run_manifest_ok:
  "readManifest (run_dir 1) (JStr ''B'') (JStr ''d'') = Inr (Some (run_manifest (take 1 run_entries)))"
  "readManifest (run_dir 2) (JStr ''B'') (JStr ''d'') = Inr (Some (run_manifest (take 2 run_entries)))"
proof -
  have "assertManifest (run_manifest (take 1 run_entries)) (JStr ''B'') (JStr ''d'') = Inr (run_manifest (take 1 run_entries))"
    "assertManifest (run_manifest (take 2 run_entries)) (JStr ''B'') (JStr ''d'') = Inr (run_manifest (take 2 run_entries))"
    by code_simp+
  then show "readManifest (run_dir 1) (JStr ''B'') (JStr ''d'') = Inr (Some (run_manifest (take 1 run_entries)))"
    "readManifest (run_dir 2) (JStr ''B'') (JStr ''d'') = Inr (Some (run_manifest (take 2 run_entries)))"
    using run_sizes unfolding readManifest_Some by (simp_all add: run_dir_def manifest_size_def)
qed

lemma zero_sha_any: "zero_sha b = zero_sha []" by (simp add: zero_sha_def)

lemma run_meta [simp]: "js_get (small_meta p) ''symbol'' = JStr ''B''" "js_get (small_meta p) ''timeframe'' = JStr ''d''"
    "meta_of ''B'' ''d'' (small_meta p)" "spread_update (small_meta p) [] = small_meta p"
    "js_or (small_meta p) v = small_meta p"
  by (simp_all add: small_meta_def meta_of_def spread_update_def js_or_def)

lemma run_publish:
  "publishSegment zero_sha 1 7 d (small_meta ''yahoo'') [run_items ! 0] =
     Inr (d\<lparr>files := AList.update (run_name CHR ''1'') (Regular (encodeRecords [run_items ! 0])) (files d)\<rparr>, run_entries ! 0)"
  "publishSegment zero_sha 2 7 d (small_meta ''binance'') [run_items ! 1] =
     Inr (d\<lparr>files := AList.update (run_name CHR ''2'') (Regular (encodeRecords [run_items ! 1])) (files d)\<rparr>, run_entries ! 1)"
  by (simp_all add: publishSegment_def Let_def run_names run_times segment_entry_def run_entries_def run_entry_def run_items_def
      zero_sha_any [of "encodeRecords _"])

lemma run_take: "take 1 run_entries = [run_entries ! 0]" "take 2 run_entries = [run_entries ! 0, run_entries ! 1]"
  by (simp_all add: run_entries_def)

lemma run_text [simp]: "text_of (js_get (run_entries ! 0) ''file'') = run_name CHR ''1''" "text_of (js_get (run_entries ! 0) ''sha256'') = zero_sha []"
   "text_of (js_get (run_entries ! 1) ''file'') = run_name CHR ''2''" "text_of (js_get (run_entries ! 1) ''sha256'') = zero_sha []"
  by (simp_all add: run_entries_def run_entry_def text_of_def js_or_def run_name_def zero_sha_def)

lemma run_locked:
  "append_locked zero_sha 1 7 empty_dir (small_meta ''yahoo'') [run_items ! 0] = Inr (run_dir 1, Appended 1 (run_name CHR ''1'') (zero_sha []))"
  "append_locked zero_sha 2 7 (run_dir 1) (small_meta ''binance'') [run_items ! 1] = Inr (run_dir 2, Appended 1 (run_name CHR ''2'') (zero_sha []))"
proof -
  have "readManifest empty_dir (JStr ''B'') (JStr ''d'') = Inr None"
    by (simp add: readManifest_def openRegularFile_def empty_dir_def)
  moreover have "spread_update (new_manifest (JStr ''B'') (JStr ''d'')) [(''segments'', JArr [run_entries ! 0])] = run_manifest (take 1 run_entries)"
    by (simp add: spread_update_def new_manifest_def run_manifest_def run_take del: One_nat_def)
  moreover have "segments_of (new_manifest (JStr ''B'') (JStr ''d'')) = []"
    by (simp add: new_manifest_def segments_of_def array_items_def)
  ultimately show "append_locked zero_sha 1 7 empty_dir (small_meta ''yahoo'') [run_items ! 0] = Inr (run_dir 1, Appended 1 (run_name CHR ''1'') (zero_sha []))"
    using run_view [of 1] by (simp add: append_locked_def run_publish writeManifest_def run_dir_def empty_dir_def Let_def)
  have "spread_update (run_manifest (take 1 run_entries)) [(''segments'', JArr (take 1 run_entries @ [run_entries ! 1]))] = run_manifest (take 2 run_entries)"
    by (simp add: spread_update_def run_manifest_def run_take del: One_nat_def)
  moreover have "segments_of (run_manifest (take 1 run_entries)) = take 1 run_entries"
    by (simp add: run_manifest_def segments_of_def array_items_def)
  moreover have "run_name CHR ''1'' \<noteq> run_name CHR ''2''" by (simp add: run_name_def)
  ultimately show "append_locked zero_sha 2 7 (run_dir 1) (small_meta ''binance'') [run_items ! 1] = Inr (run_dir 2, Appended 1 (run_name CHR ''2'') (zero_sha []))"
    using run_view [of 2] run_manifest_ok(1)
    by (simp add: append_locked_def run_publish writeManifest_def Let_def del: One_nat_def) (simp add: run_dir_def)
qed

definition run_store :: "nat \<Rightarrow> segstore" where
  "run_store n = [(segment_key (JStr ''B'') (JStr ''d''), run_dir n)]"

lemma run_appends:
  "appendSegment zero_sha 1 7 [] (small_meta ''yahoo'') [day_bar ''1970-01-01''] = Inr (run_store 1, Appended 1 (run_name CHR ''1'') (zero_sha []))"
  "appendSegment zero_sha 2 7 (run_store 1) (small_meta ''binance'') [day_bar ''1970-01-02''] = Inr (run_store 2, Appended 1 (run_name CHR ''2'') (zero_sha []))"
  using run_locked by (simp_all add: appendSegment_def run_normalized dir_of_def run_store_def Let_def)

lemma zero_sha_ok: "is_sha256 (zero_sha b)"
  by (subst zero_sha_any) code_simp

lemma run_finite: "list_all finite_prices [day_bar day]"
  by (simp add: finite_prices_def price_fields_def day_bar_def number_or_zero_def js_to_number_def is_double_def)

lemma run_fits: "fits (run_dir 1)" "fits (run_dir 2)"
  using run_sizes by (simp_all add: fits_def run_dir_def)

lemma run_reachable: "seg_reachable zero_sha ''B'' ''d'' (run_store 1)" "seg_reachable zero_sha ''B'' ''d'' (run_store 2)"
proof -
  have n: "new_file (dir_of [] k) (Appended 1 (run_name CHR ''1'') (zero_sha []))"
    "new_file (run_dir 1) (Appended 1 (run_name CHR ''2'') (zero_sha []))" for k
    by (simp_all add: new_file_def dir_of_def empty_dir_def run_dir_def run_name_def)
  have d: "dir_of (run_store k) (segment_key (JStr ''B'') (JStr ''d'')) = run_dir k" for k by (simp add: dir_of_def run_store_def)
  show 1: "seg_reachable zero_sha ''B'' ''d'' (run_store 1)"
    by (rule seg_reachable.append [OF seg_reachable.empty run_appends(1) run_meta(3) _ _ run_finite _ n(1)]) (simp_all only: d run_fits, simp_all)
  show "seg_reachable zero_sha ''B'' ''d'' (run_store 2)"
    by (rule seg_reachable.append [OF 1 run_appends(2) run_meta(3) _ _ run_finite _ n(2) [folded d]]) (simp_all only: d run_fits, simp_all)
qed

text \<open>The third step compacts the two segments into one.\<close>

definition run_compact :: jsval where
  "run_compact = JObj [(''version'', SEGMENT_VERSION), (''symbol'', JStr ''B''), (''timeframe'', JStr ''d''),
     (''segments'', JArr [run_entry (run_name CHR ''3'') ''yahoo'' 0 86400000 2 (run_time CHR ''3'')]),
     (''compacted_at'', JStr (run_time CHR ''3''))]"

lemma run_clean: "clean_item (run_items ! 0)" "clean_item (run_items ! 1)"
  by (simp_all add: clean_item_def run_items_def price_fields_def day_bar_def number_or_zero_def js_to_number_def is_double_def max_time_def)

lemma run_entry_for:
  "entry_for zero_sha (files (run_dir 2)) (run_entries ! 0) [run_items ! 0]"
  "entry_for zero_sha (files (run_dir 2)) (run_entries ! 1) [run_items ! 1]"
  using run_clean zero_sha_any [of "encodeRecords _"]
  by (simp_all add: entry_for_def run_dir_def run_entries_def run_entry_def run_name_def small_meta_def) (simp_all add: run_items_def)

definition run_records :: "jsval list" where
  "run_records = [stored (small_meta ''yahoo'') (run_items ! 0), stored (small_meta ''binance'') (run_items ! 1)]"

lemma run_fields:
  "segments_of (run_manifest (take 2 run_entries)) = [run_entries ! 0, run_entries ! 1]"
  "js_get (run_entries ! 0) ''meta'' = small_meta ''yahoo''" "js_get (run_entries ! 1) ''meta'' = small_meta ''binance''"
  "js_get (run_entries ! 0) ''file'' = JStr (run_name CHR ''1'')" "js_get (run_entries ! 1) ''file'' = JStr (run_name CHR ''2'')"
  by (simp_all add: run_manifest_def segments_of_def array_items_def run_take del: One_nat_def)
     (simp_all add: run_entries_def run_entry_def)

lemma run_log: "read_entries zero_sha (files (run_dir 2)) JNull (segments_of (run_manifest (take 2 run_entries))) = Inr run_records"
  using readSegment_entry [OF run_entry_for(1)] readSegment_entry [OF run_entry_for(2)]
  by (simp add: run_fields run_records_def del: One_nat_def)

lemma run_records_ms: "map record_ms_of run_records = [Some 0, Some 86400000]"
  using record_ms_stored [OF run_clean(1)] record_ms_stored [OF run_clean(2)] by (simp add: run_records_def run_items_def)

lemma run_records_incr: "incr_times run_records"
  using run_records_ms by (simp add: incr_times_def run_records_def)

lemma run_dir_read: "readSegmentsFromManifest zero_sha (run_dir 2) (run_manifest (take 2 run_entries)) JNull = Inr run_records"
  using run_log merged_incr [OF run_records_incr] by (auto simp: read_manifest_records)

lemma run_store_dir: "dir_of (run_store n) (segment_key (JStr ''B'') (JStr ''d'')) = run_dir n"
  by (simp add: dir_of_def run_store_def)

lemma run_read: "readSegments zero_sha (run_store 2) (JStr ''B'') (JStr ''d'') JNull = Inr (Some run_records)"
  using run_dir_read run_manifest_ok(2) by (simp add: readSegments_def read_dir_def run_store_dir)

lemma run_compacts:
  "\<exists>st. compactSegments zero_sha 3 7 (run_store 2) (JStr ''B'') (JStr ''d'')
     = Inr (st, Compacted 2 [JStr (run_name CHR ''1''), JStr (run_name CHR ''2'')])
   \<and> fits (dir_of st (segment_key (JStr ''B'') (JStr ''d'')))"
proof -
  let ?items = "[(0, run_records ! 0), (86400000, run_records ! 1)]"
  have ne: "run_records \<noteq> []" by (simp add: run_records_def)
  have "normalizedRecords run_records = Inr (map (\<lambda>r. (the (record_ms_of r), r)) run_records)"
    using compaction_items(1) [OF read_entries_decoded [OF run_log] run_records_incr ne] by (simp add: run_records_def)
  then have nr: "normalizedRecords run_records = Inr ?items" using run_records_ms by (simp add: run_records_def)
  define d where "d = run_dir 2\<lparr>files := AList.update (run_name CHR ''3'') (Regular (encodeRecords ?items)) (files (run_dir 2))\<rparr>"
  have p: "publishSegment zero_sha 3 7 (run_dir 2) (small_meta ''yahoo'') ?items
      = Inr (d, run_entry (run_name CHR ''3'') ''yahoo'' 0 86400000 2 (run_time CHR ''3''))"
    by (simp add: publishSegment_def Let_def run_names run_times segment_entry_def run_entry_def d_def
        zero_sha_any [of "encodeRecords _"])
  have "compact_locked zero_sha 3 7 (run_dir 2) (JStr ''B'') (JStr ''d'')
      = Inr (writeManifest d run_compact, Compacted 2 [JStr (run_name CHR ''1''), JStr (run_name CHR ''2'')])"
    unfolding compact_locked_def run_manifest_ok(2)
    by (simp add: run_dir_read nr ne run_fields p run_times run_compact_def opt_value_def del: One_nat_def)
  moreover have "manifest_size run_compact \<le> MANIFEST_MAX_BYTES" by code_simp
  ultimately show ?thesis by (simp add: compactSegments_def Let_def run_store_def dir_of_def fits_write)
qed


theorem append_updates_witness:
  "\<exists>new. readSegments zero_sha (run_store 2) (JStr ''B'') (JStr ''d'') JNull = Inr (Some new)
    \<and> bar_at new 86400000 = Some (stored (small_meta ''binance'') (86400000, day_bar ''1970-01-02''))
    \<and> (\<exists>old. readSegments zero_sha (run_store 1) (JStr ''B'') (JStr ''d'') JNull = Inr old
      \<and> bar_at new 0 = bar_at (case old of Some rs \<Rightarrow> rs | None \<Rightarrow> []) 0)"
proof -
  have "wf_dir zero_sha ''B'' ''d'' (run_dir 1)"
    using reachable_wf [OF run_reachable(1) zero_sha_ok] by (simp add: run_store_dir)
  then obtain old where "read_dir zero_sha (run_dir 1) (JStr ''B'') (JStr ''d'') JNull = Inr old" using wf_reads by blast
  then have old: "readSegments zero_sha (run_store 1) (JStr ''B'') (JStr ''d'') JNull = Inr old"
    by (simp add: readSegments_def run_store_dir)
  have n: "new_file (dir_of (run_store 1) (segment_key (JStr ''B'') (JStr ''d''))) (Appended 1 (run_name CHR ''2'') (zero_sha []))"
    by (simp add: new_file_def run_store_dir run_dir_def run_name_def)
  have f: "fits (dir_of (run_store 2) (segment_key (JStr ''B'') (JStr ''d'')))" by (simp add: run_store_dir run_fits)
  obtain new where new: "readSegments zero_sha (run_store 2) (JStr ''B'') (JStr ''d'') JNull = Inr (Some new)"
    "\<forall>ms. bar_at new ms = (case bar_at [day_bar ''1970-01-02''] ms of
         None \<Rightarrow> bar_at (case old of Some rs \<Rightarrow> rs | None \<Rightarrow> []) ms
       | Some r \<Rightarrow> winner_step ms (bar_at (case old of Some rs \<Rightarrow> rs | None \<Rightarrow> []) ms) (stored (json_view (small_meta ''binance'')) (ms, r)))"
    using append_updates [OF run_reachable(1) zero_sha_ok run_appends(2) run_meta(3) _ _ run_finite _ n f old, simplified] by blast
  have "record_ms_of (day_bar ''1970-01-02'') = Some 86400000" by code_simp
  then have "bar_at new 0 = bar_at (case old of Some rs \<Rightarrow> rs | None \<Rightarrow> []) 0" using new(2) by (simp add: bar_at_def)
  moreover have "bar_at new 86400000 = Some (stored (small_meta ''binance'') (86400000, day_bar ''1970-01-02''))"
    using new(1) run_read run_records_ms by (auto simp: run_records_def run_items_def bar_at_def)
  ultimately show ?thesis using new(1) old by blast
qed

theorem compaction_preserves_witness:
  "\<exists>st meta. compactSegments zero_sha 3 7 (run_store 2) (JStr ''B'') (JStr ''d'')
      = Inr (st, Compacted 2 [JStr (run_name CHR ''1''), JStr (run_name CHR ''2'')])
    \<and> readSegments zero_sha st (JStr ''B'') (JStr ''d'') JNull = Inr (Some (map (relabel (json_view meta)) run_records))"
proof -
  obtain st where st: "compactSegments zero_sha 3 7 (run_store 2) (JStr ''B'') (JStr ''d'')
      = Inr (st, Compacted 2 [JStr (run_name CHR ''1''), JStr (run_name CHR ''2'')])"
    "fits (dir_of st (segment_key (JStr ''B'') (JStr ''d'')))" using run_compacts by blast
  show ?thesis
    using compaction_preserves [OF run_reachable(2) zero_sha_ok st(1) _ _ run_read _ st(2)] st(1) by (auto simp: run_records_def)
qed

section \<open>Where a store stops being readable\<close>

text \<open>A price that is an infinite number is written, and no read accepts the segment any more.\<close>

lemma infinite_price_unreadable:
  assumes "js_to_number (js_get r ''open'') = PInf"
  shows "decodeRecord (encodeRecords [(ms, r)]) HEADER_BYTES meta = Inl (Integrity ''invalid_segment_values'')"
proof -
  have "drop HEADER_BYTES (encodeRecords [(ms, r)]) = concat (map write_double (item_values (ms, r)))"
    using drop_encodeRecords [of 0 "[(ms, r)]"] encode_item_fields [of ms r] by (simp add: item_values_def)
  moreover have "item_values (ms, r) ! 1 = PInf" "length (item_values (ms, r)) = 6"
    using assms by (simp_all add: item_values_def price_fields_def number_or_zero_def)
  ultimately have "read_double (encodeRecords [(ms, r)]) (HEADER_BYTES + 1 * 8) = PInf"
    unfolding read_double_drop using read_block [of 1 "item_values (ms, r)" "[]"] by (simp add: is_double_def)
  moreover have "Suc 0 \<in> set [0..<6]" by simp
  ultimately have "\<not> list_all js_is_finite (map (\<lambda>i. read_double (encodeRecords [(ms, r)]) (HEADER_BYTES + i * 8)) [0..<6])"
    unfolding list_all_iff by (auto simp: image_iff js_is_finite_def intro!: bexI [of _ "Suc 0"])
  then show ?thesis by (simp add: decodeRecord_def)
qed

text \<open>A manifest over the limit locks the series out of every operation.\<close>

lemma oversized_manifest_locks:
  assumes "manifest d = Some (Regular (sz, p))" "MANIFEST_MAX_BYTES < sz"
  shows "read_dir sha256 d symbol timeframe sinceMs = Inl (Integrity ''invalid_manifest_size'')"
    "compact_locked sha256 now pid d symbol timeframe = Inl (Integrity ''invalid_manifest_size'')"
    "append_locked sha256 now pid d meta items = Inl (Integrity ''invalid_manifest_size'')"
proof -
  have "readManifest d symbol timeframe = Inl (Integrity ''invalid_manifest_size'')" for symbol timeframe
    using assms by (simp add: readManifest_def openRegularFile_def)
  then show "read_dir sha256 d symbol timeframe sinceMs = Inl (Integrity ''invalid_manifest_size'')"
    "compact_locked sha256 now pid d symbol timeframe = Inl (Integrity ''invalid_manifest_size'')"
    "append_locked sha256 now pid d meta items = Inl (Integrity ''invalid_manifest_size'')"
    by (simp_all add: read_dir_def compact_locked_def append_locked_def)
qed

end
