(* ===== verification/Alpaca_State.thy ===== *)
theory Alpaca_State
  imports Timeframes Js_Json
begin

text \<open>
  The state file of the Alpaca bot and the budget of its entries:
  \<^verbatim>\<open>shared/lib/runtime/alpaca_bot_state.js\<close>, \<^verbatim>\<open>shared/lib/runtime/alpaca_intraday_policy.js\<close> and the
  reservation of an entry in \<^verbatim>\<open>frontend/cli-tui/commands/strategies/strategy.js\<close>.  The state is the
  object the file holds; the file is what \<^verbatim>\<open>JSON.parse\<close> makes of its text.  The clock is an argument
  and one operation runs at one time; whether the process lock was obtained (the subject of
  \<^verbatim>\<open>File_Lock\<close>) is an argument, and file operations succeed.
\<close>

datatype bot_error = State_error string | Policy_error string | Bad_value

text \<open>\<^verbatim>\<open>new Date().toISOString()\<close>; the clock is within the range of dates.\<close>

definition clock_iso :: "int \<Rightarrow> jsval" where
  "clock_iso now = (case to_iso now of Some s \<Rightarrow> JStr s | None \<Rightarrow> JUndef)"

datatype state_file = No_file | Unparsable | Parsed jsval

section \<open>The state\<close>

definition DEFAULT_CONFIG :: jsval where
  "DEFAULT_CONFIG = JObj [(''enabled'', JBool True), (''defaultStopLossPct'', JNum (fl (8 / 100))),
     (''defaultTakeProfitPct'', JNum (fl (15 / 100))), (''maxPositions'', JNum (Fin 10))]"

definition MAX_ENTRY_INTENTS :: nat where "MAX_ENTRY_INTENTS = 500"
definition ENTRY_INTENT_RETENTION_DAYS :: int where "ENTRY_INTENT_RETENTION_DAYS = 14"

definition DEFAULT_STATE :: jsval where
  "DEFAULT_STATE = JObj [(''version'', JNum (Fin 1)), (''config'', DEFAULT_CONFIG), (''positions'', JArr []),
     (''cycleHistory'', JArr []), (''entryIntents'', JArr []), (''lastCycleAt'', JNull)]"

text \<open>The pattern \<^verbatim>\<open>/^\d{4}-\d{2}-\d{2}$/\<close>.\<close>

definition is_day_text :: "string \<Rightarrow> bool" where
  "is_day_text s = (length s = 10 \<and> s ! 4 = CHR ''-'' \<and> s ! 7 = CHR ''-''
     \<and> list_all is_digit (take 4 s @ take 2 (drop 5 s) @ drop 8 s))"

definition intent_statuses :: "jsval list" where
  "intent_statuses = [JStr ''reserved'', JStr ''submitted'', JStr ''confirmed'', JStr ''released'']"

definition keep_intent :: "int \<Rightarrow> jsval \<Rightarrow> bool" where
  "keep_intent now i = (truthy i \<and> typeof_object i \<and> is_string (js_get i ''signalId'')
     \<and> is_day_text (text_of (js_get i ''utcDay''))
     \<and> js_is_finite (js_to_number (js_get i ''reservedNotional''))
     \<and> js_lt (Fin 0) (js_to_number (js_get i ''reservedNotional''))
     \<and> js_get i ''status'' \<in> set intent_statuses
     \<and> (case date_parse (js_to_string (js_get i ''createdAt'')) of None \<Rightarrow> False
        | Some t \<Rightarrow> now - ENTRY_INTENT_RETENTION_DAYS * ms_per_day \<le> t))"

definition normalizeEntryIntents :: "jsval \<Rightarrow> int \<Rightarrow> jsval list" where
  "normalizeEntryIntents raw now = slice_last MAX_ENTRY_INTENTS (filter (keep_intent now) (array_items raw))"

definition bad_intent :: "jsval \<Rightarrow> bool" where
  "bad_intent i = (\<not> truthy i \<or> \<not> typeof_object i \<or> js_trim (text_of (js_get i ''signalId'')) = []
     \<or> \<not> is_day_text (text_of (js_get i ''utcDay''))
     \<or> \<not> js_is_finite (js_to_number (js_get i ''reservedNotional''))
     \<or> js_le (js_to_number (js_get i ''reservedNotional'')) (Fin 0)
     \<or> js_get i ''status'' \<notin> set intent_statuses)"

definition bad_position :: "jsval \<Rightarrow> bool" where
  "bad_position p = (\<not> truthy p \<or> \<not> typeof_object p \<or> js_trim (text_of (js_get p ''positionId'')) = []
     \<or> js_trim (text_of (js_get p ''symbol'')) = []
     \<or> \<not> js_is_finite (js_to_number (js_get p ''qty'')) \<or> js_le (js_to_number (js_get p ''qty'')) (Fin 0))"

definition assertStateShape :: "jsval \<Rightarrow> bot_error + unit" where
  "assertStateShape raw =
    (let version = js_get raw ''version''; config = js_get raw ''config''; poss = js_get raw ''positions'';
       history = js_get raw ''cycleHistory''; intents = js_get raw ''entryIntents'' in
     if \<not> truthy raw \<or> \<not> typeof_object raw \<or> is_array raw
       \<or> version \<noteq> JUndef \<and> version \<noteq> JNum (Fin 1)
       \<or> config \<noteq> JUndef \<and> (\<not> truthy config \<or> \<not> typeof_object config \<or> is_array config)
       \<or> poss \<noteq> JUndef \<and> \<not> is_array poss
       \<or> history \<noteq> JUndef \<and> \<not> is_array history
       \<or> intents \<noteq> JUndef \<and> \<not> is_array intents
       \<or> is_array intents \<and> list_ex bad_intent (array_items intents)
       \<or> is_array poss \<and> list_ex bad_position (array_items poss)
     then Inl (State_error ''alpaca_bot_state_invalid'') else Inr ())"

definition loadState :: "int \<Rightarrow> state_file \<Rightarrow> bot_error + jsval" where
  "loadState now f = (case f of
     No_file \<Rightarrow> Inr DEFAULT_STATE
   | Unparsable \<Rightarrow> Inl (State_error ''alpaca_bot_state_corrupt'')
   | Parsed raw \<Rightarrow> rbind (assertStateShape raw) (\<lambda>_. Inr (spread_update DEFAULT_STATE (object_entries raw @
       [(''config'', spread_update DEFAULT_CONFIG (object_entries (js_or (js_get raw ''config'') (JObj [])))),
        (''positions'', js_or (js_get raw ''positions'') (JArr [])),
        (''cycleHistory'', js_or (js_get raw ''cycleHistory'') (JArr [])),
        (''entryIntents'', JArr (normalizeEntryIntents (js_get raw ''entryIntents'') now))]))))"

definition saveState :: "jsval \<Rightarrow> bot_error + state_file" where
  "saveState state = rbind (assertStateShape state) (\<lambda>_. Inr (Parsed (json_view state)))"

definition intents_of :: "jsval \<Rightarrow> jsval list" where
  "intents_of state = array_items (js_get state ''entryIntents'')"

definition set_intents :: "jsval \<Rightarrow> jsval list \<Rightarrow> jsval" where
  "set_intents state xs = spread_update state [(''entryIntents'', JArr xs)]"

definition new_intent :: "jsval \<Rightarrow> jsval \<Rightarrow> jsval \<Rightarrow> int \<Rightarrow> jsval" where
  "new_intent signalId utcDay reservedNotional now = JObj
     [(''signalId'', JStr (js_to_string signalId)), (''utcDay'', JStr (js_to_string utcDay)),
      (''reservedNotional'', JNum (js_to_number reservedNotional)), (''status'', JStr ''reserved''),
      (''createdAt'', clock_iso now)]"

text \<open>The new state and the new intent, or the intent that already exists.\<close>

definition reserveEntryIntent :: "int \<Rightarrow> jsval \<Rightarrow> jsval \<Rightarrow> jsval \<Rightarrow> jsval \<Rightarrow> jsval + jsval \<times> jsval" where
  "reserveEntryIntent now state signalId utcDay reservedNotional =
    (case List.find (\<lambda>e. strict_eq (js_get e ''signalId'') signalId \<and> js_get e ''status'' \<noteq> JStr ''released'') (intents_of state) of
       Some existing \<Rightarrow> Inl existing
     | None \<Rightarrow> let entry = new_intent signalId utcDay reservedNotional now in
         Inr (set_intents state (normalizeEntryIntents (JArr (intents_of state @ [entry])) now), entry))"

fun update_first :: "('a \<Rightarrow> bool) \<Rightarrow> ('a \<Rightarrow> 'a) \<Rightarrow> 'a list \<Rightarrow> 'a list" where
  "update_first p f [] = []"
| "update_first p f (x # xs) = (if p x then f x # xs else x # update_first p f xs)"

definition setEntryIntentStatus :: "int \<Rightarrow> jsval \<Rightarrow> jsval \<Rightarrow> jsval \<Rightarrow> bot_error + jsval" where
  "setEntryIntentStatus now state signalId status =
    (let same = (\<lambda>e. strict_eq (js_get e ''signalId'') signalId);
       change = (\<lambda>e. spread_update e [(''status'', status), (''updatedAt'', clock_iso now)]) in
     if \<not> list_ex same (intents_of state) then Inl (State_error ''alpaca_bot_entry_intent_missing'')
     else Inr (set_intents state (normalizeEntryIntents (JArr (update_first same change (intents_of state))) now)))"

section \<open>The budget of entries\<close>

definition ALL_SUPPORTED_TIMEFRAMES :: "string list" where
  "ALL_SUPPORTED_TIMEFRAMES = [''1m'', ''5m'', ''15m'', ''1h'', ''1d'']"

definition parseAllowedTimeframes :: "jsval \<Rightarrow> bot_error + string list" where
  "parseAllowedTimeframes value0 =
    (let value1 = js_default value0 (JArr (map JStr ALL_SUPPORTED_TIMEFRAMES));
       values = (case value1 of JArr xs \<Rightarrow> map js_to_string xs | v \<Rightarrow> js_split CHR '','' (js_to_string v));
       normalized = js_uniq (filter (\<lambda>s. s \<noteq> []) (map js_trim values)) in
     if normalized = [] \<or> list_ex (\<lambda>s. s \<notin> set ALL_SUPPORTED_TIMEFRAMES) normalized
     then Inl (Policy_error ''alpaca_paper_allowed_timeframes_invalid'') else Inr normalized)"

definition positiveLimit :: "jsval \<Rightarrow> string \<Rightarrow> bot_error + jsnum" where
  "positiveLimit v name = (let n = js_to_number v in
     if \<not> js_is_finite n \<or> js_le n (Fin 0) then Inl (Policy_error (name @ ''_invalid'')) else Inr n)"

definition utcDay :: "jsval \<Rightarrow> bot_error + string" where
  "utcDay v = (case Option.bind (date_time v) to_iso of
     None \<Rightarrow> Inl (Policy_error ''alpaca_paper_timestamp_invalid'') | Some s \<Rightarrow> Inr (take 10 s))"

definition live_intent :: "string \<Rightarrow> jsval \<Rightarrow> bool" where
  "live_intent day i = (js_get i ''utcDay'' = JStr day
     \<and> js_get i ''status'' \<in> {JStr ''reserved'', JStr ''submitted'', JStr ''confirmed''})"

definition usedEntryNotional :: "jsval list \<Rightarrow> string \<Rightarrow> jsnum" where
  "usedEntryNotional entryIntents day = foldl (\<lambda>total i.
     if live_intent day i then js_add total (js_to_number (js_or (js_get i ''reservedNotional'') (JNum (Fin 0)))) else total)
     (Fin 0) entryIntents"

record budget =
  budget_ok :: bool
  budget_day :: string
  usedNotional :: jsnum
  remainingNotional :: jsnum
  approvedNotional :: jsnum

definition decideEntryBudget ::
  "jsval \<Rightarrow> jsval \<Rightarrow> jsval \<Rightarrow> jsval list \<Rightarrow> jsval \<Rightarrow> bot_error + budget" where
  "decideEntryBudget requestedNotional perOrderMaxNotional dailyMaxNotional entryIntents now =
    rbind (positiveLimit requestedNotional ''alpaca_paper_requested_notional'') (\<lambda>requested.
    rbind (positiveLimit perOrderMaxNotional ''alpaca_paper_per_order_notional'') (\<lambda>perOrder.
    rbind (positiveLimit dailyMaxNotional ''alpaca_paper_daily_notional'') (\<lambda>daily.
    rbind (utcDay now) (\<lambda>day.
      let used = usedEntryNotional entryIntents day; remaining = js_max (Fin 0) (js_sub daily used);
        approved = js_min requested (js_min perOrder remaining) in
      Inr \<lparr>budget_ok = js_lt (Fin 0) approved, budget_day = day, usedNotional = used,
        remainingNotional = remaining, approvedNotional = approved\<rparr>))))"

section \<open>Reservations of the automation pass\<close>

datatype reservation = Lock_held | Exhausted budget | Already_reserved jsval | Reserved budget jsval

definition reserveAlpacaPaperEntry ::
  "bool \<Rightarrow> int \<Rightarrow> state_file \<Rightarrow> jsval \<Rightarrow> jsval \<Rightarrow> jsval \<Rightarrow> jsval \<Rightarrow> bot_error + state_file \<times> reservation" where
  "reserveAlpacaPaperEntry lock now f signalId requestedNotional perOrderMaxNotional dailyMaxNotional =
    (if \<not> lock then Inr (f, Lock_held)
     else rbind (loadState now f) (\<lambda>state.
       rbind (decideEntryBudget requestedNotional perOrderMaxNotional dailyMaxNotional (intents_of state) (clock_iso now)) (\<lambda>b.
         if \<not> budget_ok b then Inr (f, Exhausted b)
         else case reserveEntryIntent now state signalId (JStr (budget_day b)) (JNum (approvedNotional b)) of
           Inl existing \<Rightarrow> Inr (f, Already_reserved existing)
         | Inr (state', entry) \<Rightarrow> rbind (saveState state') (\<lambda>f'. Inr (f', Reserved b entry)))))"

definition updateAlpacaPaperEntryIntent ::
  "bool \<Rightarrow> int \<Rightarrow> state_file \<Rightarrow> jsval \<Rightarrow> jsval \<Rightarrow> bot_error + state_file \<times> bool" where
  "updateAlpacaPaperEntryIntent lock now f signalId status =
    (if \<not> lock then Inr (f, False)
     else rbind (loadState now f) (\<lambda>state.
       rbind (setEntryIntentStatus now state signalId status) (\<lambda>state'.
         rbind (saveState state') (\<lambda>f'. Inr (f', True)))))"

section \<open>Rounding errors of the budget\<close>

lemma fl_abs_close:
  assumes "0 < s" shows "\<bar>fl_abs s - s\<bar> \<le> s / 2 ^ 53 + pow2 (- 1074)"
proof (cases "pow2 (- 1022) \<le> s")
  case True
  then show ?thesis using fl_abs_rel [OF True] pow2_pos [of "- 1074"] by linarith
next
  case False
  have "ilog2 s < - 1022"
  proof (rule ccontr)
    assume "\<not> ilog2 s < - 1022"
    then have "pow2 (- 1022) \<le> pow2 (ilog2 s)" by (intro pow2_mono) simp
    with False ilog2_bounds(1) [OF assms] show False by linarith
  qed
  then have e: "fl_exp s = - 1074" by (simp add: fl_exp_def)
  define p where "p = pow2 (- 1074)"
  have p: "0 < p" by (simp add: p_def pow2_pos)
  have "\<bar>of_int (rnd_even (s / p)) - s / p\<bar> \<le> 1 / 2" by (rule rnd_even_dist)
  then have "\<bar>(of_int (rnd_even (s / p)) - s / p) * p\<bar> \<le> 1 / 2 * p"
    using p by (simp add: abs_mult mult_right_mono)
  moreover have "(of_int (rnd_even (s / p)) - s / p) * p = fl_abs s - s"
    using p by (simp add: fl_abs_def e p_def [symmetric] left_diff_distrib)
  moreover have "0 \<le> s / 2 ^ 53" using assms by simp
  ultimately show ?thesis using p by (simp add: p_def [symmetric])
qed

lemma fl_close:
  assumes "0 \<le> s"
  shows "fl s = PInf \<or> (\<exists>q. fl s = Fin q \<and> 0 \<le> q \<and> \<bar>q - s\<bar> \<le> s / 2 ^ 53 + pow2 (- 1074))"
proof (cases "s = 0")
  case False
  then have "0 < s" using assms by simp
  then show ?thesis using fl_abs_close [of s] fl_abs_nonneg [of s] by (simp add: fl_alt Let_def)
qed (simp add: less_imp_le [OF pow2_pos])

definition amount :: "jsval \<Rightarrow> rat" where
  "amount i = (case js_to_number (js_get i ''reservedNotional'') of Fin r \<Rightarrow> r | _ \<Rightarrow> 0)"

definition live_total :: "jsval list \<Rightarrow> string \<Rightarrow> rat" where
  "live_total xs day = sum_list (map amount (filter (live_intent day) xs))"

lemma kept_amount:
  assumes "keep_intent now i"
  shows "js_to_number (js_or (js_get i ''reservedNotional'') (JNum (Fin 0))) = Fin (amount i)" "0 < amount i"
proof -
  obtain r where r: "js_to_number (js_get i ''reservedNotional'') = Fin r" "0 < r"
    using assms by (auto simp: keep_intent_def)
  have "truthy (js_get i ''reservedNotional'')"
    using r by (cases "js_get i ''reservedNotional''") (auto simp: js_to_number_def string_to_number_def js_trim_def Let_def split: if_splits)
  then show "js_to_number (js_or (js_get i ''reservedNotional'') (JNum (Fin 0))) = Fin (amount i)" "0 < amount i"
    using r by (simp_all add: js_or_def amount_def)
qed

definition eps :: rat where "eps = 1 / 2 ^ 52"

lemma sum_step:
  fixes S u x t n q :: rat
  assumes "0 \<le> S" "0 < x" "0 \<le> t" "0 \<le> n" "n \<le> 499" "S * (1 - n * eps) \<le> u + n * t"
    and q: "\<bar>q - (u + x)\<bar> \<le> (u + x) / 2 ^ 53 + t"
  shows "(S + x) * (1 - (n + 1) * eps) \<le> q + (n + 1) * t"
proof -
  let ?d = "1 - 1 / 2 ^ 53 :: rat"
  have "x * (1 - n * eps) \<le> x * 1" using assms(2,4) by (intro mult_left_mono) (auto simp: eps_def)
  then have a: "(S + x) * (1 - n * eps) \<le> u + x + n * t" using assms(6) by (simp add: algebra_simps)
  have "1 - (n + 1) * eps \<le> (1 - n * eps) * ?d" using assms(4,5) by (simp add: eps_def field_simps)
  then have "(S + x) * (1 - (n + 1) * eps) \<le> (S + x) * (1 - n * eps) * ?d"
    using assms(1,2) unfolding mult.assoc by (intro mult_left_mono) auto
  also have "\<dots> \<le> (u + x + n * t) * ?d" using a by (intro mult_right_mono) auto
  also have "\<dots> = (u + x) * ?d + n * t * ?d" by (simp add: distrib_right)
  also have "n * t * ?d \<le> n * t * 1" using assms(3,4) by (intro mult_left_mono) auto
  also have "(u + x) * ?d = u + x - (u + x) / 2 ^ 53" by (simp only: right_diff_distrib) simp
  also have "\<dots> \<le> q + t" using q by linarith
  finally show ?thesis by (simp add: distrib_right)
qed

text \<open>The computed sum is never much below the exact sum.\<close>

lemma used_close:
  assumes "list_all (keep_intent now) xs" "length xs \<le> 500"
  shows "usedEntryNotional xs day = PInf \<or> (\<exists>u. usedEntryNotional xs day = Fin u \<and> 0 \<le> u \<and> 0 \<le> live_total xs day
    \<and> live_total xs day * (1 - of_nat (length xs) * eps) \<le> u + of_nat (length xs) * pow2 (- 1074))"
  using assms
proof (induction xs rule: rev_induct)
  case (snoc i xs)
  let ?n = "of_nat (length xs) :: rat" and ?t = "pow2 (- 1074)" and ?S = "live_total xs day"
  have u1: "usedEntryNotional (xs @ [i]) day = (if live_intent day i then js_add (usedEntryNotional xs day) (Fin (amount i)) else usedEntryNotional xs day)"
    using kept_amount(1) [of now i] snoc.prems by (simp add: usedEntryNotional_def)
  have s1: "live_total (xs @ [i]) day = (if live_intent day i then ?S + amount i else ?S)"
    by (simp add: live_total_def)
  have x: "0 < amount i" using kept_amount(2) [of now i] snoc.prems(1) by simp
  show ?case
  proof (cases "usedEntryNotional xs day = PInf")
    case False
    then obtain u where u: "usedEntryNotional xs day = Fin u" "0 \<le> u" "0 \<le> ?S"
      "?S * (1 - ?n * eps) \<le> u + ?n * ?t" using snoc by auto
    show ?thesis
    proof (cases "live_intent day i")
      case False
      have "?S * (1 - (?n + 1) * eps) \<le> ?S * (1 - ?n * eps)"
        using u(3) by (intro mult_left_mono) (simp_all add: distrib_right eps_def)
      also have "\<dots> \<le> u + ?n * ?t" by (rule u(4))
      also have "\<dots> \<le> u + (?n + 1) * ?t" by (simp add: distrib_right less_imp_le [OF pow2_pos])
      finally show ?thesis using u False by (simp add: u1 s1 add.commute)
    next
      case live: True
      show ?thesis
      proof (cases "fl (u + amount i) = PInf")
        case False
        then obtain q where q: "fl (u + amount i) = Fin q" "0 \<le> q" "\<bar>q - (u + amount i)\<bar> \<le> (u + amount i) / 2 ^ 53 + ?t"
          using fl_close [of "u + amount i"] u(2) x by auto
        have "(?S + amount i) * (1 - (?n + 1) * eps) \<le> q + (?n + 1) * ?t"
          using snoc.prems(2) by (intro sum_step [OF u(3) x _ _ _ u(4) q(3)]) (simp_all add: less_imp_le [OF pow2_pos])
        then show ?thesis using q(1,2) live u x by (simp add: u1 s1 add.commute)
      qed (simp add: u1 live u(1))
    qed
  qed (simp add: u1)
qed (simp add: usedEntryNotional_def live_total_def)

lemma live_total_mono:
  assumes "list_all (\<lambda>i. 0 \<le> amount i) (xs @ ys)" shows "live_total ys day \<le> live_total (xs @ ys) day"
  using assms by (auto simp: live_total_def list_all_iff intro!: sum_list_nonneg)

lemma live_total_filter:
  assumes "list_all (\<lambda>i. 0 \<le> amount i) xs" shows "live_total (filter p xs) day \<le> live_total xs day"
  using assms by (induction xs) (auto simp: live_total_def)

lemma live_total_slice:
  assumes "list_all (\<lambda>i. 0 \<le> amount i) xs" shows "live_total (slice_last n xs) day \<le> live_total xs day"
proof -
  have "xs = take (length xs - n) xs @ slice_last n xs" by (simp add: slice_last_def)
  then show ?thesis using live_total_mono [of "take (length xs - n) xs" "slice_last n xs" day] assms by simp
qed

lemma loaded_fields:
  assumes "loadState now (Parsed raw) = Inr state"
  shows "intents_of state = normalizeEntryIntents (js_get raw ''entryIntents'') now"
    "js_get state ''positions'' = js_or (js_get raw ''positions'') (JArr [])"
    "js_get state ''cycleHistory'' = js_or (js_get raw ''cycleHistory'') (JArr [])" "assertStateShape raw = Inr ()"
  using assms by (auto simp: loadState_def rbind_Inr_iff js_get_spread_map intents_of_def array_items_def)

lemma intents_loaded:
  assumes "loadState now f = Inr state"
  shows "list_all (keep_intent now) (intents_of state)" "length (intents_of state) \<le> MAX_ENTRY_INTENTS"
proof -
  have "list_all (keep_intent now) (intents_of state) \<and> length (intents_of state) \<le> MAX_ENTRY_INTENTS"
  proof (cases f)
    case (Parsed raw)
    then show ?thesis using assms loaded_fields(1) [of now raw state] set_slice_last
      by (fastforce simp: normalizeEntryIntents_def list_all_iff)
  qed (use assms in \<open>auto simp: loadState_def DEFAULT_STATE_def intents_of_def array_items_def\<close>)
  then show "list_all (keep_intent now) (intents_of state)" "length (intents_of state) \<le> MAX_ENTRY_INTENTS" by auto
qed

lemma positions_loaded:
  assumes "loadState now f = Inr state"
  shows "list_all (\<lambda>p. \<not> bad_position p) (array_items (js_get state ''positions''))"
proof (cases f)
  case (Parsed raw)
  then have "js_get state ''positions'' = js_or (js_get raw ''positions'') (JArr [])" "assertStateShape raw = Inr ()"
    using loaded_fields assms by auto
  then show ?thesis
    by (cases "js_get raw ''positions''")
       (auto simp: assertStateShape_def Let_def js_or_def array_items_def is_array_def list_all_iff list_ex_iff split: if_splits)
qed (use assms in \<open>auto simp: loadState_def DEFAULT_STATE_def array_items_def\<close>)

lemma intents_set [simp]: "intents_of (set_intents state xs) = xs"
  by (simp add: intents_of_def set_intents_def array_items_def)

text \<open>The approved amount fits what the day has left, up to rounding.\<close>

lemma budget_fits:
  fixes D S u a :: rat
  assumes "S * (1 - 500 * eps) \<le> u + 500 * t" "0 \<le> S" "0 \<le> u" "u < D" "1 \<le> D" "0 \<le> t" "t \<le> 1 / 2 ^ 100"
    and a: "a \<le> (D - u) + (D - u) / 2 ^ 53 + t"
  shows "S + a \<le> D * (1 + 1 / 2 ^ 40)"
proof -
  let ?c = "1 + 1 / 2 ^ 42 :: rat"
  have "S * 1 \<le> S * ((1 - 500 * eps) * ?c)" using assms(2) by (intro mult_left_mono) (simp_all add: eps_def)
  also have "\<dots> = S * (1 - 500 * eps) * ?c" by simp
  also have "\<dots> \<le> (u + 500 * t) * ?c" using assms(1) by (intro mult_right_mono) auto
  finally have "S \<le> u * ?c + 500 * t * ?c" by (simp only: distrib_right mult_1_right)
  moreover have "500 * t * ?c \<le> D / 2 ^ 80" "t \<le> D / 2 ^ 80" using assms(5-7) by simp_all
  moreover have "a \<le> (D - u) * ?c + t"
  proof -
    have "(D - u) / 2 ^ 53 \<le> (D - u) / 2 ^ 42" using assms(4) by (intro divide_left_mono) auto
    moreover have "(D - u) * ?c = (D - u) + (D - u) / 2 ^ 42" by (simp only: distrib_left) simp
    ultimately show ?thesis using a by linarith
  qed
  moreover have "u * ?c + (D - u) * ?c = D * ?c" by (simp only: distrib_right [symmetric]) simp
  ultimately have "S + a \<le> D * ?c + (D / 2 ^ 80 + D / 2 ^ 80)" by linarith
  also have "\<dots> \<le> D * (1 + 1 / 2 ^ 40)" using assms(5) by simp
  finally show ?thesis .
qed

lemma decided:
  assumes "decideEntryBudget req per daily xs now = Inr b" "budget_ok b"
  obtains r p D a where "js_to_number req = Fin r" "js_to_number per = Fin p" "js_to_number daily = Fin D"
    "approvedNotional b = Fin a" "0 < a" "a \<le> r" "a \<le> p" "js_le (Fin a) (js_sub (Fin D) (usedEntryNotional xs (budget_day b)))"
    "0 < D" "utcDay now = Inr (budget_day b)"
proof -
  obtain r p D where n: "js_to_number req = Fin r" "js_to_number per = Fin p" "js_to_number daily = Fin D" "0 < D"
    and d: "utcDay now = Inr (budget_day b)"
    and b: "approvedNotional b = js_min (Fin r) (js_min (Fin p) (js_max (Fin 0) (js_sub (Fin D) (usedEntryNotional xs (budget_day b)))))"
    "js_lt (Fin 0) (approvedNotional b)"
    using assms by (auto simp: decideEntryBudget_def positiveLimit_def Let_def rbind_Inr_iff split: if_splits)
  define rem where "rem = js_max (Fin 0) (js_sub (Fin D) (usedEntryNotional xs (budget_day b)))"
  have "\<exists>a. approvedNotional b = Fin a \<and> 0 < a \<and> a \<le> r \<and> a \<le> p \<and> js_le (Fin a) rem \<and> js_lt (Fin 0) rem"
    using b unfolding rem_def [symmetric] by (cases rem) (auto simp: js_min_def split: if_splits)
  then obtain a where a: "approvedNotional b = Fin a" "0 < a" "a \<le> r" "a \<le> p" "js_le (Fin a) rem" "js_lt (Fin 0) rem" by blast
  have "rem = js_sub (Fin D) (usedEntryNotional xs (budget_day b))"
    using a(6) by (auto simp: rem_def js_max_def split: if_splits)
  then show thesis using that [OF n(1-3) a(1-4) _ n(4) d] a(5) by simp
qed

lemma total_fits:
  assumes "list_all (keep_intent now) xs" "length xs \<le> 500" "0 < a" "1 \<le> D" "D \<le> 2 ^ 52"
    and a: "js_le (Fin a) (js_sub (Fin D) (usedEntryNotional xs day))"
  shows "live_total xs day + a \<le> D * (1 + 1 / 2 ^ 40)"
proof -
  have "usedEntryNotional xs day \<noteq> PInf" using a by (auto simp: js_sub_def js_le_def)
  then obtain u where u: "usedEntryNotional xs day = Fin u" "0 \<le> u" "0 \<le> live_total xs day"
    "live_total xs day * (1 - of_nat (length xs) * eps) \<le> u + of_nat (length xs) * pow2 (- 1074)"
    using used_close [OF assms(1,2)] by blast
  have le: "js_le (Fin a) (fl (D - u))" using a by (simp add: u(1) js_sub_def)
  have lt: "u < D"
  proof (rule ccontr)
    assume "\<not> u < D"
    then have "js_le (fl (D - u)) (fl 0)" by (intro fl_mono) simp
    from js_le_trans [OF le this] show False using assms(3) by simp
  qed
  have "js_le (fl (D - u)) (fl (of_int (2 ^ 52)))" using assms(5) u(2) by (intro fl_mono) simp
  then have "fl (D - u) \<noteq> PInf" using fl_of_int [of "2 ^ 52"] by (auto simp: js_le_def)
  then have "a \<le> (D - u) + (D - u) / 2 ^ 53 + pow2 (- 1074)"
    using fl_close [of "D - u"] lt le by auto
  moreover have "live_total xs day * (1 - 500 * eps) \<le> u + 500 * pow2 (- 1074)"
  proof -
    have "live_total xs day * (1 - 500 * eps) \<le> live_total xs day * (1 - of_nat (length xs) * eps)"
      using u(3) assms(2) by (intro mult_left_mono) (simp_all add: eps_def)
    moreover have "of_nat (length xs) * pow2 (- 1074) \<le> 500 * pow2 (- 1074)"
      using assms(2) by (intro mult_right_mono) (simp_all add: less_imp_le [OF pow2_pos])
    ultimately show ?thesis using u(4) by linarith
  qed
  moreover have "pow2 (- 1074) \<le> 1 / 2 ^ 100" using pow2_mono [of "- 1074" "- 100"] by (simp add: pow2_def)
  ultimately show ?thesis
    using u(2,3) lt assms(4) by (intro budget_fits) (simp_all add: less_imp_le [OF pow2_pos])
qed

lemma reserved_cases:
  assumes "reserveAlpacaPaperEntry lock now f signalId req per daily = Inr (f', Reserved b entry)"
  obtains state state' where "loadState now f = Inr state" "saveState state' = Inr f'"
    "decideEntryBudget req per daily (intents_of state) (clock_iso now) = Inr b" "budget_ok b"
    "reserveEntryIntent now state signalId (JStr (budget_day b)) (JNum (approvedNotional b)) = Inr (state', entry)"
  using assms by (auto simp: reserveAlpacaPaperEntry_def rbind_Inr_iff split: if_splits sum.splits)


section \<open>Reservations through later operations\<close>

datatype bot_op = Reserve jsval jsval jsval jsval | Set_status jsval jsval

text \<open>One operation of any process at some time; one that throws leaves the file as it is.\<close>

definition bot_step :: "state_file \<Rightarrow> bool \<times> int \<times> bot_op \<Rightarrow> state_file" where
  "bot_step f s = (case s of
     (lock, now, Reserve sid req per daily) \<Rightarrow>
       (case reserveAlpacaPaperEntry lock now f sid req per daily of Inl _ \<Rightarrow> f | Inr (f', _) \<Rightarrow> f')
   | (lock, now, Set_status sid status) \<Rightarrow>
       (case updateAlpacaPaperEntryIntent lock now f sid status of Inl _ \<Rightarrow> f | Inr (f', _) \<Rightarrow> f'))"

text \<open>An intent of the signal, created at \<open>c\<close>, that has not been released.\<close>

definition holding :: "string \<Rightarrow> int \<Rightarrow> jsval \<Rightarrow> bool" where
  "holding sid c e = (js_get e ''signalId'' = JStr sid \<and> js_get e ''status'' \<in> {JStr ''reserved'', JStr ''submitted'', JStr ''confirmed''}
     \<and> (\<exists>day. js_get e ''utcDay'' = JStr day \<and> is_day_text day)
     \<and> (\<exists>r. js_get e ''reservedNotional'' = JNum (Fin r) \<and> 0 < r)
     \<and> (\<exists>s. js_get e ''createdAt'' = JStr s \<and> date_parse s = Some c))"

text \<open>The file holds such an intent, with at most \<open>n\<close> younger ones.\<close>

definition holds :: "string \<Rightarrow> int \<Rightarrow> nat \<Rightarrow> state_file \<Rightarrow> bool" where
  "holds sid c n f = (\<exists>raw pre e post. f = Parsed raw \<and> js_get raw ''entryIntents'' = JArr (pre @ e # post)
     \<and> holding sid c e \<and> length post \<le> n)"

lemma day_text_not_Nil: "is_day_text s \<Longrightarrow> s \<noteq> []"
  by (auto simp: is_day_text_def)

lemma holding_kept:
  assumes "holding sid c e" "now \<le> c + ENTRY_INTENT_RETENTION_DAYS * ms_per_day"
  shows "keep_intent now e"
proof -
  have "js_get e ''signalId'' \<noteq> JUndef" using assms(1) by (auto simp: holding_def)
  then have "truthy e \<and> typeof_object e" by (cases e) (auto simp: js_get_def typeof_object_def)
  then show ?thesis
    using assms day_text_not_Nil by (auto simp: holding_def keep_intent_def is_string_def intent_statuses_def text_of_def js_or_def js_to_number_def)
qed

lemma holding_view: "holding sid c e \<Longrightarrow> holding sid c (json_view e)"
  unfolding holding_def by (auto simp: js_get_view)

lemma slice_keeps:
  assumes "length post < n" shows "\<exists>pre'. slice_last n (pre @ e # post) = pre' @ e # post"
proof -
  let ?xs = "pre @ e # post"
  have "slice_last n ?xs = drop (length ?xs - n) pre @ e # post" using assms by (simp add: slice_last_def)
  then show ?thesis by blast
qed

lemma normalize_keeps:
  assumes "holding sid c e" "now \<le> c + ENTRY_INTENT_RETENTION_DAYS * ms_per_day" "length post < MAX_ENTRY_INTENTS"
  shows "\<exists>pre' post'. normalizeEntryIntents (JArr (pre @ e # post)) now = pre' @ e # post' \<and> length post' \<le> length post"
proof -
  have "length (filter (keep_intent now) post) < MAX_ENTRY_INTENTS"
    using assms(3) length_filter_le [of "keep_intent now" post] by linarith
  from slice_keeps [OF this, of "filter (keep_intent now) pre" e] obtain pre' where
    "normalizeEntryIntents (JArr (pre @ e # post)) now = pre' @ e # filter (keep_intent now) post"
    using holding_kept [OF assms(1,2)] by (auto simp: normalizeEntryIntents_def array_items_def)
  then show ?thesis using length_filter_le [of "keep_intent now" post] by blast
qed

lemma update_first_keeps:
  assumes "\<And>x. holding sid c x \<Longrightarrow> q x \<Longrightarrow> holding sid c (g x)" "holding sid c e"
  shows "\<exists>pre' e' post'. update_first q g (pre @ e # post) = pre' @ e' # post' \<and> holding sid c e' \<and> length post' = length post"
  using assms
proof (induction pre)
  case Nil
  have "\<exists>post'. update_first q g post = post' \<and> length post' = length post" by (induction post) auto
  then show ?case
    using Nil by (cases "q e") (fastforce intro: exI [of _ "[]"])+
next
  case (Cons x pre)
  then obtain pre' e' post' where "update_first q g (pre @ e # post) = pre' @ e' # post'" "holding sid c e'" "length post' = length post"
    by blast
  then have "q x \<Longrightarrow> update_first q g ((x # pre) @ e # post) = (g x # pre) @ e # post"
    "\<not> q x \<Longrightarrow> update_first q g ((x # pre) @ e # post) = (x # pre') @ e' # post'" by simp_all
  then show ?case using Cons.prems(2) \<open>holding sid c e'\<close> \<open>length post' = length post\<close> by metis
qed

lemma save_intents:
  assumes "saveState (set_intents state xs) = Inr f"
  shows "\<exists>raw. f = Parsed raw \<and> js_get raw ''entryIntents'' = JArr (map json_view xs)"
proof -
  have "js_get (set_intents state xs) ''entryIntents'' = JArr xs" by (simp add: set_intents_def)
  then have "js_get (json_view (set_intents state xs)) ''entryIntents'' = JArr (map json_view xs)"
    using js_get_view [of "set_intents state xs" "''entryIntents''"] by simp
  then show ?thesis using assms by (auto simp: saveState_def rbind_Inr_iff)
qed

lemma save_holds:
  assumes "saveState (set_intents state (pre @ e # post)) = Inr f" "holding sid c e" "length post \<le> n"
  shows "holds sid c n f"
proof -
  obtain raw where "f = Parsed raw" "js_get raw ''entryIntents'' = JArr (map json_view pre @ json_view e # map json_view post)"
    using save_intents [OF assms(1)] by auto
  then show ?thesis unfolding holds_def using holding_view [OF assms(2)] assms(3) by (metis length_map)
qed

lemma holds_loaded:
  assumes "holds sid c n f" "n < MAX_ENTRY_INTENTS" "now \<le> c + ENTRY_INTENT_RETENTION_DAYS * ms_per_day"
    and "loadState now f = Inr state"
  obtains pre e post where "intents_of state = pre @ e # post" "holding sid c e" "length post \<le> n"
proof -
  obtain raw pre e post where f: "f = Parsed raw" "js_get raw ''entryIntents'' = JArr (pre @ e # post)" "holding sid c e" "length post \<le> n"
    using assms(1) by (auto simp: holds_def)
  have "length post < MAX_ENTRY_INTENTS" using f(4) assms(2) by simp
  from normalize_keeps [OF f(3) assms(3) this, of pre] obtain pre' post' where
    "normalizeEntryIntents (JArr (pre @ e # post)) now = pre' @ e # post'" "length post' \<le> length post" by blast
  then show thesis using that [of pre' e post'] loaded_fields(1) [of now raw state] assms(4) f by simp
qed

lemma reserve_holds:
  assumes h: "holds sid c n f" "n + 1 < MAX_ENTRY_INTENTS" "now \<le> c + ENTRY_INTENT_RETENTION_DAYS * ms_per_day"
    and r: "reserveAlpacaPaperEntry lock now f s req per daily = Inr (f', res)"
  shows "holds sid c (n + 1) f'"
proof (cases "\<exists>b entry. res = Reserved b entry")
  case False
  then have "f' = f" using r by (auto simp: reserveAlpacaPaperEntry_def rbind_Inr_iff split: if_splits sum.splits)
  then show ?thesis using h(1) by (fastforce simp: holds_def)
next
  case True
  then obtain b entry where res: "res = Reserved b entry" by blast
  obtain state state' where s: "loadState now f = Inr state" "saveState state' = Inr f'"
    "reserveEntryIntent now state s (JStr (budget_day b)) (JNum (approvedNotional b)) = Inr (state', entry)"
    using r [unfolded res] by (rule reserved_cases)
  obtain pre e post where i: "intents_of state = pre @ e # post" "holding sid c e" "length post \<le> n"
    using holds_loaded [OF h(1) _ h(3) s(1)] h(2) by auto
  have st: "state' = set_intents state (normalizeEntryIntents (JArr (pre @ e # (post @ [entry]))) now)"
    using s(3) i(1) by (auto simp: reserveEntryIntent_def Let_def split: option.splits)
  have "length (post @ [entry]) < MAX_ENTRY_INTENTS" using i(3) h(2) by simp
  from normalize_keeps [OF i(2) h(3) this, of pre] obtain pre' post' where
    p: "normalizeEntryIntents (JArr (pre @ e # (post @ [entry]))) now = pre' @ e # post'" "length post' \<le> length (post @ [entry])" by blast
  show ?thesis using save_holds [OF _ i(2), of state pre' post' f' "n + 1"] s(2) st p i(3) by simp
qed

lemma update_holds:
  assumes h: "holds sid c n f" "n < MAX_ENTRY_INTENTS" "now \<le> c + ENTRY_INTENT_RETENTION_DAYS * ms_per_day"
    and r: "updateAlpacaPaperEntryIntent lock now f s status = Inr (f', res)"
    and keep: "s = JStr sid \<Longrightarrow> status \<in> {JStr ''reserved'', JStr ''submitted'', JStr ''confirmed''}"
  shows "holds sid c n f'"
proof (cases lock)
  case False
  then show ?thesis using r h(1) by (simp add: updateAlpacaPaperEntryIntent_def)
next
  case True
  then obtain state state' where s: "loadState now f = Inr state" "saveState state' = Inr f'"
    "setEntryIntentStatus now state s status = Inr state'"
    using r by (auto simp: updateAlpacaPaperEntryIntent_def rbind_Inr_iff)
  obtain pre e post where i: "intents_of state = pre @ e # post" "holding sid c e" "length post \<le> n"
    using holds_loaded [OF h s(1)] .
  define q where "q = (\<lambda>e. strict_eq (js_get e ''signalId'') s)"
  define g where "g = (\<lambda>e. spread_update e [(''status'', status), (''updatedAt'', clock_iso now)])"
  have st: "state' = set_intents state (normalizeEntryIntents (JArr (update_first q g (pre @ e # post))) now)"
    using s(3) i(1) by (auto simp: setEntryIntentStatus_def q_def g_def Let_def split: if_splits)
  have "holding sid c (g x)" if "holding sid c x" "q x" for x
  proof -
    have "s = JStr sid" using that by (auto simp: q_def holding_def strict_eq_def)
    then have "status \<in> {JStr ''reserved'', JStr ''submitted'', JStr ''confirmed''}" by (rule keep)
    then show ?thesis using that(1) js_get_spread [of x "[(''status'', status)]"] by (simp add: holding_def g_def)
  qed
  from update_first_keeps [of sid c q g e pre post, OF this i(2)] obtain pre1 e1 post1 where
    u: "update_first q g (pre @ e # post) = pre1 @ e1 # post1" "holding sid c e1" "length post1 = length post" by blast
  have "length post1 < MAX_ENTRY_INTENTS" using u(3) i(3) h(2) by simp
  from normalize_keeps [OF u(2) h(3) this, of pre1] obtain pre' post' where
    p: "normalizeEntryIntents (JArr (pre1 @ e1 # post1)) now = pre' @ e1 # post'" "length post' \<le> length post1" by blast
  show ?thesis using save_holds [OF _ u(2), of state pre' post' f' n] s(2) st p u(1,3) i(3) by simp
qed

lemma step_holds:
  assumes "holds sid c n f" "n + 1 < MAX_ENTRY_INTENTS" "now \<le> c + ENTRY_INTENT_RETENTION_DAYS * ms_per_day"
    and "\<And>status. op = Set_status (JStr sid) status \<Longrightarrow> status \<in> {JStr ''reserved'', JStr ''submitted'', JStr ''confirmed''}"
  shows "holds sid c (n + 1) (bot_step f (lock, now, op))"
proof -
  have mono: "holds sid c n g \<Longrightarrow> holds sid c (n + 1) g" for g by (fastforce simp: holds_def)
  show ?thesis
  proof (cases op)
    case (Reserve s req per daily)
    then show ?thesis using assms(1) reserve_holds [OF assms(1-3)] mono by (auto simp: bot_step_def split: sum.split)
  next
    case (Set_status s status)
    then show ?thesis using assms(1,2,4) mono update_holds [OF assms(1) _ assms(3)] by (auto simp: bot_step_def split: sum.split)
  qed
qed

lemma steps_hold:
  assumes "holds sid c n f" "n + length ops < MAX_ENTRY_INTENTS"
    and "\<forall>(lock, now, op) \<in> set ops. now \<le> c + ENTRY_INTENT_RETENTION_DAYS * ms_per_day
      \<and> (\<forall>status. op = Set_status (JStr sid) status \<longrightarrow> status \<in> {JStr ''reserved'', JStr ''submitted'', JStr ''confirmed''})"
  shows "holds sid c (n + length ops) (foldl bot_step f ops)"
  using assms
proof (induction ops arbitrary: n f)
  case (Cons s ops)
  obtain lock now op where s: "s = (lock, now, op)" by (cases s)
  have "holds sid c (n + 1) (bot_step f (lock, now, op))" using Cons.prems by (intro step_holds) (auto simp: s)
  then show ?case using Cons.IH [of "n + 1" "bot_step f s"] Cons.prems by (simp add: s)
qed simp

lemma new_intent_holding:
  assumes "to_iso now = Some t" "is_day_text day" "0 < a"
  shows "holding sid now (new_intent (JStr sid) (JStr day) (JNum (Fin a)) now)"
  using assms date_parse_to_iso [OF assms(1)] by (simp add: holding_def new_intent_def clock_iso_def)


section \<open>Limits of the reservations\<close>

text \<open>With 500 younger intents a reservation is forgotten, although it counts for the same day.\<close>

lemma intents_forgotten:
  assumes "length xs = MAX_ENTRY_INTENTS" "list_all (keep_intent now) (e # xs)"
  shows "normalizeEntryIntents (JArr (e # xs)) now = xs"
proof -
  have "filter (keep_intent now) (e # xs) = e # xs" using assms(2) by (simp add: filter_id_conv list_all_iff)
  then show ?thesis using assms(1) by (simp add: normalizeEntryIntents_def array_items_def slice_last_def)
qed

definition demo_intent :: "string \<Rightarrow> jsval" where
  "demo_intent status = JObj [(''signalId'', JStr ''s1''), (''utcDay'', JStr ''1970-01-01''),
     (''reservedNotional'', JNum (Fin 50)), (''status'', JStr status), (''createdAt'', JStr ''1970-01-01T00:00:00.000Z'')]"

text \<open>
  A signal that was released and reserved again has two intents; a change of its status reaches
  the released one, so the new one stays reserved and both count.
\<close>

lemma status_revives_released:
  "setEntryIntentStatus 0 (set_intents DEFAULT_STATE [demo_intent ''released'', demo_intent ''reserved'']) (JStr ''s1'') (JStr ''submitted'')
   = Inr (set_intents DEFAULT_STATE [spread_update (demo_intent ''submitted'') [(''updatedAt'', JStr ''1970-01-01T00:00:00.000Z'')], demo_intent ''reserved''])"
  by code_simp

section \<open>Instances\<close>

lemma demo_reserved:
  obtains f b e where "reserveAlpacaPaperEntry True 0 No_file (JStr ''s1'') (JNum (Fin 100)) (JNum (Fin 50)) (JNum (Fin 2500)) = Inr (f, Reserved b e)"
    "is_day_text (budget_day b)"
proof -
  have "case reserveAlpacaPaperEntry True 0 No_file (JStr ''s1'') (JNum (Fin 100)) (JNum (Fin 50)) (JNum (Fin 2500)) of
      Inr (f, Reserved b e) \<Rightarrow> is_day_text (budget_day b) | _ \<Rightarrow> False" by code_simp
  then show thesis using that by (auto split: sum.split_asm prod.split_asm reservation.split_asm)
qed



end
