(* ===== verification/Alpaca_Cycle.thy ===== *)
theory Alpaca_Cycle
  imports Alpaca_State Sub_Positions
begin

text \<open>
  The exit check of the Alpaca bot, \<^verbatim>\<open>shared/lib/runtime/alpaca_bot_cycle.js\<close>: what the broker holds,
  which tracked positions have reached their target, stop or age, one sell order per symbol and
  the bookkeeping after it; and the recording of an entry.  The gateway and the trade command are
  arguments: the gateway answers or throws, the trade command maps its arguments to an exit code
  or throws.  A check runs at one time; the random suffixes are arguments.  The calls of the trade
  command are part of the result.
\<close>

section \<open>Decisions\<close>

datatype exit_reason = Target | Stop | Age

primrec exit_text :: "exit_reason \<Rightarrow> string" where
  "exit_text Target = ''target''"
| "exit_text Stop = ''stop''"
| "exit_text Age = ''age''"

text \<open>A limit that is no number does not apply.\<close>

definition reached :: "jsnum option \<Rightarrow> jsval \<Rightarrow> bool" where
  "reached elapsed limit = (case elapsed of None \<Rightarrow> False
     | Some x \<Rightarrow> js_is_finite x \<and> finite_number limit \<and> js_le (js_to_number limit) x)"

definition decideExit :: "jsval \<Rightarrow> jsnum \<Rightarrow> jsnum \<Rightarrow> jsnum option \<Rightarrow> exit_reason option" where
  "decideExit position currentPrice ageDays elapsedBars =
    (if js_lt (Fin 0) currentPrice \<and> js_le (js_to_number (js_get position ''targetPrice'')) currentPrice then Some Target
     else if js_lt (Fin 0) currentPrice \<and> js_le currentPrice (js_to_number (js_get position ''stopPrice'')) then Some Stop
     else if reached elapsedBars (js_get position ''maxHoldingBars'') then Some Age
     else if reached (Some ageDays) (js_get position ''maxHoldingDays'') then Some Age
     else None)"

definition canOpenPosition :: "jsnum \<Rightarrow> jsval \<Rightarrow> bool" where
  "canOpenPosition openCount maxPositions =
    (if \<not> finite_number maxPositions \<or> js_le (js_to_number maxPositions) (Fin 0) then True
     else js_lt openCount (js_to_number maxPositions))"

definition resolveEntryQty :: "jsval \<Rightarrow> jsval \<Rightarrow> jsnum" where
  "resolveEntryQty brokerPos requestedQty =
    (let brokerQty = (if truthy brokerPos then js_to_number (js_get brokerPos ''quantity'') else NaN) in
     if js_is_finite brokerQty \<and> js_lt (Fin 0) brokerQty then brokerQty else js_to_number requestedQty)"

definition resolveExitQty :: "jsnum \<Rightarrow> jsnum \<Rightarrow> jsnum" where
  "resolveExitQty positionQty availableQty = js_max (Fin 0) (js_min positionQty availableQty)"

definition buildExitOutcome ::
  "int \<Rightarrow> jsval \<Rightarrow> exit_reason \<Rightarrow> jsnum \<Rightarrow> jsnum \<Rightarrow> string \<Rightarrow> bool \<Rightarrow> jsval \<times> jsval option" where
  "buildExitOutcome now position exitReason currentPrice sellQty cycleId isLive =
    (let soldQty = js_max (Fin 0) (js_min sellQty (js_to_number (js_get position ''qty'')));
       remainingQty = js_sub (js_to_number (js_get position ''qty'')) soldQty in
     (JObj [(''cycleId'', JStr cycleId), (''positionId'', js_get position ''positionId''),
        (''strategyName'', js_or (js_or (js_get position ''strategyName'') (js_get position ''strategy'')) JNull),
        (''symbol'', js_get position ''symbol''), (''exitReason'', JStr (exit_text exitReason)),
        (''exitPrice'', JNum currentPrice),
        (''realizedPnl'', JNum (js_mul (js_sub currentPrice (js_to_number (js_get position ''fillPrice''))) soldQty)),
        (''soldQty'', JNum soldQty), (''completedAt'', clock_iso now), (''dryRun'', JBool (\<not> isLive))],
      if js_lt (Fin 0) remainingQty then Some (spread_update position [(''qty'', JNum remainingQty)]) else None))"

section \<open>What the broker holds\<close>

datatype inv_status = Unavailable | Incomplete | Confirmed | Confirmed_empty

record inventory =
  inv_status :: inv_status
  inv_positions :: "jsval list"
  inv_reason :: jsval

text \<open>The gateway throws a message or returns a payload.\<close>

definition fetchAlpacaPositions :: "string + jsval \<Rightarrow> inventory" where
  "fetchAlpacaPositions answer = (case answer of
     Inl message \<Rightarrow> \<lparr>inv_status = Unavailable, inv_positions = [], inv_reason = JStr message\<rparr>
   | Inr payload \<Rightarrow>
       if js_get payload ''ok'' \<noteq> JBool True then
         \<lparr>inv_status = Unavailable, inv_positions = [], inv_reason =
            js_or (js_or (js_get payload ''error'') (js_get payload ''reason'')) (JStr ''alpaca_positions_unavailable'')\<rparr>
       else if \<not> is_array (js_get payload ''positions'') then
         \<lparr>inv_status = Unavailable, inv_positions = [], inv_reason = JStr ''alpaca_positions_invalid_payload''\<rparr>
       else let poss = array_items (js_get payload ''positions'') in
         if js_get payload ''complete'' = JBool False \<or> js_get payload ''truncated'' = JBool True
           \<or> js_get (js_get payload ''pagination'') ''complete'' = JBool False
         then \<lparr>inv_status = Incomplete, inv_positions = poss, inv_reason = JStr ''alpaca_positions_incomplete''\<rparr>
         else \<lparr>inv_status = (if poss = [] then Confirmed_empty else Confirmed), inv_positions = poss, inv_reason = JNull\<rparr>)"

definition broker_map :: "jsval list \<Rightarrow> (jsval \<times> jsval) list" where
  "broker_map ps = foldl (\<lambda>m p. AList.update (js_get p ''symbol'') p m) [] ps"

definition sellable :: "jsval \<Rightarrow> jsnum" where
  "sellable p = (let q = js_get p ''qty_available'' in
     if q \<noteq> JUndef \<and> q \<noteq> JNull \<and> js_is_finite (js_to_number q) then js_max (Fin 0) (js_to_number q)
     else js_max (Fin 0) (js_to_number (js_get p ''quantity'')))"

text \<open>\<^verbatim>\<open>x || 0\<close> on a number.\<close>

definition num_or_zero :: "jsnum \<Rightarrow> jsnum" where
  "num_or_zero x = (if x = NaN then Fin 0 else x)"

section \<open>The exit check\<close>

record exit_item =
  it_position :: jsval
  it_reason :: exit_reason
  it_price :: jsnum

datatype exit_error = Lock_busy | Inventory_error inv_status jsval | Shares_held jsval | No_shares jsval
  | Sell_code jsval jsval | Sell_threw jsval string

record exit_result =
  sellsExecuted :: nat
  errors :: "exit_error list"
  blocked :: bool
  inventoryStatus :: "inv_status option"
  orders :: "jsval list list"

definition price_of :: "jsval \<Rightarrow> jsnum" where
  "price_of p = (let q = js_to_number (js_get p ''quantity'') in
     if js_lt (Fin 0) q then js_div (js_to_number (js_get p ''marketValue'')) q else Fin 0)"

text \<open>Why a position that the broker still holds leaves the book, if it does.\<close>

definition exit_of :: "int \<Rightarrow> jsval \<Rightarrow> jsval \<Rightarrow> exit_reason option" where
  "exit_of now brokerPos position =
    (let entered = (case date_time (js_get position ''entryTimestamp'') of Some t \<Rightarrow> Fin (of_int t) | None \<Rightarrow> NaN);
       elapsedMs = js_sub (Fin (of_int now)) entered;
       ageDays = js_div elapsedMs (Fin (24 * 60 * 60 * 1000));
       elapsedBars = (case parseTimeframeMs (js_or (js_get position ''timeframe'') (JStr ''1d'')) of
         Some tfMs \<Rightarrow> if js_lt (Fin 0) tfMs then Some (js_div elapsedMs tfMs) else None
       | None \<Rightarrow> None) in
     decideExit position (price_of brokerPos) ageDays elapsedBars)"

text \<open>The first loop: positions to keep, and the exiting ones by symbol.\<close>

definition scan_step ::
  "int \<Rightarrow> (jsval \<times> jsval) list \<Rightarrow> jsval list \<times> (jsval \<times> exit_item list) list \<Rightarrow> jsval \<Rightarrow> jsval list \<times> (jsval \<times> exit_item list) list" where
  "scan_step now brokerBySymbol acc position = (case acc of (remaining, exiting) \<Rightarrow>
     let symbol = js_get position ''symbol'' in
     case map_of brokerBySymbol symbol of
       None \<Rightarrow> (remaining, exiting)
     | Some brokerPos \<Rightarrow> (case exit_of now brokerPos position of
         None \<Rightarrow> (remaining @ [position], exiting)
       | Some exitReason \<Rightarrow>
           let item = \<lparr>it_position = position, it_reason = exitReason, it_price = price_of brokerPos\<rparr>;
             items = (case map_of exiting symbol of None \<Rightarrow> [] | Some l \<Rightarrow> l) in
           (remaining, AList.update symbol (items @ [item]) exiting)))"

definition item_qty :: "exit_item \<Rightarrow> jsnum" where
  "item_qty item = js_to_number (js_or (js_get (it_position item) ''qty'') (JNum (Fin 0)))"

text \<open>The sold quantity goes to the positions of the symbol in order.\<close>

fun allocate ::
  "int \<Rightarrow> string \<Rightarrow> bool \<Rightarrow> jsnum \<Rightarrow> exit_item list \<Rightarrow> jsval list \<times> jsval list \<times> nat \<Rightarrow> jsval list \<times> jsval list \<times> nat" where
  "allocate now cycleId enabled remainingSold [] acc = acc"
| "allocate now cycleId enabled remainingSold (item # items) (hist, remaining, sells) =
    (let allocatedQty = js_min (item_qty item) remainingSold;
       remainingSold' = js_sub remainingSold allocatedQty in
     if js_lt (Fin 0) allocatedQty then
       (case buildExitOutcome now (it_position item) (it_reason item) (it_price item) allocatedQty cycleId enabled of
         (historyEntry, remainingPosition) \<Rightarrow>
           allocate now cycleId enabled remainingSold' items
             (take 50 (historyEntry # hist),
              remaining @ (case remainingPosition of Some p \<Rightarrow> [p] | None \<Rightarrow> []), Suc sells))
     else allocate now cycleId enabled remainingSold' items (hist, remaining @ [it_position item], sells))"

record exit_run =
  run_history :: "jsval list"
  run_remaining :: "jsval list"
  run_result :: exit_result

definition sell_args :: "int \<Rightarrow> (jsval \<Rightarrow> string) \<Rightarrow> bool \<Rightarrow> jsval option \<Rightarrow> jsval \<Rightarrow> jsnum \<Rightarrow> jsval \<Rightarrow> jsval list" where
  "sell_args now hex providerPaper pin symbol q strategyName =
    (let strategy = js_or strategyName (JStr ''alpaca_paper'');
       signature = generateOrderSignature strategy JUndef (JStr ''bot'') symbol now (hex symbol) in
     [JStr ''sell'', symbol, JStr (num_to_string q), JStr ''market'',
      JStr (if providerPaper then ''--paper-provider'' else ''--live''), JStr ''--strategy'', strategy,
      JStr ''--signature'', JStr signature, JStr ''--source'', JStr ''bot'']
     @ (case pin of Some p \<Rightarrow> [JStr ''--pin'', p] | None \<Rightarrow> []))"

record exit_env =
  ev_now :: int
  ev_hex :: "jsval \<Rightarrow> string"
  ev_cycle :: string
  ev_live :: bool
  ev_paper :: bool
  ev_pin :: "jsval option"
  ev_trade :: "jsval list \<Rightarrow> string + jsval"

abbreviation add_error :: "exit_error \<Rightarrow> exit_result \<Rightarrow> exit_result" where
  "add_error e res \<equiv> res\<lparr>errors := errors res @ [e]\<rparr>"

definition keep_items :: "exit_item list \<Rightarrow> exit_run \<Rightarrow> exit_run" where
  "keep_items items r = r\<lparr>run_remaining := run_remaining r @ map it_position items\<rparr>"

definition log_error :: "exit_error \<Rightarrow> exit_run \<Rightarrow> exit_run" where
  "log_error e r = r\<lparr>run_result := add_error e (run_result r)\<rparr>"

definition book_sale :: "exit_env \<Rightarrow> exit_item list \<Rightarrow> jsnum \<Rightarrow> exit_run \<Rightarrow> exit_run" where
  "book_sale ev items sold r =
    (case allocate (ev_now ev) (ev_cycle ev) (ev_live ev \<or> ev_paper ev) sold items
        (run_history r, run_remaining r, sellsExecuted (run_result r)) of
      (hist, remaining, sells) \<Rightarrow>
        r\<lparr>run_history := hist, run_remaining := remaining, run_result := (run_result r)\<lparr>sellsExecuted := sells\<rparr>\<rparr>)"

text \<open>The second loop, for one symbol.\<close>

definition exit_symbol ::
  "exit_env \<Rightarrow> (jsval \<times> jsval) list \<Rightarrow> exit_run \<Rightarrow> jsval \<times> exit_item list \<Rightarrow> exit_run" where
  "exit_symbol ev brokerBySymbol r grp = (case grp of (symbol, items) \<Rightarrow>
    let available = (case map_of brokerBySymbol symbol of Some p \<Rightarrow> num_or_zero (sellable p) | None \<Rightarrow> Fin 0);
      totalDesiredQty = foldl (\<lambda>s item. js_add s (item_qty item)) (Fin 0) items;
      aggregateSellQty = resolveExitQty totalDesiredQty available;
      brokerGrossQty = (case map_of brokerBySymbol symbol of
          Some p \<Rightarrow> js_max (Fin 0) (js_to_number (js_or (js_get p ''quantity'') (JNum (Fin 0)))) | None \<Rightarrow> Fin 0) in
    if js_le aggregateSellQty (Fin 0) then
      if js_lt (Fin 0) brokerGrossQty then log_error (Shares_held symbol) (keep_items items r)
      else log_error (No_shares symbol) r
    else if ev_live ev \<or> ev_paper ev then
      let args = sell_args (ev_now ev) (ev_hex ev) (ev_paper ev) (ev_pin ev) symbol aggregateSellQty
          (js_get (it_position (hd items)) ''strategyName'');
        r' = r\<lparr>run_result := (run_result r)\<lparr>orders := orders (run_result r) @ [args]\<rparr>\<rparr> in
      case ev_trade ev args of
        Inl message \<Rightarrow> keep_items items (log_error (Sell_threw symbol message) r')
      | Inr code \<Rightarrow> if code \<noteq> JNum (Fin 0) then keep_items items (log_error (Sell_code symbol code) r')
          else book_sale ev items aggregateSellQty r'
    else book_sale ev items aggregateSellQty r)"

definition empty_result :: exit_result where
  "empty_result = \<lparr>sellsExecuted = 0, errors = [], blocked = False, inventoryStatus = None, orders = []\<rparr>"

definition exit_positions :: "exit_env \<Rightarrow> jsval list \<Rightarrow> jsval list \<Rightarrow> exit_run \<Rightarrow> exit_run" where
  "exit_positions ev broker tracked r =
    (let m = broker_map broker in
     case foldl (scan_step (ev_now ev) m) ([], []) tracked of (remaining, exiting) \<Rightarrow>
       foldl (exit_symbol ev m) (r\<lparr>run_remaining := remaining\<rparr>) exiting)"

definition runAlpacaExitCheck ::
  "exit_env \<Rightarrow> bool \<Rightarrow> inventory \<Rightarrow> state_file \<Rightarrow> bot_error + state_file \<times> exit_result" where
  "runAlpacaExitCheck ev lock held f =
    (if \<not> lock then Inr (f, empty_result\<lparr>errors := [Lock_busy], blocked := True\<rparr>)
     else rbind (loadState (ev_now ev) f) (\<lambda>state.
       let tracked = array_items (js_get state ''positions'') in
       if tracked = [] then Inr (f, empty_result)
       else let res = empty_result\<lparr>inventoryStatus := Some (inv_status held)\<rparr> in
         if inv_status held \<notin> {Confirmed, Confirmed_empty} then
           Inr (f, res\<lparr>blocked := True, errors := [Inventory_error (inv_status held) (js_or (inv_reason held) (JStr ''unknown reason''))]\<rparr>)
         else if list_ex (\<lambda>p. p = JUndef \<or> p = JNull) (inv_positions held) then Inl Bad_value
         else let r = exit_positions ev (inv_positions held) tracked
             \<lparr>run_history = array_items (js_get state ''cycleHistory''), run_remaining = [], run_result = res\<rparr> in
           rbind (saveState (spread_update state [(''cycleHistory'', JArr (run_history r)),
               (''positions'', JArr (run_remaining r)), (''lastCycleAt'', clock_iso (ev_now ev))])) (\<lambda>f'.
             Inr (f', run_result r))))"

section \<open>Recording an entry\<close>

definition pct_or :: "jsval \<Rightarrow> jsval \<Rightarrow> jsnum" where
  "pct_or v d = (if finite_number v then js_to_number v else js_to_number d)"

definition entry_position ::
  "int \<Rightarrow> string \<Rightarrow> inventory \<Rightarrow> jsval \<Rightarrow> jsval \<Rightarrow> jsval \<Rightarrow> jsval \<Rightarrow> jsval \<Rightarrow> jsval \<Rightarrow> jsval" where
  "entry_position now hex held config symbol qty strategy requestedPrice tf =
    (let brokerPos = (case List.find (\<lambda>p. strict_eq (js_get p ''symbol'') symbol) (inv_positions held) of Some p \<Rightarrow> p | None \<Rightarrow> JUndef);
       fillPrice = (if truthy brokerPos then js_to_number (js_get brokerPos ''averagePrice'') else js_to_number requestedPrice);
       risk = js_or (js_get strategy ''risk'') (JObj []);
       stopLossPct = pct_or (js_get risk ''stop_loss_pct'') (js_get config ''defaultStopLossPct'');
       takeProfitPct = pct_or (js_get risk ''take_profit_pct'') (js_get config ''defaultTakeProfitPct'');
       maxHoldingDays = (if finite_number (js_get risk ''max_holding_days'') then js_get risk ''max_holding_days'' else JNum (Fin 30));
       maxHoldingBars = (if finite_number (js_get risk ''max_holding_bars'') then js_get risk ''max_holding_bars''
         else if finite_number (js_get strategy ''horizon'') then js_get strategy ''horizon'' else JNull) in
     JObj [(''positionId'', JStr (js_to_string symbol @ ''_'' @ int_string now @ ''_'' @ hex)), (''symbol'', symbol),
       (''qty'', JNum (resolveEntryQty brokerPos qty)), (''strategyName'', js_or (js_get strategy ''name'') (JStr ''unknown'')),
       (''timeframe'', js_or (js_or (js_or tf (js_get strategy ''timeframe''))
          (js_get (js_get strategy ''market'') ''timeframe'')) (JStr ''1d'')),
       (''entryPrice'', JNum (js_to_number requestedPrice)), (''fillPrice'', JNum fillPrice), (''entryTimestamp'', clock_iso now),
       (''stopPrice'', JNum (js_mul fillPrice (js_sub (Fin 1) stopLossPct))),
       (''targetPrice'', JNum (js_mul fillPrice (js_add (Fin 1) takeProfitPct))),
       (''maxHoldingDays'', maxHoldingDays), (''maxHoldingBars'', maxHoldingBars),
       (''brokerReconciliation'', JStr (if inv_status held = Confirmed then ''confirmed'' else ''pending''))])"

definition recordAlpacaEntry ::
  "int \<Rightarrow> string \<Rightarrow> inventory \<Rightarrow> state_file \<Rightarrow> jsval \<Rightarrow> jsval \<Rightarrow> jsval \<Rightarrow> jsval \<Rightarrow> jsval \<Rightarrow> bot_error + state_file \<times> jsval" where
  "recordAlpacaEntry now hex held f symbol qty strategy requestedPrice tf =
    rbind (loadState now f) (\<lambda>state.
      if list_ex (\<lambda>p. p = JUndef \<or> p = JNull) (takeWhile (\<lambda>p. \<not> strict_eq (js_get p ''symbol'') symbol) (inv_positions held))
      then Inl Bad_value
      else let position = entry_position now hex held (js_get state ''config'') symbol qty strategy requestedPrice tf in
        rbind (saveState (spread_update state [(''positions'', JArr (array_items (js_get state ''positions'') @ [position]))])) (\<lambda>f'.
          Inr (f', position)))"

section \<open>The guard of the automation pass\<close>

datatype guard_result = Inventory_blocked string | Inventory_ok nat jsval

text \<open>
  \<^verbatim>\<open>reconcileAutomationInventory\<close> of \<^verbatim>\<open>automation_guard.js\<close>: for MT5 the answer of the gateway, for Alpaca
  the exit check; a check that throws blocks.
\<close>

definition reconcileAutomationInventory ::
  "bool \<Rightarrow> string + jsval \<Rightarrow> exit_env \<Rightarrow> bool \<Rightarrow> inventory \<Rightarrow> state_file \<Rightarrow> bot_error + state_file \<times> guard_result" where
  "reconcileAutomationInventory mt5 answer ev lock held f =
    (if mt5 then (case answer of
         Inl _ \<Rightarrow> Inr (f, Inventory_blocked ''mt5_inventory_unavailable'')
       | Inr payload \<Rightarrow>
           if \<not> truthy payload \<or> \<not> truthy (js_get payload ''ok'') then Inr (f, Inventory_blocked ''mt5_inventory_unavailable'')
           else Inr (f, Inventory_ok (length (array_items (js_get payload ''positions''))) (JNum (Fin 20))))
     else case runAlpacaExitCheck ev lock held f of
       Inl _ \<Rightarrow> Inr (f, Inventory_blocked ''alpaca_inventory_unavailable'')
     | Inr (f', res) \<Rightarrow>
         if blocked res then Inr (f', Inventory_blocked ''alpaca_inventory_unavailable'')
         else rbind (loadState (ev_now ev) f') (\<lambda>snapshot.
           Inr (f', Inventory_ok (length (array_items (js_get snapshot ''positions'')))
             (js_get (js_get snapshot ''config'') ''maxPositions''))))"

section \<open>Orders\<close>

definition good_item :: "exit_item \<Rightarrow> bool" where
  "good_item item = (\<exists>r. item_qty item = Fin r \<and> 0 < r)"

lemma good_position_item:
  assumes "\<not> bad_position p" shows "good_item \<lparr>it_position = p, it_reason = x, it_price = y\<rparr>"
proof -
  obtain r where r: "js_to_number (js_get p ''qty'') = Fin r" "0 < r"
    using assms by (auto simp: bad_position_def js_le_def)
  have "truthy (js_get p ''qty'')"
    using r by (cases "js_get p ''qty''") (auto simp: js_to_number_def string_to_number_def js_trim_def Let_def split: if_splits)
  then show ?thesis using r by (simp add: good_item_def item_qty_def js_or_def)
qed

lemma add_positive:
  assumes "js_le (Fin 0) s" "0 < r" shows "js_le (Fin 0) (js_add s (Fin r))"
proof (cases s)
  case (Fin a)
  then have "js_le (fl 0) (fl (a + r))" using assms by (intro fl_mono) simp
  then show ?thesis using Fin by simp
qed (use assms in \<open>auto simp: js_le_def\<close>)

lemma desired_nonneg:
  assumes "list_all good_item items" "js_le (Fin 0) s"
  shows "js_le (Fin 0) (foldl (\<lambda>s item. js_add s (item_qty item)) s items)"
  using assms by (induction items arbitrary: s) (auto simp: good_item_def add_positive)

lemma sold_bounds:
  assumes "js_le (Fin 0) tot" "available \<noteq> NaN" "\<not> js_le (resolveExitQty tot available) (Fin 0)"
  shows "js_lt (Fin 0) (resolveExitQty tot available) \<and> js_le (resolveExitQty tot available) available"
  using assms by (cases tot; cases available) (auto simp: resolveExitQty_def js_max_def js_min_def js_le_def split: if_splits)

lemma num_or_zero_le:
  assumes "js_lt (Fin 0) q" "js_le q (num_or_zero x)" shows "js_le q x"
  using assms by (auto simp: num_or_zero_def js_le_def split: if_splits)

text \<open>The broker map: the last position of a symbol.\<close>

lemma broker_map_mem: "map_of (broker_map ps) s = Some p \<Longrightarrow> p \<in> set ps \<and> js_get p ''symbol'' = s"
proof (induction ps rule: rev_induct)
  case (snoc x ps)
  then show ?case by (auto simp: broker_map_def map_of_update split: if_splits)
qed (simp add: broker_map_def)

text \<open>The groups of the first loop: one per symbol, of positions of that symbol.\<close>

definition groups_ok :: "(jsval \<Rightarrow> bool) \<Rightarrow> (jsval \<times> exit_item list) list \<Rightarrow> bool" where
  "groups_ok P gs = (distinct (map fst gs) \<and> (\<forall>(s, items) \<in> set gs. items \<noteq> []
     \<and> list_all (\<lambda>i. P (it_position i) \<and> js_get (it_position i) ''symbol'' = s) items))"

lemma groups_ok_update:
  assumes "groups_ok P gs" "P p" "js_get p ''symbol'' = s" "it_position i = p"
  shows "groups_ok P (AList.update s ((case map_of gs s of None \<Rightarrow> [] | Some l \<Rightarrow> l) @ [i]) gs)"
proof -
  have "distinct (map fst (AList.update s x gs))" for x using assms(1) by (simp add: groups_ok_def distinct_update)
  moreover have "set (AList.update s x gs) \<subseteq> insert (s, x) (set gs)" for x by (induction gs) auto
  moreover have "map_of gs s = Some l \<Longrightarrow> (s, l) \<in> set gs" for l by (rule map_of_SomeD)
  ultimately show ?thesis using assms unfolding groups_ok_def by (fastforce split: option.splits)
qed

lemma scan_groups:
  assumes "list_all P ps" "groups_ok P gs"
  shows "groups_ok P (snd (foldl (scan_step now m) (rem, gs) ps))"
  using assms
proof (induction ps arbitrary: rem gs)
  case (Cons p ps)
  have "groups_ok P (snd (scan_step now m (rem, gs) p))"
    using Cons.prems groups_ok_update [of P gs p "js_get p ''symbol''"]
    by (auto simp: scan_step_def Let_def split: option.split)
  then show ?case using Cons.IH [of "snd (scan_step now m (rem, gs) p)" "fst (scan_step now m (rem, gs) p)"] Cons.prems by simp
qed simp

definition order_ok :: "jsval list \<Rightarrow> jsval list \<Rightarrow> bool" where
  "order_ok broker a = (\<exists>p \<in> set broker. \<exists>q. js_get p ''symbol'' = a ! 1 \<and> a ! 0 = JStr ''sell'' \<and> a ! 2 = JStr (num_to_string q)
     \<and> js_lt (Fin 0) q \<and> js_le q (sellable p))"

lemma run_simps [simp]:
  "run_result (keep_items items r) = run_result r" "run_history (keep_items items r) = run_history r"
  "run_remaining (keep_items items r) = run_remaining r @ map it_position items"
  "orders (run_result (log_error e r)) = orders (run_result r)" "run_remaining (log_error e r) = run_remaining r"
  "orders (run_result (book_sale ev items q r)) = orders (run_result r)"
  "blocked (run_result (log_error e r)) = blocked (run_result r)"
  "blocked (run_result (book_sale ev items q r)) = blocked (run_result r)"
  by (simp_all add: keep_items_def log_error_def book_sale_def split: prod.split)

lemma sell_args_fields [simp]:
  "sell_args now hex paper pin s q st ! 0 = JStr ''sell''" "sell_args now hex paper pin s q st ! Suc 0 = s"
  "sell_args now hex paper pin s q st ! 2 = JStr (num_to_string q)"
  by (simp_all add: sell_args_def Let_def)

definition available_of :: "(jsval \<times> jsval) list \<Rightarrow> jsval \<Rightarrow> jsnum" where
  "available_of m s = (case map_of m s of Some p \<Rightarrow> num_or_zero (sellable p) | None \<Rightarrow> Fin 0)"

definition sell_qty :: "(jsval \<times> jsval) list \<Rightarrow> jsval \<Rightarrow> exit_item list \<Rightarrow> jsnum" where
  "sell_qty m s items = resolveExitQty (foldl (\<lambda>s item. js_add s (item_qty item)) (Fin 0) items) (available_of m s)"

definition sell_order :: "exit_env \<Rightarrow> (jsval \<times> jsval) list \<Rightarrow> jsval \<Rightarrow> exit_item list \<Rightarrow> jsval list" where
  "sell_order ev m s items = sell_args (ev_now ev) (ev_hex ev) (ev_paper ev) (ev_pin ev) s (sell_qty m s items)
     (js_get (it_position (hd items)) ''strategyName'')"

definition with_order :: "jsval list \<Rightarrow> exit_run \<Rightarrow> exit_run" where
  "with_order a r = r\<lparr>run_result := (run_result r)\<lparr>orders := orders (run_result r) @ [a]\<rparr>\<rparr>"

lemma with_order_simps [simp]:
  "orders (run_result (with_order a r)) = orders (run_result r) @ [a]" "run_remaining (with_order a r) = run_remaining r"
  "blocked (run_result (with_order a r)) = blocked (run_result r)"
  by (simp_all add: with_order_def)

definition gross_of :: "(jsval \<times> jsval) list \<Rightarrow> jsval \<Rightarrow> jsnum" where
  "gross_of m s = (case map_of m s of
     Some p \<Rightarrow> js_max (Fin 0) (js_to_number (js_or (js_get p ''quantity'') (JNum (Fin 0)))) | None \<Rightarrow> Fin 0)"

lemma exit_symbol_eq:
  "exit_symbol ev m r (s, items) =
    (if js_le (sell_qty m s items) (Fin 0) then
       if js_lt (Fin 0) (gross_of m s) then log_error (Shares_held s) (keep_items items r) else log_error (No_shares s) r
     else if ev_live ev \<or> ev_paper ev then
       (let r' = with_order (sell_order ev m s items) r in
        case ev_trade ev (sell_order ev m s items) of
          Inl message \<Rightarrow> keep_items items (log_error (Sell_threw s message) r')
        | Inr code \<Rightarrow> if code \<noteq> JNum (Fin 0) then keep_items items (log_error (Sell_code s code) r')
            else book_sale ev items (sell_qty m s items) r')
     else book_sale ev items (sell_qty m s items) r)"
  unfolding exit_symbol_def sell_order_def sell_qty_def available_of_def gross_of_def with_order_def by (simp only: prod.case Let_def)

text \<open>The branches of the second loop.\<close>

lemma exit_symbol_cases:
  obtains (held) "js_le (sell_qty m s items) (Fin 0)" "exit_symbol ev m r (s, items) = log_error (Shares_held s) (keep_items items r)"
  | (gone) "js_le (sell_qty m s items) (Fin 0)" "exit_symbol ev m r (s, items) = log_error (No_shares s) r"
      "\<not> js_lt (Fin 0) (gross_of m s)"
  | (dry) "\<not> js_le (sell_qty m s items) (Fin 0)" "\<not> ev_live ev" "\<not> ev_paper ev" "exit_symbol ev m r (s, items) = book_sale ev items (sell_qty m s items) r"
  | (sold) "\<not> js_le (sell_qty m s items) (Fin 0)" "ev_live ev \<or> ev_paper ev" "ev_trade ev (sell_order ev m s items) = Inr (JNum (Fin 0))"
      "exit_symbol ev m r (s, items) = book_sale ev items (sell_qty m s items) (with_order (sell_order ev m s items) r)"
  | (failed) e where "\<not> js_le (sell_qty m s items) (Fin 0)" "ev_live ev \<or> ev_paper ev" "ev_trade ev (sell_order ev m s items) \<noteq> Inr (JNum (Fin 0))"
      "exit_symbol ev m r (s, items) = keep_items items (log_error e (with_order (sell_order ev m s items) r))"
proof -
  consider "js_le (sell_qty m s items) (Fin 0)" | "\<not> js_le (sell_qty m s items) (Fin 0)" "\<not> ev_live ev" "\<not> ev_paper ev"
    | "\<not> js_le (sell_qty m s items) (Fin 0)" "ev_live ev \<or> ev_paper ev" by blast
  then show thesis
  proof cases
    case 1
    then show thesis by (cases "js_lt (Fin 0) (gross_of m s)") (use held gone in \<open>simp_all add: exit_symbol_eq\<close>)
  next
    case 2
    then show thesis using dry by (simp add: exit_symbol_eq)
  next
    case 3
    then show thesis using sold failed by (cases "ev_trade ev (sell_order ev m s items)") (auto simp: exit_symbol_eq)
  qed
qed

lemma exit_symbol_orders:
  assumes "list_all good_item items" "m = broker_map broker"
  shows "orders (run_result (exit_symbol ev m r (s, items))) = orders (run_result r)
    \<or> (ev_live ev \<or> ev_paper ev) \<and> (\<exists>a. orders (run_result (exit_symbol ev m r (s, items))) = orders (run_result r) @ [a]
       \<and> a ! 1 = s \<and> order_ok broker a)"
proof -
  have ok: "order_ok broker (sell_order ev m s items)" if "\<not> js_le (sell_qty m s items) (Fin 0)"
  proof -
    have av: "available_of m s \<noteq> NaN" by (simp add: available_of_def num_or_zero_def split: option.split)
    have q: "js_lt (Fin 0) (sell_qty m s items)" "js_le (sell_qty m s items) (available_of m s)"
      using sold_bounds [OF desired_nonneg [OF assms(1), of "Fin 0"] av] that by (simp_all add: sell_qty_def)
    then obtain p where p: "map_of m s = Some p" by (cases "map_of m s") (auto simp: available_of_def js_le_def)
    then have "js_le (sell_qty m s items) (sellable p)" using q num_or_zero_le by (simp add: available_of_def)
    then show ?thesis using q(1) broker_map_mem p assms(2) by (auto simp: order_ok_def sell_order_def)
  qed
  show ?thesis
    by (cases rule: exit_symbol_cases [of m s items ev r]) (use ok in \<open>auto simp: sell_order_def\<close>)
qed

lemma loop_orders:
  assumes "\<forall>(s, items) \<in> set gs. list_all good_item items" "distinct (map fst gs)"
    and "distinct (map (\<lambda>a. a ! 1) (orders (run_result r)))" "set (map fst gs) \<inter> set (map (\<lambda>a. a ! 1) (orders (run_result r))) = {}"
    and "list_all (order_ok broker) (orders (run_result r))"
  shows "distinct (map (\<lambda>a. a ! 1) (orders (run_result (foldl (exit_symbol ev (broker_map broker)) r gs))))
    \<and> list_all (order_ok broker) (orders (run_result (foldl (exit_symbol ev (broker_map broker)) r gs)))"
  using assms
proof (induction gs arbitrary: r)
  case (Cons g gs)
  obtain s items where g: "g = (s, items)" by (cases g)
  define r' where "r' = exit_symbol ev (broker_map broker) r g"
  have "orders (run_result r') = orders (run_result r) \<or> (\<exists>a. orders (run_result r') = orders (run_result r) @ [a] \<and> a ! 1 = s \<and> order_ok broker a)"
    using exit_symbol_orders [OF _ refl, of items ev broker r s] Cons.prems(1) by (auto simp: g r'_def)
  then have "distinct (map (\<lambda>a. a ! 1) (orders (run_result r')))" "list_all (order_ok broker) (orders (run_result r'))"
    "set (map fst gs) \<inter> set (map (\<lambda>a. a ! 1) (orders (run_result r'))) = {}"
    using Cons.prems by (elim disjE exE conjE; simp add: g del: One_nat_def set_map)+
  then show ?case using Cons.IH [of r'] Cons.prems(1,2) by (simp add: r'_def)
qed simp

definition executing :: "exit_env \<Rightarrow> bool" where
  "executing ev = (ev_live ev \<or> ev_paper ev)"

lemma loop_no_orders:
  assumes "\<not> executing ev" shows "orders (run_result (foldl (exit_symbol ev m) r gs)) = orders (run_result r)"
proof (induction gs arbitrary: r)
  case (Cons g gs)
  obtain s items where g: "g = (s, items)" by (cases g)
  have "orders (run_result (exit_symbol ev m r (s, items))) = orders (run_result r)"
    using assms by (cases rule: exit_symbol_cases [of m s items ev r]) (auto simp: executing_def)
  then show ?case using Cons by (simp add: g)
qed simp

lemma good_groups: "groups_ok (\<lambda>p. \<not> bad_position p) gs \<Longrightarrow> (s, items) \<in> set gs \<Longrightarrow> list_all good_item items"
proof -
  assume a: "groups_ok (\<lambda>p. \<not> bad_position p) gs" "(s, items) \<in> set gs"
  have "good_item i" if "\<not> bad_position (it_position i)" for i
    using good_position_item [OF that] by (metis exit_item.surjective old.unit.exhaust)
  then show "list_all good_item items" using a by (auto simp: groups_ok_def list_all_iff)
qed

lemma exit_positions_orders:
  assumes "list_all (\<lambda>p. \<not> bad_position p) tracked" "orders (run_result r) = []"
  shows "let os = orders (run_result (exit_positions ev broker tracked r)) in
    distinct (map (\<lambda>a. a ! 1) os) \<and> list_all (order_ok broker) os \<and> (os \<noteq> [] \<longrightarrow> executing ev)"
proof -
  obtain rem gs where l: "foldl (scan_step (ev_now ev) (broker_map broker)) ([], []) tracked = (rem, gs)" by fastforce
  have ok: "groups_ok (\<lambda>p. \<not> bad_position p) gs"
    using scan_groups [OF assms(1), of "[]" "ev_now ev" "broker_map broker" "[]"] l by (simp add: groups_ok_def)
  define r0 where "r0 = r\<lparr>run_remaining := rem\<rparr>"
  have o: "orders (run_result r0) = []" using assms(2) by (simp add: r0_def)
  have e: "exit_positions ev broker tracked r = foldl (exit_symbol ev (broker_map broker)) r0 gs"
    by (simp add: exit_positions_def l Let_def r0_def)
  have "distinct (map fst gs)" using ok by (simp add: groups_ok_def)
  then show ?thesis
    using loop_orders [of gs r0 broker ev] good_groups [OF ok] o loop_no_orders [of ev "broker_map broker" r0 gs]
    unfolding e Let_def by fastforce
qed

lemma loop_not_blocked: "blocked (run_result (foldl (exit_symbol ev m) r gs)) = blocked (run_result r)"
proof (induction gs arbitrary: r)
  case (Cons g gs)
  obtain s items where g: "g = (s, items)" by (cases g)
  have "blocked (run_result (exit_symbol ev m r (s, items))) = blocked (run_result r)"
    by (cases rule: exit_symbol_cases [of m s items ev r]) auto
  then show ?case using Cons by (simp add: g)
qed simp

definition start_run :: "inventory \<Rightarrow> jsval \<Rightarrow> exit_run" where
  "start_run held state = \<lparr>run_history = array_items (js_get state ''cycleHistory''), run_remaining = [],
     run_result = empty_result\<lparr>inventoryStatus := Some (inv_status held)\<rparr>\<rparr>"

lemma exit_check_cases:
  assumes "runAlpacaExitCheck ev lock held f = Inr (f', res)"
  obtains (nothing) "f' = f" "orders res = []"
  | (ran) state r where "lock" "loadState (ev_now ev) f = Inr state" "inv_status held \<in> {Confirmed, Confirmed_empty}"
      "r = exit_positions ev (inv_positions held) (array_items (js_get state ''positions'')) (start_run held state)"
      "saveState (spread_update state [(''cycleHistory'', JArr (run_history r)),
         (''positions'', JArr (run_remaining r)), (''lastCycleAt'', clock_iso (ev_now ev))]) = Inr f'" "res = run_result r"
proof (cases lock)
  case False
  show thesis by (rule nothing) (use assms False in \<open>auto simp: runAlpacaExitCheck_def empty_result_def\<close>)
next
  case True
  obtain state where st: "loadState (ev_now ev) f = Inr state"
    using assms True by (auto simp: runAlpacaExitCheck_def rbind_Inr_iff)
  consider "array_items (js_get state ''positions'') = []" | "inv_status held \<notin> {Confirmed, Confirmed_empty}"
    | "array_items (js_get state ''positions'') \<noteq> []" "inv_status held \<in> {Confirmed, Confirmed_empty}" by blast
  then show thesis
  proof cases
    case 3
    define r where "r = exit_positions ev (inv_positions held) (array_items (js_get state ''positions'')) (start_run held state)"
    show thesis using assms True st 3 ran [OF True st 3(2) r_def]
      unfolding r_def start_run_def by (simp add: runAlpacaExitCheck_def Let_def rbind_Inr_iff split: if_splits)
  qed (rule nothing; use assms True st in \<open>auto simp: runAlpacaExitCheck_def Let_def empty_result_def split: if_splits\<close>)+
qed

text \<open>
  C4. The exit check never oversells: it sends at most one order per symbol, each a sale of a
  positive quantity that is at most what the broker reports as sellable for that symbol, and only
  with the lock held, a confirmed inventory and execution switched on.  A blocked check sends
  nothing and leaves the state file as it is.
\<close>

theorem exit_check_never_oversells:
  assumes "runAlpacaExitCheck ev lock held f = Inr (f', res)"
  shows "distinct (map (\<lambda>a. a ! 1) (orders res))
    \<and> (\<forall>a \<in> set (orders res). \<exists>p \<in> set (inv_positions held). \<exists>q. js_get p ''symbol'' = a ! 1 \<and> a ! 0 = JStr ''sell''
        \<and> a ! 2 = JStr (num_to_string q) \<and> js_lt (Fin 0) q \<and> js_le q (sellable p))
    \<and> (orders res \<noteq> [] \<longrightarrow> lock \<and> inv_status held \<in> {Confirmed, Confirmed_empty} \<and> (ev_live ev \<or> ev_paper ev))
    \<and> (blocked res \<longrightarrow> f' = f \<and> orders res = [])"
  using assms
proof (cases rule: exit_check_cases)
  case nothing
  then show ?thesis by simp
next
  case (ran state r)
  have ok: "distinct (map (\<lambda>a. a ! 1) (orders res))" "list_all (order_ok (inv_positions held)) (orders res)" "orders res \<noteq> [] \<Longrightarrow> executing ev"
    using exit_positions_orders [OF positions_loaded [OF ran(2)], of "start_run held state" ev "inv_positions held"]
    unfolding ran(4,6) Let_def by (simp_all add: start_run_def empty_result_def)
  have "\<not> blocked res"
    by (simp add: ran(4,6) exit_positions_def Let_def loop_not_blocked start_run_def empty_result_def split: prod.split)
  then show ?thesis using ok ran(1,3) by (auto simp: order_ok_def list_all_iff executing_def)
qed

section \<open>Bookkeeping\<close>

text \<open>The tracked quantity of a symbol, for positions in whole units.\<close>

definition whole_position :: "jsval \<Rightarrow> bool" where
  "whole_position p = (\<exists>k. js_get p ''qty'' = JNum (Fin (of_int k)) \<and> 0 < k)"

definition unit_of :: "jsval \<Rightarrow> int" where
  "unit_of p = (case js_get p ''qty'' of JNum (Fin r) \<Rightarrow> \<lfloor>r\<rfloor> | _ \<Rightarrow> 0)"

definition sym_units :: "jsval list \<Rightarrow> jsval \<Rightarrow> int" where
  "sym_units ps s = sum_list (map unit_of (filter (\<lambda>p. js_get p ''symbol'' = s) ps))"

definition exit_units :: "exit_item list \<Rightarrow> int" where
  "exit_units items = sum_list (map (\<lambda>i. unit_of (it_position i)) items)"

lemma units_simps [simp]:
  "sym_units [] s = 0" "sym_units (ps @ qs) s = sym_units ps s + sym_units qs s"
  "sym_units (p # ps) s = (if js_get p ''symbol'' = s then unit_of p else 0) + sym_units ps s"
  by (simp_all add: sym_units_def)

lemma units_other: "\<forall>p \<in> set ps. js_get p ''symbol'' \<noteq> s \<Longrightarrow> sym_units ps s = 0"
  by (induction ps) auto

lemma units_nonneg: "list_all whole_position ps \<Longrightarrow> 0 \<le> sym_units ps s"
  by (induction ps) (auto simp: whole_position_def unit_of_def)

lemma whole_unit:
  assumes "whole_position p" shows "js_get p ''qty'' = JNum (Fin (of_int (unit_of p)))" "0 < unit_of p"
  using assms by (auto simp: whole_position_def unit_of_def)

lemma whole_item_qty:
  assumes "whole_position (it_position i)" shows "item_qty i = Fin (of_int (unit_of (it_position i)))"
  using whole_unit [OF assms] by (simp add: item_qty_def js_or_def js_to_number_def)

lemma exit_units_Cons [simp]: "exit_units (i # items) = unit_of (it_position i) + exit_units items" "exit_units [] = 0"
  by (simp_all add: exit_units_def)

lemma exit_units_nonneg: "list_all (\<lambda>i. whole_position (it_position i)) items \<Longrightarrow> 0 \<le> exit_units items"
  by (induction items) (auto dest: whole_unit(2))

lemma desired_whole:
  assumes "list_all (\<lambda>i. whole_position (it_position i)) items" "0 \<le> a" "a + exit_units items < 2 ^ 53"
  shows "foldl (\<lambda>s item. js_add s (item_qty item)) (Fin (of_int a)) items = Fin (of_int (a + exit_units items))"
  using assms
proof (induction items arbitrary: a)
  case (Cons i items)
  have u: "0 < unit_of (it_position i)" "0 \<le> exit_units items"
    using Cons.prems(1) whole_unit(2) exit_units_nonneg by auto
  have "js_add (Fin (of_int a)) (item_qty i) = Fin (of_int (a + unit_of (it_position i)))"
    using js_add_int [of a "unit_of (it_position i)"] whole_item_qty [of i] Cons.prems u by simp
  then show ?case using Cons.IH [of "a + unit_of (it_position i)"] Cons.prems u by (simp add: add.assoc)
qed simp

lemma outcome_whole:
  assumes "whole_position p" "0 < k" "k \<le> unit_of p" "unit_of p < 2 ^ 53"
    and rp_def: "rp = snd (buildExitOutcome now p x y (Fin (of_int k)) c l)"
  shows "sym_units (case rp of Some q \<Rightarrow> [q] | None \<Rightarrow> []) s = (if js_get p ''symbol'' = s then unit_of p - k else 0)"
proof -
  have "js_sub (Fin (of_int (unit_of p))) (Fin (of_int k)) = Fin (of_int (unit_of p - k))"
    using assms(2-4) by (intro js_sub_int) simp
  then have "rp = (if k < unit_of p then Some (spread_update p [(''qty'', JNum (Fin (of_int (unit_of p - k))))]) else None)"
    using assms(2,3) whole_unit [OF assms(1)] by (simp add: rp_def buildExitOutcome_def Let_def js_to_number_def max_def min_def)
  then show ?thesis using assms(3) by (auto simp: unit_of_def)
qed

lemma allocate_whole:
  assumes "list_all (\<lambda>i. whole_position (it_position i) \<and> js_get (it_position i) ''symbol'' = s) items"
    and "0 \<le> k" "k \<le> exit_units items" "exit_units items < 2 ^ 53"
  shows "sym_units (fst (snd (allocate now c l (Fin (of_int k)) items (hist, rem, n)))) s = sym_units rem s + exit_units items - k"
  using assms
proof (induction items arbitrary: k hist rem n)
  case (Cons i items)
  let ?u = "unit_of (it_position i)"
  have w: "whole_position (it_position i)" "js_get (it_position i) ''symbol'' = s" using Cons.prems(1) by simp_all
  have u: "0 < ?u" "?u < 2 ^ 53" "0 \<le> exit_units items"
    using w Cons.prems whole_unit(2) exit_units_nonneg [of items] by (auto simp: list_all_iff)
  have a: "js_min (item_qty i) (Fin (of_int k)) = Fin (of_int (min ?u k))"
    by (simp add: whole_item_qty [OF w(1)] min_def)
  have r: "js_sub (Fin (of_int k)) (Fin (of_int (min ?u k))) = Fin (of_int (k - min ?u k))"
    using Cons.prems u by (intro js_sub_int) auto
  have k: "0 \<le> k - min ?u k" "k - min ?u k \<le> exit_units items" "exit_units items < 2 ^ 53"
    "list_all (\<lambda>i. whole_position (it_position i) \<and> js_get (it_position i) ''symbol'' = s) items"
    using Cons.prems u by auto
  show ?case
  proof (cases "0 < k")
    case True
    obtain h rp where o: "buildExitOutcome now (it_position i) (it_reason i) (it_price i) (Fin (of_int (min ?u k))) c l = (h, rp)" by fastforce
    have "sym_units (case rp of Some q \<Rightarrow> [q] | None \<Rightarrow> []) s = ?u - min ?u k"
      using outcome_whole [OF w(1), of "min ?u k" rp now "it_reason i" "it_price i" c l s] o w(2) u True by simp
    then show ?thesis using Cons.IH [OF k(4,1,2,3)] True u(1) by (simp add: a r o del: of_int_min)
  next
    case False
    then have "k = 0" using Cons.prems(2) by simp
    then show ?thesis using Cons.IH [OF k(4,1,2,3)] w(2) u(1) a r by simp
  qed
qed simp

text \<open>Positions of other symbols are not touched.\<close>

lemma allocate_appends:
  "\<exists>app. fst (snd (allocate now c l k items (hist, rem, n))) = rem @ app
    \<and> (\<forall>p \<in> set app. js_get p ''symbol'' \<in> (\<lambda>i. js_get (it_position i) ''symbol'') ` set items)"
proof (induction items arbitrary: k hist rem n)
  case (Cons i items)
  define a where "a = js_min (item_qty i) k"
  obtain h rp where o: "buildExitOutcome now (it_position i) (it_reason i) (it_price i) a c l = (h, rp)" by fastforce
  define new where "new = (if js_lt (Fin 0) a then (case rp of Some q \<Rightarrow> [q] | None \<Rightarrow> []) else [it_position i])"
  have "\<forall>p \<in> set new. js_get p ''symbol'' = js_get (it_position i) ''symbol''"
    using o by (auto simp: new_def buildExitOutcome_def Let_def split: if_splits)
  moreover obtain k' hist' n' where "allocate now c l k (i # items) (hist, rem, n) = allocate now c l k' items (hist', rem @ new, n')"
    by (cases "js_lt (Fin 0) a") (simp_all add: Let_def a_def [symmetric] o new_def)
  moreover obtain app where "fst (snd (allocate now c l k' items (hist', rem @ new, n'))) = (rem @ new) @ app"
    "\<forall>p \<in> set app. js_get p ''symbol'' \<in> (\<lambda>i. js_get (it_position i) ''symbol'') ` set items"
    using Cons.IH by blast
  ultimately show ?case by (intro exI [of _ "new @ app"]) auto
qed simp

definition orders_for :: "jsval \<Rightarrow> exit_run \<Rightarrow> jsval list list" where
  "orders_for s r = filter (\<lambda>a. a ! 1 = s) (orders (run_result r))"

lemma book_sale_remaining:
  "run_remaining (book_sale ev items q r) = fst (snd (allocate (ev_now ev) (ev_cycle ev) (ev_live ev \<or> ev_paper ev) q items
     (run_history r, run_remaining r, sellsExecuted (run_result r))))"
  by (simp add: book_sale_def split: prod.split)

lemma book_sale_other:
  assumes "list_all (\<lambda>i. js_get (it_position i) ''symbol'' = k) items" "k \<noteq> s"
  shows "sym_units (run_remaining (book_sale ev items q r)) s = sym_units (run_remaining r) s"
proof -
  obtain app where "run_remaining (book_sale ev items q r) = run_remaining r @ app"
    "\<forall>p \<in> set app. js_get p ''symbol'' \<in> (\<lambda>i. js_get (it_position i) ''symbol'') ` set items"
    unfolding book_sale_remaining using allocate_appends by metis
  moreover from this have "\<forall>p \<in> set app. js_get p ''symbol'' \<noteq> s" using assms by (force simp: list_all_iff)
  ultimately show ?thesis using units_other [of app s] by simp
qed

lemma exit_symbol_other:
  assumes "list_all (\<lambda>i. js_get (it_position i) ''symbol'' = k) items" "k \<noteq> s"
  shows "sym_units (run_remaining (exit_symbol ev m r (k, items))) s = sym_units (run_remaining r) s"
    "orders_for s (exit_symbol ev m r (k, items)) = orders_for s r"
proof -
  have "sym_units (map it_position items) s = 0" using assms by (intro units_other) (auto simp: list_all_iff)
  then show "sym_units (run_remaining (exit_symbol ev m r (k, items))) s = sym_units (run_remaining r) s"
    using book_sale_other [OF assms] by (cases rule: exit_symbol_cases [of m k items ev r]) simp_all
  show "orders_for s (exit_symbol ev m r (k, items)) = orders_for s r"
    using assms(2) by (cases rule: exit_symbol_cases [of m k items ev r]) (simp_all add: orders_for_def sell_order_def)
qed

text \<open>What a check does to the tracked quantity of one symbol.\<close>

definition settled :: "exit_env \<Rightarrow> jsval list list \<Rightarrow> int \<Rightarrow> int \<Rightarrow> bool" where
  "settled ev os before after =
    (case filter (\<lambda>a. ev_trade ev a = Inr (JNum (Fin 0))) os of
       [] \<Rightarrow> after = before
     | a # _ \<Rightarrow> after < before \<and> a ! 2 = JStr (num_to_string (Fin (of_int (before - after)))))"

lemma exit_symbol_settles:
  assumes "list_all (\<lambda>i. whole_position (it_position i) \<and> js_get (it_position i) ''symbol'' = s) items"
    and "exit_units items < 2 ^ 53" "map_of m s = Some p" "sellable p = Fin (of_int v)" "js_lt (Fin 0) (gross_of m s)"
    and "executing ev" "orders_for s r = []"
  shows "settled ev (orders_for s (exit_symbol ev m r (s, items)))
    (sym_units (run_remaining r) s + exit_units items) (sym_units (run_remaining (exit_symbol ev m r (s, items))) s)"
proof -
  have w: "list_all (\<lambda>i. whole_position (it_position i)) items" using assms(1) by (simp add: list_all_iff)
  have keep: "sym_units (map it_position items) s = exit_units items"
    using assms(1) by (induction items) auto
  define q where "q = max 0 (min (exit_units items) v)"
  have sq: "sell_qty m s items = Fin (of_int q)"
    using desired_whole [OF w, of 0] assms(2-4)
    by (simp add: sell_qty_def available_of_def num_or_zero_def resolveExitQty_def q_def max_def min_def)
  have sold: "sym_units (run_remaining (book_sale ev items (Fin (of_int q)) r')) s = sym_units (run_remaining r') s + exit_units items - q" for r'
    unfolding book_sale_remaining using exit_units_nonneg [OF w] assms(1,2) by (intro allocate_whole) (auto simp: q_def)
  show ?thesis
  proof (cases rule: exit_symbol_cases [of m s items ev r])
    case sold': sold
    then have "0 < q" using sq by simp
    then show ?thesis using sold' assms(7) sold sq by (simp add: settled_def orders_for_def sell_order_def)
  qed (use assms keep in \<open>simp_all add: settled_def orders_for_def sell_order_def executing_def\<close>)
qed

definition group_units :: "(jsval \<times> exit_item list) list \<Rightarrow> jsval \<Rightarrow> int" where
  "group_units gs s = (case map_of gs s of None \<Rightarrow> 0 | Some items \<Rightarrow> exit_units items)"

lemma loop_other:
  assumes "\<forall>(k, items) \<in> set gs. list_all (\<lambda>i. js_get (it_position i) ''symbol'' = k) items" "s \<notin> fst ` set gs"
  shows "sym_units (run_remaining (foldl (exit_symbol ev m) r gs)) s = sym_units (run_remaining r) s
    \<and> orders_for s (foldl (exit_symbol ev m) r gs) = orders_for s r"
  using assms
proof (induction gs arbitrary: r)
  case (Cons g gs)
  obtain k items where g: "g = (k, items)" by (cases g)
  have "list_all (\<lambda>i. js_get (it_position i) ''symbol'' = k) items" "k \<noteq> s" using Cons.prems by (auto simp: g)
  note other = exit_symbol_other [OF this, of ev m r]
  show ?case using Cons.IH [of "exit_symbol ev m r g"] Cons.prems other by (simp add: g)
qed simp

lemma loop_settles:
  assumes "groups_ok whole_position gs" "group_units gs s < 2 ^ 53" "map_of m s = Some p" "sellable p = Fin (of_int v)"
    and "js_lt (Fin 0) (gross_of m s)" "executing ev" "orders_for s r = []"
  shows "settled ev (orders_for s (foldl (exit_symbol ev m) r gs))
    (sym_units (run_remaining r) s + group_units gs s) (sym_units (run_remaining (foldl (exit_symbol ev m) r gs)) s)"
  using assms
proof (induction gs arbitrary: r)
  case Nil
  then show ?case by (simp add: settled_def group_units_def)
next
  case (Cons g gs)
  obtain k items where g: "g = (k, items)" by (cases g)
  have ok: "list_all (\<lambda>i. whole_position (it_position i) \<and> js_get (it_position i) ''symbol'' = k) items" "groups_ok whole_position gs"
    "k \<notin> fst ` set gs" "\<forall>(k, items) \<in> set gs. list_all (\<lambda>i. js_get (it_position i) ''symbol'' = k) items"
    using Cons.prems(1) by (auto simp: g groups_ok_def list_all_iff)
  define r' where "r' = exit_symbol ev m r g"
  show ?case
  proof (cases "k = s")
    case True
    have "settled ev (orders_for s r') (sym_units (run_remaining r) s + exit_units items) (sym_units (run_remaining r') s)"
      unfolding r'_def g using True exit_symbol_settles [of s items m p v ev r] Cons.prems(2-7) ok(1) by (simp add: g group_units_def)
    then show ?thesis using loop_other [OF ok(4), of s ev m r'] ok(3) True by (simp add: g r'_def group_units_def)
  next
    case False
    have o: "list_all (\<lambda>i. js_get (it_position i) ''symbol'' = k) items" using ok(1) by (simp add: list_all_iff)
    have eq: "group_units (g # gs) s = group_units gs s" using False by (simp add: g group_units_def)
    show ?thesis
      using Cons.IH [OF ok(2) _ Cons.prems(3-6), of r'] Cons.prems(2,7) exit_symbol_other [OF o False, of ev m r]
      unfolding eq by (simp add: r'_def g)
  qed
qed

lemma scan_units:
  assumes "map_of m s = Some p"
  shows "sym_units (fst (foldl (scan_step now m) (rem, gs) ps)) s + group_units (snd (foldl (scan_step now m) (rem, gs) ps)) s
    = sym_units rem s + group_units gs s + sym_units ps s"
proof (induction ps arbitrary: rem gs)
  case (Cons x ps)
  obtain rem' gs' where st: "scan_step now m (rem, gs) x = (rem', gs')" by fastforce
  have "sym_units rem' s + group_units gs' s = sym_units rem s + group_units gs s + sym_units [x] s"
    using st assms
    by (auto simp: scan_step_def Let_def group_units_def map_of_update exit_units_def split: option.splits if_splits)
  then show ?case using Cons.IH [of rem' gs'] by (simp add: st)
qed simp

lemma scan_remaining:
  assumes "list_all P ps" "list_all P rem" shows "list_all P (fst (foldl (scan_step now m) (rem, gs) ps))"
  using assms
proof (induction ps arbitrary: rem gs)
  case (Cons x ps)
  obtain rem' gs' where st: "scan_step now m (rem, gs) x = (rem', gs')" by fastforce
  then have "list_all P rem'" using Cons.prems by (auto simp: scan_step_def Let_def split: option.splits)
  then show ?case using Cons.IH [of rem' gs'] Cons.prems by (simp add: st)
qed simp

lemma exit_positions_settle:
  assumes "list_all whole_position tracked" "sym_units tracked s < 2 ^ 53" "m = broker_map broker" "map_of m s = Some p"
    and "sellable p = Fin (of_int v)" "js_lt (Fin 0) (gross_of m s)" "executing ev" "orders (run_result r) = []"
  shows "settled ev (orders_for s (exit_positions ev broker tracked r)) (sym_units tracked s)
    (sym_units (run_remaining (exit_positions ev broker tracked r)) s)"
proof -
  obtain rem gs where l: "foldl (scan_step (ev_now ev) m) ([], []) tracked = (rem, gs)" by fastforce
  have ok: "groups_ok whole_position gs"
    using scan_groups [OF assms(1), of "[]" "ev_now ev" m "[]"] l by (simp add: groups_ok_def)
  have sum: "sym_units rem s + group_units gs s = sym_units tracked s"
    using scan_units [OF assms(4), of "ev_now ev" "[]" "[]" tracked] l by (simp add: group_units_def)
  have "0 \<le> sym_units rem s"
    using scan_remaining [OF assms(1), of "[]" "ev_now ev" m "[]"] l by (intro units_nonneg) simp
  then have "group_units gs s < 2 ^ 53" using sum assms(2) by linarith
  then show ?thesis
    using loop_settles [OF ok _ assms(4-7), of "r\<lparr>run_remaining := rem\<rparr>"] assms(8) sum
    by (simp add: exit_positions_def l assms(3) [symmetric] Let_def orders_for_def)
qed

text \<open>
  C17. The book follows the broker: for positions in whole units of a symbol that the broker holds,
  an executing check reduces the tracked quantity of the symbol by exactly the quantity of the sell
  order that the trade command accepted; when there is none, the tracked quantity stays.
\<close>

theorem exit_check_settles:
  assumes "runAlpacaExitCheck ev lock held (Parsed raw) = Inr (f', res)" "ev_live ev \<or> ev_paper ev"
    and "js_get raw ''positions'' = JArr tracked" "list_all whole_position tracked" "sym_units tracked s < 2 ^ 53"
    and "map_of (broker_map (inv_positions held)) s = Some p" "sellable p = Fin (of_int v)"
    and "js_lt (Fin 0) (js_to_number (js_get p ''quantity''))"
  shows "f' = Parsed raw \<and> orders res = []
    \<or> (\<exists>state'. saveState state' = Inr f'
      \<and> (case filter (\<lambda>a. a ! 1 = s \<and> ev_trade ev a = Inr (JNum (Fin 0))) (orders res) of
           [] \<Rightarrow> sym_units (array_items (js_get state' ''positions'')) s = sym_units tracked s
         | a # _ \<Rightarrow> \<exists>q>0. a ! 2 = JStr (num_to_string (Fin (of_int q)))
             \<and> sym_units (array_items (js_get state' ''positions'')) s + q = sym_units tracked s))"
  using assms(1)
proof (cases rule: exit_check_cases)
  case (ran state r)
  have tr: "array_items (js_get state ''positions'') = tracked"
    using loaded_fields(2) [OF ran(2)] assms(3) by (simp add: js_or_def array_items_def)
  define g where "g = js_to_number (js_get p ''quantity'')"
  have "truthy (js_get p ''quantity'')"
    using assms(8) by (cases "js_get p ''quantity''") (auto simp: js_to_number_def string_to_number_def js_trim_def Let_def split: if_splits)
  then have gross: "js_lt (Fin 0) (gross_of (broker_map (inv_positions held)) s)"
    using assms(6,8) by (auto simp: gross_of_def js_or_def js_max_def)
  define state' where "state' = spread_update state [(''cycleHistory'', JArr (run_history r)),
         (''positions'', JArr (run_remaining r)), (''lastCycleAt'', clock_iso (ev_now ev))]"
  have after: "array_items (js_get state' ''positions'') = run_remaining r"
    by (simp add: state'_def js_get_spread_map array_items_def)
  have "settled ev (orders_for s r) (sym_units tracked s) (sym_units (run_remaining r) s)"
    unfolding ran(4) tr using assms gross
    by (intro exit_positions_settle) (auto simp: executing_def start_run_def empty_result_def)
  then have "case filter (\<lambda>a. a ! 1 = s \<and> ev_trade ev a = Inr (JNum (Fin 0))) (orders res) of
      [] \<Rightarrow> sym_units (run_remaining r) s = sym_units tracked s
    | a # _ \<Rightarrow> \<exists>q>0. a ! 2 = JStr (num_to_string (Fin (of_int q))) \<and> sym_units (run_remaining r) s + q = sym_units tracked s"
    by (auto simp: settled_def orders_for_def ran(6) conj_commute split: list.splits
        intro!: exI [of _ "sym_units tracked s - sym_units (run_remaining r) s"])
  then have "saveState state' = Inr f' \<and> (case filter (\<lambda>a. a ! 1 = s \<and> ev_trade ev a = Inr (JNum (Fin 0))) (orders res) of
      [] \<Rightarrow> sym_units (array_items (js_get state' ''positions'')) s = sym_units tracked s
    | a # _ \<Rightarrow> \<exists>q>0. a ! 2 = JStr (num_to_string (Fin (of_int q)))
        \<and> sym_units (array_items (js_get state' ''positions'')) s + q = sym_units tracked s)"
    using ran(5) [folded state'_def] unfolding after by blast
  then show ?thesis by blast
qed simp

section \<open>Surprises\<close>

text \<open>
  A position whose fill price was no number is saved with \<^verbatim>\<open>null\<close> limits, and a target of \<^verbatim>\<open>null\<close> counts
  as reached at every price.
\<close>

lemma null_target_reached:
  assumes "js_get position ''targetPrice'' = JNull" "js_lt (Fin 0) currentPrice"
  shows "decideExit position currentPrice ageDays elapsedBars = Some Target"
proof -
  have "js_le (Fin 0) currentPrice" using assms(2) by (cases currentPrice) (auto simp: js_le_def)
  then show ?thesis using assms by (simp add: decideExit_def js_to_number_def)
qed

definition demo_position :: jsval where
  "demo_position = JObj [(''positionId'', JStr ''A_1''), (''symbol'', JStr ''A''), (''qty'', JNum (Fin 4)),
     (''strategyName'', JStr ''t''), (''timeframe'', JStr ''1d''), (''fillPrice'', JNum (Fin 100)),
     (''entryTimestamp'', JStr ''1970-01-01T00:00:00.000Z''), (''stopPrice'', JNum (Fin 90)), (''targetPrice'', JNum (Fin 110))]"

definition demo_raw :: jsval where
  "demo_raw = JObj [(''positions'', JArr [demo_position])]"

definition demo_held :: inventory where
  "demo_held = fetchAlpacaPositions (Inr (JObj [(''ok'', JBool True), (''positions'',
     JArr [JObj [(''symbol'', JStr ''A''), (''quantity'', JNum (Fin 3)), (''marketValue'', JNum (Fin 360))]])]))"

definition demo_ev :: "bool \<Rightarrow> exit_env" where
  "demo_ev live = \<lparr>ev_now = 0, ev_hex = (\<lambda>_. ''ab''), ev_cycle = ''c'', ev_live = live, ev_paper = False, ev_pin = None,
     ev_trade = (\<lambda>_. Inr (JNum (Fin 0)))\<rparr>"

text \<open>A check without execution sends nothing, and still books the sale and saves the state.\<close>

lemma dry_run_books_sale:
  "\<exists>raw' res p. runAlpacaExitCheck (demo_ev False) True demo_held (Parsed demo_raw) = Inr (Parsed raw', res)
     \<and> orders res = [] \<and> js_get raw' ''positions'' = JArr [p] \<and> js_get p ''qty'' = JNum (Fin 1)"
proof -
  have "case runAlpacaExitCheck (demo_ev False) True demo_held (Parsed demo_raw) of
      Inr (Parsed raw', res) \<Rightarrow> orders res = [] \<and> (case js_get raw' ''positions'' of JArr [p] \<Rightarrow> js_get p ''qty'' = JNum (Fin 1) | _ \<Rightarrow> False)
    | _ \<Rightarrow> False" by code_simp
  then show ?thesis
    by (auto split: sum.split_asm prod.split_asm state_file.split_asm jsval.split_asm list.split_asm)
qed

lemma demo_check:
  obtains f' res where "runAlpacaExitCheck (demo_ev True) True demo_held (Parsed demo_raw) = Inr (f', res)"
    "map (\<lambda>a. take 3 a) (orders res) = [[JStr ''sell'', JStr ''A'', JStr ''3'']]"
proof -
  have "case runAlpacaExitCheck (demo_ev True) True demo_held (Parsed demo_raw) of
      Inr (f', res) \<Rightarrow> map (\<lambda>a. take 3 a) (orders res) = [[JStr ''sell'', JStr ''A'', JStr ''3'']] | _ \<Rightarrow> False" by code_simp
  then show thesis using that by (auto split: sum.split_asm prod.split_asm)
qed

theorem exit_check_never_oversells_witness:
  "\<exists>f' res a p q. runAlpacaExitCheck (demo_ev True) True demo_held (Parsed demo_raw) = Inr (f', res) \<and> a \<in> set (orders res)
    \<and> p \<in> set (inv_positions demo_held) \<and> a ! 2 = JStr (num_to_string q) \<and> js_lt (Fin 0) q \<and> js_le q (sellable p)"
proof -
  obtain f' res where r: "runAlpacaExitCheck (demo_ev True) True demo_held (Parsed demo_raw) = Inr (f', res)"
    "map (\<lambda>a. take 3 a) (orders res) = [[JStr ''sell'', JStr ''A'', JStr ''3'']]" by (rule demo_check)
  obtain a where "a \<in> set (orders res)" using r(2) by (cases "orders res") auto
  then show ?thesis using r(1) exit_check_never_oversells [OF r(1)] by blast
qed

lemma demo_facts:
  "map_of (broker_map (inv_positions demo_held)) (JStr ''A'') = Some (JObj [(''symbol'', JStr ''A''), (''quantity'', JNum (Fin 3)), (''marketValue'', JNum (Fin 360))])"
  "sellable (JObj [(''symbol'', JStr ''A''), (''quantity'', JNum (Fin 3)), (''marketValue'', JNum (Fin 360))]) = Fin (of_int 3)"
  "js_lt (Fin 0) (js_to_number (js_get (JObj [(''symbol'', JStr ''A''), (''quantity'', JNum (Fin 3)), (''marketValue'', JNum (Fin 360))]) ''quantity''))"
  by code_simp+

theorem exit_check_settles_witness:
  "\<exists>f' res state' q. runAlpacaExitCheck (demo_ev True) True demo_held (Parsed demo_raw) = Inr (f', res) \<and> saveState state' = Inr f'
    \<and> 0 < q \<and> sym_units (array_items (js_get state' ''positions'')) (JStr ''A'') + q = 4"
proof -
  obtain f' res where r: "runAlpacaExitCheck (demo_ev True) True demo_held (Parsed demo_raw) = Inr (f', res)"
    "map (\<lambda>a. take 3 a) (orders res) = [[JStr ''sell'', JStr ''A'', JStr ''3'']]" by (rule demo_check)
  obtain a where a: "orders res = [a]" using r(2) by (cases "orders res") auto
  have "take 3 a ! 1 = JStr ''A''" using r(2) a by simp
  then have s: "a ! 1 = JStr ''A''" by simp
  have w: "list_all whole_position [demo_position]" "sym_units [demo_position] (JStr ''A'') = 4"
    "js_get demo_raw ''positions'' = JArr [demo_position]"
    by (auto simp: whole_position_def unit_of_def demo_position_def demo_raw_def intro: exI [of _ "4::int"])
  show ?thesis
    using exit_check_settles [OF r(1) _ w(3,1) _ demo_facts] r(1) a s w(2) by (auto simp: demo_ev_def)
qed

text \<open>The pass scans for entries only after a check that had the lock and a confirmed inventory, or nothing to check.\<close>

lemma entries_need_inventory:
  assumes "reconcileAutomationInventory False answer ev lock held f = Inr (f', Inventory_ok n limit)" "loadState (ev_now ev) f = Inr state"
  shows "lock \<and> (inv_status held \<in> {Confirmed, Confirmed_empty} \<or> array_items (js_get state ''positions'') = [])"
  using assms by (auto simp: reconcileAutomationInventory_def runAlpacaExitCheck_def Let_def empty_result_def rbind_Inr_iff
      split: sum.split_asm if_splits)

end
