(* ===== verification/Backtest_Stats.thy ===== *)
theory Backtest_Stats
  imports Timeframes Js_Math "HOL-Library.Word" "HOL-Library.List_Lexorder" "HOL-Library.Char_ord"
begin

unbundle bit_operations_syntax

text \<open>
  The statistics of a backtest, \<^verbatim>\<open>shared/lib/strategy/backtest.js\<close>: drawdown, weighted moments, tail
  risk, the seeded generator and the Monte Carlo stress, daily returns and the suitability for a
  prop firm.  A square is a product.
\<close>

section \<open>Numbers\<close>

definition js_square :: "jsnum \<Rightarrow> jsnum" where
  "js_square x = js_mul x x"

definition index_of :: "jsnum \<Rightarrow> nat" where
  "index_of x = (case x of Fin a \<Rightarrow> nat \<lfloor>a\<rfloor> | _ \<Rightarrow> 0)"

text \<open>The infinities lie beyond every double; the place of a NaN in a sort is the engine's.\<close>

definition num_key :: "jsnum \<Rightarrow> rat" where
  "num_key x = (case x of Fin a \<Rightarrow> a | PInf \<Rightarrow> pow2 1024 | NInf \<Rightarrow> - pow2 1024 | NaN \<Rightarrow> 0)"

definition sort_numbers :: "jsnum list \<Rightarrow> jsnum list" where
  "sort_numbers xs = sort_key num_key xs"

section \<open>Moments\<close>

definition drawdown_step :: "jsnum \<times> jsnum \<Rightarrow> jsnum \<Rightarrow> jsnum \<times> jsnum" where
  "drawdown_step acc e = (case acc of (peak, worst) \<Rightarrow>
     let peak' = js_max peak e in
     (peak', js_max worst (if js_lt (Fin 0) peak' then js_div (js_sub peak' e) peak' else Fin 0)))"

definition maxDrawdown :: "jsnum list \<Rightarrow> jsnum" where
  "maxDrawdown equities = snd (foldl drawdown_step (Fin 1, Fin 0) equities)"

definition mean :: "jsnum list \<Rightarrow> jsnum" where
  "mean xs = (if xs = [] then Fin 0 else js_div (js_sum xs) (js_len xs))"

definition sampleStddev :: "jsnum list \<Rightarrow> jsnum" where
  "sampleStddev xs = (if length xs < 2 then Fin 0
     else js_sqrt (js_div (js_sum (map (\<lambda>x. js_square (js_sub x (mean xs))) xs)) (Fin (of_nat (length xs - 1)))))"

definition usable :: "jsnum \<times> jsnum \<Rightarrow> bool" where
  "usable vw = (case vw of (v, w) \<Rightarrow> js_is_finite v \<and> js_is_finite w \<and> js_lt (Fin 0) w)"

text \<open>The weights are as many as the values.\<close>

definition weightedMean :: "jsnum list \<Rightarrow> jsnum list \<Rightarrow> jsnum" where
  "weightedMean vs ws = (let ps = filter usable (zip vs ws);
     weightSum = js_sum (map snd ps); weightedTotal = js_sum (map (\<lambda>(v, w). js_mul v w) ps) in
     if js_lt (Fin 0) weightSum then js_div weightedTotal weightSum else Fin 0)"

definition weightedVariance :: "jsnum list \<Rightarrow> jsnum list \<Rightarrow> jsnum" where
  "weightedVariance vs ws = (let ps = filter usable (zip vs ws); weightSum = js_sum (map snd ps); avg = weightedMean vs ws in
     if js_le weightSum (Fin 0) then Fin 0
     else js_div (js_sum (map (\<lambda>(v, w). js_mul w (js_square (js_sub v avg))) ps)) weightSum)"

definition weightedStddev :: "jsnum list \<Rightarrow> jsnum list \<Rightarrow> jsnum" where
  "weightedStddev vs ws = js_sqrt (weightedVariance vs ws)"

definition quantile :: "jsnum list \<Rightarrow> jsnum \<Rightarrow> jsnum option" where
  "quantile vs q = (let sorted = sort_numbers (filter js_is_finite vs) in
     if sorted = [] then None
     else let clamped = js_max (Fin 0) (js_min (Fin 1) q); idx = js_mul (Fin (of_nat (length sorted - 1))) clamped;
         lower = js_floor idx; upper = js_ceil idx in
       if lower = upper then Some (sorted ! index_of lower)
       else let weight = js_sub idx lower in
         Some (js_add (js_mul (sorted ! index_of lower) (js_sub (Fin 1) weight)) (js_mul (sorted ! index_of upper) weight)))"

definition periodsPerYear :: "jsval \<Rightarrow> int" where
  "periodsPerYear tf = (if tf = JStr ''5m'' then 365 * 24 * 12 else if tf = JStr ''15m'' then 365 * 24 * 4
     else if tf = JStr ''30m'' then 365 * 24 * 2 else if tf = JStr ''1h'' then 365 * 24
     else if tf = JStr ''4h'' then 365 * 6 else 365)"

definition annualize :: "jsval \<Rightarrow> jsnum \<Rightarrow> jsnum" where
  "annualize tf horizon = js_sqrt (js_div (Fin (of_int (periodsPerYear tf))) (js_max horizon (Fin 1)))"

definition annualizedSharpe :: "jsnum list \<Rightarrow> jsval \<Rightarrow> jsnum \<Rightarrow> jsnum option" where
  "annualizedSharpe rs tf horizon = (let deviation = sampleStddev rs in
     if length rs < 2 \<or> deviation = Fin 0 then None
     else Some (js_mul (js_div (mean rs) deviation) (annualize tf horizon)))"

definition annualizedSortino :: "jsnum list \<Rightarrow> jsval \<Rightarrow> jsnum \<Rightarrow> jsnum option" where
  "annualizedSortino rs tf horizon =
    (if length rs < 2 then None
     else let downside = js_sum (map (\<lambda>r. if js_lt r (Fin 0) then js_square r else Fin 0) rs);
         deviation = js_sqrt (js_div downside (js_len rs)) in
       if deviation = Fin 0 then None else Some (js_mul (js_div (mean rs) deviation) (annualize tf horizon)))"

record tail_risk =
  value_at_risk :: jsnum
  expected_shortfall :: jsnum
  tail_count :: nat
  tail_sample :: nat

definition historicalTailRisk :: "jsnum list \<Rightarrow> jsnum \<Rightarrow> tail_risk option" where
  "historicalTailRisk rs alpha = (let finite = filter js_is_finite rs in
     case quantile finite alpha of None \<Rightarrow> None
     | Some threshold \<Rightarrow> let tail = filter (\<lambda>r. js_le r threshold) finite in
         Some \<lparr>value_at_risk = threshold, expected_shortfall = (if tail = [] then threshold else mean tail),
           tail_count = length tail, tail_sample = length finite\<rparr>)"

section \<open>The seeded generator\<close>

text \<open>The conversions of the bit operators, on integers.\<close>

definition int32_of :: "int \<Rightarrow> int" where
  "int32_of n = (let m = n mod 2 ^ 32 in if 2 ^ 31 \<le> m then m - 2 ^ 32 else m)"

definition to_uint32 :: "int \<Rightarrow> int" where
  "to_uint32 n = n mod 2 ^ 32"

definition shl32 :: "int \<Rightarrow> nat \<Rightarrow> int" where
  "shl32 n k = int32_of (int32_of n * 2 ^ k)"

definition shr32 :: "int \<Rightarrow> nat \<Rightarrow> int" where
  "shr32 n k = to_uint32 n div 2 ^ k"

definition xor32 :: "int \<Rightarrow> int \<Rightarrow> int" where
  "xor32 a b = int32_of (int32_of a XOR int32_of b)"

definition imul :: "int \<Rightarrow> int \<Rightarrow> int" where
  "imul a b = int32_of (a * b)"

definition initial_seed :: "string \<Rightarrow> int" where
  "initial_seed seedText = foldl (\<lambda>seed c. imul (xor32 seed (int (char_code c))) 16777619) 2166136261 seedText"

definition random_step :: "int \<Rightarrow> int \<times> jsnum" where
  "random_step s0 = (let s1 = s0 + shl32 s0 13; s2 = xor32 s1 (shr32 s1 7); s3 = s2 + shl32 s2 3;
     s4 = xor32 s3 (shr32 s3 17); s5 = s4 + shl32 s4 5 in (s5, Fin (of_int (to_uint32 s5) / 4294967296)))"

section \<open>Monte Carlo stress\<close>

definition sample_index :: "jsnum \<Rightarrow> nat \<Rightarrow> nat" where
  "sample_index u n = index_of (js_floor (js_mul u (Fin (of_nat n))))"

definition sample_at :: "jsnum list \<Rightarrow> nat \<Rightarrow> jsnum" where
  "sample_at xs i = (if i < length xs then xs ! i else NaN)"

record sim_state =
  sim_seed :: int
  sim_equity :: jsnum
  sim_peak :: jsnum
  sim_drawdown :: jsnum
  sim_path :: "jsnum list"

definition sim_step :: "jsnum list \<Rightarrow> sim_state \<Rightarrow> sim_state" where
  "sim_step rs s = (case random_step (sim_seed s) of (seed, u) \<Rightarrow>
     let nextReturn = sample_at rs (sample_index u (length rs)); equity = js_mul (sim_equity s) (js_add (Fin 1) nextReturn);
       (peak, worst) = drawdown_step (sim_peak s, sim_drawdown s) equity in
     \<lparr>sim_seed = seed, sim_equity = equity, sim_peak = peak, sim_drawdown = worst, sim_path = sim_path s @ [equity]\<rparr>)"

definition simulate :: "jsnum list \<Rightarrow> int \<Rightarrow> sim_state" where
  "simulate rs seed = ((sim_step rs) ^^ length rs)
     \<lparr>sim_seed = seed, sim_equity = Fin 1, sim_peak = Fin 1, sim_drawdown = Fin 0, sim_path = [Fin 1]\<rparr>"

fun simulations :: "jsnum list \<Rightarrow> nat \<Rightarrow> int \<Rightarrow> sim_state list" where
  "simulations rs 0 seed = []"
| "simulations rs (Suc n) seed = (let s = simulate rs seed in s # simulations rs n (sim_seed s))"

definition sparsePath :: "nat \<Rightarrow> jsnum list \<Rightarrow> jsnum list" where
  "sparsePath maxPathPoints points =
    (if length points \<le> maxPathPoints then points
     else let step = (length points + maxPathPoints - 1) div maxPathPoints;
         sampled = map fst (filter (\<lambda>(_, i). i mod step = 0) (zip points [0..<length points])) in
       if \<not> js_num_eq (last sampled) (last points) then sampled @ [last points] else sampled)"

record stress_path =
  path_return :: jsnum
  path_drawdown :: jsnum
  path_curve :: "jsnum list"

record stress =
  runs :: nat
  sample_size :: nat
  mean_final_return :: jsnum
  median_final_return :: jsnum
  p05_final_return :: jsnum
  p95_final_return :: jsnum
  probability_of_loss :: jsnum
  mean_max_drawdown :: jsnum
  p95_max_drawdown :: jsnum
  median_path :: stress_path
  worst_path :: stress_path

text \<open>\<^verbatim>\<open>null - 1\<close> is -1.\<close>

definition less_one :: "jsnum option \<Rightarrow> jsnum" where
  "less_one q = js_sub (case q of Some x \<Rightarrow> x | None \<Rightarrow> Fin 0) (Fin 1)"

definition path_of :: "nat \<Rightarrow> sim_state \<Rightarrow> stress_path" where
  "path_of maxPathPoints s = \<lparr>path_return = js_sub (sim_equity s) (Fin 1), path_drawdown = sim_drawdown s,
     path_curve = sparsePath maxPathPoints (sim_path s)\<rparr>"

text \<open>
  The runs asked for are a finite number or absent; the text of the seed, whose default is made of
  the returns, and the limit of the path are arguments.
\<close>

definition monteCarloStress :: "jsnum list \<Rightarrow> jsval \<Rightarrow> string \<Rightarrow> nat \<Rightarrow> stress option" where
  "monteCarloStress rs runs0 seedText maxPathPoints =
    (if runs0 \<noteq> JUndef \<and> runs0 \<noteq> JNull \<and> js_le (js_to_number runs0) (Fin 0) then None
     else let finite = filter js_is_finite rs in
       if finite = [] then None
       else let n = index_of (js_max (Fin 100) (js_floor (js_to_number (js_or runs0 (JNum (Fin 200))))));
           sims = simulations finite n (initial_seed seedText); finals = map sim_equity sims;
           byFinal = sort_key (\<lambda>s. num_key (sim_equity s)) sims; drawdowns = sort_numbers (map sim_drawdown sims) in
         Some \<lparr>runs = n, sample_size = length finite, mean_final_return = js_sub (mean finals) (Fin 1),
           median_final_return = less_one (quantile finals (fl (1/2))), p05_final_return = less_one (quantile finals (fl (5/100))),
           p95_final_return = less_one (quantile finals (fl (95/100))),
           probability_of_loss = js_div (js_len (filter (\<lambda>s. js_lt (sim_equity s) (Fin 1)) sims)) (Fin (of_nat n)),
           mean_max_drawdown = mean (map sim_drawdown sims),
           p95_max_drawdown = (case quantile drawdowns (fl (95/100)) of Some x \<Rightarrow> x | None \<Rightarrow> NaN),
           median_path = path_of maxPathPoints (byFinal ! (length byFinal div 2)), worst_path = path_of maxPathPoints (hd byFinal)\<rparr>)"

section \<open>Daily returns\<close>

definition trade_time :: "jsval \<Rightarrow> string list \<Rightarrow> int option" where
  "trade_time trade ks = date_parse (text_of (foldl (\<lambda>v k. js_or v (js_get trade k)) JUndef ks))"

definition tradeExposureWeight :: "jsval \<Rightarrow> jsnum" where
  "tradeExposureWeight trade =
    (if \<not> truthy trade \<or> \<not> typeof_object trade then Fin 1
     else let holdingPeriod = js_to_number (js_get trade ''holding_period_bars'') in
       if js_is_finite holdingPeriod \<and> js_lt (Fin 0) holdingPeriod then holdingPeriod
       else case (trade_time trade [''entry_time'', ''entryTime''], trade_time trade [''exit_time'', ''exitTime'']) of
         (Some entryMs, Some exitMs) \<Rightarrow>
           if entryMs < exitMs then (let hours = fl (of_int (exitMs - entryMs) / 3600000) in
             if js_is_finite hours \<and> js_lt (Fin 0) hours then hours else Fin 1)
           else Fin 1
       | _ \<Rightarrow> Fin 1)"

definition day_step :: "(string \<times> jsnum) list \<Rightarrow> jsval \<Rightarrow> (string \<times> jsnum) list" where
  "day_step byDay trade =
    (let returnValue = js_to_number (js_get trade ''net_return'') in
     if \<not> js_is_finite returnValue then byDay
     else case Option.bind (trade_time trade [''exit_time'', ''exitTime'', ''timestamp'', ''entry_time'']) to_iso of
       None \<Rightarrow> byDay
     | Some s \<Rightarrow> let day = take 10 s;
         currentEquity = (case map_of byDay day of Some e \<Rightarrow> if e = Fin 0 \<or> e = NaN then Fin 1 else e | None \<Rightarrow> Fin 1) in
       AList.update day (js_mul currentEquity (js_add (Fin 1) returnValue)) byDay)"

record daily_summary =
  trading_days :: nat
  daily_returns :: "jsnum list"
  daily_return_mean :: jsnum
  daily_return_stddev :: jsnum
  best_day_return :: "jsnum option"
  worst_day_return :: "jsnum option"
  positive_days :: nat
  negative_days :: nat
  positive_day_ratio :: jsnum
  positive_return_total :: jsnum
  absolute_return_total :: jsnum
  best_day_share :: "jsnum option"

text \<open>Days of four-digit years are ordered as their texts.\<close>

definition summarizeDailyTradeReturns :: "jsval list \<Rightarrow> daily_summary" where
  "summarizeDailyTradeReturns trades =
    (let days = sort_key fst (foldl day_step [] trades); daily = map (\<lambda>(_, e). js_sub e (Fin 1)) days;
       positive = filter (\<lambda>r. js_lt (Fin 0) r) daily; negative = filter (\<lambda>r. js_lt r (Fin 0)) daily;
       best = (if daily = [] then None else Some (foldl js_max NInf daily));
       positiveTotal = js_sum positive in
     \<lparr>trading_days = length days, daily_returns = daily, daily_return_mean = mean daily, daily_return_stddev = sampleStddev daily,
      best_day_return = best, worst_day_return = (if daily = [] then None else Some (foldl js_min PInf daily)),
      positive_days = length positive, negative_days = length negative,
      positive_day_ratio = (if daily = [] then Fin 0 else js_div (js_len positive) (js_len daily)),
      positive_return_total = positiveTotal, absolute_return_total = js_sum (map js_abs daily),
      best_day_share = (case best of Some b \<Rightarrow> if js_is_finite b \<and> js_lt (Fin 0) positiveTotal then Some (js_div b positiveTotal) else None
        | None \<Rightarrow> None)\<rparr>)"

section \<open>Suitability for a prop firm\<close>

datatype firm_verdict = Likely_pass | Borderline | Breach_risk

record score_state =
  score :: jsnum
  passable :: bool
  warnings :: "string list"

definition warn :: "string \<Rightarrow> score_state \<Rightarrow> score_state" where
  "warn w s = s\<lparr>warnings := warnings s @ [w]\<rparr>"

definition charge :: "jsnum \<Rightarrow> score_state \<Rightarrow> score_state" where
  "charge x s = s\<lparr>score := js_sub (score s) x\<rparr>"

text \<open>\<^verbatim>\<open>Number.isFinite(x) && x > 0\<close> for a member of an object.\<close>

definition positive_number :: "jsval \<Rightarrow> bool" where
  "positive_number v = (finite_number v \<and> js_lt (Fin 0) (js_to_number v))"

definition total_loss_usage :: "jsval \<Rightarrow> jsval \<Rightarrow> jsnum option" where
  "total_loss_usage metrics rules =
    (if finite_number (js_get metrics ''max_drawdown'') \<and> positive_number (js_get rules ''max_total_loss'')
     then Some (js_div (js_to_number (js_get metrics ''max_drawdown'')) (js_to_number (js_get rules ''max_total_loss''))) else None)"

definition daily_loss :: "daily_summary \<Rightarrow> jsnum option" where
  "daily_loss daily = (case worst_day_return daily of
     Some w \<Rightarrow> if js_is_finite w then Some (js_abs (js_min (Fin 0) w)) else None | None \<Rightarrow> None)"

definition daily_loss_usage :: "daily_summary \<Rightarrow> jsval \<Rightarrow> jsnum option" where
  "daily_loss_usage daily rules = (case daily_loss daily of
     Some l \<Rightarrow> if js_is_finite l \<and> positive_number (js_get rules ''max_daily_loss'')
       then Some (js_div l (js_to_number (js_get rules ''max_daily_loss''))) else None
   | None \<Rightarrow> None)"

definition judge_usage :: "jsnum option \<Rightarrow> rat \<Rightarrow> rat \<Rightarrow> string \<Rightarrow> score_state \<Rightarrow> score_state" where
  "judge_usage usage cost scale w s = (case usage of
     Some u \<Rightarrow> if \<not> js_is_finite u then s
       else if js_le (Fin 1) u then warn w (charge (Fin cost) (s\<lparr>passable := False\<rparr>))
       else charge (js_min (Fin scale) (js_mul u (Fin scale))) s
   | None \<Rightarrow> s)"

definition judge_days :: "nat \<Rightarrow> jsval \<Rightarrow> score_state \<Rightarrow> score_state" where
  "judge_days tradingDays minDays s =
    (if \<not> finite_number minDays then s
     else let m = js_to_number minDays; d = Fin (of_nat tradingDays) in
       if js_lt d m then warn (''needs '' @ num_to_string m @ '' trading days'') (charge (Fin 20) (s\<lparr>passable := False\<rparr>))
       else if js_lt d (js_mul m (Fin 2)) then warn ''low trade-day sample for consistency'' (charge (Fin 5) s)
       else s)"

definition judge_consistency :: "jsnum option \<Rightarrow> jsval \<Rightarrow> score_state \<Rightarrow> score_state" where
  "judge_consistency share cap s = (case share of
     Some b \<Rightarrow> if js_is_finite b \<and> positive_number cap then
         if js_lt (js_to_number cap) b then warn ''best day concentration above consistency cap'' (charge (Fin 20) s)
         else charge (js_min (Fin 15) (js_mul (js_div b (js_to_number cap)) (Fin 15))) s
       else s
   | None \<Rightarrow> s)"

definition judge_profit :: "jsval \<Rightarrow> jsval \<Rightarrow> score_state \<Rightarrow> score_state" where
  "judge_profit netReturn target s =
    (if finite_number netReturn \<and> positive_number target then
       if js_le (js_to_number netReturn) (Fin 0) then warn ''strategy not yet profitable'' (charge (Fin 10) s)
       else if js_lt (js_to_number netReturn) (js_to_number target) then warn ''profit target not yet reached'' (charge (Fin 5) s)
       else s\<lparr>score := js_add (score s) (Fin 5)\<rparr>
     else s)"

definition judge_variance :: "jsnum \<Rightarrow> score_state \<Rightarrow> score_state" where
  "judge_variance v s =
    (let penalty = js_max (Fin 0) (js_min (Fin 20) (js_mul (js_sqrt (js_max (Fin 0) v)) (Fin 100)));
       s' = charge penalty s in
     if js_lt (fl (8 / 10000)) v then warn ''time-weighted variance is elevated'' s' else s')"

record suitability =
  s_grade :: char
  s_score :: jsnum
  s_verdict :: firm_verdict
  s_passable :: bool
  s_warnings :: "string list"
  s_trading_days :: nat
  s_daily_loss :: "jsnum option"
  s_daily_usage :: "jsnum option"
  s_total_usage :: "jsnum option"
  s_best_day :: "jsnum option"
  s_variance :: jsnum

text \<open>The rules are an argument.\<close>

definition assessPropFirmSuitability :: "jsval \<Rightarrow> jsval list \<Rightarrow> jsval \<Rightarrow> suitability" where
  "assessPropFirmSuitability metrics trades rules =
    (let daily = summarizeDailyTradeReturns trades; total = total_loss_usage metrics rules; dayUsage = daily_loss_usage daily rules;
       v = (if finite_number (js_get metrics ''time_weighted_variance'') then js_to_number (js_get metrics ''time_weighted_variance'') else Fin 0);
       s = judge_variance v
         (judge_profit (js_get metrics ''net_return'') (js_get rules ''profit_target'')
         (judge_consistency (best_day_share daily) (js_get rules ''consistency_cap'')
         (judge_days (trading_days daily) (js_get rules ''min_trading_days'')
         (judge_usage dayUsage 40 25 ''daily loss breaches prop-firm cap''
         (judge_usage total 50 30 ''max drawdown breaches prop-firm cap''
           \<lparr>score = Fin 100, passable = True, warnings = []\<rparr>)))));
       sc = js_max (Fin 0) (js_min (Fin 100) (js_round (score s))) in
     \<lparr>s_grade = (if js_le (Fin 85) sc then CHR ''A'' else if js_le (Fin 70) sc then CHR ''B'' else if js_le (Fin 55) sc then CHR ''C''
        else if js_le (Fin 40) sc then CHR ''D'' else CHR ''F''),
      s_score = sc,
      s_verdict = (if passable s \<and> js_le (Fin 70) sc then Likely_pass else if passable s then Borderline else Breach_risk),
      s_passable = passable s, s_warnings = take 8 (js_uniq (warnings s)), s_trading_days = trading_days daily,
      s_daily_loss = daily_loss daily, s_daily_usage = dayUsage, s_total_usage = total, s_best_day = best_day_share daily, s_variance = v\<rparr>)"

text \<open>
  The reference to a profile can turn the assessment off; \<open>profile\<close> are the flat rules of the profile
  that it selects.
\<close>

definition prop_firm_off :: "jsval \<Rightarrow> bool" where
  "prop_firm_off opts = (case js_or (js_or (js_or (js_get opts ''propFirm'') (js_get opts ''propFirmProfileId''))
       (js_get opts ''propFirmProfileName'')) (js_get opts ''profileId'') of
     JStr s \<Rightarrow> to_lower (js_trim s) \<in> {''none'', ''off'', ''disabled'', ''skip''} | _ \<Rightarrow> False)"

definition prop_firm_rules :: "jsval \<Rightarrow> jsval \<Rightarrow> jsval" where
  "prop_firm_rules profile opts = spread_update profile (case js_get opts ''rules'' of JObj ps \<Rightarrow> ps | _ \<Rightarrow> [])"

definition assess :: "jsval \<Rightarrow> jsval list \<Rightarrow> jsval \<Rightarrow> jsval \<Rightarrow> suitability option" where
  "assess metrics trades opts profile =
    (if prop_firm_off opts then None else Some (assessPropFirmSuitability metrics trades (prop_firm_rules profile opts)))"

section \<open>The generator on 32-bit words\<close>

definition xorshift :: "32 word \<Rightarrow> 32 word" where
  "xorshift w0 = (let w1 = w0 + push_bit 13 w0; w2 = w1 XOR drop_bit 7 w1; w3 = w2 + push_bit 3 w2;
     w4 = w3 XOR drop_bit 17 w3 in w4 + push_bit 5 w4)"

abbreviation w32 :: "int \<Rightarrow> 32 word" where "w32 \<equiv> word_of_int"

lemma w32_cong: "a mod 2 ^ 32 = b mod 2 ^ 32 \<Longrightarrow> w32 a = w32 b"
  by (simp add: word_of_int_eq_iff take_bit_eq_mod)

lemma w32_int32 [simp]: "w32 (int32_of n) = w32 n"
  by (rule w32_cong) (simp add: int32_of_def Let_def mod_diff_left_eq)

lemma w32_to_uint32 [simp]: "w32 (to_uint32 n) = w32 n"
  by (rule w32_cong) (simp add: to_uint32_def)

lemma uint_w32: "uint (w32 n) = to_uint32 n"
  by (simp add: to_uint32_def uint_word_of_int)

lemma w32_shl: "w32 (shl32 n k) = push_bit k (w32 n)"
proof -
  have "w32 (shl32 n k) = w32 (int32_of n) * w32 (2 ^ k)" unfolding shl32_def w32_int32 by simp
  then show ?thesis by (simp add: push_bit_eq_mult)
qed

lemma w32_xor_int: "w32 (a XOR b) = w32 a XOR w32 b"
  by (rule bit_word_eqI) (simp add: bit_simps)

lemma w32_xor: "w32 (xor32 a b) = w32 a XOR w32 b"
  by (simp only: xor32_def w32_int32 w32_xor_int)

lemma w32_shr: "w32 (shr32 n k) = drop_bit k (w32 n)"
proof -
  have "take_bit 32 (uint (w32 n)) = uint (w32 n)" by (simp only: uint_w32 to_uint32_def take_bit_eq_mod mod_mod_trivial)
  then have "uint (drop_bit k (w32 n)) = drop_bit k (uint (w32 n))" by (simp only: unsigned_drop_bit_eq) simp
  then have "shr32 n k = uint (drop_bit k (w32 n))" by (simp only: drop_bit_eq_div shr32_def uint_w32)
  then show ?thesis by (simp only: word_of_int_uint)
qed

lemma random_step_word:
  "w32 (fst (random_step seed)) = xorshift (w32 seed)"
  "snd (random_step seed) = Fin (of_int (uint (xorshift (w32 seed))) / 4294967296)"
proof -
  show s: "w32 (fst (random_step seed)) = xorshift (w32 seed)"
    by (simp add: random_step_def Let_def xorshift_def w32_shl w32_xor w32_shr)
  have "snd (random_step seed) = Fin (of_int (to_uint32 (fst (random_step seed))) / 4294967296)"
    by (simp add: random_step_def Let_def)
  then show "snd (random_step seed) = Fin (of_int (uint (xorshift (w32 seed))) / 4294967296)"
    by (simp only: s uint_w32 [symmetric])
qed

fun draws :: "nat \<Rightarrow> int \<Rightarrow> jsnum list" where
  "draws 0 seed = []"
| "draws (Suc n) seed = snd (random_step seed) # draws n (fst (random_step seed))"

fun word_draws :: "nat \<Rightarrow> 32 word \<Rightarrow> jsnum list" where
  "word_draws 0 w = []"
| "word_draws (Suc n) w = Fin (of_int (uint (xorshift w)) / 4294967296) # word_draws n (xorshift w)"

lemma draws_word: "draws n seed = word_draws n (w32 seed)"
proof (induction n arbitrary: seed)
  case (Suc n)
  show ?case by (simp only: draws.simps word_draws.simps random_step_word Suc)
qed simp

lemma draw_range:
  assumes "u \<in> set (word_draws n w)"
  obtains k :: int where "u = Fin (of_int k / 4294967296)" "0 \<le> k" "k < 4294967296"
proof -
  have "\<exists>v :: 32 word. u = Fin (of_int (uint v) / 4294967296)"
    using assms by (induction n arbitrary: w) (simp, metis set_ConsD word_draws.simps(2))
  then obtain v :: "32 word" where "u = Fin (of_int (uint v) / 4294967296)" by blast
  moreover have "0 \<le> uint v" "uint v < 4294967296" using uint_range_size [of v] by (simp_all add: word_size)
  ultimately show thesis using that by blast
qed

lemma sample_in_range:
  assumes "0 \<le> k" "k < 4294967296" "0 < n" "n < 2 ^ 20"
  shows "sample_index (Fin (of_int k / 4294967296)) n < n"
proof -
  let ?r = "of_int k / 4294967296 * of_nat n :: rat"
  have "k * int n \<le> 4294967295 * int n" using assms by (intro mult_right_mono) auto
  then have "k * int n \<le> int n * 4294967296 - 1" using assms by simp
  then have "of_int (k * int n) / 4294967296 \<le> of_int (int n * 4294967296 - 1) / (4294967296 :: rat)"
    by (intro divide_right_mono, simp only: of_int_le_iff, simp)
  then have u: "?r \<le> of_int (int n * 4294967296 - 1) / 2 ^ 32" by simp
  have "fl (of_int (int n * 4294967296 - 1) / 2 ^ 32) = Fin (of_int (int n * 4294967296 - 1) / 2 ^ 32)"
    using assms(3,4) by (intro fl_dyadic) auto
  then have "js_le (fl ?r) (Fin (of_int (int n * 4294967296 - 1) / 2 ^ 32))" using fl_mono [OF u] by simp
  moreover have "js_le (Fin 0) (fl ?r)" using assms by (intro binary64.rnd_nonneg) simp
  ultimately obtain q where q: "fl ?r = Fin q" "0 \<le> q" "q \<le> of_int (int n * 4294967296 - 1) / 2 ^ 32"
    by (cases "fl ?r") (auto simp: js_le_def)
  have "q < of_int (int n)" using q(3) by simp
  then have "\<lfloor>q\<rfloor> < int n" by (simp add: floor_less_iff)
  moreover have "sample_index (Fin (of_int k / 4294967296)) n = nat \<lfloor>q\<rfloor>"
    using q(1) by (simp add: sample_index_def js_floor_def index_of_def)
  ultimately show ?thesis using assms(3) by simp
qed

text \<open>The picks of a run: the samples that the words choose, each of them present.\<close>

definition picks :: "jsnum list \<Rightarrow> nat \<Rightarrow> int \<Rightarrow> jsnum list" where
  "picks rs n seed = map (\<lambda>u. rs ! sample_index u (length rs)) (word_draws n (w32 seed))"

lemma picks_Suc:
  "picks rs (Suc n) seed = rs ! sample_index (snd (random_step seed)) (length rs) # picks rs n (fst (random_step seed))"
  by (simp only: picks_def word_draws.simps list.map random_step_word)

lemma random_step_range:
  obtains k :: int where "snd (random_step seed) = Fin (of_int k / 4294967296)" "0 \<le> k" "k < 4294967296"
  using draw_range [of "snd (random_step seed)" 1 "w32 seed"] by (simp only: One_nat_def word_draws.simps random_step_word list.set) blast

fun equities :: "jsnum \<Rightarrow> jsnum list \<Rightarrow> jsnum list" where
  "equities e [] = []"
| "equities e (r # rs) = (let e' = js_mul e (js_add (Fin 1) r) in e' # equities e' rs)"

lemma sim_run:
  assumes "rs \<noteq> []" "length rs < 2 ^ 20"
  shows "(sim_step rs ^^ n) s = \<lparr>sim_seed = ((\<lambda>x. fst (random_step x)) ^^ n) (sim_seed s),
     sim_equity = last (sim_equity s # equities (sim_equity s) (picks rs n (sim_seed s))),
     sim_peak = fst (foldl drawdown_step (sim_peak s, sim_drawdown s) (equities (sim_equity s) (picks rs n (sim_seed s)))),
     sim_drawdown = snd (foldl drawdown_step (sim_peak s, sim_drawdown s) (equities (sim_equity s) (picks rs n (sim_seed s)))),
     sim_path = sim_path s @ equities (sim_equity s) (picks rs n (sim_seed s))\<rparr>"
proof (induction n arbitrary: s)
  case 0 show ?case by (simp add: picks_def)
next
  case (Suc n)
  obtain k :: int where k: "snd (random_step (sim_seed s)) = Fin (of_int k / 4294967296)" "0 \<le> k" "k < 4294967296"
    by (rule random_step_range)
  have r: "sample_at rs (sample_index (snd (random_step (sim_seed s))) (length rs)) = rs ! sample_index (snd (random_step (sim_seed s))) (length rs)"
    using sample_in_range [OF k(2,3)] assms k(1) by (simp add: sample_at_def)
  show ?case
    by (simp only: funpow_Suc_right o_def Suc picks_Suc) (simp add: sim_step_def split_beta Let_def r)
qed

text \<open>
  C26. The Monte Carlo runs are a bootstrap: a run's path compounds returns that all come from the
  sample (no pick is out of range), picked by the xorshift generator on 32-bit words that the code's
  number arithmetic implements; its final equity and drawdown are those of the path.
\<close>
theorem simulate_bootstrap:
  assumes "rs \<noteq> []" "length rs < 2 ^ 20"
  shows "set (picks rs (length rs) seed) \<subseteq> set rs \<and>
    sim_path (simulate rs seed) = Fin 1 # equities (Fin 1) (picks rs (length rs) seed) \<and>
    sim_equity (simulate rs seed) = last (sim_path (simulate rs seed)) \<and>
    sim_drawdown (simulate rs seed) = maxDrawdown (sim_path (simulate rs seed)) \<and>
    w32 (fst (random_step seed)) = xorshift (w32 seed)"
proof -
  have "set (picks rs n seed) \<subseteq> set rs" for n
  proof
    fix x assume "x \<in> set (picks rs n seed)"
    then obtain u where u: "u \<in> set (word_draws n (w32 seed))" "x = rs ! sample_index u (length rs)" by (auto simp: picks_def)
    obtain k :: int where "u = Fin (of_int k / 4294967296)" "0 \<le> k" "k < 4294967296" using u(1) by (rule draw_range)
    then show "x \<in> set rs" using u(2) sample_in_range [of k "length rs"] assms by simp
  qed
  moreover have "drawdown_step (Fin 1, Fin 0) (Fin 1) = (Fin 1, Fin 0)" by (simp add: drawdown_step_def js_sub_def)
  ultimately show ?thesis by (simp add: simulate_def sim_run [OF assms] maxDrawdown_def random_step_word del: funpow.simps)
qed

lemma simulate_bootstrap_witness:
  "set (picks [Fin (1/2), Fin (-1/4)] (Suc (Suc 0)) 5) \<subseteq> {Fin (1/2), Fin (-1/4)}"
  using simulate_bootstrap [of "[Fin (1/2), Fin (-1/4)]" 5] by simp

section \<open>Laws of the score\<close>

lemma not_NaN_mul: "x \<noteq> NaN \<Longrightarrow> a \<noteq> 0 \<Longrightarrow> js_mul x (Fin a) \<noteq> NaN"
  by (cases x) (auto simp: js_signed_inf_def)

lemma js_min_le: "x \<noteq> NaN \<Longrightarrow> js_le (js_min (Fin a) x) (Fin a)"
  by (cases x) (auto simp: js_min_def js_le_def)

lemma js_sub_ge:
  assumes "js_le (Fin (of_int l)) s" "js_le x (Fin (of_int c))" "\<bar>l - c\<bar> < 2 ^ 53"
  shows "js_le (Fin (of_int (l - c))) (js_sub s x)"
proof (cases "\<exists>a b. s = Fin a \<and> x = Fin b")
  case True
  then obtain a b where ab: "s = Fin a" "x = Fin b" by blast
  then have "of_int (l - c) \<le> a - b" using assms by simp
  then show ?thesis using fl_mono [of "of_int (l - c)" "a - b"] fl_of_int [OF assms(3)] ab by (simp add: js_sub_def)
next
  case False
  then show ?thesis using assms by (cases s; cases x) (auto simp: js_le_def js_sub_def)
qed

definition score_from :: "int \<Rightarrow> score_state \<Rightarrow> bool" where
  "score_from l s = js_le (Fin (of_int l)) (score s)"

lemma score_from_charge:
  "score_from l s \<Longrightarrow> js_le x (Fin (of_int c)) \<Longrightarrow> \<bar>l - c\<bar> < 2 ^ 53 \<Longrightarrow> score_from (l - c) (charge x s)"
  using js_sub_ge by (simp add: score_from_def charge_def)

lemma score_from_le: "score_from l s \<Longrightarrow> k \<le> l \<Longrightarrow> score_from k s"
  using js_le_trans [of "Fin (of_int k)" "Fin (of_int l)" "score s"] by (simp add: score_from_def)

lemma score_from_warn [simp]: "score_from l (warn w s) = score_from l s" "score_from l (s\<lparr>passable := b\<rparr>) = score_from l s"
  by (simp_all add: score_from_def warn_def)

lemma passable_simps [simp]: "passable (warn w s) = passable s" "passable (charge x s) = passable s"
  by (simp_all add: warn_def charge_def)

lemma charge_const: "score_from l s \<Longrightarrow> \<bar>l - c\<bar> < 2 ^ 53 \<Longrightarrow> score_from (l - c) (charge (Fin (of_int c)) s)"
  by (rule score_from_charge) simp_all

lemma charge_min:
  "score_from l s \<Longrightarrow> x \<noteq> NaN \<Longrightarrow> \<bar>l - c\<bar> < 2 ^ 53 \<Longrightarrow> score_from (l - c) (charge (js_min (Fin (of_int c)) x) s)"
  by (rule score_from_charge) (simp_all add: js_min_le)

lemma score_usage:
  assumes "score_from l s" "0 < k" "k \<le> c" "c < 100" "\<bar>l\<bar> < 1000"
  shows "score_from (l - c) (judge_usage u (of_int c) (of_int k) w s)"
proof -
  have m: "score_from (l - c) (charge (js_min (Fin (of_int k)) (js_mul x (Fin (of_int k)))) s)" if "js_is_finite x" for x
  proof (rule score_from_le)
    show "score_from (l - k) (charge (js_min (Fin (of_int k)) (js_mul x (Fin (of_int k)))) s)"
      using assms that by (intro charge_min not_NaN_mul) auto
  qed (use assms in simp)
  have "score_from (l - c) (warn w (charge (Fin (of_int c)) (s\<lparr>passable := False\<rparr>)))"
    using assms by (simp add: charge_const)
  moreover have "score_from (l - c) s" by (rule score_from_le [OF assms(1)]) (use assms in simp)
  ultimately show ?thesis using m by (simp add: judge_usage_def split: option.split)
qed

lemma score_days:
  assumes "score_from l s" "\<bar>l\<bar> < 1000" shows "score_from (l - 20) (judge_days d m s)"
proof -
  have "score_from (l - 20) (charge (Fin 20) (s\<lparr>passable := False\<rparr>))" "score_from (l - 5) (charge (Fin 5) s)"
    using charge_const [of l "s\<lparr>passable := False\<rparr>" 20] charge_const [of l s 5] assms by simp_all
  then show ?thesis using score_from_le [of "l - 5" "charge (Fin 5) s" "l - 20"] score_from_le [OF assms(1), of "l - 20"]
    by (simp add: judge_days_def Let_def)
qed

lemma score_consistency:
  assumes "score_from l s" "\<bar>l\<bar> < 1000" shows "score_from (l - 20) (judge_consistency b c s)"
proof -
  have "score_from (l - 15) (charge (js_min (Fin 15) (js_mul (js_div (Fin x) y) (Fin 15))) s)" if "js_lt (Fin 0) y" for x y
  proof -
    have "js_div (Fin x) y \<noteq> NaN" using that by (cases y) auto
    then show ?thesis using charge_min [of l s "js_mul (js_div (Fin x) y) (Fin 15)" 15] assms by (simp add: not_NaN_mul)
  qed
  then have "score_from (l - 20) (charge (js_min (Fin 15) (js_mul (js_div (Fin x) y) (Fin 15))) s)" if "js_lt (Fin 0) y" for x y
    using that score_from_le [of "l - 15" _ "l - 20"] by simp
  moreover have "score_from (l - 20) (charge (Fin 20) s)" using charge_const [of l s 20] assms by simp
  ultimately show ?thesis using score_from_le [OF assms(1), of "l - 20"]
    by (auto simp: judge_consistency_def positive_number_def split: option.split)
qed

lemma score_profit:
  assumes "score_from l s" "\<bar>l\<bar> < 1000" shows "score_from (l - 10) (judge_profit r t s)"
proof -
  have "score_from (l - 10) (charge (Fin 10) s)" "score_from (l - 5) (charge (Fin 5) s)"
    using charge_const [of l s 10] charge_const [of l s 5] assms by simp_all
  moreover have "score_from (l - (- 5)) (s\<lparr>score := js_add (score s) (Fin 5)\<rparr>)"
    using charge_const [of l s "- 5"] assms by (simp add: charge_def js_sub_def)
  ultimately show ?thesis using score_from_le [of "l - 5" "charge (Fin 5) s" "l - 10"] score_from_le [OF assms(1), of "l - 10"]
      score_from_le [of "l - (- 5)" "s\<lparr>score := js_add (score s) (Fin 5)\<rparr>" "l - 10"]
    by (simp add: judge_profit_def)
qed

lemma score_variance:
  assumes "score_from l s" "\<bar>l\<bar> < 1000" "js_is_finite v" shows "score_from (l - 20) (judge_variance v s)"
proof -
  obtain a where a: "v = Fin a" using assms(3) by auto
  have "js_sqrt (Fin (max 0 a)) = PInf \<or> (\<exists>q \<ge> 0. js_sqrt (Fin (max 0 a)) = Fin q)" by (rule js_sqrt_nonneg) simp
  then have "js_mul (js_sqrt (js_max (Fin 0) v)) (Fin 100) \<noteq> NaN" by (auto simp: a js_signed_inf_def)
  then have "js_le (js_max (Fin 0) (js_min (Fin 20) (js_mul (js_sqrt (js_max (Fin 0) v)) (Fin 100)))) (Fin (of_int 20))"
    by (cases "js_mul (js_sqrt (js_max (Fin 0) v)) (Fin 100)") (auto simp: js_max_def js_min_def js_le_def)
  then show ?thesis using score_from_charge [OF assms(1), of _ 20] assms(2) by (simp add: judge_variance_def Let_def)
qed

lemma round_score:
  assumes "score_from l s"
  shows "\<exists>q :: int. js_max (Fin 0) (js_min (Fin 100) (js_round (score s))) = Fin (of_int q) \<and> 0 \<le> q \<and> q \<le> 100"
proof (cases "score s")
  case (Fin a)
  have "js_max (Fin 0) (js_min (Fin 100) (js_round (score s))) = Fin (of_int (max 0 (min 100 \<lfloor>a + 1/2\<rfloor>)))"
    by (simp add: Fin js_round_def of_int_max of_int_min)
  then show ?thesis by (intro exI [of _ "max 0 (min 100 \<lfloor>a + 1/2\<rfloor>)"]) simp
next
  case PInf
  then show ?thesis by (intro exI [of _ 100]) (simp add: js_round_def js_min_def)
qed (use assms in \<open>auto simp: score_from_def js_le_def\<close>)

text \<open>Which limits decide the outcome.\<close>

definition over_limit :: "jsnum option \<Rightarrow> bool" where
  "over_limit u = (case u of Some x \<Rightarrow> js_is_finite x \<and> js_le (Fin 1) x | None \<Rightarrow> False)"

definition too_few_days :: "nat \<Rightarrow> jsval \<Rightarrow> bool" where
  "too_few_days d m = (finite_number m \<and> js_lt (Fin (of_nat d)) (js_to_number m))"

lemma passable_judges [simp]:
  "passable (judge_usage u c k w s) = (passable s \<and> \<not> over_limit u)"
  "passable (judge_days d m s) = (passable s \<and> \<not> too_few_days d m)"
  "passable (judge_consistency b cc s) = passable s"
  "passable (judge_profit r t s) = passable s"
  "passable (judge_variance v s) = passable s"
  by (auto simp: judge_usage_def over_limit_def judge_days_def too_few_days_def judge_consistency_def judge_profit_def
      judge_variance_def Let_def split: option.split)

lemma under_limit:
  assumes "0 < c" "js_is_finite (fl (d / c))" "\<not> js_le (Fin 1) (fl (d / c))" shows "d < c"
proof (rule ccontr)
  assume "\<not> d < c"
  then have "1 \<le> d / c" using assms(1) by simp
  then show False using fl_mono [of 1 "d / c"] assms(3) by simp
qed

lemma under_total:
  assumes "total_loss_usage metrics rules = Some u" "js_is_finite u" "\<not> over_limit (Some u)"
  shows "js_lt (js_to_number (js_get metrics ''max_drawdown'')) (js_to_number (js_get rules ''max_total_loss''))"
proof -
  obtain d c where dc: "js_to_number (js_get metrics ''max_drawdown'') = Fin d" "js_to_number (js_get rules ''max_total_loss'') = Fin c" "0 < c"
    using assms(1) by (auto simp: total_loss_usage_def positive_number_def finite_number_def split: if_splits jsval.splits)
  then have "u = fl (d / c)" using assms(1) by (auto simp: total_loss_usage_def split: if_splits)
  then have "d < c" using under_limit [OF dc(3)] assms by (auto simp: over_limit_def)
  then show ?thesis by (simp add: dc)
qed

lemma under_daily:
  assumes "daily_loss_usage daily rules = Some u" "js_is_finite u" "\<not> over_limit (Some u)" "daily_loss daily = Some l"
  shows "js_lt l (js_to_number (js_get rules ''max_daily_loss''))"
proof -
  obtain d c where dc: "l = Fin d" "js_to_number (js_get rules ''max_daily_loss'') = Fin c" "0 < c" and u: "u = js_div (Fin d) (Fin c)"
    using assms(1,4) by (auto simp: daily_loss_usage_def positive_number_def finite_number_def split: if_splits jsval.splits option.splits)
  have "u = fl (d / c)" using u dc(3) by simp
  then have "d < c" using under_limit [OF dc(3)] assms by (auto simp: over_limit_def)
  then show ?thesis by (simp add: dc)
qed

text \<open>
  C30. The suitability of a backtest for a prop firm: the score is a whole number from 0 to 100, the
  strategy is passable exactly when neither loss limit is reached and there are enough days, the
  verdict follows from the two, and a passable strategy stays strictly below a loss limit whose usage
  is a finite number.
\<close>
theorem suitability_verdict:
  fixes metrics rules trades
  defines "s \<equiv> assessPropFirmSuitability metrics trades rules" and "daily \<equiv> summarizeDailyTradeReturns trades"
  shows "(\<exists>q :: int. s_score s = Fin (of_int q) \<and> 0 \<le> q \<and> q \<le> 100) \<and>
    (s_passable s = (\<not> over_limit (total_loss_usage metrics rules) \<and> \<not> over_limit (daily_loss_usage daily rules) \<and>
       \<not> too_few_days (trading_days daily) (js_get rules ''min_trading_days''))) \<and>
    (s_verdict s = Breach_risk) = (\<not> s_passable s) \<and>
    (s_verdict s = Likely_pass) = (s_passable s \<and> js_le (Fin 70) (s_score s)) \<and>
    (\<forall>u. s_passable s \<and> total_loss_usage metrics rules = Some u \<and> js_is_finite u \<longrightarrow>
       js_lt (js_to_number (js_get metrics ''max_drawdown'')) (js_to_number (js_get rules ''max_total_loss''))) \<and>
    (\<forall>u l. s_passable s \<and> daily_loss_usage daily rules = Some u \<and> js_is_finite u \<and> s_daily_loss s = Some l \<longrightarrow>
       js_lt l (js_to_number (js_get rules ''max_daily_loss'')))"
proof -
  define v where "v = (if finite_number (js_get metrics ''time_weighted_variance'') then js_to_number (js_get metrics ''time_weighted_variance'') else Fin 0)"
  define s0 where "s0 = judge_days (trading_days daily) (js_get rules ''min_trading_days'')
      (judge_usage (daily_loss_usage daily rules) (of_int 40) (of_int 25) ''daily loss breaches prop-firm cap''
      (judge_usage (total_loss_usage metrics rules) (of_int 50) (of_int 30) ''max drawdown breaches prop-firm cap''
        \<lparr>score = Fin 100, passable = True, warnings = []\<rparr>))"
  define fin where "fin = judge_variance v (judge_profit (js_get metrics ''net_return'') (js_get rules ''profit_target'')
      (judge_consistency (best_day_share daily) (js_get rules ''consistency_cap'') s0))"
  have v: "js_is_finite v" by (auto simp: v_def finite_number_def split: jsval.splits)
  have "score_from 100 \<lparr>score = Fin 100, passable = True, warnings = []\<rparr>" by (simp add: score_from_def)
  then have "score_from (100 - 50 - 40 - 20 - 20 - 10 - 20) fin"
    unfolding fin_def s0_def by (intro score_variance score_profit score_consistency score_days score_usage v) simp_all
  then have sc: "\<exists>q :: int. s_score s = Fin (of_int q) \<and> 0 \<le> q \<and> q \<le> 100"
    using round_score [of _ fin]
    by (simp add: s_def assessPropFirmSuitability_def Let_def daily_def [symmetric] v_def [symmetric] fin_def s0_def)
  have p: "s_passable s = (\<not> over_limit (total_loss_usage metrics rules) \<and> \<not> over_limit (daily_loss_usage daily rules) \<and>
       \<not> too_few_days (trading_days daily) (js_get rules ''min_trading_days''))"
    by (auto simp: s_def assessPropFirmSuitability_def Let_def daily_def)
  have ver: "s_verdict s = (if s_passable s \<and> js_le (Fin 70) (s_score s) then Likely_pass else if s_passable s then Borderline else Breach_risk)"
    "s_daily_loss s = daily_loss daily"
    by (simp_all add: s_def assessPropFirmSuitability_def Let_def daily_def)
  have total: "js_lt (js_to_number (js_get metrics ''max_drawdown'')) (js_to_number (js_get rules ''max_total_loss''))"
    if "s_passable s" "total_loss_usage metrics rules = Some u" "js_is_finite u" for u
    using under_total [OF that(2,3)] that p by simp
  have day: "js_lt l (js_to_number (js_get rules ''max_daily_loss''))"
    if "s_passable s" "daily_loss_usage daily rules = Some u" "js_is_finite u" "s_daily_loss s = Some l" for u l
    using under_daily [OF that(2,3)] that p ver(2) by simp
  have verdicts: "(s_verdict s = Breach_risk) = (\<not> s_passable s)" "(s_verdict s = Likely_pass) = (s_passable s \<and> js_le (Fin 70) (s_score s))"
    using ver(1) by auto
  show ?thesis by (intro conjI allI impI sc p verdicts) (blast intro: total day)+
qed

lemma suitability_verdict_witness:
  "js_lt (Fin 1) (Fin 2) \<and> s_passable (assessPropFirmSuitability (JObj [(''max_drawdown'', JNum (Fin 1))]) [] (JObj [(''max_total_loss'', JNum (Fin 2))]))"
proof -
  let ?m = "JObj [(''max_drawdown'', JNum (Fin 1))]" and ?r = "JObj [(''max_total_loss'', JNum (Fin 2))]"
  have u: "total_loss_usage ?m ?r = Some (Fin (1/2))" "daily_loss_usage (summarizeDailyTradeReturns []) ?r = None"
    "\<not> too_few_days 0 (js_get ?r ''min_trading_days'')"
    using fl_half [of 1] by (simp_all add: total_loss_usage_def finite_number_def positive_number_def daily_loss_usage_def daily_loss_def
      summarizeDailyTradeReturns_def Let_def too_few_days_def js_get_def)
  have d: "trading_days (summarizeDailyTradeReturns []) = 0" by (simp add: summarizeDailyTradeReturns_def Let_def)
  have p: "s_passable (assessPropFirmSuitability ?m [] ?r)"
    using suitability_verdict [where metrics = ?m and rules = ?r and trades = "[]"] u d by (simp add: over_limit_def)
  have "js_lt (js_to_number (js_get ?m ''max_drawdown'')) (js_to_number (js_get ?r ''max_total_loss''))"
    using suitability_verdict [where metrics = ?m and rules = ?r and trades = "[]"] p u(1) by auto
  then show ?thesis using p by (simp add: js_get_def)
qed

section \<open>Drawdowns\<close>

definition fractional :: "jsnum \<Rightarrow> bool" where
  "fractional x = (\<exists>q. x = Fin q \<and> 0 \<le> q \<and> q \<le> 1)"

definition nonneg_double :: "jsnum \<Rightarrow> bool" where
  "nonneg_double x = (\<exists>q. x = Fin q \<and> 0 \<le> q \<and> fl q = x)"

lemma drawdown_step_bounds:
  assumes "nonneg_double p" "js_le (Fin 1) p" "fractional w" "nonneg_double e"
  shows "nonneg_double (fst (drawdown_step (p, w) e)) \<and> js_le (Fin 1) (fst (drawdown_step (p, w) e)) \<and> fractional (snd (drawdown_step (p, w) e))"
proof -
  obtain a b c where abc: "p = Fin a" "1 \<le> a" "fl a = Fin a" "w = Fin c" "0 \<le> c" "c \<le> 1" "e = Fin b" "0 \<le> b" "fl b = Fin b"
    using assms by (auto simp: nonneg_double_def fractional_def)
  define m where "m = max a b"
  have m: "1 \<le> m" "fl m = Fin m" "b \<le> m" using abc by (auto simp: m_def max_def)
  have "js_le (fl (m - b)) (fl m)" "js_le (Fin 0) (fl (m - b))"
    using abc m by (intro fl_mono binary64.rnd_nonneg; simp)+
  then obtain d where d: "fl (m - b) = Fin d" "0 \<le> d" "d \<le> m" using m(2) by (cases "fl (m - b)") (auto simp: js_le_def)
  have "0 \<le> d / m" "d / m \<le> 1" using d m by simp_all
  then obtain q where q: "fl (d / m) = Fin q" "0 \<le> q" "q \<le> 1" using binary64.rnd_unit by blast
  have "drawdown_step (p, w) e = (Fin m, Fin (max c q))"
    using abc m d q by (simp add: drawdown_step_def m_def [symmetric] js_sub_def)
  then show ?thesis using m abc q by (simp add: nonneg_double_def fractional_def)
qed

lemma maxDrawdown_bounds:
  assumes "\<forall>e \<in> set es. nonneg_double e" shows "fractional (maxDrawdown es)"
proof -
  have "nonneg_double (fst acc) \<and> js_le (Fin 1) (fst acc) \<and> fractional (snd acc) \<Longrightarrow> fractional (snd (foldl drawdown_step acc es))" for acc
    using assms
  proof (induction es arbitrary: acc)
    case (Cons e es)
    have "nonneg_double (fst (drawdown_step acc e)) \<and> js_le (Fin 1) (fst (drawdown_step acc e)) \<and> fractional (snd (drawdown_step acc e))"
      using drawdown_step_bounds [of "fst acc" "snd acc" e] Cons.prems by simp
    then show ?case using Cons by simp
  qed simp
  then show ?thesis by (simp add: maxDrawdown_def nonneg_double_def fractional_def)
qed

text \<open>A total loss is forgotten by the next trade of its day: the day's equity of 0 counts as absent.\<close>

definition day_trade :: "rat \<Rightarrow> jsval" where
  "day_trade r = JObj [(''net_return'', JNum (Fin r)), (''exit_time'', JStr ''2024-01-01T00:00:00.000Z'')]"

lemma total_loss_forgotten:
  "daily_returns (summarizeDailyTradeReturns [day_trade (-1), day_trade (1/2)]) = [Fin (1/2)]"
  by code_simp

end
