(* ===== verification/Backtest.thy ===== *)
theory Backtest
  imports Backtest_Stats "HOL-Library.Multiset"
begin

text \<open>
  The backtest of \<^verbatim>\<open>shared/lib/strategy/backtest.js\<close> in JavaScript: feature frames, the split into training
  and test rows, the walk-forward folds, the buy-and-hold benchmark and the trades of a model.  A
  frame is an object with a list of feature rows.  The model's prediction is an argument, and so are
  the backtest function of the walk-forward, the profile of the prop firm and the seed of the stress.
\<close>

datatype bt_error = Bad_row

section \<open>Frames\<close>

definition features_of :: "jsval \<Rightarrow> jsval list" where
  "features_of frame = array_items (js_get frame ''features'')"

definition row_time :: "jsval \<Rightarrow> int option" where
  "row_time row = date_parse (js_to_string (js_get row ''as_of''))"

definition before_limit :: "jsval \<Rightarrow> (int \<Rightarrow> int \<Rightarrow> bool) \<Rightarrow> int \<Rightarrow> bool" where
  "before_limit limit rel stamp = (truthy limit \<and> (case date_parse (js_to_string limit) of Some t \<Rightarrow> rel stamp t | None \<Rightarrow> False))"

definition withinDateRange :: "jsval \<Rightarrow> jsval \<Rightarrow> jsval \<Rightarrow> bool" where
  "withinDateRange row from to = (case row_time row of
     None \<Rightarrow> False | Some stamp \<Rightarrow> \<not> before_limit from (<) stamp \<and> \<not> before_limit to (>) stamp)"

definition with_features :: "jsval \<Rightarrow> jsval list \<Rightarrow> jsval" where
  "with_features frame rows = spread_update frame [(''features'', JArr rows), (''feature_count'', JNum (js_len rows))]"

definition filterFeatureFrame :: "jsval \<Rightarrow> jsval \<Rightarrow> jsval \<Rightarrow> jsval \<Rightarrow> jsval" where
  "filterFeatureFrame frame tf from to = with_features frame (filter (\<lambda>row.
     (truthy tf \<longrightarrow> strict_eq (js_get row ''timeframe'') tf) \<and> withinDateRange row from to) (features_of frame))"

text \<open>The rows by key, in the order in which the keys occur.\<close>

definition key_step :: "(jsval \<times> jsval list) list \<Rightarrow> jsval \<Rightarrow> (jsval \<times> jsval list) list" where
  "key_step byKey row = (let k = js_get row ''key'' in
     AList.update k ((case map_of byKey k of Some rows \<Rightarrow> rows | None \<Rightarrow> []) @ [row]) byKey)"

definition group_rows :: "jsval list \<Rightarrow> (jsval \<times> jsval list) list" where
  "group_rows rows = foldl key_step [] rows"

text \<open>Sorting by time; every row has one.\<close>

definition time_key :: "jsval \<Rightarrow> int" where
  "time_key r = (case row_time r of Some t \<Rightarrow> t | None \<Rightarrow> 0)"

definition sort_rows :: "jsval list \<Rightarrow> jsval list" where
  "sort_rows rows = sort_key time_key rows"

definition split_index :: "nat \<Rightarrow> jsnum \<Rightarrow> nat" where
  "split_index n ratio = index_of (js_max (Fin 1) (js_min (Fin (of_int (int n - 1))) (js_floor (js_mul (Fin (of_nat n)) ratio))))"

definition splitFeatureFrame :: "jsval \<Rightarrow> jsnum \<Rightarrow> jsval \<times> jsval" where
  "splitFeatureFrame frame trainRatio =
    (let parts = map (\<lambda>(_, rows). let s = sort_rows rows; i = split_index (length s) trainRatio in (take i s, drop i s))
       (group_rows (features_of frame)) in
     (with_features frame (concat (map fst parts)), with_features frame (concat (map snd parts))))"

section \<open>Walk-forward folds\<close>

record fold_result =
  fold_no :: nat
  train_rows :: "jsval list"
  test_rows :: "jsval list"
  in_sample :: jsval
  out_of_sample :: jsval

record oos_summary =
  mean_oos_return :: "jsnum option"
  mean_oos_trades :: "jsnum option"
  mean_oos_sharpe :: "jsnum option"
  mean_oos_drawdown :: "jsnum option"
  positive_oos_folds :: nat
  positive_oos_rate :: jsnum

datatype walk = Too_few | No_folds | Walked nat "fold_result list" oos_summary

definition compactMetrics :: "jsval \<Rightarrow> jsval" where
  "compactMetrics metrics = JObj (map (\<lambda>k. (k, js_get metrics k)) [''trades'', ''net_return'', ''sharpe_ratio'', ''max_drawdown'', ''win_rate''])"

definition all_rows :: "jsval \<Rightarrow> jsval list" where
  "all_rows frame = sort_rows (concat (map (\<lambda>(_, rows). sort_rows rows) (group_rows (features_of frame))))"

definition folds_asked :: "jsval \<Rightarrow> nat" where
  "folds_asked v = index_of (js_max (Fin 2) (js_min (Fin 10) (js_floor (js_to_number (js_nullish v (JNum (Fin 3)))))))"

definition make_fold :: "jsval \<Rightarrow> (jsval \<Rightarrow> jsval) \<Rightarrow> jsval list \<Rightarrow> nat \<Rightarrow> nat \<Rightarrow> fold_result" where
  "make_fold frame run rows chunk k =
    (let train = take (chunk * (k + 1)) rows; test = take (min (length rows) (chunk * (k + 2)) - chunk * (k + 1)) (drop (chunk * (k + 1)) rows) in
     \<lparr>fold_no = k + 1, train_rows = train, test_rows = test,
      in_sample = compactMetrics (run (with_features frame train)), out_of_sample = compactMetrics (run (with_features frame test))\<rparr>)"

fun fold_loop :: "jsval \<Rightarrow> (jsval \<Rightarrow> jsval) \<Rightarrow> jsval list \<Rightarrow> nat \<Rightarrow> nat list \<Rightarrow> fold_result list" where
  "fold_loop frame run rows chunk [] = []"
| "fold_loop frame run rows chunk (k # ks) =
    (if length rows \<le> chunk * (k + 1) \<or> min (length rows) (chunk * (k + 2)) \<le> chunk * (k + 1) then []
     else make_fold frame run rows chunk k # fold_loop frame run rows chunk ks)"

definition oos_numbers :: "string \<Rightarrow> fold_result list \<Rightarrow> jsnum list" where
  "oos_numbers k rs = map js_to_number (filter finite_number (map (\<lambda>r. js_get (out_of_sample r) k) rs))"

definition mean_or_null :: "jsnum list \<Rightarrow> jsnum option" where
  "mean_or_null xs = (if xs = [] then None else Some (mean xs))"

definition aggregate :: "fold_result list \<Rightarrow> oos_summary" where
  "aggregate rs = (let returns = oos_numbers ''net_return'' rs; up = length (filter (\<lambda>r. js_lt (Fin 0) r) returns) in
     \<lparr>mean_oos_return = mean_or_null returns, mean_oos_trades = mean_or_null (oos_numbers ''trades'' rs),
      mean_oos_sharpe = mean_or_null (oos_numbers ''sharpe_ratio'' rs), mean_oos_drawdown = mean_or_null (oos_numbers ''max_drawdown'' rs),
      positive_oos_folds = up, positive_oos_rate = js_div (Fin (of_nat up)) (js_len rs)\<rparr>)"

text \<open>\<open>run\<close> gives the metrics of a backtest without Monte Carlo stress; the dates of a fold are left out.\<close>

definition rollingWalkForward :: "jsval \<Rightarrow> (jsval \<Rightarrow> jsval) \<Rightarrow> jsval \<Rightarrow> walk" where
  "rollingWalkForward frame run foldsOption =
    (let folds = folds_asked foldsOption; rows = all_rows frame; chunk = length rows div (folds + 1) in
     if chunk < 2 then Too_few
     else let results = fold_loop frame run rows chunk [0..<folds] in
       if results = [] then No_folds else Walked folds results (aggregate results))"

section \<open>Costs\<close>

definition option_number :: "jsval \<Rightarrow> jsnum \<Rightarrow> jsnum" where
  "option_number v d = (if v \<noteq> JUndef \<and> v \<noteq> JNull then js_to_number v else d)"

record costs =
  feeBps :: jsnum
  slippageBps :: jsnum

text \<open>The options for costs are numbers or absent.\<close>

definition costs_of :: "jsval \<Rightarrow> costs" where
  "costs_of opts = (let costBps = option_number (js_get opts ''costBps'') (Fin 5); half = js_div costBps (Fin 2) in
     \<lparr>feeBps = option_number (js_get opts ''feeBps'') half, slippageBps = option_number (js_get opts ''slippageBps'') half\<rparr>)"

definition drag :: "costs \<Rightarrow> jsnum" where
  "drag c = js_div (js_add (feeBps c) (slippageBps c)) (Fin 10000)"

definition net_return_of :: "costs \<Rightarrow> jsnum \<Rightarrow> jsnum \<Rightarrow> jsnum" where
  "net_return_of c entry exit = (let adjustedEntry = js_mul entry (js_add (Fin 1) (drag c)); adjustedExit = js_mul exit (js_sub (Fin 1) (drag c)) in
     js_sub (js_div adjustedExit adjustedEntry) (Fin 1))"

section \<open>Buy and hold\<close>

definition priced :: "jsval \<Rightarrow> bool" where
  "priced row = (finite_number (js_get row ''close'') \<and> js_lt (Fin 0) (js_to_number (js_get row ''close'')))"

record leg =
  leg_first :: jsval
  leg_last :: jsval
  leg_return :: jsnum

text \<open>The first and the last priced row are different rows of the list.\<close>

definition leg_of :: "costs \<Rightarrow> jsval list \<Rightarrow> leg option" where
  "leg_of c rows = (let good = filter priced (sort_rows rows) in
     if length good < 2 then None
     else Some \<lparr>leg_first = hd good, leg_last = last good,
       leg_return = net_return_of c (js_to_number (js_get (hd good) ''close'')) (js_to_number (js_get (last good) ''close''))\<rparr>)"

definition buyHoldBenchmark :: "jsval \<Rightarrow> costs \<Rightarrow> jsnum option \<times> leg list" where
  "buyHoldBenchmark frame c =
    (let legs = List.map_filter (\<lambda>(_, rows). leg_of c rows) (group_rows (features_of frame));
       returns = filter js_is_finite (map leg_return legs) in
     (if returns = [] then None else Some (mean returns), legs))"

section \<open>The trades\<close>

record bt_setup =
  su_threshold :: jsnum
  su_horizon :: nat
  su_costs :: costs
  su_family :: jsval
  su_strategy :: jsval
  su_model :: jsval
  su_predict :: "jsval \<Rightarrow> jsval"

definition make_trade :: "bt_setup \<Rightarrow> jsval \<Rightarrow> jsval \<Rightarrow> jsval \<Rightarrow> jsval" where
  "make_trade su prediction row exitRow =
    (let entry = js_get row ''close''; exit = js_get exitRow ''close'';
       grossReturn = js_sub (js_div (js_to_number exit) (js_to_number entry)) (Fin 1);
       netReturn = net_return_of (su_costs su) (js_to_number entry) (js_to_number exit) in
     JObj [(''strategy'', su_strategy su), (''model'', su_model su), (''symbol'', js_get row ''symbol''),
       (''timeframe'', js_get row ''timeframe''), (''provider'', js_or (js_get row ''provider'') JNull),
       (''entry_time'', js_get row ''as_of''), (''exit_time'', js_get exitRow ''as_of''), (''entry'', entry), (''exit'', exit),
       (''gross_return'', JNum grossReturn), (''net_return'', JNum netReturn), (''fee_bps'', JNum (feeBps (su_costs su))),
       (''slippage_bps'', JNum (slippageBps (su_costs su))),
       (''round_trip_cost_bps'', JNum (js_add (js_mul (feeBps (su_costs su)) (Fin 2)) (js_mul (slippageBps (su_costs su)) (Fin 2)))),
       (''cost_drag'', JNum (js_sub grossReturn netReturn)), (''holding_period_bars'', JNum (Fin (of_nat (su_horizon su)))),
       (''confidence'', js_get prediction ''confidence'')])"

text \<open>
  One position of the loop: no trade, a trade, or the exception of \<^verbatim>\<open>substring\<close> on a time that is no
  text.
\<close>

definition try_trade :: "bt_setup \<Rightarrow> jsval \<Rightarrow> jsval \<Rightarrow> bt_error + jsval option" where
  "try_trade su row exitRow =
    (let prediction = su_predict su row in
     if js_get prediction ''direction'' \<noteq> JStr ''long'' \<or> js_lt (js_to_number (js_get prediction ''confidence'')) (su_threshold su)
     then Inr None
     else let intraday = (su_family su = JStr ''equities'' \<and> js_get row ''timeframe'' \<noteq> JStr ''1d'') in
       if intraday \<and> (\<not> is_string (js_get row ''as_of'') \<or> \<not> is_string (js_get exitRow ''as_of'')) then Inl Bad_row
       else if intraday \<and> take 10 (js_to_string (js_get row ''as_of'')) \<noteq> take 10 (js_to_string (js_get exitRow ''as_of'')) then Inr None
       else if \<not> truthy (js_get row ''close'') \<or> \<not> truthy (js_get exitRow ''close'') then Inr None
       else Inr (Some (make_trade su prediction row exitRow)))"

text \<open>The loop over the rows of a key advances by the horizon, with a trade or without.\<close>

function trade_loop :: "bt_setup \<Rightarrow> jsval list \<Rightarrow> nat \<Rightarrow> bt_error + jsval list" where
  "trade_loop su rows i =
    (if su_horizon su = 0 \<or> length rows \<le> i + su_horizon su then Inr []
     else rbind (try_trade su (rows ! i) (rows ! (i + su_horizon su))) (\<lambda>t.
       rbind (trade_loop su rows (i + su_horizon su)) (\<lambda>ts. Inr (case t of Some x \<Rightarrow> x # ts | None \<Rightarrow> ts))))"
  by pat_completeness auto
termination
  by (relation "measure (\<lambda>(su, rows, i). length rows - i)") auto

declare trade_loop.simps [simp del]

fun run_groups :: "bt_setup \<Rightarrow> (jsval \<times> jsval list) list \<Rightarrow> bt_error + jsval list" where
  "run_groups su [] = Inr []"
| "run_groups su ((k, rows) # gs) =
    rbind (trade_loop su (sort_rows rows) 0) (\<lambda>ts. rbind (run_groups su gs) (\<lambda>us. Inr (ts @ us)))"

definition net_of :: "jsval \<Rightarrow> jsnum" where
  "net_of trade = js_to_number (js_get trade ''net_return'')"

definition equity_step :: "jsnum \<Rightarrow> jsval \<Rightarrow> jsnum" where
  "equity_step equity trade = js_mul equity (js_add (Fin 1) (net_of trade))"

fun equity_curve :: "jsnum \<Rightarrow> jsval list \<Rightarrow> (jsval \<times> jsnum) list" where
  "equity_curve equity [] = []"
| "equity_curve equity (t # ts) = (let e = equity_step equity t in (js_get t ''exit_time'', e) # equity_curve e ts)"

record bt_metrics =
  m_trades :: nat
  m_net_return :: jsnum
  m_gross_return :: jsnum
  m_max_drawdown :: jsnum
  m_sharpe :: "jsnum option"
  m_sortino :: "jsnum option"
  m_win_rate :: jsnum
  m_expectancy :: jsnum
  m_average_win :: jsnum
  m_average_loss :: jsnum
  m_payoff_ratio :: "jsnum option"
  m_profit_factor :: "jsnum option"
  m_variance :: jsnum
  m_stddev :: jsnum
  m_daily :: daily_summary
  m_prop_firm :: "suitability option"
  m_tail_risk :: "tail_risk option"
  m_monte_carlo :: "stress option"

record bt_result =
  r_metrics :: bt_metrics
  r_benchmark :: "jsnum option \<times> leg list"
  r_curve :: "(jsval \<times> jsnum) list"
  r_trades :: "jsval list"

definition metrics_of :: "jsval list \<Rightarrow> jsval \<Rightarrow> jsnum \<Rightarrow> jsnum \<Rightarrow> jsval \<Rightarrow> jsval \<Rightarrow> jsval \<Rightarrow> string \<Rightarrow> bt_metrics" where
  "metrics_of trades tf horizon tailAlpha runsAsked opts profile seedText =
    (let curve = (JNull, Fin 1) # equity_curve (Fin 1) trades; equity = snd (last curve); drawdown = maxDrawdown (map snd curve);
       returns = map net_of trades; weights = map tradeExposureWeight trades;
       winning = filter (\<lambda>r. js_lt (Fin 0) r) returns; losing = filter (\<lambda>r. js_lt r (Fin 0)) returns;
       grossProfit = js_sum winning; grossLoss = js_abs (js_sum losing); avgWin = mean winning; avgLoss = mean losing;
       rate = (if trades = [] then Fin 0 else js_div (js_len winning) (js_len trades));
       variance = weightedVariance returns weights; netReturn = js_sub equity (Fin 1) in
     \<lparr>m_trades = length trades, m_net_return = netReturn,
      m_gross_return = js_sub (foldl (\<lambda>acc t. js_mul acc (js_add (Fin 1) (js_to_number (js_get t ''gross_return'')))) (Fin 1) trades) (Fin 1),
      m_max_drawdown = drawdown, m_sharpe = annualizedSharpe returns tf horizon, m_sortino = annualizedSortino returns tf horizon,
      m_win_rate = rate, m_expectancy = (if trades = [] then Fin 0 else mean returns), m_average_win = avgWin, m_average_loss = avgLoss,
      m_payoff_ratio = (if js_lt avgLoss (Fin 0) then Some (js_div avgWin (js_abs avgLoss)) else None),
      m_profit_factor = (if js_lt (Fin 0) grossLoss then Some (js_div grossProfit grossLoss) else None),
      m_variance = variance, m_stddev = weightedStddev returns weights, m_daily = summarizeDailyTradeReturns trades,
      m_prop_firm = assess (JObj [(''net_return'', JNum netReturn), (''max_drawdown'', JNum drawdown),
        (''time_weighted_variance'', JNum variance)]) trades opts profile,
      m_tail_risk = historicalTailRisk returns tailAlpha, m_monte_carlo = monteCarloStress returns runsAsked seedText 50\<rparr>)"

text \<open>The horizon asked for is a whole number of bars.\<close>

definition setup_of :: "jsval \<Rightarrow> jsval \<Rightarrow> jsval \<Rightarrow> (jsval \<Rightarrow> jsval) \<Rightarrow> bt_setup" where
  "setup_of opts frame model predict =
    \<lparr>su_threshold = js_to_number (js_or (js_get opts ''threshold'') (JNum (fl (55 / 100)))),
     su_horizon = index_of (js_to_number (js_or (js_get opts ''horizon'') (JNum (Fin 5)))), su_costs = costs_of opts,
     su_family = js_or (js_or (js_get opts ''family'') (case features_of frame of f # _ \<Rightarrow> js_get f ''family'' | [] \<Rightarrow> JUndef)) (JStr ''crypto''),
     su_strategy = js_or (js_get opts ''strategy'') (JStr ''cnn_momentum''), su_model = model, su_predict = predict\<rparr>"

definition runBacktestJs :: "jsval \<Rightarrow> jsval \<Rightarrow> jsval \<Rightarrow> (jsval \<Rightarrow> jsval) \<Rightarrow> jsval \<Rightarrow> string \<Rightarrow> bt_error + bt_result" where
  "runBacktestJs frame opts model predict profile seedText =
    (let tf = js_or (js_get opts ''timeframe'') JNull;
       filtered = filterFeatureFrame frame tf (js_or (js_get opts ''from'') JNull) (js_or (js_get opts ''to'') JNull);
       su = setup_of opts filtered model predict in
     rbind (run_groups su (group_rows (features_of filtered))) (\<lambda>trades.
       let primary = js_or (js_or tf (case trades of t # _ \<Rightarrow> js_get t ''timeframe'' | [] \<Rightarrow> JUndef)) (JStr ''1d'');
         tailAlpha = option_number (js_get opts ''tailAlpha'') (fl (5 / 100)) in
       Inr \<lparr>r_metrics = metrics_of trades primary (Fin (of_nat (su_horizon su))) tailAlpha
             (js_nullish (js_get opts ''monteCarloRuns'') (JNum (Fin 200))) opts profile seedText,
         r_benchmark = buyHoldBenchmark filtered (su_costs su), r_curve = (JNull, Fin 1) # equity_curve (Fin 1) trades, r_trades = trades\<rparr>))"

section \<open>Engines\<close>

record provenance =
  pv_actual :: jsval
  pv_requested :: jsval
  pv_degraded :: bool
  pv_reason :: "string option"

definition withEngineProvenance :: "jsval \<Rightarrow> jsval \<Rightarrow> string option \<Rightarrow> provenance" where
  "withEngineProvenance engine requested fallbackReason =
    \<lparr>pv_actual = js_or engine (JStr ''sovereign_js''), pv_requested = requested,
     pv_degraded = (case fallbackReason of Some r \<Rightarrow> r \<noteq> [] | None \<Rightarrow> False), pv_reason = fallbackReason\<rparr>"

text \<open>
  The native engines are arguments: whether the backend is there, and the two ways to run it; \<open>Inl\<close> is
  the code of an error that one of them raises.  An answer is an error object, a result of a native
  engine, or a result of the engine in JavaScript with its provenance.
\<close>

definition native_attempt :: "jsval \<Rightarrow> jsval \<Rightarrow> string + bool \<Rightarrow> string + 'r \<Rightarrow> string + 'r \<Rightarrow> string + 'r option" where
  "native_attempt frame opts available native framed =
    rbind available (\<lambda>there.
      let engine = js_or (js_get opts ''engine'') (JStr ''auto''); tf = js_or (js_get opts ''timeframe'') (JStr ''1d'') in
      if \<not> there then Inr None
      else if engine \<in> {JStr ''cpp_native'', JStr ''auto''} \<and> (case js_get (hd (features_of frame)) ''close'' of JNum _ \<Rightarrow> False | _ \<Rightarrow> True)
        then rbind native (\<lambda>r. Inr (Some r))
      else if engine \<in> {JStr ''cpp_frame'', JStr ''auto'', JStr ''js_model''} \<or> tf \<noteq> JStr ''1d'' then rbind framed (\<lambda>r. Inr (Some r))
      else Inr None)"

datatype 'r bt_answer = Data_unavailable | Native_answer 'r | Js_answer bt_result provenance

definition js_answer :: "bt_error + bt_result \<Rightarrow> jsval \<Rightarrow> string option \<Rightarrow> bt_error + 'r bt_answer" where
  "js_answer js engine reason = rbind js (\<lambda>r. Inr (Js_answer r (withEngineProvenance (JStr ''sovereign_js'') engine reason)))"

definition runBacktest :: "jsval \<Rightarrow> jsval \<Rightarrow> string + bool \<Rightarrow> string + 'r \<Rightarrow> string + 'r \<Rightarrow> bt_error + bt_result \<Rightarrow> bt_error + 'r bt_answer" where
  "runBacktest frame opts available native framed js =
    (let engine = js_or (js_get opts ''engine'') (JStr ''auto'') in
     if \<not> truthy frame \<or> \<not> is_array (js_get frame ''features'') \<or> features_of frame = [] then Inr Data_unavailable
     else if engine = JStr ''js'' then js_answer js engine None
     else case native_attempt frame opts available native framed of
       Inl code \<Rightarrow> js_answer js engine (Some (''native_backend_error:'' @ code))
     | Inr None \<Rightarrow> js_answer js engine (Some ''native_backend_unavailable'')
     | Inr (Some r) \<Rightarrow> Inr (Native_answer r))"

section \<open>Trades and equities\<close>

text \<open>A net return never loses more than everything.\<close>

lemma fl_ge_0_cases: "0 \<le> r \<Longrightarrow> (\<exists>q. fl r = Fin q \<and> 0 \<le> q) \<or> fl r = PInf"
  using fl_sign by blast

definition sane_costs :: "costs \<Rightarrow> bool" where
  "sane_costs c = fractional (drag c)"

definition at_least :: "int \<Rightarrow> jsnum \<Rightarrow> bool" where
  "at_least l x = (x = NaN \<or> js_le (Fin (of_int l)) x)"

lemma at_least_fl: "of_int l \<le> r \<Longrightarrow> \<bar>l\<bar> < 2 ^ 53 \<Longrightarrow> at_least l (fl r)"
  using fl_mono [of "of_int l" r] fl_of_int [of l] by (simp add: at_least_def)

lemma at_least_simps [simp]: "at_least l (Fin a) = (of_int l \<le> a)" "at_least l NaN" "at_least l PInf" "\<not> at_least l NInf"
  by (auto simp: at_least_def js_le_def)

lemma at_least_mul: "at_least 0 x \<Longrightarrow> at_least 0 y \<Longrightarrow> at_least 0 (js_mul x y)"
  by (cases x; cases y) (auto simp: js_signed_inf_def intro!: at_least_fl)

lemma at_least_div: "at_least 0 x \<Longrightarrow> at_least 0 y \<Longrightarrow> at_least 0 (js_div x y)"
  by (cases x; cases y) (auto simp: js_signed_inf_def intro!: at_least_fl)

lemma at_least_sub_1: "at_least 0 x \<Longrightarrow> at_least (- 1) (js_sub x (Fin 1))"
  by (cases x) (auto simp: js_sub_def intro!: at_least_fl)

lemma at_least_add_1: "at_least (- 1) x \<Longrightarrow> at_least 0 (js_add (Fin 1) x)"
  by (cases x) (auto intro!: at_least_fl)

lemma net_return_at_least:
  assumes "sane_costs c" "at_least 0 entry" "at_least 0 exit" shows "at_least (- 1) (net_return_of c entry exit)"
proof -
  obtain d where d: "drag c = Fin d" "0 \<le> d" "d \<le> 1" using assms(1) by (auto simp: sane_costs_def fractional_def)
  have "at_least 0 (js_add (Fin 1) (drag c))" "at_least 0 (js_sub (Fin 1) (drag c))"
    using d by (auto simp: js_sub_def intro!: at_least_fl)
  then show ?thesis using assms by (simp add: net_return_of_def Let_def at_least_sub_1 at_least_div at_least_mul)
qed

lemma js_mul_double: "js_mul x y = Fin q \<Longrightarrow> fl q = Fin q"
  by (cases x; cases y) (auto simp: js_signed_inf_def dest: fl_idem split: if_splits)

lemma equity_curve_sane:
  assumes "\<forall>t \<in> set ts. at_least (- 1) (net_of t)" "at_least 0 e" "x \<in> snd ` set (equity_curve e ts)" "js_is_finite x"
  shows "nonneg_double x"
  using assms
proof (induction ts arbitrary: e)
  case (Cons t ts)
  have a: "at_least 0 (equity_step e t)" using Cons.prems by (simp add: equity_step_def at_least_mul at_least_add_1)
  show ?case
  proof (cases "x = equity_step e t")
    case True
    then show ?thesis using a Cons.prems(4) js_mul_double by (auto simp: nonneg_double_def equity_step_def)
  next
    case False
    then show ?thesis using Cons a by (auto simp: Let_def)
  qed
qed simp

text \<open>What the loop over the rows gives.\<close>

lemma try_trade_cases:
  assumes "try_trade su row exitRow = Inr (Some t)"
  obtains p where "t = make_trade su p row exitRow" "truthy (js_get row ''close'')" "truthy (js_get exitRow ''close'')"
    "p = su_predict su row" "js_get p ''direction'' = JStr ''long''"
  using assms by (auto simp: try_trade_def Let_def split: if_splits)

lemma net_of_make_trade [simp]:
  "net_of (make_trade su p row exitRow) = net_return_of (su_costs su) (js_to_number (js_get row ''close'')) (js_to_number (js_get exitRow ''close''))"
  by (simp add: make_trade_def net_of_def Let_def)

lemma trade_loop_trades:
  assumes "trade_loop su rows i = Inr ts" "t \<in> set ts"
  obtains j where "i \<le> j" "0 < su_horizon su" "j + su_horizon su < length rows" "try_trade su (rows ! j) (rows ! (j + su_horizon su)) = Inr (Some t)"
proof -
  have "\<exists>j. i \<le> j \<and> 0 < su_horizon su \<and> j + su_horizon su < length rows \<and> try_trade su (rows ! j) (rows ! (j + su_horizon su)) = Inr (Some t)"
    using assms
  proof (induction su rows i arbitrary: ts rule: trade_loop.induct)
    case (1 su rows i)
    show ?case
    proof (cases "su_horizon su = 0 \<or> length rows \<le> i + su_horizon su")
      case True
      then have "ts = []" using "1.prems"(1) by (subst (asm) trade_loop.simps) simp
      then show ?thesis using "1.prems"(2) by simp
    next
      case False
      then obtain o1 us where t: "try_trade su (rows ! i) (rows ! (i + su_horizon su)) = Inr o1"
        "trade_loop su rows (i + su_horizon su) = Inr us" "ts = (case o1 of Some x \<Rightarrow> x # us | None \<Rightarrow> us)"
        using "1.prems"(1) by (subst (asm) trade_loop.simps) (auto simp: rbind_Inr_iff)
      show ?thesis
      proof (cases "o1 = Some t")
        case True then show ?thesis using t(1) False by (intro exI [of _ i]) auto
      next
        case o: False
        then have "t \<in> set us" using t(3) "1.prems"(2) by (auto split: option.splits)
        then obtain j where "i + su_horizon su \<le> j" "0 < su_horizon su" "j + su_horizon su < length rows"
          "try_trade su (rows ! j) (rows ! (j + su_horizon su)) = Inr (Some t)"
          using "1.IH" [OF False t(2)] by blast
        then show ?thesis by (intro exI [of _ j]) auto
      qed
    qed
  qed
  then show thesis using that by blast
qed


lemma run_groups_trades:
  "run_groups su gs = Inr ts \<Longrightarrow> t \<in> set ts \<Longrightarrow> \<exists>k rows us. (k, rows) \<in> set gs \<and> trade_loop su (sort_rows rows) 0 = Inr us \<and> t \<in> set us"
proof (induction su gs arbitrary: ts rule: run_groups.induct)
  case (2 su k rows gs)
  then obtain us vs where "trade_loop su (sort_rows rows) 0 = Inr us" "run_groups su gs = Inr vs" "ts = us @ vs"
    by (auto simp: rbind_Inr_iff)
  then show ?case using "2.IH" [of vs] "2.prems"(2) by auto
qed simp

section \<open>Rows by key\<close>

definition rows_of :: "(jsval \<times> jsval list) list \<Rightarrow> jsval list" where
  "rows_of gs = concat (map snd gs)"

definition grouped :: "(jsval \<times> jsval list) list \<Rightarrow> bool" where
  "grouped gs = (distinct (map fst gs) \<and> (\<forall>(k, rows) \<in> set gs. rows \<noteq> [] \<and> (\<forall>r \<in> set rows. js_get r ''key'' = k)))"

lemma mset_rows_of_update:
  "distinct (map fst gs) \<Longrightarrow>
   mset (rows_of (AList.update k ((case map_of gs k of Some rows \<Rightarrow> rows | None \<Rightarrow> []) @ [r]) gs)) = add_mset r (mset (rows_of gs))"
  by (induction gs) (auto simp: rows_of_def)

lemma grouped_step:
  assumes "grouped gs" shows "grouped (key_step gs r)" "mset (rows_of (key_step gs r)) = add_mset r (mset (rows_of gs))"
proof -
  have d: "distinct (map fst gs)" using assms by (simp add: grouped_def)
  show "mset (rows_of (key_step gs r)) = add_mset r (mset (rows_of gs))"
    using mset_rows_of_update [OF d] by (simp add: key_step_def Let_def)
  define k where "k = js_get r ''key''"
  define v where "v = (case map_of gs k of Some rows \<Rightarrow> rows | None \<Rightarrow> []) @ [r]"
  have all: "\<forall>(k, rows) \<in> set gs. rows \<noteq> [] \<and> (\<forall>r \<in> set rows. js_get r ''key'' = k)" using assms by (simp add: grouped_def)
  have "\<forall>r \<in> set v. js_get r ''key'' = k"
  proof (cases "map_of gs k")
    case None then show ?thesis by (simp add: v_def k_def)
  next
    case (Some rows)
    then have "\<forall>r \<in> set rows. js_get r ''key'' = k" using bspec [OF all map_of_SomeD [OF Some]] by simp
    then show ?thesis using Some by (simp add: v_def k_def)
  qed
  then have v: "v \<noteq> [] \<and> (\<forall>r \<in> set v. js_get r ''key'' = k)" by (simp add: v_def)
  have "set (AList.update k v gs) \<subseteq> insert (k, v) (set gs)"
    by (induction gs) auto
  then have "\<forall>(k, rows) \<in> set (AList.update k v gs). rows \<noteq> [] \<and> (\<forall>r \<in> set rows. js_get r ''key'' = k)"
    using all v by blast
  then show "grouped (key_step gs r)" using distinct_update [OF d, of k v]
    by (simp add: grouped_def key_step_def Let_def v_def k_def)
qed

lemma group_rows_spec: "grouped (group_rows rows)" "mset (rows_of (group_rows rows)) = mset rows"
proof -
  have "grouped gs \<Longrightarrow> grouped (foldl key_step gs rows) \<and> mset (rows_of (foldl key_step gs rows)) = mset (rows_of gs) + mset rows" for gs
    by (induction rows arbitrary: gs) (simp_all add: grouped_step)
  from this [of "[]"] show "grouped (group_rows rows)" "mset (rows_of (group_rows rows)) = mset rows"
    by (simp_all add: group_rows_def grouped_def rows_of_def)
qed

lemma set_group_rows:
  assumes "(k, rs) \<in> set (group_rows rows)" "r \<in> set rs" shows "r \<in> set rows"
proof -
  have "r \<in> set (rows_of (group_rows rows))" using assms by (force simp: rows_of_def)
  then show ?thesis using group_rows_spec(2) [of rows] by (metis set_mset_mset)
qed

lemma mset_sort_rows [simp]: "mset (sort_rows rows) = mset rows" by (simp add: sort_rows_def)

lemma set_sort_rows [simp]: "set (sort_rows rows) = set rows" "length (sort_rows rows) = length rows"
  by (simp_all add: sort_rows_def)

lemma features_with [simp]: "features_of (with_features frame rows) = rows"
  by (simp add: features_of_def with_features_def js_get_spread_map array_items_def)

lemma backtest_trades:
  assumes "runBacktestJs frame opts model predict profile seedText = Inr res" "t \<in> set (r_trades res)"
  obtains su row exitRow where "row \<in> set (features_of frame)" "exitRow \<in> set (features_of frame)"
    "t = make_trade su (predict row) row exitRow" "su_costs su = costs_of opts"
    "js_get (predict row) ''direction'' = JStr ''long''"
proof -
  define filtered where "filtered = filterFeatureFrame frame (js_or (js_get opts ''timeframe'') JNull) (js_or (js_get opts ''from'') JNull)
    (js_or (js_get opts ''to'') JNull)"
  define su where "su = setup_of opts filtered model predict"
  have r: "run_groups su (group_rows (features_of filtered)) = Inr (r_trades res)"
    using assms(1) by (auto simp: runBacktestJs_def Let_def rbind_Inr_iff filtered_def su_def)
  obtain k rows us where u: "(k, rows) \<in> set (group_rows (features_of filtered))" "trade_loop su (sort_rows rows) 0 = Inr us" "t \<in> set us"
    using run_groups_trades [OF r assms(2)] by blast
  obtain j where j: "j + su_horizon su < length (sort_rows rows)" "try_trade su (sort_rows rows ! j) (sort_rows rows ! (j + su_horizon su)) = Inr (Some t)"
    using trade_loop_trades [OF u(2,3)] by blast
  have f: "row \<in> set (features_of frame)" if "row \<in> set (features_of filtered)" for row
    using that by (auto simp: filtered_def filterFeatureFrame_def)
  have "sort_rows rows ! i \<in> set (features_of frame)" if "i < length (sort_rows rows)" for i
    using that u(1) by (metis f set_group_rows nth_mem set_sort_rows(1))
  then have "sort_rows rows ! j \<in> set (features_of frame)" "sort_rows rows ! (j + su_horizon su) \<in> set (features_of frame)" using j(1) by simp_all
  moreover have "su_predict su = predict" "su_costs su = costs_of opts" by (simp_all add: su_def setup_of_def)
  ultimately show thesis using that try_trade_cases [OF j(2)] by metis
qed

text \<open>
  C22. With costs of at most the whole price and prices that are no less than zero, no equity of the
  curve is negative and the greatest drawdown is a number from 0 to 1, as long as the equities are
  finite numbers; so is the total net return at least -1.
\<close>
theorem drawdown_bounded:
  assumes "runBacktestJs frame opts model predict profile seedText = Inr res" "sane_costs (costs_of opts)"
    "\<forall>row \<in> set (features_of frame). at_least 0 (js_to_number (js_get row ''close''))"
    "\<forall>p \<in> set (r_curve res). js_is_finite (snd p)"
  shows "(\<forall>p \<in> set (r_curve res). js_le (Fin 0) (snd p)) \<and>
    (\<exists>q. m_max_drawdown (r_metrics res) = Fin q \<and> 0 \<le> q \<and> q \<le> 1) \<and> at_least (- 1) (m_net_return (r_metrics res))"
proof -
  define filtered where "filtered = filterFeatureFrame frame (js_or (js_get opts ''timeframe'') JNull) (js_or (js_get opts ''from'') JNull)
    (js_or (js_get opts ''to'') JNull)"
  define su where "su = setup_of opts filtered model predict"
  obtain trades where t: "run_groups su (group_rows (features_of filtered)) = Inr trades"
    and r: "r_trades res = trades" "r_curve res = (JNull, Fin 1) # equity_curve (Fin 1) trades"
    "m_max_drawdown (r_metrics res) = maxDrawdown (map snd (r_curve res))" "m_net_return (r_metrics res) = js_sub (snd (last (r_curve res))) (Fin 1)"
    using assms(1) by (auto simp: runBacktestJs_def Let_def rbind_Inr_iff filtered_def su_def metrics_of_def)
  have net: "at_least (- 1) (net_of x)" if x: "x \<in> set trades" for x
  proof -
    obtain su' row exitRow where "row \<in> set (features_of frame)" "exitRow \<in> set (features_of frame)"
      "x = make_trade su' (predict row) row exitRow" "su_costs su' = costs_of opts"
      using backtest_trades [OF assms(1)] x r(1) by metis
    then show ?thesis using assms(2,3) by (simp add: net_return_at_least)
  qed
  have e: "nonneg_double (snd p)" if "p \<in> set (r_curve res)" for p
    using that assms(4) equity_curve_sane [of trades "Fin 1" "snd p"] net unfolding r(2) by (auto simp: nonneg_double_def)
  have "fractional (maxDrawdown (map snd (r_curve res)))" using e by (intro maxDrawdown_bounds) auto
  moreover have "\<forall>p \<in> set (r_curve res). js_le (Fin 0) (snd p)" using e by (fastforce simp: nonneg_double_def)
  moreover have "at_least 0 (snd (last (r_curve res)))" using e [of "last (r_curve res)"] r(2) by (auto simp: nonneg_double_def)
  ultimately show ?thesis by (auto simp: r fractional_def intro: at_least_sub_1)
qed

lemma sorted_sort_rows [simp]: "sorted (map time_key (sort_rows rows))"
  by (simp add: sort_rows_def)

definition no_later :: "jsval list \<Rightarrow> jsval list \<Rightarrow> bool" where
  "no_later xs ys = (\<forall>x \<in> set xs. \<forall>y \<in> set ys. time_key x \<le> time_key y)"

lemma no_later_take_drop:
  assumes "sorted (map time_key rows)" shows "no_later (take n rows) (drop n rows)"
proof -
  have "sorted (map time_key (take n rows @ drop n rows))" using assms by simp
  then show ?thesis unfolding map_append sorted_append by (simp add: no_later_def)
qed

lemma no_later_mono: "no_later xs ys \<Longrightarrow> set xs' \<subseteq> set xs \<Longrightarrow> set ys' \<subseteq> set ys \<Longrightarrow> no_later xs' ys'"
  by (auto simp: no_later_def)

section \<open>The split\<close>

lemma split_index_bounds:
  assumes "2 \<le> n" "ratio \<noteq> NaN" shows "0 < split_index n ratio" "split_index n ratio < n"
proof -
  have "\<exists>k :: int. js_max (Fin 1) (js_min (Fin (of_int (int n - 1))) (js_floor (js_mul (Fin (of_nat n)) ratio))) = Fin (of_int k) \<and> 1 \<le> k \<and> k \<le> int n - 1"
  proof (cases "js_floor (js_mul (Fin (of_nat n)) ratio)")
    case NaN
    then show ?thesis using assms by (cases ratio) (auto simp: js_floor_def js_signed_inf_def split: jsnum.splits)
  next
    case PInf
    then show ?thesis using assms by (intro exI [of _ "int n - 1"]) (auto simp: js_max_def js_min_def max_def)
  next
    case NInf
    then show ?thesis using assms by (intro exI [of _ 1]) (auto simp: js_max_def js_min_def)
  next
    case (Fin a)
    then obtain m :: int where m: "a = of_int m" by (auto simp: js_floor_def split: jsnum.splits)
    have "js_max (Fin 1) (js_min (Fin (of_int (int n - 1))) (Fin (of_int m))) = Fin (of_int (max 1 (min (int n - 1) m)))"
      by (simp add: of_int_max of_int_min)
    then show ?thesis unfolding Fin m using assms(1) by (intro exI [of _ "max 1 (min (int n - 1) m)"]) auto
  qed
  then obtain k :: int where "split_index n ratio = nat k" "1 \<le> k" "k \<le> int n - 1" by (auto simp: split_index_def index_of_def)
  then show "0 < split_index n ratio" "split_index n ratio < n" by linarith+
qed

definition of_key :: "jsval \<Rightarrow> jsval list \<Rightarrow> jsval list" where
  "of_key k rows = filter (\<lambda>r. js_get r ''key'' = k) rows"

lemma of_key_group:
  assumes "grouped gs" "(k', rows) \<in> set gs" "set xs \<subseteq> set rows"
  shows "of_key k xs = (if k' = k then xs else [])"
proof -
  have "\<forall>r \<in> set xs. js_get r ''key'' = k'" using assms bspec [OF conjunct2 [OF assms(1) [unfolded grouped_def]] assms(2)] by auto
  then show ?thesis by (auto simp: of_key_def filter_id_conv filter_empty_conv)
qed

lemma concat_one:
  "distinct (map fst gs) \<Longrightarrow> (k, rs) \<in> set gs \<Longrightarrow> concat (map (\<lambda>(k', rows). if k' = k then f rows else []) gs) = f rs"
proof (induction gs)
  case (Cons g gs)
  have none: "concat (map (\<lambda>(k', rows). if k' = k then f rows else []) gs) = []" if "k \<notin> fst ` set gs"
    using that by (auto simp: image_iff)
  show ?case
  proof (cases "fst g = k")
    case True
    then have "g = (k, rs)" using Cons.prems by (cases g) (force simp: image_iff)
    then show ?thesis using none Cons.prems(1) by simp
  next
    case False
    then have "(k, rs) \<in> set gs" using Cons.prems(2) by auto
    then show ?thesis using False Cons by (simp add: split_beta)
  qed
qed simp

lemma of_key_concat:
  assumes "grouped gs" "(k, rs) \<in> set gs" "\<And>rows. set (f rows) \<subseteq> set rows"
  shows "of_key k (concat (map (\<lambda>(_, rows). f rows) gs)) = f rs"
proof -
  have "of_key k (concat (map (\<lambda>(_, rows). f rows) gs)) = concat (map (\<lambda>(_, rows). of_key k (f rows)) gs)"
    by (simp add: of_key_def filter_concat comp_def split_beta')
  also have "\<dots> = concat (map (\<lambda>(k', rows). if k' = k then f rows else []) gs)"
    using of_key_group [OF assms(1) _ assms(3), of _ _ k] by (intro arg_cong [of _ _ concat] map_cong) auto
  also have "\<dots> = f rs" using assms(1,2) by (intro concat_one) (simp_all add: grouped_def)
  finally show ?thesis .
qed

lemma mset_concat_split:
  assumes "\<And>rows. mset (f rows) + mset (h rows) = mset rows"
  shows "mset (concat (map (\<lambda>(_, rows). f rows) gs)) + mset (concat (map (\<lambda>(_, rows). h rows) gs)) = mset (rows_of gs)"
proof (induction gs)
  case (Cons g gs)
  then show ?case using assms [of "snd g"] by (simp add: rows_of_def split_beta ac_simps)
qed (simp add: rows_of_def)

text \<open>The rows of a key, of which the groups are the classes.\<close>

lemma mset_of_key_group:
  assumes "(k, rs) \<in> set (group_rows rows)" shows "mset rs = mset (of_key k rows)"
proof -
  have "of_key k (concat (map (\<lambda>(_, rows). rows) (group_rows rows))) = rs"
    by (rule of_key_concat [OF group_rows_spec(1) assms]) simp
  moreover have "mset (of_key k (rows_of (group_rows rows))) = mset (of_key k rows)"
    unfolding of_key_def mset_filter group_rows_spec(2) ..
  ultimately show ?thesis by (simp add: rows_of_def split_beta' comp_def)
qed

lemma group_of_key:
  assumes "r \<in> set rows" obtains rs where "(js_get r ''key'', rs) \<in> set (group_rows rows)" "r \<in> set rs"
proof -
  have "r \<in> set (rows_of (group_rows rows))" using group_rows_spec(2) [of rows] assms by (metis set_mset_mset)
  then obtain k rs where g: "(k, rs) \<in> set (group_rows rows)" "r \<in> set rs" by (auto simp: rows_of_def)
  then have "js_get r ''key'' = k" using group_rows_spec(1) [of rows] by (auto simp: grouped_def)
  then show thesis using that g by simp
qed

text \<open>
  The split of a feature frame loses and duplicates no row, and no training row of a key is later
  than a test row of it; a key with two rows at least has rows on both sides.
\<close>
theorem split_partitions:
  assumes "splitFeatureFrame frame ratio = (train, test)" "ratio \<noteq> NaN"
  shows "mset (features_of train) + mset (features_of test) = mset (features_of frame) \<and>
    no_later (of_key k (features_of train)) (of_key k (features_of test)) \<and>
    (2 \<le> length (of_key k (features_of frame)) \<longrightarrow> of_key k (features_of train) \<noteq> [] \<and> of_key k (features_of test) \<noteq> [])"
proof -
  define gs where "gs = group_rows (features_of frame)"
  define f where "f rows = take (split_index (length (sort_rows rows)) ratio) (sort_rows rows)" for rows
  define h where "h rows = drop (split_index (length (sort_rows rows)) ratio) (sort_rows rows)" for rows
  have tt: "features_of train = concat (map (\<lambda>(_, rows). f rows) gs)" "features_of test = concat (map (\<lambda>(_, rows). h rows) gs)"
    using assms(1) by (auto simp: splitFeatureFrame_def Let_def gs_def f_def h_def split_beta' comp_def)
  have g: "grouped gs" by (simp add: gs_def group_rows_spec)
  have "mset (f rows) + mset (h rows) = mset rows" for rows
  proof -
    have "mset (f rows) + mset (h rows) = mset (f rows @ h rows)" by simp
    also have "f rows @ h rows = sort_rows rows" by (simp add: f_def h_def)
    finally show ?thesis by simp
  qed
  then have part: "mset (features_of train) + mset (features_of test) = mset (features_of frame)"
    unfolding tt by (subst mset_concat_split) (simp_all add: gs_def group_rows_spec)
  have sub: "set (f rows) \<subseteq> set rows" "set (h rows) \<subseteq> set rows" for rows
    using set_take_subset set_drop_subset by (fastforce simp: f_def h_def)+
  have keys: "no_later (of_key k (features_of train)) (of_key k (features_of test)) \<and>
    (2 \<le> length (of_key k (features_of frame)) \<longrightarrow> of_key k (features_of train) \<noteq> [] \<and> of_key k (features_of test) \<noteq> [])"
  proof (cases "of_key k (features_of frame) = []")
    case True
    then have "of_key k (features_of train) = []" using part by (metis Un_iff filter_empty_conv of_key_def set_mset_mset set_mset_union)
    then show ?thesis using True by (simp add: no_later_def)
  next
    case False
    then obtain r where r: "r \<in> set (features_of frame)" "js_get r ''key'' = k" by (auto simp: of_key_def filter_empty_conv)
    then obtain rs where rs: "(k, rs) \<in> set gs" unfolding gs_def using group_of_key [OF r(1)] by metis
    then have len: "length rs = length (of_key k (features_of frame))" unfolding gs_def using mset_of_key_group by (metis size_mset)
    have "of_key k (features_of train) = f rs" "of_key k (features_of test) = h rs"
      unfolding tt by (rule of_key_concat [OF g rs], rule sub)+
    moreover have "no_later (f rs) (h rs)" unfolding f_def h_def by (intro no_later_take_drop) simp
    moreover have "f rs \<noteq> [] \<and> h rs \<noteq> []" if "2 \<le> length rs"
      using split_index_bounds [OF that assms(2)] that by (simp add: f_def h_def flip: length_0_conv)
    ultimately show ?thesis using len by simp
  qed
  show ?thesis using part keys by blast
qed


section \<open>Walk-forward folds\<close>

lemma folds_asked_bounds: "js_to_number (js_nullish v (JNum (Fin 3))) \<noteq> NaN \<Longrightarrow> 2 \<le> folds_asked v \<and> folds_asked v \<le> 10"
proof -
  assume a: "js_to_number (js_nullish v (JNum (Fin 3))) \<noteq> NaN"
  have "\<exists>k :: int. js_max (Fin 2) (js_min (Fin 10) (js_floor x)) = Fin (of_int k) \<and> 2 \<le> k \<and> k \<le> 10" if "x \<noteq> NaN" for x
  proof (cases x)
    case (Fin r)
    have "js_max (Fin 2) (js_min (Fin 10) (js_floor x)) = Fin (of_int (max 2 (min 10 \<lfloor>r\<rfloor>)))"
      by (simp add: Fin js_floor_def of_int_max of_int_min)
    then show ?thesis by (intro exI [of _ "max 2 (min 10 \<lfloor>r\<rfloor>)"]) auto
  next
    case PInf then show ?thesis by (intro exI [of _ 10]) (simp add: js_floor_def js_min_def)
  next
    case NInf then show ?thesis by (intro exI [of _ 2]) (simp add: js_floor_def js_min_def js_max_def)
  qed (use that in simp)
  from this [OF a] show ?thesis by (auto simp: folds_asked_def index_of_def)
qed

lemma fold_loop_all:
  assumes "\<forall>k \<in> set ks. chunk * (k + 2) \<le> length rows" "0 < chunk"
  shows "fold_loop frame run rows chunk ks = map (make_fold frame run rows chunk) ks"
proof -
  have "\<not> (length rows \<le> chunk * (k + 1) \<or> min (length rows) (chunk * (k + 2)) \<le> chunk * (k + 1))" if "k \<in> set ks" for k
  proof -
    have "chunk * (k + 1) < chunk * (k + 2)" "chunk * (k + 2) \<le> length rows" using assms that by auto
    then show ?thesis by linarith
  qed
  then show ?thesis by (induction ks) auto
qed

lemma mset_all_rows: "mset (all_rows frame) = mset (features_of frame)"
proof -
  have "mset (concat (map (\<lambda>(_, rows). sort_rows rows) gs)) = mset (rows_of gs)" for gs
    by (induction gs) (auto simp: rows_of_def)
  then show ?thesis by (simp add: all_rows_def group_rows_spec)
qed

lemma make_fold_rows:
  assumes "chunk * (k + 2) \<le> length rows"
  shows "train_rows (make_fold frame run rows chunk k) = take (chunk * (k + 1)) rows"
    "test_rows (make_fold frame run rows chunk k) = take chunk (drop (chunk * (k + 1)) rows)"
    "in_sample (make_fold frame run rows chunk k) = compactMetrics (run (with_features frame (take (chunk * (k + 1)) rows)))"
    "out_of_sample (make_fold frame run rows chunk k) = compactMetrics (run (with_features frame (take chunk (drop (chunk * (k + 1)) rows))))"
    "fold_no (make_fold frame run rows chunk k) = k + 1"
  using assms by (simp_all add: make_fold_def Let_def min_absorb2)

lemma tests_cover:
  "concat (map (\<lambda>k. take chunk (drop (chunk * (k + 1)) rows)) [0..<n]) = take (chunk * n) (drop chunk rows)"
proof (induction n)
  case (Suc n)
  have "take (chunk * n + chunk) (drop chunk rows) = take (chunk * n) (drop chunk rows) @ take chunk (drop (chunk * n + chunk) rows)"
    by (simp add: take_add drop_drop)
  then show ?case using Suc by (simp add: ac_simps)
qed simp

text \<open>
  C15. A walk-forward run makes every fold asked for, from 2 to 10; the folds' test windows, put after the
  first training window, run through the time-sorted rows without a gap or an overlap, each fold is
  trained on all rows before its test window and none of them is later than a row it is tested on.
\<close>
theorem walk_forward_folds:
  assumes "rollingWalkForward frame run v = Walked folds results agg" "js_to_number (js_nullish v (JNum (Fin 3))) \<noteq> NaN"
  shows "2 \<le> folds \<and> folds \<le> 10 \<and> length results = folds \<and> mset (all_rows frame) = mset (features_of frame) \<and>
    (\<exists>rest. length rest < folds + 1 \<and> train_rows (hd results) @ concat (map test_rows results) @ rest = all_rows frame) \<and>
    (\<forall>k < folds. test_rows (results ! k) \<noteq> [] \<and> fold_no (results ! k) = k + 1 \<and>
       train_rows (results ! k) = train_rows (hd results) @ concat (map test_rows (take k results)) \<and>
       no_later (train_rows (results ! k)) (test_rows (results ! k)) \<and>
       in_sample (results ! k) = compactMetrics (run (with_features frame (train_rows (results ! k)))) \<and>
       out_of_sample (results ! k) = compactMetrics (run (with_features frame (test_rows (results ! k)))))"
proof -
  define rows where "rows = all_rows frame"
  define chunk where "chunk = length rows div (folds + 1)"
  have c1: "folds_asked v = folds" using assms(1) unfolding rollingWalkForward_def Let_def by (simp split: if_split_asm)
  have "(if chunk < 2 then Too_few else if fold_loop frame run rows chunk [0..<folds] = [] then No_folds
      else Walked folds (fold_loop frame run rows chunk [0..<folds]) (aggregate (fold_loop frame run rows chunk [0..<folds]))) = Walked folds results agg"
    using assms(1) unfolding rollingWalkForward_def Let_def c1 rows_def chunk_def .
  then have c: "2 \<le> chunk" "results = fold_loop frame run rows chunk [0..<folds]" by (auto split: if_split_asm)
  have f: "2 \<le> folds" "folds \<le> 10" using folds_asked_bounds [OF assms(2)] c1 by simp_all
  have l: "chunk * (folds + 1) \<le> length rows" unfolding chunk_def by (rule div_times_less_eq_dividend)
  have fit: "chunk * (k + 2) \<le> length rows" if "k < folds" for k
    using l mult_le_mono2 [of "k + 2" "folds + 1" chunk] that by linarith
  have res: "results = map (make_fold frame run rows chunk) [0..<folds]"
    unfolding c(2) using c(1) fit by (intro fold_loop_all) auto
  have nth: "results ! k = make_fold frame run rows chunk k" if "k < folds" for k using that by (simp add: res)
  have hd: "train_rows (hd results) = take chunk rows"
    using nth [of 0] make_fold_rows(1) [of chunk 0 rows] fit [of 0] f(1) by (simp add: hd_conv_nth res)
  have tests: "concat (map test_rows (take k results)) = take (chunk * k) (drop chunk rows)" if "k \<le> folds" for k
  proof -
    have "map test_rows (take k results) = map (\<lambda>k. take chunk (drop (chunk * (k + 1)) rows)) [0..<k]"
      using that fit by (simp add: res take_map make_fold_rows)
    then show ?thesis by (simp only: tests_cover)
  qed
  have "train_rows (hd results) @ concat (map test_rows results) @ drop (chunk * folds) (drop chunk rows) = rows"
  proof -
    have "take folds results = results" by (simp add: res)
    then have "concat (map test_rows results) = take (chunk * folds) (drop chunk rows)" using tests [of folds] by simp
    then show ?thesis by (simp only: hd append_take_drop_id)
  qed
  moreover have "length (drop (chunk * folds) (drop chunk rows)) < folds + 1"
  proof -
    have "length (drop (chunk * folds) (drop chunk rows)) = length rows - chunk * (folds + 1)" by simp
    also have "\<dots> = length rows mod (folds + 1)" unfolding chunk_def by (rule minus_div_mult_eq_mod)
    finally show ?thesis using mod_less_divisor [of "folds + 1" "length rows"] by simp
  qed
  ultimately have rest: "\<exists>rest. length rest < folds + 1 \<and> train_rows (hd results) @ concat (map test_rows results) @ rest = all_rows frame"
    unfolding rows_def by (intro exI conjI)
  have each: "test_rows (results ! k) \<noteq> [] \<and> fold_no (results ! k) = k + 1 \<and>
       train_rows (results ! k) = train_rows (hd results) @ concat (map test_rows (take k results)) \<and>
       no_later (train_rows (results ! k)) (test_rows (results ! k)) \<and>
       in_sample (results ! k) = compactMetrics (run (with_features frame (train_rows (results ! k)))) \<and>
       out_of_sample (results ! k) = compactMetrics (run (with_features frame (test_rows (results ! k))))" if k: "k < folds" for k
  proof -
    have "no_later (take (chunk * (k + 1)) rows) (drop (chunk * (k + 1)) rows)"
      by (intro no_later_take_drop) (simp add: rows_def all_rows_def)
    then have nl: "no_later (take (chunk * (k + 1)) rows) (take chunk (drop (chunk * (k + 1)) rows))"
      by (rule no_later_mono) (auto dest: in_set_takeD)
    have split: "take (chunk * (k + 1)) rows = take chunk rows @ take (chunk * k) (drop chunk rows)"
      using take_add [of chunk "chunk * k" rows] by (simp add: ac_simps)
    have ne: "take chunk (drop (chunk * (k + 1)) rows) \<noteq> []"
      using fit [OF k] c(1) by (simp add: algebra_simps)
    show ?thesis
      unfolding nth [OF k] make_fold_rows [OF fit [OF k]] tests [OF less_imp_le [OF k]] hd
      by (intro conjI refl nl split ne)
  qed
  have len: "length results = folds" by (simp add: res)
  show ?thesis by (intro conjI f len mset_all_rows rest) (intro allI impI, rule each)
qed

section \<open>No look-ahead\<close>

lemma sort_rows_append:
  assumes "no_later xs ys" shows "sort_rows (xs @ ys) = sort_rows xs @ sort_rows ys"
  unfolding sort_rows_def
proof (rule properties_for_sort_key)
  show "sorted (map time_key (sort_key time_key xs @ sort_key time_key ys))"
    using assms by (simp add: sorted_append no_later_def)
  have "(\<lambda>r. time_key k = time_key r) = (\<lambda>r. time_key r = time_key k)" for k by auto
  then show "filter (\<lambda>r. time_key k = time_key r) (sort_key time_key xs @ sort_key time_key ys) =
    filter (\<lambda>r. time_key k = time_key r) (xs @ ys)" for k
    by (simp add: sort_key_stable)
qed simp

lemma trade_loop_append:
  "trade_loop su (xs @ ys) i = Inr ts' \<Longrightarrow> \<exists>ts us. trade_loop su xs i = Inr ts \<and> ts' = ts @ us"
proof (induction su xs i arbitrary: ts' rule: trade_loop.induct)
  case (1 su xs i)
  show ?case
  proof (cases "su_horizon su = 0 \<or> length xs \<le> i + su_horizon su")
    case True
    then show ?thesis by (subst trade_loop.simps) auto
  next
    case False
    then have i: "(xs @ ys) ! i = xs ! i" "(xs @ ys) ! (i + su_horizon su) = xs ! (i + su_horizon su)" by (simp_all add: nth_append)
    have "\<not> (su_horizon su = 0 \<or> length (xs @ ys) \<le> i + su_horizon su)" using False by simp
    then obtain o1 vs where t: "try_trade su (xs ! i) (xs ! (i + su_horizon su)) = Inr o1"
      "trade_loop su (xs @ ys) (i + su_horizon su) = Inr vs" "ts' = (case o1 of Some x \<Rightarrow> x # vs | None \<Rightarrow> vs)"
      using 1(2) by (subst (asm) trade_loop.simps) (auto simp: rbind_Inr_iff i)
    obtain ts us where "trade_loop su xs (i + su_horizon su) = Inr ts" "vs = ts @ us" using "1.IH" [OF False t(2)] by blast
    then show ?thesis using t False
      by (intro exI [of _ "case o1 of Some x \<Rightarrow> x # ts | None \<Rightarrow> ts"] exI [of _ us]) (subst trade_loop.simps, auto split: option.split)
  qed
qed


lemma group_rows_one:
  assumes "\<forall>r \<in> set rows. js_get r ''key'' = k" "rows \<noteq> []" shows "group_rows rows = [(k, rows)]"
proof -
  have "foldl key_step [(k, acc)] rows = [(k, acc @ rows)]" if "\<forall>r \<in> set rows. js_get r ''key'' = k" for acc rows
    using that by (induction rows arbitrary: acc) (simp_all add: key_step_def)
  then show ?thesis using assms by (cases rows) (simp_all add: group_rows_def key_step_def)
qed

lemma filtered_rows:
  "features_of (filterFeatureFrame frame tf from to) = filter (\<lambda>row.
     (truthy tf \<longrightarrow> strict_eq (js_get row ''timeframe'') tf) \<and> withinDateRange row from to) (features_of frame)"
  by (simp add: filterFeatureFrame_def)

lemma run_group_one:
  assumes "\<forall>r \<in> set rows. js_get r ''key'' = k"
  shows "run_groups su (group_rows rows) = trade_loop su (sort_rows rows) 0"
proof (cases "rows = []")
  case True
  have "trade_loop su [] 0 = Inr []" by (subst trade_loop.simps) simp
  then show ?thesis by (simp add: True group_rows_def sort_rows_def)
next
  case False
  have "rbind m (\<lambda>ts. Inr (ts @ [])) = m" for m :: "bt_error + jsval list" by (cases m) auto
  then show ?thesis using group_rows_one [OF assms False] by simp
qed


section \<open>Costs only take away\<close>

lemma js_sub_1_mono:
  assumes "js_le x y" shows "js_le (js_sub x (Fin 1)) (js_sub y (Fin 1))"
proof -
  have "js_le (fl (a - 1)) (fl (b - 1))" if "a \<le> b" for a b using that by (intro fl_mono) simp
  moreover have "js_le NInf (fl r)" "js_le (fl r) PInf" for r by (cases "fl r"; simp add: js_le_def)+
  ultimately show ?thesis using assms by (cases x; cases y) (auto simp: js_sub_def js_le_def)
qed

definition price :: "jsnum \<Rightarrow> bool" where
  "price x = (\<exists>a. x = Fin a \<and> 0 < a \<and> fl a = x)"

lemma net_le_gross:
  assumes "sane_costs c" "price entry" "price exit"
  shows "js_le (net_return_of c entry exit) (js_sub (js_div exit entry) (Fin 1))"
proof -
  obtain d where d: "drag c = Fin d" "0 \<le> d" "d \<le> 1" using assms(1) by (auto simp: sane_costs_def fractional_def)
  obtain a b where ab: "entry = Fin a" "0 < a" "fl a = Fin a" "exit = Fin b" "0 < b" "fl b = Fin b" using assms by (auto simp: price_def)
  have "0 \<le> 1 - d" "1 - d \<le> 1" using d by simp_all
  then obtain u where u: "fl (1 - d) = Fin u" "0 \<le> u" "u \<le> 1" using binary64.rnd_unit by blast
  obtain w where w: "fl (1 + d) = Fin w" "1 \<le> w" using binary64.rnd_between [of 1 "1 + d" 2] d by auto
  have "js_le (fl (b * u)) (fl b)" using u ab by (intro fl_mono) (simp add: mult_left_le)
  moreover have "js_le (Fin 0) (fl (b * u))" using u ab by (intro binary64.rnd_nonneg) simp
  ultimately obtain x where x: "fl (b * u) = Fin x" "0 \<le> x" "x \<le> b" unfolding ab(6) by (cases "fl (b * u)") (auto simp: js_le_def)
  have "js_le (fl a) (fl (a * w))" using w ab by (intro fl_mono) simp
  then consider (fin) y where "fl (a * w) = Fin y" "a \<le> y" | (inf) "fl (a * w) = PInf" unfolding ab(3) by (cases "fl (a * w)") (auto simp: js_le_def)
  then have "js_le (js_div (fl (b * u)) (fl (a * w))) (fl (b / a))"
  proof cases
    case fin
    then have "x / y \<le> b / a" using x ab by (intro frac_le) auto
    then show ?thesis using fin x ab by (simp add: fl_mono)
  next
    case inf
    then show ?thesis using x ab by (simp add: binary64.rnd_nonneg)
  qed
  then show ?thesis using js_sub_1_mono ab d u w by (simp add: net_return_of_def Let_def js_sub_def)
qed

text \<open>
  Costs only take away: with a fee and a slippage that together are at most the price, and prices that
  are positive doubles, no trade of a backtest nets more than its gross return, and the trade was
  asked for by the model on the row of its entry.
\<close>
theorem costs_only_take_away:
  assumes "runBacktestJs frame opts model predict profile seedText = Inr res" "sane_costs (costs_of opts)"
    "\<forall>row \<in> set (features_of frame). price (js_to_number (js_get row ''close''))" "t \<in> set (r_trades res)"
  shows "js_le (js_to_number (js_get t ''net_return'')) (js_to_number (js_get t ''gross_return'')) \<and>
    (\<exists>row \<in> set (features_of frame). js_get t ''entry_time'' = js_get row ''as_of'' \<and> js_get (predict row) ''direction'' = JStr ''long'')"
proof -
  obtain su row exitRow where t: "row \<in> set (features_of frame)" "exitRow \<in> set (features_of frame)"
    "t = make_trade su (predict row) row exitRow" "su_costs su = costs_of opts" "js_get (predict row) ''direction'' = JStr ''long''"
    using assms(1,4) by (rule backtest_trades)
  have "js_to_number (js_get t ''net_return'') = net_return_of (costs_of opts) (js_to_number (js_get row ''close'')) (js_to_number (js_get exitRow ''close''))"
    using net_of_make_trade [of su "predict row" row exitRow] t(3,4) by (simp add: net_of_def)
  moreover have "js_to_number (js_get t ''gross_return'') = js_sub (js_div (js_to_number (js_get exitRow ''close'')) (js_to_number (js_get row ''close''))) (Fin 1)"
    "js_get t ''entry_time'' = js_get row ''as_of''"
    by (simp_all add: t(3) make_trade_def Let_def)
  ultimately show ?thesis using t(1,2,5) assms(3) net_le_gross [OF assms(2)] by auto
qed

section \<open>Concrete runs\<close>

lemma split_partitions_witness:
  "mset (features_of (fst (splitFeatureFrame (JObj [(''features'', JArr [JObj [(''key'', JStr ''a'')], JObj [(''key'', JStr ''b'')]])]) (Fin (1/2))))) +
   mset (features_of (snd (splitFeatureFrame (JObj [(''features'', JArr [JObj [(''key'', JStr ''a'')], JObj [(''key'', JStr ''b'')]])]) (Fin (1/2))))) =
   {#JObj [(''key'', JStr ''a'')], JObj [(''key'', JStr ''b'')]#}"
  using split_partitions [OF prod.collapse [symmetric], of "Fin (1/2)"] by (simp add: features_of_def array_items_def)

definition sample_bar :: "string \<Rightarrow> rat \<Rightarrow> jsval" where
  "sample_bar stamp close = JObj [(''key'', JStr ''btc''), (''as_of'', JStr stamp), (''close'', JNum (Fin close))]"

definition two_bars :: "jsval list" where
  "two_bars = [sample_bar ''2024-01-01T00:00:00Z'' 2, sample_bar ''2024-01-02T00:00:00Z'' 3]"

definition always_long :: "jsval \<Rightarrow> jsval" where
  "always_long row = JObj [(''direction'', JStr ''long''), (''confidence'', JNum (Fin 1))]"

definition daily_options :: jsval where
  "daily_options = JObj [(''horizon'', JNum (Fin 1)), (''costBps'', JNum (Fin 0)), (''family'', JStr ''crypto'')]"

definition frame_of :: "jsval list \<Rightarrow> jsval" where
  "frame_of rows = with_features (JObj []) rows"

lemma walk_forward_folds_witness:
  "\<exists>results agg. rollingWalkForward (frame_of (concat (replicate 3 two_bars))) (\<lambda>f. JObj [(''trades'', js_get f ''feature_count'')]) (JNum (Fin 2)) = Walked 2 results agg \<and>
     length results = 2 \<and> test_rows (results ! 0) \<noteq> []"
proof -
  have "(case rollingWalkForward (frame_of (concat (replicate 3 two_bars))) (\<lambda>f. JObj [(''trades'', js_get f ''feature_count'')]) (JNum (Fin 2)) of Walked n rs agg \<Rightarrow> n = 2 | _ \<Rightarrow> False)"
    by code_simp
  then obtain results agg where r: "rollingWalkForward (frame_of (concat (replicate 3 two_bars))) (\<lambda>f. JObj [(''trades'', js_get f ''feature_count'')]) (JNum (Fin 2)) = Walked 2 results agg"
    by (cases "rollingWalkForward (frame_of (concat (replicate 3 two_bars))) (\<lambda>f. JObj [(''trades'', js_get f ''feature_count'')]) (JNum (Fin 2))") auto
  then show ?thesis using walk_forward_folds [OF r] by (simp add: js_nullish_def)
qed

definition sample_setup :: bt_setup where
  "sample_setup = setup_of daily_options (filterFeatureFrame (frame_of two_bars) JNull JNull JNull) JNull always_long"

definition sample_trade :: jsval where
  "sample_trade = make_trade sample_setup (always_long (hd two_bars)) (hd two_bars) (last two_bars)"

lemma sample_run:
  obtains res where "runBacktestJs (frame_of two_bars) daily_options JNull always_long rules seedText = Inr res"
    "r_trades res = [sample_trade]" "map snd (r_curve res) = [Fin 1, Fin (3/2)]"
proof -
  have o: "js_or (js_get daily_options ''timeframe'') JNull = JNull" "js_or (js_get daily_options ''from'') JNull = JNull"
    "js_or (js_get daily_options ''to'') JNull = JNull" by code_simp+
  have g: "run_groups sample_setup (group_rows (features_of (filterFeatureFrame (frame_of two_bars) JNull JNull JNull))) = Inr [sample_trade]"
    by code_simp
  have c: "map snd (equity_curve (Fin 1) [sample_trade]) = [Fin (3/2)]" by code_simp
  show thesis
    using that c by (simp add: runBacktestJs_def Let_def o g sample_setup_def [symmetric])
qed

lemma sample_costs: "sane_costs (costs_of daily_options)"
proof -
  have "drag (costs_of daily_options) = Fin 0" by code_simp
  then show ?thesis by (simp add: sane_costs_def fractional_def)
qed

lemma sample_prices:
  "row \<in> set (features_of (frame_of two_bars)) \<Longrightarrow> js_to_number (js_get row ''close'') \<in> {Fin 2, Fin 3}"
  by (auto simp: frame_of_def two_bars_def sample_bar_def)

lemma drawdown_bounded_witness:
  "\<exists>res. runBacktestJs (frame_of two_bars) daily_options JNull always_long JNull ''s'' = Inr res \<and>
     (\<exists>q. m_max_drawdown (r_metrics res) = Fin q \<and> 0 \<le> q \<and> q \<le> 1)"
proof -
  obtain res where r: "runBacktestJs (frame_of two_bars) daily_options JNull always_long JNull ''s'' = Inr res"
    "map snd (r_curve res) = [Fin 1, Fin (3/2)]" by (rule sample_run)
  have "\<forall>p \<in> set (r_curve res). js_is_finite (snd p)"
  proof
    fix p assume "p \<in> set (r_curve res)"
    then have "snd p \<in> set (map snd (r_curve res))" by simp
    then show "js_is_finite (snd p)" unfolding r(2) by auto
  qed
  moreover have "\<forall>row \<in> set (features_of (frame_of two_bars)). at_least 0 (js_to_number (js_get row ''close''))"
    using sample_prices by fastforce
  ultimately show ?thesis using drawdown_bounded [OF r(1) sample_costs] r(1) by blast
qed

lemma costs_only_take_away_witness:
  "js_le (js_to_number (js_get sample_trade ''net_return'')) (js_to_number (js_get sample_trade ''gross_return''))"
proof -
  obtain res where r: "runBacktestJs (frame_of two_bars) daily_options JNull always_long JNull ''s'' = Inr res"
    "r_trades res = [sample_trade]" by (rule sample_run)
  have "\<forall>row \<in> set (features_of (frame_of two_bars)). price (js_to_number (js_get row ''close''))"
    using sample_prices fl_of_int [of 2] fl_of_int [of 3] by (fastforce simp: price_def)
  then show ?thesis using costs_only_take_away [OF r(1) sample_costs] r(2) by simp
qed

definition third_bar :: jsval where
  "third_bar = sample_bar ''2024-01-03T00:00:00Z'' 1"


section \<open>Engines\<close>

text \<open>
  An answer of \<^verbatim>\<open>runBacktest\<close> tells how it was made: a frame without features is refused, the engine
  in JavaScript answers exactly when it was asked for or no native engine applied or one failed, and
  only in the latter cases is its answer marked as degraded, with a reason.
\<close>
theorem engine_provenance:
  assumes "runBacktest frame opts available native framed js = Inr (Js_answer r pv)"
  shows "js = Inr r \<and> pv_actual pv = JStr ''sovereign_js'' \<and> pv_requested pv = js_or (js_get opts ''engine'') (JStr ''auto'') \<and>
    pv_degraded pv = (pv_requested pv \<noteq> JStr ''js'') \<and> (pv_degraded pv \<longleftrightarrow> pv_reason pv \<noteq> None) \<and>
    (pv_degraded pv \<longrightarrow> (\<exists>code. native_attempt frame opts available native framed = Inl code) \<or>
       native_attempt frame opts available native framed = Inr None)"
proof -
  have "js_or (JStr ''sovereign_js'') (JStr ''sovereign_js'') = JStr ''sovereign_js''" by (simp add: js_or_def)
  then show ?thesis using assms
    by (auto simp: runBacktest_def Let_def js_answer_def rbind_Inr_iff withEngineProvenance_def split: if_split_asm sum.split_asm option.split_asm)
qed

lemma engine_provenance_witness:
  "\<exists>r pv. runBacktest (frame_of two_bars) JNull (Inr False) (Inl []) (Inl []) (runBacktestJs (frame_of two_bars) daily_options JNull always_long JNull ''s'') =
     (Inr (Js_answer r pv) :: bt_error + unit bt_answer) \<and> pv_degraded pv"
proof -
  obtain r where r: "runBacktestJs (frame_of two_bars) daily_options JNull always_long JNull ''s'' = Inr r" by (rule sample_run)
  have b: "truthy (frame_of two_bars) \<and> is_array (js_get (frame_of two_bars) ''features'') \<and> features_of (frame_of two_bars) \<noteq> [] \<and>
    js_or (js_get JNull ''engine'') (JStr ''auto'') \<noteq> JStr ''js''" by code_simp
  then obtain pv where e: "runBacktest (frame_of two_bars) JNull (Inr False) (Inl []) (Inl []) (Inr r) = (Inr (Js_answer r pv) :: bt_error + unit bt_answer)"
    by (simp add: runBacktest_def Let_def native_attempt_def js_answer_def)
  have "pv_degraded pv" using engine_provenance [OF e] b by simp
  then show ?thesis using r e by auto
qed

end
