(* ===== verification/Provider_Mesh.thy ===== *)
theory Provider_Mesh
  imports Js_Math Js_Value
begin

text \<open>
  \<^verbatim>\<open>shared/lib/market/provider_mesh.js\<close>: the lanes through which calls to market data providers go, with
  a limit of concurrent calls, a queue, a pause between calls, retries and a circuit breaker.  A call
  is an asynchronous function; a step is what it does between two \<^verbatim>\<open>await\<close>s, and the steps of the
  calls of a lane interleave in any order.  The clock, the outcomes of the tasks and the random numbers
  are the arguments of the steps.
\<close>

section \<open>Lanes\<close>

record lane_config =
  maxConcurrency :: jsnum
  minDelayMs :: jsnum
  maxRetries :: jsnum
  baseBackoffMs :: jsnum
  maxBackoffMs :: jsnum

definition config_of :: "rat \<Rightarrow> rat \<Rightarrow> rat \<Rightarrow> rat \<Rightarrow> rat \<Rightarrow> lane_config" where
  "config_of c d r b m = \<lparr>maxConcurrency = Fin c, minDelayMs = Fin d, maxRetries = Fin r, baseBackoffMs = Fin b, maxBackoffMs = Fin m\<rparr>"

definition DEFAULT_LANES :: "string \<Rightarrow> lane_config" where
  "DEFAULT_LANES name =
    (if name = ''binance'' then config_of 10 50 3 200 5000
     else if name = ''deribit'' then config_of 5 100 3 300 6000
     else if name = ''polymarket'' then config_of 5 100 3 300 6000
     else if name = ''yahoo'' then config_of 2 250 2 500 5000
     else if name = ''alpaca'' then config_of 5 100 3 200 5000
     else config_of 4 150 3 250 5000)"

definition calculateJitteredBackoff :: "nat \<Rightarrow> jsnum \<Rightarrow> jsnum \<Rightarrow> jsnum \<Rightarrow> jsnum" where
  "calculateJitteredBackoff tries baseMs maxMs random =
    (let cap = js_min maxMs (js_mul baseMs (fl (2 ^ tries))) in js_floor (js_mul random cap))"

text \<open>
  Where a call is: in the queue, called out of it, in the pause before its task, about to start the
  task, in the task, in the pause after a failure, or over.
\<close>

datatype phase = Queued | Woken | Spacing jsnum | Ready | Running | Backing jsnum | Succeeded | Failed | Refused

record call =
  phase :: phase
  attempt :: nat
  tries_max :: jsnum

record lane =
  lane_name :: string
  config :: lane_config
  active :: int
  queue :: "nat list"
  lastCallTime :: jsnum
  consecutiveFailures :: nat
  circuitOpenUntil :: jsnum
  total_executed :: nat
  total_retries :: nat
  total_errors :: nat
  circuit_trips :: nat
  calls :: "call list"

definition number_or :: "jsval \<Rightarrow> jsnum \<Rightarrow> jsnum" where
  "number_or v d = (if truthy v then js_to_number v else d)"

definition new_lane :: "jsval \<Rightarrow> jsval \<Rightarrow> lane" where
  "new_lane name cfg =
    (let key = to_lower (js_to_string name); def = DEFAULT_LANES key in
     \<lparr>lane_name = key,
      config = \<lparr>maxConcurrency = number_or (js_get cfg ''maxConcurrency'') (maxConcurrency def),
        minDelayMs = number_or (js_get cfg ''minDelayMs'') (minDelayMs def),
        maxRetries = (if js_get cfg ''maxRetries'' \<noteq> JUndef then js_to_number (js_get cfg ''maxRetries'') else maxRetries def),
        baseBackoffMs = number_or (js_get cfg ''baseBackoffMs'') (baseBackoffMs def),
        maxBackoffMs = number_or (js_get cfg ''maxBackoffMs'') (maxBackoffMs def)\<rparr>,
      active = 0, queue = [], lastCallTime = Fin 0, consecutiveFailures = 0, circuitOpenUntil = Fin 0,
      total_executed = 0, total_retries = 0, total_errors = 0, circuit_trips = 0, calls = []\<rparr>)"

section \<open>The circuit breaker\<close>

definition isCircuitOpen :: "jsnum \<Rightarrow> lane \<Rightarrow> bool" where
  "isCircuitOpen now l = (if circuitOpenUntil l = Fin 0 then False else if js_lt (circuitOpenUntil l) now then False else True)"

definition recordSuccess :: "lane \<Rightarrow> lane" where
  "recordSuccess l = l\<lparr>consecutiveFailures := 0, circuitOpenUntil := Fin 0, total_executed := total_executed l + 1\<rparr>"

definition recordFailure :: "bool \<Rightarrow> jsnum \<Rightarrow> lane \<Rightarrow> lane" where
  "recordFailure isRateLimit now l =
    (let l1 = l\<lparr>consecutiveFailures := consecutiveFailures l + 1, total_errors := total_errors l + 1\<rparr> in
     if isRateLimit \<or> 5 \<le> consecutiveFailures l1
     then l1\<lparr>circuitOpenUntil := js_add now (Fin 5000), circuit_trips := circuit_trips l1 + 1\<rparr> else l1)"

definition isRateLimit :: "jsval \<Rightarrow> bool" where
  "isRateLimit err = (truthy err \<and> (strict_eq (js_get err ''status'') (JNum (Fin 429)) \<or>
     js_includes (js_to_string (js_get err ''message'')) ''429'' \<or> js_includes (js_to_string (js_get err ''message'')) ''rate limit''))"

section \<open>The steps of a call\<close>

definition set_phase :: "nat \<Rightarrow> phase \<Rightarrow> lane \<Rightarrow> lane" where
  "set_phase i p l = l\<lparr>calls := (calls l)[i := (calls l ! i)\<lparr>phase := p\<rparr>]\<rparr>"

definition acquireToken :: "nat \<Rightarrow> jsnum \<Rightarrow> lane \<Rightarrow> lane" where
  "acquireToken i now l =
    (let wait = js_max (Fin 0) (js_sub (js_add (lastCallTime l) (minDelayMs (config l))) now) in
     if js_lt (Fin 0) wait then set_phase i (Spacing (js_add now wait)) l
     else set_phase i Ready (l\<lparr>lastCallTime := now\<rparr>))"

definition enter :: "nat \<Rightarrow> jsnum \<Rightarrow> lane \<Rightarrow> lane" where
  "enter i now l = acquireToken i now (l\<lparr>active := active l + 1\<rparr>)"

text \<open>The beginning of \<^verbatim>\<open>execute\<close>, up to the first \<^verbatim>\<open>await\<close>; calls are numbered in their order.\<close>

definition execute :: "jsnum \<Rightarrow> jsval \<Rightarrow> lane \<Rightarrow> lane" where
  "execute now options l =
    (let i = length (calls l);
       limit = (if js_get options ''maxRetries'' \<noteq> JUndef then js_to_number (js_get options ''maxRetries'') else maxRetries (config l));
       add = (\<lambda>p l. l\<lparr>calls := calls l @ [\<lparr>phase = p, attempt = 0, tries_max = limit\<rparr>]\<rparr>) in
     if isCircuitOpen now l then add Refused l
     else if js_le (maxConcurrency (config l)) (Fin (of_int (active l))) then add Queued (l\<lparr>queue := queue l @ [i]\<rparr>)
     else enter i now (add Woken l))"

text \<open>The \<^verbatim>\<open>finally\<close> block: the first call of the queue is woken.\<close>

definition release_slot :: "lane \<Rightarrow> lane" where
  "release_slot l = (let l1 = l\<lparr>active := active l - 1\<rparr> in
     case queue l1 of [] \<Rightarrow> l1 | j # js \<Rightarrow> set_phase j Woken (l1\<lparr>queue := js\<rparr>))"

definition task_succeeds :: "nat \<Rightarrow> lane \<Rightarrow> lane" where
  "task_succeeds i l = release_slot (set_phase i Succeeded (recordSuccess l))"

definition task_fails :: "nat \<Rightarrow> jsval \<Rightarrow> jsnum \<Rightarrow> jsnum \<Rightarrow> lane \<Rightarrow> lane" where
  "task_fails i err now random l =
    (let c = (calls l ! i)\<lparr>attempt := attempt (calls l ! i) + 1\<rparr>;
       l1 = recordFailure (isRateLimit err) now (l\<lparr>calls := (calls l)[i := c]\<rparr>) in
     if js_le (Fin (of_nat (attempt c))) (tries_max c)
     then set_phase i (Backing (js_add now (calculateJitteredBackoff (attempt c) (baseBackoffMs (config l)) (maxBackoffMs (config l)) random)))
       (l1\<lparr>total_retries := total_retries l1 + 1\<rparr>)
     else release_slot (set_phase i Failed l1))"

datatype event =
    Start jsnum jsval
  | Wake nat jsnum
  | Pause_over nat jsnum
  | Run nat
  | Succeed nat
  | Fail nat jsval jsnum jsnum
  | Retry nat jsnum

definition phase_at :: "lane \<Rightarrow> nat \<Rightarrow> phase option" where
  "phase_at l i = (if i < length (calls l) then Some (phase (calls l ! i)) else None)"

text \<open>A timer fires at its time or later.\<close>

definition lane_step :: "event \<Rightarrow> lane \<Rightarrow> lane option" where
  "lane_step e l = (case e of
     Start now options \<Rightarrow> Some (execute now options l)
   | Wake i now \<Rightarrow> if phase_at l i = Some Woken then Some (enter i now l) else None
   | Pause_over i now \<Rightarrow> (case phase_at l i of
       Some (Spacing due) \<Rightarrow> if js_le due now then Some (set_phase i Ready (l\<lparr>lastCallTime := now\<rparr>)) else None | _ \<Rightarrow> None)
   | Run i \<Rightarrow> if phase_at l i = Some Ready then Some (set_phase i Running l) else None
   | Succeed i \<Rightarrow> if phase_at l i = Some Running then Some (task_succeeds i l) else None
   | Fail i err now random \<Rightarrow> if phase_at l i = Some Running then Some (task_fails i err now random l) else None
   | Retry i now \<Rightarrow> (case phase_at l i of
       Some (Backing due) \<Rightarrow> if js_le due now then Some (acquireToken i now l) else None | _ \<Rightarrow> None))"

fun lane_run :: "event list \<Rightarrow> lane \<Rightarrow> lane option" where
  "lane_run [] l = Some l"
| "lane_run (e # es) l = (case lane_step e l of None \<Rightarrow> None | Some l' \<Rightarrow> lane_run es l')"

record lane_stats =
  st_lane :: string
  st_active :: int
  st_queued :: nat
  st_max :: jsnum
  st_open :: bool
  st_executed :: nat
  st_retries :: nat
  st_errors :: nat
  st_trips :: nat

definition lane_getStats :: "jsnum \<Rightarrow> lane \<Rightarrow> lane_stats" where
  "lane_getStats now l = \<lparr>st_lane = lane_name l, st_active = active l, st_queued = length (queue l), st_max = maxConcurrency (config l),
     st_open = isCircuitOpen now l, st_executed = total_executed l, st_retries = total_retries l, st_errors = total_errors l, st_trips = circuit_trips l\<rparr>"

section \<open>The mesh\<close>

record mesh =
  lanes :: "(string \<times> lane) list"
  customConfigs :: jsval

definition lane_key :: "jsval \<Rightarrow> string" where
  "lane_key providerOrHost = (let key = to_lower (js_to_string (js_or providerOrHost (JStr ''default''))) in
     if js_includes key ''binance'' then ''binance''
     else if js_includes key ''deribit'' then ''deribit''
     else if js_includes key ''polymarket'' \<or> js_includes key ''gamma'' then ''polymarket''
     else if js_includes key ''yahoo'' then ''yahoo''
     else if js_includes key ''alpaca'' then ''alpaca'' else key)"

definition getLane :: "jsval \<Rightarrow> mesh \<Rightarrow> lane \<times> mesh" where
  "getLane providerOrHost m = (let key = lane_key providerOrHost in
     case map_of (lanes m) key of Some l \<Rightarrow> (l, m)
     | None \<Rightarrow> let l = new_lane (JStr key) (js_get (customConfigs m) key) in (l, m\<lparr>lanes := lanes m @ [(key, l)]\<rparr>))"

definition put_lane :: "string \<Rightarrow> lane \<Rightarrow> mesh \<Rightarrow> mesh" where
  "put_lane key l m = m\<lparr>lanes := AList.update key l (lanes m)\<rparr>"

definition mesh_execute :: "jsval \<Rightarrow> jsnum \<Rightarrow> jsval \<Rightarrow> mesh \<Rightarrow> mesh" where
  "mesh_execute providerOrHost now options m = (case getLane providerOrHost m of (l, m') \<Rightarrow>
     put_lane (lane_key providerOrHost) (execute now options l) m')"

definition mesh_getStats :: "jsval \<Rightarrow> jsnum \<Rightarrow> mesh \<Rightarrow> (lane_stats + (string \<times> lane_stats) list) \<times> mesh" where
  "mesh_getStats providerOrHost now m =
    (if truthy providerOrHost then (case getLane providerOrHost m of (l, m') \<Rightarrow> (Inl (lane_getStats now l), m'))
     else (Inr (map (\<lambda>(k, l). (k, lane_getStats now l)) (lanes m)), m))"

definition mesh_reset :: "mesh \<Rightarrow> mesh" where
  "mesh_reset m = m\<lparr>lanes := []\<rparr>"

section \<open>Counting calls\<close>

definition in_flight :: "call \<Rightarrow> bool" where
  "in_flight c = (case phase c of Spacing _ \<Rightarrow> True | Ready \<Rightarrow> True | Running \<Rightarrow> True | Backing _ \<Rightarrow> True | _ \<Rightarrow> False)"

definition is_woken :: "call \<Rightarrow> bool" where
  "is_woken c = (phase c = Woken)"

definition count_if :: "('a \<Rightarrow> bool) \<Rightarrow> 'a list \<Rightarrow> int" where
  "count_if P xs = int (length (filter P xs))"

lemma count_if_simps [simp]: "count_if P [] = 0" "count_if P (xs @ [x]) = count_if P xs + of_bool (P x)" "0 \<le> count_if P xs"
  by (simp_all add: count_if_def)

lemma count_if_update:
  "i < length xs \<Longrightarrow> count_if P (xs[i := c]) = count_if P xs - of_bool (P (xs ! i)) + of_bool (P c)"
proof (induction xs arbitrary: i)
  case (Cons x xs)
  then show ?case by (cases i) (auto simp: count_if_def)
qed simp

lemma count_if_pos: "i < length xs \<Longrightarrow> P (xs ! i) \<Longrightarrow> 0 < count_if P xs"
  by (auto simp: count_if_def filter_empty_conv)

lemma count_if_pos_ex: "0 < count_if P xs \<Longrightarrow> \<exists>i < length xs. P (xs ! i)"
  by (auto simp: count_if_def filter_empty_conv in_set_conv_nth)

definition woken :: "lane \<Rightarrow> int" where "woken l = count_if is_woken (calls l)"

definition flying :: "lane \<Rightarrow> int" where "flying l = count_if in_flight (calls l)"

lemma phase_set_phase [simp]:
  "length (calls (set_phase i p l)) = length (calls l)"
  "active (set_phase i p l) = active l" "queue (set_phase i p l) = queue l" "config (set_phase i p l) = config l"
  "lastCallTime (set_phase i p l) = lastCallTime l" "consecutiveFailures (set_phase i p l) = consecutiveFailures l"
  "circuitOpenUntil (set_phase i p l) = circuitOpenUntil l"
  by (simp_all add: set_phase_def)

lemma calls_set_phase:
  "i < length (calls l) \<Longrightarrow> j < length (calls l) \<Longrightarrow> calls (set_phase i p l) ! j = (if i = j then (calls l ! j)\<lparr>phase := p\<rparr> else calls l ! j)"
  by (simp add: set_phase_def)

section \<open>The invariant of a lane\<close>

text \<open>
  The lane counts the calls in flight, the queue holds exactly the queued calls, and as long as it
  holds one, the calls in flight and those just woken fill the lane.
\<close>

definition crowded :: "lane \<Rightarrow> bool" where
  "crowded l = js_le (maxConcurrency (config l)) (Fin (of_int (active l + woken l)))"

definition lane_ok :: "lane \<Rightarrow> bool" where
  "lane_ok l = (active l = flying l \<and> distinct (queue l) \<and>
     (\<forall>i. i \<in> set (queue l) \<longleftrightarrow> i < length (calls l) \<and> phase (calls l ! i) = Queued) \<and>
     (queue l \<noteq> [] \<longrightarrow> crowded l))"

definition slot :: "call \<Rightarrow> int" where
  "slot c = of_bool (in_flight c) + of_bool (is_woken c)"

lemma crowded_mono:
  assumes "crowded l" "config l' = config l" "active l + woken l \<le> active l' + woken l'" shows "crowded l'"
proof -
  have "js_le (Fin (of_int (active l + woken l))) (Fin (of_int (active l' + woken l')))"
    unfolding js_le_Fin of_int_le_iff by (rule assms(3))
  then show ?thesis using assms(1) js_le_trans unfolding crowded_def assms(2) by blast
qed

lemma ok_move:
  assumes "lane_ok l" "i < length (calls l)" "phase (calls l ! i) \<noteq> Queued" "phase c \<noteq> Queued" "calls l' = (calls l)[i := c]"
    "queue l' = queue l" "config l' = config l" "active l' = active l - of_bool (in_flight (calls l ! i)) + of_bool (in_flight c)"
    "queue l = [] \<or> slot (calls l ! i) \<le> slot c"
  shows "lane_ok l'"
proof -
  have f: "flying l' = flying l - of_bool (in_flight (calls l ! i)) + of_bool (in_flight c)"
    "woken l' = woken l - of_bool (is_woken (calls l ! i)) + of_bool (is_woken c)"
    using assms(2,5) by (simp_all add: flying_def woken_def count_if_update)
  have "\<forall>j. j \<in> set (queue l') \<longleftrightarrow> j < length (calls l') \<and> phase (calls l' ! j) = Queued"
    using assms(1,3,4,5,6) assms(2) by (auto simp: lane_ok_def nth_list_update)
  moreover have "crowded l'" if "queue l' \<noteq> []"
  proof (rule crowded_mono)
    show "crowded l" using assms(1,6) that by (simp add: lane_ok_def)
    show "active l + woken l \<le> active l' + woken l'" using f(2) assms(6,8,9) that by (simp add: slot_def)
  qed (rule assms(7))
  ultimately show ?thesis using assms(1,6,8) f(1) by (simp add: lane_ok_def)
qed

lemma ok_release:
  assumes "lane_ok l" "i < length (calls l)" "in_flight (calls l ! i)" "phase c \<in> {Succeeded, Failed}" "calls l1 = (calls l)[i := c]"
    "queue l1 = queue l" "config l1 = config l" "active l1 = active l"
  shows "lane_ok (release_slot l1)"
proof (cases "queue l")
  case Nil
  have "phase (calls l ! i) \<noteq> Queued" "phase c \<noteq> Queued" "\<not> in_flight c" using assms(3,4) by (auto simp: in_flight_def)
  then show ?thesis using Nil assms
    by (intro ok_move [OF assms(1,2), where c = c]) (simp_all add: release_slot_def)
next
  case (Cons j js)
  have c: "\<not> in_flight c" "\<not> is_woken c" "phase c \<noteq> Queued" "phase (calls l ! i) \<noteq> Queued" "\<not> is_woken (calls l ! i)"
    using assms(3,4) by (auto simp: in_flight_def is_woken_def)
  have q: "\<forall>k. k \<in> set (j # js) \<longleftrightarrow> k < length (calls l) \<and> phase (calls l ! k) = Queued" "distinct (j # js)"
    "active l = flying l" "crowded l"
    using assms(1) unfolding lane_ok_def Cons by blast+
  then have j: "j < length (calls l)" "phase (calls l ! j) = Queued" "j \<noteq> i" using c(4) by (metis list.set_intros(1))+
  define d where "d = (calls l ! j)\<lparr>phase := Woken\<rparr>"
  define l' where "l' = release_slot l1"
  have l': "calls l' = (calls l)[i := c, j := d]" "queue l' = js" "config l' = config l" "active l' = active l - 1"
    using assms(5,6,7,8) Cons j(3) by (simp_all add: l'_def release_slot_def set_phase_def d_def)
  have dj: "(calls l)[i := c] ! j = calls l ! j" "\<not> in_flight (calls l ! j)" "\<not> is_woken (calls l ! j)" "\<not> in_flight d" "is_woken d"
    using j by (auto simp: in_flight_def is_woken_def d_def)
  have len: "i < length (calls l)" "j < length ((calls l)[i := c])" using assms(2) j(1) by simp_all
  have f: "flying l' = flying l - 1" "woken l' = woken l + 1"
    unfolding flying_def woken_def l'(1) count_if_update [OF len(2)] count_if_update [OF len(1)] dj(1)
    using assms(3) c dj by simp_all
  have "k \<in> set js \<longleftrightarrow> k < length (calls l') \<and> phase (calls l' ! k) = Queued" for k
  proof (cases "k = j")
    case True
    then show ?thesis using q(2) j(1) by (simp add: l'(1) d_def)
  next
    case False
    then have "k \<in> set js \<longleftrightarrow> k < length (calls l) \<and> phase (calls l ! k) = Queued" using q(1) by auto
    moreover have "(calls l)[i := c] ! k = (if i = k then c else calls l ! k)" using assms(2) by (simp add: nth_list_update)
    ultimately show ?thesis using False c(3,4) by (auto simp: l'(1))
  qed
  moreover have "crowded l'" using q(4) l'(3,4) f by (intro crowded_mono [of l l']) simp_all
  ultimately show ?thesis using q(2,3) f(1) l'(2,4) unfolding l'_def [symmetric] lane_ok_def by simp
qed

lemma acquireToken_effect:
  obtains p where "calls (acquireToken i now l) = (calls l)[i := (calls l ! i)\<lparr>phase := p\<rparr>]" "p = Ready \<or> (\<exists>d. p = Spacing d)"
    "queue (acquireToken i now l) = queue l" "config (acquireToken i now l) = config l" "active (acquireToken i now l) = active l"
  by (cases "js_lt (Fin 0) (js_max (Fin 0) (js_sub (js_add (lastCallTime l) (minDelayMs (config l))) now))")
    (auto simp: acquireToken_def Let_def set_phase_def intro: that)

lemma ok_acquire:
  assumes "lane_ok l" "i < length (calls l)" "in_flight (calls l ! i)" shows "lane_ok (acquireToken i now l)"
proof (rule acquireToken_effect [of i now l])
  fix p assume a: "calls (acquireToken i now l) = (calls l)[i := (calls l ! i)\<lparr>phase := p\<rparr>]" "p = Ready \<or> (\<exists>d. p = Spacing d)"
    "queue (acquireToken i now l) = queue l" "config (acquireToken i now l) = config l" "active (acquireToken i now l) = active l"
  have "in_flight ((calls l ! i)\<lparr>phase := p\<rparr>)" using a(2) by (auto simp: in_flight_def)
  then show ?thesis using assms a by (intro ok_move [OF assms(1,2) _ _ a(1)]) (auto simp: slot_def in_flight_def is_woken_def)
qed

lemma ok_enter:
  assumes "lane_ok l" "i < length (calls l)" "phase (calls l ! i) = Woken" shows "lane_ok (enter i now l)"
  unfolding enter_def
proof (rule acquireToken_effect [of i now "l\<lparr>active := active l + 1\<rparr>"])
  let ?l = "acquireToken i now (l\<lparr>active := active l + 1\<rparr>)"
  fix p assume a: "calls ?l = (calls (l\<lparr>active := active l + 1\<rparr>))[i := (calls (l\<lparr>active := active l + 1\<rparr>) ! i)\<lparr>phase := p\<rparr>]" "p = Ready \<or> (\<exists>d. p = Spacing d)"
    "queue ?l = queue (l\<lparr>active := active l + 1\<rparr>)" "config ?l = config (l\<lparr>active := active l + 1\<rparr>)" "active ?l = active (l\<lparr>active := active l + 1\<rparr>)"
  have "in_flight ((calls l ! i)\<lparr>phase := p\<rparr>)" "\<not> in_flight (calls l ! i)" using a(2) assms(3) by (auto simp: in_flight_def)
  then show "lane_ok ?l" using assms a by (intro ok_move [OF assms(1,2), where c = "(calls l ! i)\<lparr>phase := p\<rparr>"]) (auto simp: slot_def is_woken_def)
qed

lemma nth_append_phase:
  "i < length (xs @ [c]) \<and> phase ((xs @ [c]) ! i) = Queued \<longleftrightarrow> i < length xs \<and> phase (xs ! i) = Queued \<or> i = length xs \<and> phase c = Queued"
  by (auto simp: nth_append less_Suc_eq)

lemma ok_append:
  assumes "lane_ok l" "phase c \<noteq> Queued" "\<not> in_flight c" shows "lane_ok (l\<lparr>calls := calls l @ [c]\<rparr>)"
proof -
  have n: "flying (l\<lparr>calls := calls l @ [c]\<rparr>) = flying l" "woken l \<le> woken (l\<lparr>calls := calls l @ [c]\<rparr>)"
    using assms(3) by (simp_all add: flying_def woken_def)
  have "crowded (l\<lparr>calls := calls l @ [c]\<rparr>)" if "crowded l"
    using that n(2) by (intro crowded_mono [OF that]) simp_all
  then show ?thesis using assms(1) n(1) unfolding lane_ok_def by (simp add: nth_append_phase [simplified] assms(2))
qed

lemma ok_append_queued:
  assumes "lane_ok l" "phase c = Queued" "js_le (maxConcurrency (config l)) (Fin (of_int (active l)))"
  shows "lane_ok (l\<lparr>queue := queue l @ [length (calls l)], calls := calls l @ [c]\<rparr>)"
proof -
  let ?l = "l\<lparr>queue := queue l @ [length (calls l)], calls := calls l @ [c]\<rparr>"
  have n: "flying ?l = flying l" "woken ?l = woken l"
    using assms(2) by (simp_all add: flying_def woken_def in_flight_def is_woken_def)
  have "js_le (Fin (of_int (active l))) (Fin (of_int (active l + woken l)))"
    unfolding js_le_Fin of_int_le_iff by (simp add: woken_def)
  then have "crowded ?l" using js_le_trans [OF assms(3)] n(2) by (simp add: crowded_def)
  moreover have "length (calls l) \<notin> set (queue l)" using assms(1) by (simp add: lane_ok_def)
  ultimately show ?thesis using assms(1,2) n(1) unfolding lane_ok_def by (simp add: nth_append_phase [simplified]) blast
qed

definition fresh_call :: "jsval \<Rightarrow> lane \<Rightarrow> phase \<Rightarrow> call" where
  "fresh_call options l p = \<lparr>phase = p, attempt = 0,
     tries_max = (if js_get options ''maxRetries'' \<noteq> JUndef then js_to_number (js_get options ''maxRetries'') else maxRetries (config l))\<rparr>"

lemma execute_cases:
  "execute now options l = (if isCircuitOpen now l then l\<lparr>calls := calls l @ [fresh_call options l Refused]\<rparr>
     else if js_le (maxConcurrency (config l)) (Fin (of_int (active l)))
       then l\<lparr>queue := queue l @ [length (calls l)], calls := calls l @ [fresh_call options l Queued]\<rparr>
     else enter (length (calls l)) now (l\<lparr>calls := calls l @ [fresh_call options l Woken]\<rparr>))"
  by (simp add: execute_def Let_def fresh_call_def)

lemma fresh_call_simps [simp]: "phase (fresh_call options l p) = p" "attempt (fresh_call options l p) = 0"
  by (simp_all add: fresh_call_def)

lemma ok_execute: "lane_ok l \<Longrightarrow> lane_ok (execute now options l)"
proof -
  assume l: "lane_ok l"
  have "lane_ok (l\<lparr>calls := calls l @ [fresh_call options l Woken]\<rparr>)" using l by (rule ok_append) (simp_all add: in_flight_def)
  then have "lane_ok (enter (length (calls l)) now (l\<lparr>calls := calls l @ [fresh_call options l Woken]\<rparr>))"
    by (rule ok_enter) simp_all
  then show ?thesis using l ok_append [OF l, of "fresh_call options l Refused"] ok_append_queued [OF l, of "fresh_call options l Queued"]
    unfolding execute_cases by (simp add: in_flight_def)
qed

lemma recordFailure_same [simp]:
  "calls (recordFailure r now l) = calls l" "queue (recordFailure r now l) = queue l" "config (recordFailure r now l) = config l"
  "active (recordFailure r now l) = active l"
  by (simp_all add: recordFailure_def Let_def)

lemma recordSuccess_same [simp]:
  "calls (recordSuccess l) = calls l" "queue (recordSuccess l) = queue l" "config (recordSuccess l) = config l" "active (recordSuccess l) = active l"
  by (simp_all add: recordSuccess_def)

lemma phase_at_Some: "phase_at l i = Some p \<longleftrightarrow> i < length (calls l) \<and> phase (calls l ! i) = p"
  by (auto simp: phase_at_def)

lemma lane_step_ok:
  assumes "lane_step e l = Some l'" "lane_ok l" shows "lane_ok l'"
proof (cases e)
  case (Start now options)
  then have "l' = execute now options l" using assms(1) by (simp add: lane_step_def)
  then show ?thesis using assms(2) by (simp add: ok_execute)
next
  case (Wake i now)
  then show ?thesis using assms by (auto simp: lane_step_def phase_at_Some ok_enter split: if_splits)
next
  case (Pause_over i now)
  then obtain d where i: "i < length (calls l)" "phase (calls l ! i) = Spacing d" "l' = set_phase i Ready (l\<lparr>lastCallTime := now\<rparr>)"
    using assms(1) by (auto simp: lane_step_def phase_at_Some split: option.split_asm phase.split_asm if_splits)
  show ?thesis
    by (rule ok_move [OF assms(2) i(1), where c = "(calls l ! i)\<lparr>phase := Ready\<rparr>"])
      (use i in \<open>simp_all add: set_phase_def in_flight_def slot_def is_woken_def\<close>)
next
  case (Run i)
  then have i: "i < length (calls l)" "phase (calls l ! i) = Ready" "l' = set_phase i Running l"
    using assms(1) by (auto simp: lane_step_def phase_at_Some split: if_splits)
  show ?thesis
    by (rule ok_move [OF assms(2) i(1), where c = "(calls l ! i)\<lparr>phase := Running\<rparr>"])
      (use i in \<open>simp_all add: set_phase_def in_flight_def slot_def is_woken_def\<close>)
next
  case (Succeed i)
  then have i: "i < length (calls l)" "phase (calls l ! i) = Running" "l' = task_succeeds i l"
    using assms(1) by (auto simp: lane_step_def phase_at_Some split: if_splits)
  show ?thesis unfolding i(3) task_succeeds_def
    by (rule ok_release [OF assms(2) i(1), where c = "(calls l ! i)\<lparr>phase := Succeeded\<rparr>"]) (simp_all add: i in_flight_def set_phase_def)
next
  case (Fail i err now random)
  then have i: "i < length (calls l)" "phase (calls l ! i) = Running" "l' = task_fails i err now random l"
    using assms(1) by (auto simp: lane_step_def phase_at_Some split: if_splits)
  define c where "c = (calls l ! i)\<lparr>attempt := attempt (calls l ! i) + 1\<rparr>"
  define l1 where "l1 = recordFailure (isRateLimit err) now (l\<lparr>calls := (calls l)[i := c]\<rparr>)"
  have l1: "calls l1 = (calls l)[i := c]" "queue l1 = queue l" "config l1 = config l" "active l1 = active l" by (simp_all add: l1_def)
  show ?thesis
  proof (cases "js_le (Fin (of_nat (attempt c))) (tries_max c)")
    case True
    define p where "p = Backing (js_add now (calculateJitteredBackoff (attempt c) (baseBackoffMs (config l)) (maxBackoffMs (config l)) random))"
    have t: "l' = set_phase i p (l1\<lparr>total_retries := total_retries l1 + 1\<rparr>)"
      using True unfolding i(3) task_fails_def Let_def c_def [symmetric] l1_def [symmetric] p_def by simp
    show ?thesis unfolding t
      by (rule ok_move [OF assms(2) i(1), where c = "c\<lparr>phase := p\<rparr>"])
        (use i(1,2) in \<open>simp_all add: l1 set_phase_def in_flight_def slot_def is_woken_def p_def\<close>)
  next
    case False
    have t: "l' = release_slot (set_phase i Failed l1)"
      using False unfolding i(3) task_fails_def Let_def c_def [symmetric] l1_def [symmetric] by simp
    show ?thesis unfolding t
      by (rule ok_release [OF assms(2) i(1), where c = "c\<lparr>phase := Failed\<rparr>"]) (simp_all add: i(1,2) l1 set_phase_def in_flight_def)
  qed
next
  case (Retry i now)
  then obtain d where i: "i < length (calls l)" "phase (calls l ! i) = Backing d" "l' = acquireToken i now l"
    using assms(1) by (auto simp: lane_step_def phase_at_Some split: option.split_asm phase.split_asm if_splits)
  then show ?thesis using assms(2) by (simp add: ok_acquire in_flight_def)
qed

lemma new_lane_ok: "lane_ok (new_lane name cfg)"
  by (simp add: lane_ok_def new_lane_def Let_def flying_def woken_def)

lemma lane_run_ok: "lane_run es l = Some l' \<Longrightarrow> lane_ok l \<Longrightarrow> lane_ok l'"
  by (induction es arbitrary: l) (auto simp: lane_step_ok split: option.split_asm)

section \<open>The limit of concurrent calls\<close>

definition load :: "lane \<Rightarrow> int" where
  "load l = flying l + woken l"

lemma load_update:
  "i < length (calls l) \<Longrightarrow> calls l' = (calls l)[i := c] \<Longrightarrow> load l' = load l - slot (calls l ! i) + slot c"
  by (simp add: load_def flying_def woken_def slot_def count_if_update)

lemma load_set_phase: "i < length (calls l) \<Longrightarrow> load (set_phase i p l) = load l - slot (calls l ! i) + slot ((calls l ! i)\<lparr>phase := p\<rparr>)"
  by (rule load_update) (simp_all add: set_phase_def)

lemma load_same: "calls l' = calls l \<Longrightarrow> load l' = load l"
  by (simp add: load_def flying_def woken_def)

lemma slot_phase:
  "slot c = (case phase c of Woken \<Rightarrow> 1 | Spacing _ \<Rightarrow> 1 | Ready \<Rightarrow> 1 | Running \<Rightarrow> 1 | Backing _ \<Rightarrow> 1 | _ \<Rightarrow> 0)"
  by (simp add: slot_def in_flight_def is_woken_def split: phase.split)

lemma load_acquire:
  assumes "i < length (calls l)" "slot (calls l ! i) = 1" shows "load (acquireToken i now l) = load l"
proof (rule acquireToken_effect [of i now l])
  fix p assume a: "calls (acquireToken i now l) = (calls l)[i := (calls l ! i)\<lparr>phase := p\<rparr>]" "p = Ready \<or> (\<exists>d. p = Spacing d)"
  then show ?thesis using load_update [OF assms(1) a(1)] assms(2) by (auto simp: slot_phase)
qed

lemma load_enter:
  assumes "i < length (calls l)" "phase (calls l ! i) = Woken" shows "load (enter i now l) = load l"
  using load_acquire [of i "l\<lparr>active := active l + 1\<rparr>" now] assms load_same [of "l\<lparr>active := active l + 1\<rparr>" l]
  by (simp add: enter_def slot_phase)

lemma load_release: 
  assumes "\<forall>j \<in> set (queue l). j < length (calls l) \<and> phase (calls l ! j) = Queued" shows "load (release_slot l) \<le> load l + 1"
proof (cases "queue l")
  case Nil
  then show ?thesis by (simp add: release_slot_def load_def flying_def woken_def)
next
  case (Cons j js)
  let ?l = "l\<lparr>active := active l - 1, queue := js\<rparr>"
  have "load (set_phase j Woken ?l) = load ?l - slot (calls ?l ! j) + slot ((calls ?l ! j)\<lparr>phase := Woken\<rparr>)"
    using assms Cons by (intro load_set_phase) simp
  also have "\<dots> \<le> load l + 1" using assms Cons load_same [of ?l l] by (simp add: slot_phase)
  finally show ?thesis using Cons by (simp add: release_slot_def)
qed

lemma load_finish:
  assumes "lane_ok l" "i < length (calls l)" "phase (calls l ! i) = Running" "phase c \<in> {Succeeded, Failed}"
    "calls l1 = (calls l)[i := c]" "queue l1 = queue l"
  shows "load (release_slot l1) \<le> load l"
proof -
  have "\<forall>j \<in> set (queue l). j < length (calls l) \<and> phase (calls l ! j) = Queued" using assms(1) by (simp add: lane_ok_def)
  moreover have "calls l1 ! j = calls l ! j" if "phase (calls l ! j) = Queued" for j
    using that assms(3,5) by (cases "i = j") simp_all
  ultimately have "\<forall>j \<in> set (queue l1). j < length (calls l1) \<and> phase (calls l1 ! j) = Queued" using assms(5,6) by simp
  then have "load (release_slot l1) \<le> load l1 + 1" by (rule load_release)
  also have "load l1 = load l - 1" using load_update [OF assms(2,5)] assms(3,4) by (auto simp: slot_phase)
  finally show ?thesis by simp
qed

lemma task_fails_cases:
  fixes l i err now random
  defines "c \<equiv> (calls l ! i)\<lparr>attempt := attempt (calls l ! i) + 1\<rparr>"
  obtains (retry) p l1 where "js_le (Fin (of_nat (attempt c))) (tries_max c)" "task_fails i err now random l = set_phase i (Backing p) l1"
      "calls l1 = (calls l)[i := c]" "queue l1 = queue l" "config l1 = config l" "active l1 = active l"
  | (give_up) l1 where "\<not> js_le (Fin (of_nat (attempt c))) (tries_max c)" "task_fails i err now random l = release_slot (set_phase i Failed l1)"
      "calls l1 = (calls l)[i := c]" "queue l1 = queue l" "config l1 = config l" "active l1 = active l"
proof -
  define l1 where "l1 = recordFailure (isRateLimit err) now (l\<lparr>calls := (calls l)[i := c]\<rparr>)"
  define p where "p = js_add now (calculateJitteredBackoff (attempt c) (baseBackoffMs (config l)) (maxBackoffMs (config l)) random)"
  have l1: "calls l1 = (calls l)[i := c]" "queue l1 = queue l" "config l1 = config l" "active l1 = active l" by (simp_all add: l1_def)
  have "task_fails i err now random l = (if js_le (Fin (of_nat (attempt c))) (tries_max c)
      then set_phase i (Backing p) (l1\<lparr>total_retries := total_retries l1 + 1\<rparr>) else release_slot (set_phase i Failed l1))"
    unfolding task_fails_def Let_def c_def [symmetric] l1_def [symmetric] p_def ..
  then show thesis using retry [of p "l1\<lparr>total_retries := total_retries l1 + 1\<rparr>"] give_up [of l1] l1
    by (cases "js_le (Fin (of_nat (attempt c))) (tries_max c)") simp_all
qed

lemma load_step:
  assumes "lane_step e l = Some l'" "lane_ok l" "\<And>now options. e \<noteq> Start now options" shows "load l' \<le> load l"
proof (cases e)
  case (Start now options)
  then show ?thesis using assms(3) by blast
next
  case (Wake i now)
  then show ?thesis using assms(1) by (auto simp: lane_step_def phase_at_Some load_enter split: if_splits)
next
  case (Pause_over i now)
  then obtain d where i: "i < length (calls l)" "phase (calls l ! i) = Spacing d" "l' = set_phase i Ready (l\<lparr>lastCallTime := now\<rparr>)"
    using assms(1) by (auto simp: lane_step_def phase_at_Some split: option.split_asm phase.split_asm if_splits)
  have "calls l' = (calls l)[i := (calls l ! i)\<lparr>phase := Ready\<rparr>]" by (simp add: i(3) set_phase_def)
  from load_update [OF i(1) this] show ?thesis using i(2) by (simp add: slot_phase)
next
  case (Run i)
  then have i: "i < length (calls l)" "phase (calls l ! i) = Ready" "l' = set_phase i Running l"
    using assms(1) by (auto simp: lane_step_def phase_at_Some split: if_splits)
  then show ?thesis by (simp add: load_set_phase slot_phase)
next
  case (Succeed i)
  then have i: "i < length (calls l)" "phase (calls l ! i) = Running" "l' = task_succeeds i l"
    using assms(1) by (auto simp: lane_step_def phase_at_Some split: if_splits)
  show ?thesis unfolding i(3) task_succeeds_def
    by (rule load_finish [OF assms(2) i(1,2), where c = "(calls l ! i)\<lparr>phase := Succeeded\<rparr>"]) (simp_all add: set_phase_def)
next
  case (Fail i err now random)
  then have i: "i < length (calls l)" "phase (calls l ! i) = Running" "l' = task_fails i err now random l"
    using assms(1) by (auto simp: lane_step_def phase_at_Some split: if_splits)
  show ?thesis
  proof (rule task_fails_cases [of l i err now random])
    fix p l1 assume a: "task_fails i err now random l = set_phase i (Backing p) l1" "calls l1 = (calls l)[i := (calls l ! i)\<lparr>attempt := attempt (calls l ! i) + 1\<rparr>]"
    have "calls l' = (calls l)[i := (calls l ! i)\<lparr>attempt := attempt (calls l ! i) + 1, phase := Backing p\<rparr>]"
      using i(1) by (simp add: i(3) a set_phase_def)
    from load_update [OF i(1) this] show ?thesis using i(2) by (simp add: slot_phase)
  next
    fix l1 assume a: "task_fails i err now random l = release_slot (set_phase i Failed l1)"
      "calls l1 = (calls l)[i := (calls l ! i)\<lparr>attempt := attempt (calls l ! i) + 1\<rparr>]" "queue l1 = queue l"
    show ?thesis unfolding i(3) a(1)
      by (rule load_finish [OF assms(2) i(1,2), where c = "(calls l ! i)\<lparr>attempt := attempt (calls l ! i) + 1, phase := Failed\<rparr>"])
        (use i(1) a in \<open>simp_all add: set_phase_def\<close>)
  qed
next
  case (Retry i now)
  then obtain d where i: "i < length (calls l)" "phase (calls l ! i) = Backing d" "l' = acquireToken i now l"
    using assms(1) by (auto simp: lane_step_def phase_at_Some split: option.split_asm phase.split_asm if_splits)
  then show ?thesis by (simp add: load_acquire slot_phase)
qed

lemma acquireToken_config [simp]: "config (acquireToken i now l) = config l"
  by (rule acquireToken_effect [of i now l])

lemma release_slot_config [simp]: "config (release_slot l) = config l"
  by (simp add: release_slot_def Let_def split: list.split)

lemma lane_step_config:
  assumes "lane_step e l = Some l'" shows "config l' = config l"
proof (cases e)
  case (Fail i err now random)
  have "config (task_fails i err now random l) = config l"
    by (rule task_fails_cases [of l i err now random]) simp_all
  then show ?thesis using Fail assms by (auto simp: lane_step_def split: if_splits)
qed (use assms in \<open>auto simp: lane_step_def execute_cases enter_def task_succeeds_def split: if_splits option.split_asm phase.split_asm\<close>)

text \<open>Whether a call begins only while no woken call waits for its turn.\<close>

fun orderly :: "event list \<Rightarrow> lane \<Rightarrow> bool" where
  "orderly [] l = True"
| "orderly (e # es) l = ((case e of Start _ _ \<Rightarrow> woken l = 0 | _ \<Rightarrow> True) \<and>
     (case lane_step e l of Some l' \<Rightarrow> orderly es l' | None \<Rightarrow> True))"

lemma load_execute:
  assumes "lane_ok l" "maxConcurrency (config l) = Fin (of_int m)" "woken l = 0" "load l \<le> m"
  shows "load (execute now options l) \<le> m"
proof -
  have l: "load l = active l" using assms(1,3) by (simp add: load_def lane_ok_def)
  have same: "load (l\<lparr>calls := calls l @ [fresh_call options l Refused]\<rparr>) = load l"
    "load (l\<lparr>queue := queue l @ [length (calls l)], calls := calls l @ [fresh_call options l Queued]\<rparr>) = load l"
    "load (l\<lparr>calls := calls l @ [fresh_call options l Woken]\<rparr>) = load l + 1"
    by (simp_all add: load_def flying_def woken_def in_flight_def is_woken_def)
  have "load (enter (length (calls l)) now (l\<lparr>calls := calls l @ [fresh_call options l Woken]\<rparr>)) = load l + 1"
    unfolding same(3) [symmetric] by (rule load_enter) simp_all
  then show ?thesis using same assms(2,4) l by (simp add: execute_cases)
qed

lemma lane_load:
  "lane_run es l = Some l' \<Longrightarrow> orderly es l \<Longrightarrow> lane_ok l \<Longrightarrow> maxConcurrency (config l) = Fin (of_int m) \<Longrightarrow> load l \<le> m \<Longrightarrow> load l' \<le> m"
proof (induction es arbitrary: l)
  case (Cons e es)
  then obtain k where k: "lane_step e l = Some k" "lane_run es k = Some l'" "orderly es k" by (auto split: option.split_asm)
  have "load k \<le> m"
  proof (cases "\<exists>now options. e = Start now options")
    case True
    then obtain now options where e: "e = Start now options" by blast
    then have "k = execute now options l" "woken l = 0" using k(1) Cons.prems(2) by (simp_all add: lane_step_def)
    then show ?thesis using load_execute Cons.prems by blast
  next
    case False
    then have "load k \<le> load l" using load_step [OF k(1)] Cons.prems(3) by blast
    then show ?thesis using Cons.prems(5) by simp
  qed
  then show ?case using Cons.IH [OF k(2,3) lane_step_ok [OF k(1)]] Cons.prems lane_step_config [OF k(1)] by simp
qed simp

text \<open>
  C24. A lane counts its calls in flight, and never has more of them than its limit, as long as no call
  begins between the end of another and the turn of the queued call that this end has woken.
\<close>
theorem lane_concurrency_bounded:
  assumes "lane_run es (new_lane name cfg) = Some l" "orderly es (new_lane name cfg)"
    "maxConcurrency (config (new_lane name cfg)) = Fin (of_int m)" "0 \<le> m"
  shows "active l = count_if in_flight (calls l) \<and> active l \<le> m"
proof -
  have ok: "lane_ok l" using lane_run_ok [OF assms(1) new_lane_ok] .
  have "load (new_lane name cfg) = 0" by (simp add: load_def flying_def woken_def new_lane_def Let_def)
  then have "load l \<le> m" using lane_load [OF assms(1,2) new_lane_ok assms(3)] assms(4) by simp
  moreover have "active l = flying l" "0 \<le> woken l" using ok by (simp_all add: lane_ok_def woken_def)
  ultimately show ?thesis by (simp add: load_def flying_def)
qed


section \<open>Tries\<close>

text \<open>What a step does to one call.\<close>

definition call_step :: "event \<Rightarrow> nat \<Rightarrow> call \<Rightarrow> call \<Rightarrow> bool" where
  "call_step e i c c' = (tries_max c' = tries_max c \<and> (case e of
     Run j \<Rightarrow> if i = j then phase c = Ready \<and> phase c' = Running \<and> attempt c' = attempt c else c' = c
   | Succeed j \<Rightarrow> if i = j then phase c = Running \<and> phase c' = Succeeded \<and> attempt c' = attempt c
       else c' = c \<or> phase c = Queued \<and> phase c' = Woken \<and> attempt c' = attempt c
   | Fail j _ _ _ \<Rightarrow> if i = j then phase c = Running \<and> attempt c' = attempt c + 1 \<and>
         (if js_le (Fin (of_nat (attempt c'))) (tries_max c) then \<exists>d. phase c' = Backing d else phase c' = Failed)
       else c' = c \<or> phase c = Queued \<and> phase c' = Woken \<and> attempt c' = attempt c
   | _ \<Rightarrow> c' = c \<or> attempt c' = attempt c \<and> (phase c = Woken \<or> in_flight c \<and> phase c \<noteq> Running) \<and> (phase c' = Ready \<or> (\<exists>d. phase c' = Spacing d))))"

lemma acquire_call:
  assumes "i < length (calls l)" "k < length (calls l)"
  shows "\<exists>p. (p = Ready \<or> (\<exists>d. p = Spacing d)) \<and> calls (acquireToken k now l) ! i = (if i = k then (calls l ! i)\<lparr>phase := p\<rparr> else calls l ! i)"
proof (rule acquireToken_effect [of k now l])
  fix p assume "calls (acquireToken k now l) = (calls l)[k := (calls l ! k)\<lparr>phase := p\<rparr>]" "p = Ready \<or> (\<exists>d. p = Spacing d)"
  then show ?thesis using assms by (intro exI [of _ p]) (simp add: nth_list_update)
qed

lemma enter_call:
  assumes "i < length (calls l)" "k < length (calls l)"
  shows "\<exists>p. (p = Ready \<or> (\<exists>d. p = Spacing d)) \<and> calls (enter k now l) ! i = (if i = k then (calls l ! i)\<lparr>phase := p\<rparr> else calls l ! i)"
proof -
  have "calls (l\<lparr>active := active l + 1\<rparr>) = calls l" by simp
  then show ?thesis using acquire_call [of i "l\<lparr>active := active l + 1\<rparr>" k now] assms by (simp only: enter_def)
qed

lemma acquire_length [simp]: "length (calls (acquireToken k now l)) = length (calls l)"
  by (rule acquireToken_effect [of k now l]) simp

lemma release_length [simp]: "length (calls (release_slot l)) = length (calls l)"
  by (simp add: release_slot_def Let_def split: list.split)

lemma release_call:
  assumes "\<forall>j \<in> set (queue l). j < length (calls l) \<and> phase (calls l ! j) = Queued" "i < length (calls l)"
  shows "calls (release_slot l) ! i = calls l ! i \<or> phase (calls l ! i) = Queued \<and> calls (release_slot l) ! i = (calls l ! i)\<lparr>phase := Woken\<rparr>"
proof (cases "queue l")
  case Nil then show ?thesis by (simp add: release_slot_def)
next
  case (Cons j js)
  then have "j < length (calls l)" "phase (calls l ! j) = Queued" using assms(1) by auto
  then show ?thesis using Cons assms(2) by (cases "i = j") (simp_all add: release_slot_def Let_def set_phase_def)
qed

lemma finish_call:
  assumes "lane_ok l" "k < length (calls l)" "phase (calls l ! k) = Running" "phase c \<noteq> Queued"
    "calls l1 = (calls l)[k := c]" "queue l1 = queue l" "i < length (calls l)"
  shows "calls (release_slot l1) ! i = (if i = k then c else calls l ! i) \<or>
    i \<noteq> k \<and> phase (calls l ! i) = Queued \<and> calls (release_slot l1) ! i = (calls l ! i)\<lparr>phase := Woken\<rparr>"
proof -
  have q: "\<forall>j \<in> set (queue l). j < length (calls l) \<and> phase (calls l ! j) = Queued" using assms(1) unfolding lane_ok_def by blast
  have "\<forall>j \<in> set (queue l1). j < length (calls l1) \<and> phase (calls l1 ! j) = Queued"
  proof
    fix j assume "j \<in> set (queue l1)"
    then have "j < length (calls l)" "phase (calls l ! j) = Queued" using q assms(6) by simp_all
    then show "j < length (calls l1) \<and> phase (calls l1 ! j) = Queued" using assms(3,5) by (cases "j = k") simp_all
  qed
  moreover have "calls l1 ! i = (if i = k then c else calls l ! i)" using assms(2,5,7) by (simp add: nth_list_update)
  ultimately show ?thesis using release_call [of l1 i] assms(4,5,7) by (auto split: if_split_asm)
qed

lemma lane_step_call:
  assumes "lane_step e l = Some l'" "lane_ok l" "i < length (calls l)"
  shows "i < length (calls l') \<and> call_step e i (calls l ! i) (calls l' ! i)"
proof (cases e)
  case (Start now options)
  then have l': "l' = execute now options l" using assms(1) by (simp add: lane_step_def)
  have "calls l' ! i = calls l ! i \<and> length (calls l') = length (calls l) + 1"
  proof (cases "isCircuitOpen now l \<or> js_le (maxConcurrency (config l)) (Fin (of_int (active l)))")
    case True
    then show ?thesis using assms(3) by (auto simp: l' execute_cases nth_append)
  next
    case False
    let ?l = "l\<lparr>calls := calls l @ [fresh_call options l Woken], active := active l + 1\<rparr>"
    have "l' = acquireToken (length (calls l)) now ?l" using False by (simp add: l' execute_cases enter_def)
    moreover obtain p where "calls (acquireToken (length (calls l)) now ?l) ! i = calls ?l ! i"
      using acquire_call [of i ?l "length (calls l)" now] assms(3) by auto
    ultimately show ?thesis using assms(3) by (simp add: nth_append)
  qed
  then show ?thesis using assms(3) by (simp add: call_step_def Start)
next
  case (Wake k now)
  then have k: "k < length (calls l)" "phase (calls l ! k) = Woken" "l' = enter k now l"
    using assms(1) by (auto simp: lane_step_def phase_at_Some split: if_splits)
  have "\<exists>p. (p = Ready \<or> (\<exists>d. p = Spacing d)) \<and> calls l' ! i = (if i = k then (calls l ! i)\<lparr>phase := p\<rparr> else calls l ! i)"
    unfolding k(3) by (rule enter_call [OF assms(3) k(1)])
  then obtain p where "p = Ready \<or> (\<exists>d. p = Spacing d)" "calls l' ! i = (if i = k then (calls l ! i)\<lparr>phase := p\<rparr> else calls l ! i)" by blast
  then show ?thesis using assms(3) k by (auto simp: call_step_def Wake enter_def)
next
  case (Pause_over k now)
  then obtain d where k: "k < length (calls l)" "phase (calls l ! k) = Spacing d" "l' = set_phase k Ready (l\<lparr>lastCallTime := now\<rparr>)"
    using assms(1) by (auto simp: lane_step_def phase_at_Some split: option.split_asm phase.split_asm if_splits)
  then show ?thesis using assms(3) by (cases "k = i") (simp_all add: calls_set_phase call_step_def Pause_over in_flight_def)
next
  case (Run k)
  then have k: "k < length (calls l)" "phase (calls l ! k) = Ready" "l' = set_phase k Running l"
    using assms(1) by (auto simp: lane_step_def phase_at_Some split: if_splits)
  then show ?thesis using assms(3) by (simp add: calls_set_phase call_step_def Run)
next
  case (Succeed k)
  then have k: "k < length (calls l)" "phase (calls l ! k) = Running" "l' = release_slot (set_phase k Succeeded (recordSuccess l))"
    using assms(1) by (auto simp: lane_step_def phase_at_Some task_succeeds_def split: if_splits)
  have "calls (set_phase k Succeeded (recordSuccess l)) = (calls l)[k := (calls l ! k)\<lparr>phase := Succeeded\<rparr>]" by (simp add: set_phase_def)
  from finish_call [OF assms(2) k(1,2) _ this _ assms(3)] show ?thesis
    using assms(3) k(2) by (auto simp: call_step_def Succeed k(3))
next
  case (Fail k err now random)
  then have k: "k < length (calls l)" "phase (calls l ! k) = Running" "l' = task_fails k err now random l"
    using assms(1) by (auto simp: lane_step_def phase_at_Some split: if_splits)
  define c where "c = (calls l ! k)\<lparr>attempt := attempt (calls l ! k) + 1\<rparr>"
  have c: "attempt c = attempt (calls l ! k) + 1" "tries_max c = tries_max (calls l ! k)" by (simp_all add: c_def)
  show ?thesis
  proof (rule task_fails_cases [of l k err now random, folded c_def])
    fix p l1 assume a: "js_le (Fin (of_nat (attempt c))) (tries_max c)" "task_fails k err now random l = set_phase k (Backing p) l1" "calls l1 = (calls l)[k := c]"
    have "calls l' ! i = (if i = k then c\<lparr>phase := Backing p\<rparr> else calls l ! i)"
      using assms(3) k(1) by (simp add: k(3) a(2,3) calls_set_phase)
    then show ?thesis using assms(3) k a c by (cases "i = k") (simp_all del: of_nat_Suc add: call_step_def Fail)
  next
    fix l1 assume a: "\<not> js_le (Fin (of_nat (attempt c))) (tries_max c)" "task_fails k err now random l = release_slot (set_phase k Failed l1)"
      "calls l1 = (calls l)[k := c]" "queue l1 = queue l"
    have "calls (set_phase k Failed l1) = (calls l)[k := c\<lparr>phase := Failed\<rparr>]" using k(1) by (simp add: a(3) set_phase_def)
    from finish_call [OF assms(2) k(1,2) _ this _ assms(3)] have
      "calls l' ! i = (if i = k then c\<lparr>phase := Failed\<rparr> else calls l ! i) \<or> i \<noteq> k \<and> phase (calls l ! i) = Queued \<and> calls l' ! i = (calls l ! i)\<lparr>phase := Woken\<rparr>"
      using a(4) by (simp add: k(3) a(2))
    moreover have "length (calls l') = length (calls l)" by (simp add: k(3) a(2,3))
    ultimately show ?thesis using assms(3) k(2) a(1) c by (cases "i = k") (auto simp del: of_nat_Suc simp: call_step_def Fail)
  qed
next
  case (Retry k now)
  then obtain d where k: "k < length (calls l)" "phase (calls l ! k) = Backing d" "l' = acquireToken k now l"
    using assms(1) by (auto simp: lane_step_def phase_at_Some split: option.split_asm phase.split_asm if_splits)
  obtain p where "p = Ready \<or> (\<exists>d. p = Spacing d)" "calls l' ! i = (if i = k then (calls l ! i)\<lparr>phase := p\<rparr> else calls l ! i)"
    using acquire_call [of i l k now] assms(3) k(1) by (auto simp: k(3))
  then show ?thesis using assms(3) k by (auto simp: call_step_def Retry in_flight_def)
qed

text \<open>The new call of a step.\<close>

lemma lane_step_new:
  assumes "lane_step e l = Some l'" "\<not> i < length (calls l)" "i < length (calls l')"
  shows "i = length (calls l) \<and> attempt (calls l' ! i) = 0 \<and> phase (calls l' ! i) \<notin> {Running, Succeeded, Failed} \<and> (\<forall>j. e \<noteq> Run j)"
proof -
  have "\<exists>now options. e = Start now options"
  proof (rule ccontr)
    assume no: "\<nexists>now options. e = Start now options"
    have "length (calls l') = length (calls l)"
    proof (cases e)
      case (Fail k err now random)
      have "length (calls (task_fails k err now random l)) = length (calls l)"
        by (rule task_fails_cases [of l k err now random]) simp_all
      then show ?thesis using Fail assms(1) by (auto simp: lane_step_def split: if_splits)
    qed (use assms(1) no in \<open>auto simp: lane_step_def enter_def task_succeeds_def split: if_splits option.split_asm phase.split_asm\<close>)
    then show False using assms(2,3) by simp
  qed
  then obtain now options where e: "e = Start now options" by blast
  then have l': "l' = execute now options l" using assms(1) by (simp add: lane_step_def)
  show ?thesis
  proof (cases "isCircuitOpen now l \<or> js_le (maxConcurrency (config l)) (Fin (of_int (active l)))")
    case True
    then have "calls l' = calls l @ [fresh_call options l Refused] \<or> calls l' = calls l @ [fresh_call options l Queued]"
      by (auto simp: l' execute_cases)
    moreover from this have "i = length (calls l)" using assms(2,3) by auto
    ultimately show ?thesis using e by auto
  next
    case False
    let ?l = "l\<lparr>calls := calls l @ [fresh_call options l Woken], active := active l + 1\<rparr>"
    have a: "l' = acquireToken (length (calls l)) now ?l" using False by (simp add: l' execute_cases enter_def)
    then have i: "i = length (calls l)" using assms(2,3) by simp
    have "\<exists>p. (p = Ready \<or> (\<exists>d. p = Spacing d)) \<and> calls l' ! i = (fresh_call options l Woken)\<lparr>phase := p\<rparr>"
      unfolding a i using acquire_call [of "length (calls l)" ?l "length (calls l)" now] by simp
    then show ?thesis using i e by auto
  qed
qed

definition runs_of :: "nat \<Rightarrow> event list \<Rightarrow> nat" where
  "runs_of i es = length (filter (\<lambda>e. e = Run i) es)"

lemma runs_of_snoc: "runs_of i (es @ [e]) = runs_of i es + (if e = Run i then 1 else 0)"
  by (simp add: runs_of_def)

definition call_tries_ok :: "nat \<Rightarrow> call \<Rightarrow> bool" where
  "call_tries_ok n c = (n = attempt c + (if phase c = Running \<or> phase c = Succeeded then 1 else 0) \<and>
     (\<forall>m. tries_max c = Fin (of_nat m) \<longrightarrow> (if phase c = Failed then attempt c = m + 1 else attempt c \<le> m)))"

lemma call_tries_move:
  assumes "call_tries_ok n c" "tries_max c' = tries_max c" "attempt c' = attempt c"
    "phase c \<notin> {Running, Succeeded, Failed}" "phase c' \<notin> {Running, Succeeded, Failed}"
  shows "call_tries_ok n c'"
  using assms by (simp add: call_tries_ok_def)

lemma call_step_other:
  assumes "call_step e i c c'" "\<forall>j. e \<noteq> Run j" "\<forall>j. e \<noteq> Succeed j" "\<forall>j err now random. e \<noteq> Fail j err now random"
  shows "c' = c \<or> tries_max c' = tries_max c \<and> attempt c' = attempt c \<and> phase c \<notin> {Running, Succeeded, Failed} \<and> phase c' \<notin> {Running, Succeeded, Failed}"
  using assms by (cases e) (auto simp: call_step_def in_flight_def)

lemma call_step_tries:
  assumes "call_step e i c c'" "call_tries_ok n c"
  shows "call_tries_ok (n + (if e = Run i then 1 else 0)) c'"
proof -
  have t: "tries_max c' = tries_max c" using assms(1) by (simp add: call_step_def)
  have queued: "call_tries_ok n c'" if "phase c = Queued" "phase c' = Woken" "attempt c' = attempt c"
    using call_tries_move [OF assms(2) t] that by simp
  consider (run) j where "e = Run j" | (succeed) j where "e = Succeed j" | (fail) j err now random where "e = Fail j err now random"
    | (other) "\<forall>j. e \<noteq> Run j" "\<forall>j. e \<noteq> Succeed j" "\<forall>j err now random. e \<noteq> Fail j err now random" by blast
  then show ?thesis
  proof cases
    case run
    then show ?thesis using assms t by (cases "i = j") (simp_all add: call_step_def call_tries_ok_def)
  next
    case succeed
    then show ?thesis using assms t queued by (cases "i = j") (auto simp: call_step_def call_tries_ok_def)
  next
    case fail
    show ?thesis
    proof (cases "i = j")
      case True
      then show ?thesis using assms t fail
        by (auto simp: call_step_def call_tries_ok_def simp del: of_nat_Suc split: if_split_asm)
    next
      case False
      then show ?thesis using assms queued fail by (auto simp: call_step_def)
    qed
  next
    case other
    then show ?thesis using call_step_other [OF assms(1) other] call_tries_move [OF assms(2)] assms(2) by auto
  qed
qed

lemma lane_run_snoc: "lane_run (es @ [e]) l = (case lane_run es l of None \<Rightarrow> None | Some k \<Rightarrow> lane_step e k)"
  by (induction es arbitrary: l) (auto split: option.split)

lemma run_guard: "lane_step (Run i) l = Some l' \<Longrightarrow> i < length (calls l)"
  by (auto simp: lane_step_def phase_at_Some split: if_splits)

lemma tries_run:
  assumes "lane_run es l0 = Some l" "lane_ok l0" "calls l0 = []"
  shows "\<forall>i. if i < length (calls l) then call_tries_ok (runs_of i es) (calls l ! i) else runs_of i es = 0"
  using assms(1)
proof (induction es arbitrary: l rule: rev_induct)
  case Nil
  then show ?case using assms(3) by (simp add: runs_of_def)
next
  case (snoc e es)
  then obtain k where k: "lane_run es l0 = Some k" "lane_step e k = Some l" by (auto simp: lane_run_snoc split: option.split_asm)
  have ok: "lane_ok k" using lane_run_ok [OF k(1) assms(2)] .
  show ?case
  proof
    fix i
    have IH: "if i < length (calls k) then call_tries_ok (runs_of i es) (calls k ! i) else runs_of i es = 0"
      using snoc.IH [OF k(1)] by blast
    show "if i < length (calls l) then call_tries_ok (runs_of i (es @ [e])) (calls l ! i) else runs_of i (es @ [e]) = 0"
    proof (cases "i < length (calls k)")
      case True
      note s = lane_step_call [OF k(2) ok True]
      have "call_tries_ok (runs_of i es + (if e = Run i then 1 else 0)) (calls l ! i)"
        using IH True by (intro call_step_tries [OF conjunct2 [OF s]]) simp
      then show ?thesis using s by (simp only: runs_of_snoc if_True)
    next
      case False
      have "e \<noteq> Run i" using run_guard k(2) False by blast
      then have "runs_of i (es @ [e]) = 0" using IH False by (simp add: runs_of_snoc)
      then show ?thesis using lane_step_new [OF k(2) False] by (auto simp: call_tries_ok_def)
    qed
  qed
qed

text \<open>
  C36. A call whose limit of retries is \<open>n\<close> starts its task at most \<open>n + 1\<close> times, in whatever order the
  steps of the calls interleave; it fails only after exactly that many, and succeeds at its last one.
\<close>
theorem lane_tries_bounded:
  assumes "lane_run es (new_lane name cfg) = Some l" "i < length (calls l)" "tries_max (calls l ! i) = Fin (of_nat n)"
  shows "runs_of i es \<le> n + 1 \<and> (phase (calls l ! i) = Failed \<longrightarrow> runs_of i es = n + 1) \<and>
    (phase (calls l ! i) = Succeeded \<longrightarrow> runs_of i es = attempt (calls l ! i) + 1)"
proof -
  have "calls (new_lane name cfg) = []" by (simp add: new_lane_def Let_def)
  from tries_run [OF assms(1) new_lane_ok this] have "call_tries_ok (runs_of i es) (calls l ! i)" using assms(2) by (metis (full_types))
  then show ?thesis using assms(3) by (auto simp: call_tries_ok_def split: if_split_asm)
qed

section \<open>The breaker, and what a lane does not promise\<close>

text \<open>
  After a failure that is a rate limit, or the fifth in a row, the lane refuses the calls of the next
  five seconds, without any other change of its state.
\<close>
theorem circuit_refuses:
  assumes "lane_step (Fail i err now random) l = Some l'" "isRateLimit err \<or> 4 \<le> consecutiveFailures l"
    "now = Fin (of_int n)" "0 \<le> n" "n < 2 ^ 52" "t \<le> of_int n + 5000"
  shows "circuitOpenUntil l' = Fin (of_int (n + 5000)) \<and>
    lane_step (Start (Fin t) options) l' = Some (l'\<lparr>calls := calls l' @ [fresh_call options l' Refused]\<rparr>)"
proof -
  have "js_add now (Fin 5000) = Fin (of_int (n + 5000))" using js_add_int [of n 5000] assms(3,4,5) by simp
  then have "circuitOpenUntil (recordFailure (isRateLimit err) now k) = Fin (of_int (n + 5000))"
    if "consecutiveFailures k = consecutiveFailures l" for k
    using assms(2) that by (auto simp: recordFailure_def Let_def)
  moreover have "circuitOpenUntil (release_slot k) = circuitOpenUntil k" for k by (simp add: release_slot_def Let_def split: list.split)
  ultimately have "circuitOpenUntil (task_fails i err now random l) = Fin (of_int (n + 5000))" by (simp add: task_fails_def Let_def)
  then have c: "circuitOpenUntil l' = Fin (of_int (n + 5000))" using assms(1) by (auto simp: lane_step_def split: if_splits)
  then have "isCircuitOpen (Fin t) l'" using assms(4,6) by (simp add: isCircuitOpen_def)
  then show ?thesis using c by (simp add: lane_step_def execute_cases)
qed

text \<open>A lane of one call at a time.\<close>

definition single_lane :: lane where
  "single_lane = new_lane (JStr ''yahoo'') (JObj [(''maxConcurrency'', JNum (Fin 1))])"

definition quick :: "rat \<Rightarrow> event" where "quick t = Start (Fin t) (JObj [])"

text \<open>A newcomer between the end of a call and the turn of the woken one: two calls in a lane of one.\<close>

lemma concurrency_overshoot:
  "map_option active (lane_run [quick 1000, Run 0, quick 1001, Succeed 0, quick 2000, Wake 1 (Fin 2000)] single_lane) = Some 2"
  by code_simp

text \<open>Calls that begin within one pause wait for the same instant: their tasks start together.\<close>

lemma spacing_not_enforced:
  "map_option (\<lambda>l. (map phase (calls l), lastCallTime l))
     (lane_run [quick 1000, quick 1001, quick 1002, Pause_over 1 (Fin 1050), Pause_over 2 (Fin 1050), Run 1, Run 2] (new_lane (JStr ''binance'') (JObj []))) =
   Some ([Ready, Running, Running], Fin 1050)"
  by code_simp

text \<open>A pause of 0 is not the configured one but the default.\<close>

lemma zero_delay_ignored: "minDelayMs (config (new_lane (JStr ''yahoo'') (JObj [(''minDelayMs'', JNum (Fin 0))]))) = Fin 250"
  by code_simp

lemma lane_concurrency_bounded_witness:
  "\<exists>l. lane_run [quick 1000, Run 0, quick 1001, Succeed 0, Wake 1 (Fin 2000)] single_lane = Some l \<and> active l \<le> 1"
proof -
  have "map_option active (lane_run [quick 1000, Run 0, quick 1001, Succeed 0, Wake 1 (Fin 2000)] single_lane) = Some 1" by code_simp
  then obtain l where l: "lane_run [quick 1000, Run 0, quick 1001, Succeed 0, Wake 1 (Fin 2000)] single_lane = Some l" by auto
  have "orderly [quick 1000, Run 0, quick 1001, Succeed 0, Wake 1 (Fin 2000)] single_lane" by code_simp
  moreover have "maxConcurrency (config single_lane) = Fin (of_int 1)" by code_simp
  ultimately show ?thesis using lane_concurrency_bounded [OF l [unfolded single_lane_def], of 1] l by (simp add: single_lane_def)
qed


lemma lane_tries_bounded_witness:
  "\<exists>l. lane_run [quick 1000, Run 0] single_lane = Some l \<and> runs_of 0 [quick 1000, Run 0] \<le> 3"
proof -
  have s: "map_option (\<lambda>l. map tries_max (calls l)) (lane_run [quick 1000, Run 0] single_lane) = Some [Fin 2]" by code_simp
  then obtain l where l: "lane_run [quick 1000, Run 0] single_lane = Some l" by auto
  then have m: "map tries_max (calls l) = [Fin 2]" using s by simp
  have "length (calls l) = 1" using arg_cong [OF m, of length] by simp
  moreover have "tries_max (calls l ! 0) = Fin (of_nat 2)" using nth_map [of 0 "calls l" tries_max] m calculation by simp
  ultimately have "runs_of 0 [quick 1000, Run 0] \<le> 2 + 1" using lane_tries_bounded [OF l [unfolded single_lane_def], of 0 2] by simp
  then show ?thesis using l by simp
qed

lemma circuit_refuses_witness:
  "\<exists>l l'. lane_run [quick 1000, Run 0] single_lane = Some l \<and>
     lane_step (Fail 0 (JObj [(''status'', JNum (Fin 429))]) (Fin (of_int 1500)) (Fin 0)) l = Some l' \<and> circuitOpenUntil l' = Fin (of_int 6500)"
proof -
  have "lane_run [quick 1000, Run 0] single_lane \<noteq> None" by code_simp
  then obtain l where l: "lane_run [quick 1000, Run 0] single_lane = Some l" by blast
  have "lane_run [quick 1000, Run 0, Fail 0 (JObj [(''status'', JNum (Fin 429))]) (Fin (of_int 1500)) (Fin 0)] single_lane \<noteq> None" by code_simp
  then obtain l' where l': "lane_step (Fail 0 (JObj [(''status'', JNum (Fin 429))]) (Fin (of_int 1500)) (Fin 0)) l = Some l'"
    using l lane_run_snoc [of "[quick 1000, Run 0]" _ single_lane] by (auto split: option.split_asm)
  have "isRateLimit (JObj [(''status'', JNum (Fin 429))])" by code_simp
  then show ?thesis using circuit_refuses [OF l', of 1500 1500] l l' by simp
qed

end
