(* ===== verification/Quote_Router.thy ===== *)
theory Quote_Router
  imports Js_Date Js_Value Js_Math "HOL-Library.AList"
begin

text \<open>
  \<^verbatim>\<open>shared/lib/market/quote_router.js\<close>: the identity of a quote, the choice of one record per
  identity among the providers, and the import of quotes from outside.  Records are objects of the
  import or of the store; a row to import may be any value.
\<close>

section \<open>Names\<close>

definition DEFAULT_PROVIDER_PRIORITY :: jsval where
  "DEFAULT_PROVIDER_PRIORITY = JObj (map (\<lambda>(k, n). (k, JNum (Fin n))) [(''headway_mt5'', 101), (''mt5'', 100), (''webull'', 92), (''alpaca'', 88),
     (''polygon'', 86), (''binance'', 82), (''coinbase'', 80), (''stooq'', 62), (''yahoo'', 58), (''fred'', 55), (''default'', 10)])"

definition CURRENCY_CODES :: "string list" where
  "CURRENCY_CODES = [''USD'', ''EUR'', ''GBP'', ''JPY'', ''CHF'', ''CAD'', ''AUD'', ''NZD'', ''CNH'', ''VND'']"

definition COMMODITY_SYMBOLS :: "string list" where
  "COMMODITY_SYMBOLS = [''XAUUSD'', ''XAGUSD'', ''XCUUSD'', ''USOIL'', ''UKOIL'', ''NG'', ''WHEAT'', ''CORN'', ''SOYBN'']"

definition VN_EQUITY_SYMBOLS :: "string list" where
  "VN_EQUITY_SYMBOLS = [''VCB'', ''BID'', ''CTG'', ''TCB'', ''FPT'', ''CMG'', ''VIC'', ''VHM'', ''VRE'', ''VNM'', ''MSN'', ''HPG'', ''FMC'', ''GAS'']"

definition COMMODITY_ALIASES :: "(string \<times> string) list" where
  "COMMODITY_ALIASES = [(''GC=F'', ''XAUUSD''), (''SI=F'', ''XAGUSD''), (''HG=F'', ''XCUUSD''), (''CL=F'', ''USOIL''), (''BZ=F'', ''UKOIL''),
     (''NG=F'', ''NG''), (''ZW=F'', ''WHEAT''), (''ZC=F'', ''CORN''), (''ZS=F'', ''SOYBN'')]"

definition INDEX_ALIASES :: "(string \<times> string) list" where
  "INDEX_ALIASES = [(''US500'', ''SPX''), (''SP500'', ''SPX''), (''SPX500'', ''SPX''), (''NAS100'', ''NDX''), (''US100'', ''NDX''), (''DJ30'', ''DJI''), (''US30'', ''DJI'')]"

definition CRYPTO_SYMBOLS :: "string list" where
  "CRYPTO_SYMBOLS = [''BTCUSD'', ''ETHUSD'', ''BNBUSD'', ''SOLUSD'', ''XRPUSD'', ''DOGEUSD'', ''SUIUSD'', ''ADAUSD'', ''BTCUSDT'', ''ETHUSDT'']"

definition finiteNumber :: "jsval \<Rightarrow> jsnum option" where
  "finiteNumber value = (case (case value of JStr s \<Rightarrow> if js_trim s \<noteq> [] then JNum (string_to_number s) else value | _ \<Rightarrow> value) of
     JNum n \<Rightarrow> if js_is_finite n then Some n else None | _ \<Rightarrow> None)"

definition normalizeProvider :: "jsval \<Rightarrow> string" where
  "normalizeProvider provider = to_lower (js_trim (js_to_string (js_or provider (JStr ''unknown''))))"

definition normalizeFamily :: "jsval \<Rightarrow> string option" where
  "normalizeFamily family = (let value = to_lower (js_trim (text_of family)) in
     if value \<in> {''stock'', ''stocks'', ''equity'', ''equities''} then Some ''equities''
     else if value \<in> {''index'', ''indices''} then Some ''indices''
     else if value \<in> {''forex'', ''currency'', ''currencies'', ''fx''} then Some ''fx''
     else if value \<in> {''commodity'', ''commodities''} then Some ''commodities''
     else if value \<in> {''crypto'', ''cryptocurrency''} then Some ''crypto''
     else if value = [] then None else Some value)"

definition cut_end :: "nat \<Rightarrow> string \<Rightarrow> string" where
  "cut_end n s = take (length s - n) s"

definition us_suffix :: "string \<Rightarrow> bool" where
  "us_suffix s = list_ex (ends_with s) [''.US'', ''.us'', '':US'', '':us'', ''/US'', ''/us'']"

definition bare_symbol :: "string \<Rightarrow> string" where
  "bare_symbol raw = (let value = filter (\<lambda>c. c \<notin> set ''./:_-'') (filter (\<lambda>c. \<not> is_space c) raw) in
     case map_of INDEX_ALIASES value of Some x \<Rightarrow> x | None \<Rightarrow> value)"

definition normalizeSymbol :: "jsval \<Rightarrow> string option \<Rightarrow> string" where
  "normalizeSymbol symbol family =
    (let raw = to_upper (js_trim (text_of symbol)) in
     case map_of COMMODITY_ALIASES raw of Some x \<Rightarrow> x
     | None \<Rightarrow>
       if ends_with raw ''.VN'' \<and> cut_end 3 raw \<in> set VN_EQUITY_SYMBOLS then cut_end 3 raw
       else let v1 = bare_symbol raw;
           v2 = (if family = Some ''crypto'' \<and> ends_with v1 ''USD'' \<and> \<not> ends_with v1 ''USDT'' then cut_end 3 v1 @ ''USDT''
             else if family \<noteq> None \<and> family \<noteq> Some [] \<and> family \<noteq> Some ''crypto'' \<and> ends_with v1 ''USDT'' then cut_end 4 v1 @ ''USD'' else v1);
           v3 = (if (family = Some ''equities'' \<or> family = None \<or> family = Some []) \<and> us_suffix raw \<and> ends_with v2 ''US'' \<and> 2 < length v2
             then cut_end 2 v2 else v2) in
         if ends_with v3 ''VN'' \<and> cut_end 2 v3 \<in> set VN_EQUITY_SYMBOLS then cut_end 2 v3 else v3)"

definition inferFamily :: "jsval \<Rightarrow> jsval \<Rightarrow> string" where
  "inferFamily symbol explicitFamily =
    (case normalizeFamily explicitFamily of Some f \<Rightarrow> f
     | None \<Rightarrow> let n = normalizeSymbol symbol None in
       if n \<in> set COMMODITY_SYMBOLS then ''commodities''
       else if n \<in> snd ` set INDEX_ALIASES \<or> n \<in> {''SPX'', ''NDX'', ''DJI'', ''VIX''} then ''indices''
       else if length n = 6 \<and> take 3 n \<in> set CURRENCY_CODES \<and> drop 3 n \<in> set CURRENCY_CODES then ''fx''
       else if n \<in> set CRYPTO_SYMBOLS then ''crypto'' else ''equities'')"

definition providerRank :: "jsval \<Rightarrow> jsval \<Rightarrow> jsval" where
  "providerRank provider priority = js_nullish (js_get priority (normalizeProvider provider)) (js_nullish (js_get priority ''default'') (JNum (Fin 0)))"

section \<open>The preferred records\<close>

definition record_symbol :: "jsval \<Rightarrow> jsval" where
  "record_symbol r = js_or (js_get r ''symbol'') (js_get r ''instrument_id'')"

definition record_family :: "jsval \<Rightarrow> string" where
  "record_family r = inferFamily (record_symbol r) (js_get r ''family'')"

definition quoteIdentity :: "jsval \<Rightarrow> string" where
  "quoteIdentity r = js_join '':'' [record_family r, normalizeSymbol (record_symbol r) (Some (record_family r)),
     js_to_string (js_or (js_or (js_get r ''timeframe'') (js_get r ''quote_type'')) (JStr ''point'')), text_of (js_get r ''timestamp'')]"

definition series_key :: "jsval \<Rightarrow> string" where
  "series_key r = record_family r @ '':'' @ normalizeSymbol (record_symbol r) (Some (record_family r)) @ '':'' @
     js_to_string (js_or (js_get r ''timeframe'') (JStr ''point''))"

text \<open>The maps from series to provider to count are one map, by series and provider.\<close>

type_synonym counts = "((string \<times> string) \<times> nat) list"

definition count_key :: "jsval \<Rightarrow> string \<times> string" where
  "count_key r = (series_key r, normalizeProvider (js_get r ''provider''))"

definition count_of :: "counts \<Rightarrow> jsval \<Rightarrow> nat" where
  "count_of m r = (case map_of m (count_key r) of Some n \<Rightarrow> n | None \<Rightarrow> 0)"

definition seriesCounts :: "jsval list \<Rightarrow> counts" where
  "seriesCounts records = foldl (\<lambda>m r. AList.update (count_key r) (count_of m r + 1) m) [] records"

definition number_or_zero :: "jsnum option \<Rightarrow> jsnum" where
  "number_or_zero x = (case x of Some n \<Rightarrow> n | None \<Rightarrow> Fin 0)"

definition first_number :: "jsval list \<Rightarrow> jsnum option" where
  "first_number vs = (case filter (\<lambda>x. x \<noteq> None) (map finiteNumber vs) of [] \<Rightarrow> None | x # _ \<Rightarrow> x)"

definition getEnrichedScore :: "jsval \<Rightarrow> counts \<Rightarrow> jsval \<Rightarrow> jsnum" where
  "getEnrichedScore priority m r =
    (let rank = js_to_number (providerRank (js_get r ''provider'') priority); count = count_of m r;
       quality = number_or_zero (finiteNumber (js_get r ''quality_score''));
       volume = number_or_zero (first_number [js_get r ''volume'', js_get r ''last_size'']) in
     js_add (js_add (js_add (js_mul rank (Fin 1000000000)) (js_mul (Fin (of_nat (min count 999999))) (Fin 1000)))
       (js_mul quality (Fin 10))) (js_min volume (Fin 9)))"

definition select_step :: "(jsval \<Rightarrow> jsnum) \<Rightarrow> (string \<times> jsval) list \<Rightarrow> jsval \<Rightarrow> (string \<times> jsval) list" where
  "select_step score selected r =
    (case map_of selected (quoteIdentity r) of
       Some existing \<Rightarrow> if truthy existing \<and> \<not> js_lt (score existing) (score r) then selected else AList.update (quoteIdentity r) r selected
     | None \<Rightarrow> AList.update (quoteIdentity r) r selected)"

definition selectPreferredQuoteRecords :: "jsval list \<Rightarrow> jsval \<Rightarrow> jsval list" where
  "selectPreferredQuoteRecords records options =
    (let priority = js_or (js_get options ''providerPriority'') DEFAULT_PROVIDER_PRIORITY in
     map snd (foldl (select_step (getEnrichedScore priority (seriesCounts records))) [] records))"

section \<open>The import\<close>

datatype import_error = Type_error

definition quoteRowsFromPayload :: "jsval \<Rightarrow> jsval list" where
  "quoteRowsFromPayload payload =
    (if is_array payload then array_items payload
     else if \<not> truthy payload \<or> \<not> typeof_object payload then []
     else concat (map (\<lambda>k. array_items (js_get payload k)) [''sources'', ''quotes'', ''ticks'', ''bars'']))"

definition raw_symbol :: "jsval \<Rightarrow> jsval" where
  "raw_symbol row = js_or (js_or (js_or (js_get row ''symbol'') (js_get row ''instrument'')) (js_get row ''instrument_id'')) (js_get row ''ticker'')"

definition row_family :: "jsval \<Rightarrow> jsval \<Rightarrow> string" where
  "row_family row options = inferFamily (raw_symbol row) (js_or (js_get row ''family'') (js_get options ''family''))"

definition row_stamp :: "jsval \<Rightarrow> int option" where
  "row_stamp row = date_parse (text_of (js_or (js_or (js_or (js_get row ''timestamp'') (js_get row ''time'')) (js_get row ''datetime'')) (js_get row ''date'')))"

text \<open>The price of a row: the last one if it is positive, or the middle of bid and ask.\<close>

definition row_mid :: "jsval \<Rightarrow> jsnum option" where
  "row_mid row = (case (finiteNumber (js_get row ''bid''), finiteNumber (js_get row ''ask'')) of
     (Some bid, Some ask) \<Rightarrow> Some (js_div (js_add bid ask) (Fin 2)) | _ \<Rightarrow> None)"

definition row_price :: "jsval \<Rightarrow> jsnum option" where
  "row_price row = (case first_number [js_get row ''last'', js_get row ''price'', js_get row ''close''] of
     Some x \<Rightarrow> if js_lt (Fin 0) x then Some x else row_mid row | None \<Rightarrow> row_mid row)"

definition null_number :: "jsnum option \<Rightarrow> jsval" where
  "null_number x = (case x of Some n \<Rightarrow> JNum n | None \<Rightarrow> JNull)"

definition is_nullish :: "jsval \<Rightarrow> bool" where
  "is_nullish v = (v = JUndef \<or> v = JNull)"

definition imported :: "jsval \<Rightarrow> jsval \<Rightarrow> jsval \<Rightarrow> string \<Rightarrow> jsnum \<Rightarrow> jsval" where
  "imported row provider options stamp close =
    (let sourceProvider = normalizeProvider (js_or (js_get row ''provider'') provider); family = row_family row options;
       opn = (case finiteNumber (js_get row ''open'') of Some x \<Rightarrow> x | None \<Rightarrow> close);
       high = (case finiteNumber (js_get row ''high'') of Some x \<Rightarrow> x | None \<Rightarrow> js_max opn close);
       low = (case finiteNumber (js_get row ''low'') of Some x \<Rightarrow> x | None \<Rightarrow> js_min opn close);
       timeframe = js_or (js_or (js_get row ''timeframe'') (js_get row ''period'')) (JStr ''tick'');
       isTick = (to_lower (js_to_string timeframe) = ''tick'' \<and> is_nullish (js_get row ''open'') \<and> is_nullish (js_get row ''high'') \<and> is_nullish (js_get row ''low'')) in
     JObj [(''family'', JStr family), (''provider'', JStr sourceProvider), (''symbol'', JStr (normalizeSymbol (raw_symbol row) (Some family))),
       (''timeframe'', timeframe), (''timestamp'', JStr stamp), (''open'', JNum opn), (''high'', JNum high), (''low'', JNum low), (''close'', JNum close),
       (''volume'', JNum (number_or_zero (first_number [js_get row ''volume'', js_get row ''last_size'']))),
       (''bid'', null_number (finiteNumber (js_get row ''bid''))), (''ask'', null_number (finiteNumber (js_get row ''ask''))), (''last'', JNum close),
       (''quote_type'', JStr (if isTick then ''tick'' else ''bar'')), (''source'', JStr (sourceProvider @ ''-quote-import'')),
       (''source_url'', JStr (sourceProvider @ ''://local-quote-export''))])"

text \<open>Reading a member of \<^verbatim>\<open>null\<close> or \<^verbatim>\<open>undefined\<close> throws.\<close>

definition normalizeExternalQuoteRecord :: "jsval \<Rightarrow> jsval \<Rightarrow> jsval \<Rightarrow> import_error + jsval option" where
  "normalizeExternalQuoteRecord row provider options =
    (if is_nullish row then Inl Type_error
     else Inr (if normalizeSymbol (raw_symbol row) (Some (row_family row options)) = [] then None
       else case (Option.bind (row_stamp row) to_iso, row_price row) of
         (Some stamp, Some close) \<Rightarrow> Some (imported row provider options stamp close) | _ \<Rightarrow> None))"

definition externalQuoteRejection :: "jsval \<Rightarrow> jsval \<Rightarrow> jsval \<Rightarrow> string" where
  "externalQuoteRejection row provider options =
    (if \<not> truthy row \<or> \<not> typeof_object row then ''invalid_row''
     else if normalizeSymbol (raw_symbol row) (Some (row_family row options)) = [] then ''missing_symbol''
     else if row_stamp row = None then ''invalid_timestamp''
     else if row_price row = None then ''missing_price''
     else ''unknown_'' @ normalizeProvider provider)"

definition summarizeExternalQuoteRejections :: "string list \<Rightarrow> (string \<times> nat) list" where
  "summarizeExternalQuoteRejections reasons =
    foldl (\<lambda>acc r. AList.update r ((case map_of acc r of Some n \<Rightarrow> n | None \<Rightarrow> 0) + 1) acc) [] reasons"

record rejection =
  row_index :: nat
  rej_provider :: string
  rej_symbol :: jsval
  rej_reason :: string

definition rejection_of :: "nat \<Rightarrow> jsval \<Rightarrow> jsval \<Rightarrow> jsval \<Rightarrow> rejection" where
  "rejection_of index row provider options =
    \<lparr>row_index = index, rej_provider = normalizeProvider (js_or (js_get row ''provider'') provider),
     rej_symbol = js_or (raw_symbol row) JNull, rej_reason = externalQuoteRejection row provider options\<rparr>"

record import_report =
  imp_records :: "jsval list"
  imp_rejected :: "rejection list"
  input_rows :: nat
  usable_records :: nat
  rejected_records :: nat
  rejection_reasons :: "(string \<times> nat) list"

fun import_rows :: "nat \<Rightarrow> jsval list \<Rightarrow> jsval \<Rightarrow> jsval \<Rightarrow> import_error + jsval list \<times> rejection list" where
  "import_rows index [] provider options = Inr ([], [])"
| "import_rows index (row # rows) provider options =
    (case normalizeExternalQuoteRecord row provider options of
       Inl e \<Rightarrow> Inl e
     | Inr r \<Rightarrow> (case import_rows (index + 1) rows provider options of
         Inl e \<Rightarrow> Inl e
       | Inr (records, rejected) \<Rightarrow> (case r of
           Some x \<Rightarrow> Inr (x # records, rejected)
         | None \<Rightarrow> Inr (records, rejection_of index row provider options # rejected))))"

definition normalizeExternalQuotePayloadWithReport :: "jsval \<Rightarrow> jsval \<Rightarrow> jsval \<Rightarrow> import_error + import_report" where
  "normalizeExternalQuotePayloadWithReport payload provider options =
    (let rows = quoteRowsFromPayload payload in
     case import_rows 0 rows provider options of Inl e \<Rightarrow> Inl e
     | Inr (records, rejected) \<Rightarrow> Inr \<lparr>imp_records = records, imp_rejected = rejected, input_rows = length rows, usable_records = length records,
         rejected_records = length rejected, rejection_reasons = summarizeExternalQuoteRejections (map rej_reason rejected)\<rparr>)"

definition normalizeExternalQuotePayload :: "jsval \<Rightarrow> jsval \<Rightarrow> jsval \<Rightarrow> import_error + jsval list" where
  "normalizeExternalQuotePayload payload provider options =
    (case normalizeExternalQuotePayloadWithReport payload provider options of Inl e \<Rightarrow> Inl e | Inr r \<Rightarrow> Inr (imp_records r))"

section \<open>Laws of the choice\<close>

lemma count_of_seriesCounts: "count_of (seriesCounts rs) r = length (filter (\<lambda>x. count_key x = count_key r) rs)"
proof -
  have "count_of (foldl (\<lambda>m r. AList.update (count_key r) (count_of m r + 1) m) m rs) r =
    count_of m r + length (filter (\<lambda>x. count_key x = count_key r) rs)" for m
    by (induction rs arbitrary: m) (auto simp: count_of_def map_of_update)
  from this [of "[]"] show ?thesis by (simp add: seriesCounts_def count_of_def)
qed

definition chosen :: "(jsval \<Rightarrow> jsnum) \<Rightarrow> jsval list \<Rightarrow> (string \<times> jsval) list \<Rightarrow> bool" where
  "chosen score seen m = (distinct (map fst m) \<and> (\<forall>(k, v) \<in> set m. v \<in> set seen \<and> quoteIdentity v = k) \<and>
     (\<forall>r \<in> set seen. \<exists>v. map_of m (quoteIdentity r) = Some v \<and> \<not> js_lt (score v) (score r)))"

lemma chosen_update:
  assumes "chosen score seen m" "\<And>v r. map_of m (quoteIdentity x) = Some v \<Longrightarrow> \<not> js_lt (score v) (score r) \<Longrightarrow> \<not> js_lt (score x) (score r)"
  shows "chosen score (seen @ [x]) (AList.update (quoteIdentity x) x m)"
proof -
  have d: "distinct (map fst m)" and in_m: "\<forall>(k, v) \<in> set m. v \<in> set seen \<and> quoteIdentity v = k"
    and all: "\<forall>r \<in> set seen. \<exists>v. map_of m (quoteIdentity r) = Some v \<and> \<not> js_lt (score v) (score r)"
    using assms(1) unfolding chosen_def by blast+
  have "set (AList.update (quoteIdentity x) x m) \<subseteq> insert (quoteIdentity x, x) (set m)" by (induction m) auto
  then have "\<forall>(k, v) \<in> set (AList.update (quoteIdentity x) x m). v \<in> set (seen @ [x]) \<and> quoteIdentity v = k" using in_m by auto
  moreover have "\<exists>v. map_of (AList.update (quoteIdentity x) x m) (quoteIdentity r) = Some v \<and> \<not> js_lt (score v) (score r)"
    if "r \<in> set (seen @ [x])" for r
  proof (cases "quoteIdentity r = quoteIdentity x")
    case True
    have "\<not> js_lt (score x) (score r)"
    proof (cases "r = x")
      case False
      then have "r \<in> set seen" using that by auto
      then obtain v where "map_of m (quoteIdentity r) = Some v" "\<not> js_lt (score v) (score r)" using all by blast
      then show ?thesis using assms(2) True by simp
    qed simp
    then show ?thesis using True by (simp add: map_of_update)
  next
    case False
    then have "r \<in> set seen" using that by auto
    then show ?thesis using all False by (simp add: map_of_update)
  qed
  ultimately show ?thesis using distinct_update [OF d] by (simp add: chosen_def)
qed

lemma chosen_step:
  assumes "chosen score seen m" "truthy x" "\<forall>r \<in> set seen. truthy r" shows "chosen score (seen @ [x]) (select_step score m x)"
proof (cases "map_of m (quoteIdentity x)")
  case None
  then show ?thesis using chosen_update [OF assms(1), of x] by (simp add: select_step_def)
next
  case (Some e)
  have "e \<in> set seen" using assms(1) map_of_SomeD [OF Some] by (auto simp: chosen_def)
  then have te: "truthy e" using assms(3) by simp
  show ?thesis
  proof (cases "js_lt (score e) (score x)")
    case True
    then have "\<not> js_lt (score x) (score r)" if "\<not> js_lt (score e) (score r)" for r using that js_lt_trans by blast
    then show ?thesis using chosen_update [OF assms(1), of x] Some True te by (simp add: select_step_def)
  next
    case False
    then have "select_step score m x = m" using Some te by (simp add: select_step_def)
    then show ?thesis using assms(1) Some False by (auto simp: chosen_def)
  qed
qed

lemma chosen_foldl:
  "chosen score seen m \<Longrightarrow> \<forall>r \<in> set seen. truthy r \<Longrightarrow> \<forall>r \<in> set rs. truthy r \<Longrightarrow> chosen score (seen @ rs) (foldl (select_step score) m rs)"
proof (induction rs arbitrary: seen m)
  case (Cons r rs)
  then have "chosen score (seen @ [r]) (select_step score m r)" by (intro chosen_step) simp_all
  from Cons.IH [OF this] Cons.prems show ?case by simp
qed simp

text \<open>The score that the choice among some records uses.\<close>

definition score_in :: "jsval list \<Rightarrow> jsval \<Rightarrow> jsval \<Rightarrow> jsnum" where
  "score_in records options = getEnrichedScore (js_or (js_get options ''providerPriority'') DEFAULT_PROVIDER_PRIORITY) (seriesCounts records)"

lemma preferred_chosen:
  assumes "\<forall>r \<in> set records. truthy r"
  obtains m where "selectPreferredQuoteRecords records options = map snd m" "chosen (score_in records options) records m"
proof -
  have "chosen (score_in records options) ([] @ records) (foldl (select_step (score_in records options)) [] records)"
    using assms by (intro chosen_foldl) (simp_all add: chosen_def)
  then show thesis using that by (simp add: selectPreferredQuoteRecords_def score_in_def Let_def)
qed

lemma preferred_spec:
  assumes "\<forall>r \<in> set records. truthy r"
  shows "distinct (map quoteIdentity (selectPreferredQuoteRecords records options))"
    "set (selectPreferredQuoteRecords records options) \<subseteq> set records"
    "r \<in> set records \<Longrightarrow> \<exists>s \<in> set (selectPreferredQuoteRecords records options).
       quoteIdentity s = quoteIdentity r \<and> \<not> js_lt (score_in records options s) (score_in records options r)"
proof -
  obtain m where m: "selectPreferredQuoteRecords records options = map snd m" and c: "chosen (score_in records options) records m"
    using assms by (rule preferred_chosen)
  have "map quoteIdentity (map snd m) = map fst m" using c by (auto simp: chosen_def)
  moreover have "distinct (map fst m)" using c unfolding chosen_def by blast
  ultimately show "distinct (map quoteIdentity (selectPreferredQuoteRecords records options))" by (simp only: m)
  show "set (selectPreferredQuoteRecords records options) \<subseteq> set records" using c by (auto simp: m chosen_def)
  assume r: "r \<in> set records"
  obtain v where v: "map_of m (quoteIdentity r) = Some v" "\<not> js_lt (score_in records options v) (score_in records options r)"
    using c r by (auto simp: chosen_def)
  have "(quoteIdentity r, v) \<in> set m" using v(1) by (rule map_of_SomeD)
  then have "v \<in> set (map snd m)" "quoteIdentity v = quoteIdentity r" using c by (force simp: chosen_def)+
  then show "\<exists>s \<in> set (selectPreferredQuoteRecords records options).
       quoteIdentity s = quoteIdentity r \<and> \<not> js_lt (score_in records options s) (score_in records options r)"
    unfolding m using v(2) by blast
qed

text \<open>
  The choice of the preferred records takes records of the input only, exactly one for every identity
  that occurs, and none with a smaller score than another record of its identity.
\<close>
theorem preferred_records:
  assumes "\<forall>r \<in> set records. truthy r"
  shows "distinct (map quoteIdentity (selectPreferredQuoteRecords records options)) \<and>
    set (selectPreferredQuoteRecords records options) \<subseteq> set records \<and>
    (\<forall>r \<in> set records. \<exists>s \<in> set (selectPreferredQuoteRecords records options).
       quoteIdentity s = quoteIdentity r \<and> \<not> js_lt (score_in records options s) (score_in records options r))"
  using preferred_spec [OF assms] by (intro conjI ballI)

section \<open>The rank decides\<close>

definition modest :: "jsval \<Rightarrow> bool" where
  "modest r = ((\<exists>q. number_or_zero (finiteNumber (js_get r ''quality_score'')) = Fin q \<and> 0 \<le> q \<and> q \<le> 99) \<and>
     js_le (Fin 0) (number_or_zero (first_number [js_get r ''volume'', js_get r ''last_size''])))"

lemma score_between:
  assumes "providerRank (js_get r ''provider'') priority = JNum (Fin (of_int k))" "0 \<le> k" "k \<le> 1000000" "modest r"
  shows "\<exists>x. getEnrichedScore priority m r = Fin x \<and> of_int (k * 1000000000) \<le> x \<and> x \<le> of_int ((k + 1) * 1000000000 - 1)"
proof -
  define c where "c = int (min (count_of m r) 999999)"
  have c: "0 \<le> c" "c \<le> 999999" by (simp_all add: c_def)
  obtain q where q: "number_or_zero (finiteNumber (js_get r ''quality_score'')) = Fin q" "0 \<le> q" "q \<le> 99" using assms(4) by (auto simp: modest_def)
  define vol where "vol = number_or_zero (first_number [js_get r ''volume'', js_get r ''last_size''])"
  have "js_le (Fin 0) vol" using assms(4) by (simp add: modest_def vol_def)
  then have "(\<exists>a \<ge> 0. vol = Fin a) \<or> vol = PInf" by (cases vol) (auto simp: js_le_def)
  then have "\<exists>v. js_min vol (Fin 9) = Fin v \<and> 0 \<le> v \<and> v \<le> 9" by (auto simp: js_min_def)
  then obtain v where v: "js_min vol (Fin 9) = Fin v" "0 \<le> v" "v \<le> 9" by blast
  have x1: "js_mul (Fin (of_int k)) (Fin 1000000000) = Fin (of_int (k * 1000000000))"
    using fl_of_int [of "k * 1000000000"] assms(2,3) by simp
  have x2: "js_mul (Fin (of_nat (min (count_of m r) 999999))) (Fin 1000) = Fin (of_int (c * 1000))"
    using fl_of_int [of "c * 1000"] c by (simp add: c_def)
  define n where "n = k * 1000000000 + c * 1000"
  have n: "k * 1000000000 \<le> n" "n \<le> (k + 1) * 1000000000 - 1000" "0 \<le> n" "n \<le> 2 ^ 51" using c assms(2,3) by (simp_all add: n_def)
  have x3: "js_add (Fin (of_int (k * 1000000000))) (Fin (of_int (c * 1000))) = Fin (of_int n)"
    unfolding n_def by (rule js_add_int) (use n in \<open>simp add: n_def\<close>)
  obtain x4 where x4: "fl (q * 10) = Fin x4" "0 \<le> x4" "x4 \<le> 990" using binary64.rnd_between [of 0 "q * 10" 990] q by auto
  have "of_int n \<le> of_int n + x4" "of_int n + x4 \<le> of_int (n + 990)" using x4 by simp_all
  then obtain x5 where x5: "fl (of_int n + x4) = Fin x5" "of_int n \<le> x5" "x5 \<le> of_int (n + 990)"
    using binary64.rnd_between [of n "of_int n + x4" "n + 990"] n by auto
  have "of_int n \<le> x5 + v" "x5 + v \<le> of_int (n + 999)" using x5 v by simp_all
  then obtain x6 where x6: "fl (x5 + v) = Fin x6" "of_int n \<le> x6" "x6 \<le> of_int (n + 999)"
    using binary64.rnd_between [of n "x5 + v" "n + 999"] n by auto
  have "getEnrichedScore priority m r = Fin x6"
    unfolding getEnrichedScore_def Let_def assms(1) q(1) vol_def [symmetric] v(1) js_to_number_JNum x1 x2 x3
    using x4(1) x5(1) x6(1) by simp
  moreover have "of_int (k * 1000000000) \<le> x6" using x6(2) n(1) order_trans of_int_le_iff by blast
  moreover have "n + 999 \<le> (k + 1) * 1000000000 - 1" using n(2) by simp
  then have "x6 \<le> of_int ((k + 1) * 1000000000 - 1)" using x6(3) order_trans of_int_le_iff by blast
  ultimately show ?thesis by blast
qed

lemma default_rank:
  obtains k :: int where "providerRank p DEFAULT_PROVIDER_PRIORITY = JNum (Fin (of_int k))" "0 \<le> k" "k \<le> 101"
proof -
  have "\<exists>k \<in> {101, 100, 92, 88, 86, 82, 80, 62, 58, 55, 10 :: int}. providerRank p DEFAULT_PROVIDER_PRIORITY = JNum (Fin (of_int k))"
    by (simp add: providerRank_def DEFAULT_PROVIDER_PRIORITY_def js_nullish_def)
  then show thesis using that by auto
qed

text \<open>
  C34. The rank of the provider decides, as the comment in the code says: with the default priorities, a quality from
  0 to 99 and volumes that are not negative, no record of an identity has a provider of a higher rank
  than the chosen one.
\<close>
theorem rank_decides:
  assumes "\<forall>r \<in> set records. truthy r \<and> modest r" "\<not> truthy (js_get options ''providerPriority'')" "r \<in> set records"
  shows "\<exists>s \<in> set (selectPreferredQuoteRecords records options). quoteIdentity s = quoteIdentity r \<and>
    js_le (js_to_number (providerRank (js_get r ''provider'') DEFAULT_PROVIDER_PRIORITY))
      (js_to_number (providerRank (js_get s ''provider'') DEFAULT_PROVIDER_PRIORITY))"
proof -
  have sc: "score_in records options = getEnrichedScore DEFAULT_PROVIDER_PRIORITY (seriesCounts records)"
    using assms(2) by (simp add: score_in_def js_or_def)
  have t: "\<forall>r \<in> set records. truthy r" using assms(1) by blast
  obtain s where s: "s \<in> set (selectPreferredQuoteRecords records options)" "quoteIdentity s = quoteIdentity r"
    "\<not> js_lt (score_in records options s) (score_in records options r)"
    using preferred_spec(3) [OF t assms(3)] by blast
  have "s \<in> set records" using preferred_spec(2) [OF t] s(1) by blast
  then have mods: "modest s" "modest r" using assms(1,3) by blast+
  obtain ks where ks: "providerRank (js_get s ''provider'') DEFAULT_PROVIDER_PRIORITY = JNum (Fin (of_int ks))" "0 \<le> ks" "ks \<le> 101"
    by (rule default_rank)
  obtain kr where kr: "providerRank (js_get r ''provider'') DEFAULT_PROVIDER_PRIORITY = JNum (Fin (of_int kr))" "0 \<le> kr" "kr \<le> 101"
    by (rule default_rank)
  obtain xs where xs: "score_in records options s = Fin xs" "xs \<le> of_int ((ks + 1) * 1000000000 - 1)"
    using score_between [OF ks(1,2) _ mods(1)] ks(3) sc by fastforce
  obtain xr where xr: "score_in records options r = Fin xr" "of_int (kr * 1000000000) \<le> xr"
    using score_between [OF kr(1,2) _ mods(2)] kr(3) sc by fastforce
  have "xr \<le> xs" using s(3) xs(1) xr(1) by simp
  then have "(of_int (kr * 1000000000) :: rat) \<le> of_int ((ks + 1) * 1000000000 - 1)" using xs(2) xr(2) by linarith
  then have "kr * 1000000000 \<le> (ks + 1) * 1000000000 - 1" by (simp only: of_int_le_iff)
  then have "kr * 1000000000 < (ks + 1) * 1000000000" by simp
  then have "kr < ks + 1" by (rule mult_right_less_imp_less) simp
  then have "kr \<le> ks" by simp
  then show ?thesis using s(1,2) ks(1) kr(1) by (intro bexI [of _ s]) simp_all
qed

section \<open>Laws of the import\<close>

lemma row_outcome:
  assumes "normalizeExternalQuoteRecord row provider options = Inr x"
  shows "(x = None \<longrightarrow> externalQuoteRejection row provider options \<in> {''invalid_row'', ''missing_symbol'', ''invalid_timestamp'', ''missing_price''}) \<and>
    (\<forall>y. x = Some y \<longrightarrow> truthy y \<and> truthy (js_get y ''symbol'') \<and> date_parse (js_to_string (js_get y ''timestamp'')) \<noteq> None)"
proof -
  have n: "\<not> is_nullish row" using assms by (auto simp: normalizeExternalQuoteRecord_def)
  have stamp: "\<exists>s. to_iso t = Some s" if "row_stamp row = Some t" for t
    using that date_parse_range [of _ t] by (auto simp: row_stamp_def to_iso_def Let_def)
  have x: "x = (if normalizeSymbol (raw_symbol row) (Some (row_family row options)) = [] then None
       else case (Option.bind (row_stamp row) to_iso, row_price row) of
         (Some stamp, Some close) \<Rightarrow> Some (imported row provider options stamp close) | _ \<Rightarrow> None)"
    using assms n by (simp add: normalizeExternalQuoteRecord_def)
  have rejected: "externalQuoteRejection row provider options \<in> {''invalid_row'', ''missing_symbol'', ''invalid_timestamp'', ''missing_price''}" if "x = None"
    using that stamp unfolding x by (auto simp: externalQuoteRejection_def split: if_split_asm option.split_asm)
  have accepted: "truthy y \<and> truthy (js_get y ''symbol'') \<and> date_parse (js_to_string (js_get y ''timestamp'')) \<noteq> None" if y: "x = Some y" for y
  proof -
    obtain t s close where t: "row_stamp row = Some t" "to_iso t = Some s" "y = imported row provider options s close"
      "normalizeSymbol (raw_symbol row) (Some (row_family row options)) \<noteq> []"
      using y unfolding x by (auto split: if_split_asm option.split_asm simp: bind_eq_Some_conv)
    have "truthy y" "js_get y ''symbol'' = JStr (normalizeSymbol (raw_symbol row) (Some (row_family row options)))" "js_get y ''timestamp'' = JStr s"
      by (simp_all add: t(3) imported_def Let_def truthy_def)
    then show ?thesis using t(4) date_parse_to_iso [OF t(2)] by (simp add: truthy_def)
  qed
  show ?thesis using rejected accepted by blast
qed

lemma import_rows_spec:
  "import_rows index rows provider options = Inr (records, rejected) \<Longrightarrow>
     length records + length rejected = length rows \<and> (\<forall>row \<in> set rows. \<not> is_nullish row) \<and>
     (\<forall>x \<in> set rejected. rej_reason x \<in> {''invalid_row'', ''missing_symbol'', ''invalid_timestamp'', ''missing_price''} \<and>
        index \<le> row_index x \<and> row_index x < index + length rows) \<and>
     (\<forall>y \<in> set records. truthy y \<and> truthy (js_get y ''symbol'') \<and> date_parse (js_to_string (js_get y ''timestamp'')) \<noteq> None)"
proof (induction index rows provider options arbitrary: records rejected rule: import_rows.induct)
  case (2 index row rows provider options)
  obtain x where x: "normalizeExternalQuoteRecord row provider options = Inr x"
    using "2.prems" by (cases "normalizeExternalQuoteRecord row provider options") auto
  obtain recs rej where r: "import_rows (index + 1) rows provider options = Inr (recs, rej)"
    using "2.prems" x by (cases "import_rows (index + 1) rows provider options") auto
  note IH = "2.IH" [OF x r]
  have n: "\<not> is_nullish row" using x by (auto simp: normalizeExternalQuoteRecord_def)
  show ?case
  proof (cases x)
    case None
    then have "records = recs" "rejected = rejection_of index row provider options # rej" using "2.prems" x r by simp_all
    then show ?thesis using IH n row_outcome [OF x] None by (auto simp: rejection_of_def)
  next
    case (Some y)
    then have "records = y # recs" "rejected = rej" using "2.prems" x r by simp_all
    then show ?thesis using IH n row_outcome [OF x] Some by auto
  qed
qed simp

lemma import_rows_fails: "import_rows index rows provider options = Inl e \<Longrightarrow> \<exists>row \<in> set rows. is_nullish row"
proof (induction index rows provider options rule: import_rows.induct)
  case (2 index row rows provider options)
  show ?case
  proof (cases "normalizeExternalQuoteRecord row provider options")
    case (Inl e')
    then show ?thesis by (auto simp: normalizeExternalQuoteRecord_def split: if_split_asm)
  next
    case (Inr x)
    have "import_rows (index + 1) rows provider options = Inl e"
      using "2.prems" Inr by (cases "import_rows (index + 1) rows provider options") (auto split: option.split_asm)
    then show ?thesis using "2.IH" [OF Inr] by simp
  qed
qed simp

text \<open>
  The import of a payload throws exactly when one of its rows is \<^verbatim>\<open>null\<close> or \<^verbatim>\<open>undefined\<close>; otherwise every row is
  accepted or rejected, a rejection has one of four reasons and the index of a row, and an accepted
  record has a symbol and a timestamp that reads as a date.
\<close>
theorem import_accounts:
  "case normalizeExternalQuotePayloadWithReport payload provider options of
     Inl e \<Rightarrow> \<exists>row \<in> set (quoteRowsFromPayload payload). is_nullish row
   | Inr rep \<Rightarrow> (\<forall>row \<in> set (quoteRowsFromPayload payload). \<not> is_nullish row) \<and>
       usable_records rep + rejected_records rep = input_rows rep \<and> input_rows rep = length (quoteRowsFromPayload payload) \<and>
       (\<forall>x \<in> set (imp_rejected rep). rej_reason x \<in> {''invalid_row'', ''missing_symbol'', ''invalid_timestamp'', ''missing_price''} \<and> row_index x < input_rows rep) \<and>
       (\<forall>y \<in> set (imp_records rep). truthy y \<and> truthy (js_get y ''symbol'') \<and> date_parse (js_to_string (js_get y ''timestamp'')) \<noteq> None)"
proof (cases "import_rows 0 (quoteRowsFromPayload payload) provider options")
  case (Inl e)
  then show ?thesis using import_rows_fails [OF Inl] by (simp add: normalizeExternalQuotePayloadWithReport_def)
next
  case (Inr p)
  obtain records rejected where p: "p = (records, rejected)" by (cases p)
  show ?thesis using import_rows_spec [OF Inr [unfolded p]] by (simp add: normalizeExternalQuotePayloadWithReport_def Inr p)
qed

section \<open>Concrete records\<close>

definition sample_quote :: "string \<Rightarrow> rat \<Rightarrow> jsval" where
  "sample_quote provider quality = JObj [(''symbol'', JStr ''AAPL''), (''timestamp'', JStr ''2024-01-01T00:00:00Z''), (''provider'', JStr provider),
     (''quality_score'', JNum (Fin quality))]"

lemma preferred_records_witness:
  "set (selectPreferredQuoteRecords [sample_quote ''yahoo'' 1, sample_quote ''alpaca'' 1] JUndef) \<subseteq> {sample_quote ''yahoo'' 1, sample_quote ''alpaca'' 1}"
  using preferred_records [of "[sample_quote ''yahoo'' 1, sample_quote ''alpaca'' 1]" JUndef] by (simp add: sample_quote_def truthy_def)

lemma rank_decides_witness:
  "\<exists>s \<in> set (selectPreferredQuoteRecords [sample_quote ''yahoo'' 1, sample_quote ''alpaca'' 1] JUndef). quoteIdentity s = quoteIdentity (sample_quote ''alpaca'' 1)"
proof -
  have "list_all (\<lambda>r. truthy r \<and> number_or_zero (finiteNumber (js_get r ''quality_score'')) = Fin 1 \<and>
      number_or_zero (first_number [js_get r ''volume'', js_get r ''last_size'']) = Fin 0) [sample_quote ''yahoo'' 1, sample_quote ''alpaca'' 1]"
    by code_simp
  then have "\<forall>r \<in> set [sample_quote ''yahoo'' 1, sample_quote ''alpaca'' 1]. truthy r \<and> modest r" by (simp add: modest_def)
  from rank_decides [OF this, of JUndef "sample_quote ''alpaca'' 1"] show ?thesis by auto
qed

text \<open>A large enough quality score outweighs the rank of the provider, and a price of 0 is imported.\<close>

lemma quality_beats_rank:
  "js_lt (getEnrichedScore DEFAULT_PROVIDER_PRIORITY [] (JObj [(''provider'', JStr ''mt5'')]))
     (getEnrichedScore DEFAULT_PROVIDER_PRIORITY [] (JObj [(''provider'', JStr ''webull''), (''quality_score'', JNum (Fin 1000000000))]))"
proof -
  have "providerRank (JStr ''mt5'') DEFAULT_PROVIDER_PRIORITY = JNum (Fin 100)" "providerRank (JStr ''webull'') DEFAULT_PROVIDER_PRIORITY = JNum (Fin 92)"
    by code_simp+
  moreover have "js_lt (js_add (js_add (js_add (js_mul (Fin 100) (Fin 1000000000)) (js_mul (Fin 0) (Fin 1000))) (js_mul (Fin 0) (Fin 10))) (Fin 0))
     (js_add (js_add (js_add (js_mul (Fin 92) (Fin 1000000000)) (js_mul (Fin 0) (Fin 1000))) (js_mul (Fin 1000000000) (Fin 10))) (Fin 0))"
    by code_simp
  ultimately show ?thesis
    by (simp add: getEnrichedScore_def Let_def count_of_def finiteNumber_def number_or_zero_def first_number_def js_min_def)
qed

lemma zero_price_imported:
  "(case normalizeExternalQuoteRecord (JObj [(''symbol'', JStr ''AAPL''), (''timestamp'', JStr ''2024-01-01T00:00:00Z''), (''bid'', JNum (Fin 0)), (''ask'', JNum (Fin 0))])
      (JStr ''webull'') JUndef of Inr (Some y) \<Rightarrow> js_get y ''close'' = JNum (Fin 0) | _ \<Rightarrow> False)"
  by code_simp

end
