(* ===== verification/Execution_Memory.thy ===== *)
theory Execution_Memory
  imports Js_Value Js_Math "HOL-Library.AList"
begin

text \<open>
  \<^verbatim>\<open>shared/lib/runtime/execution_memory.js\<close>: the signals that were executed, kept in the process and in a file
  for 180 days.  The clock, and whether a write of the file succeeds, are arguments; a signal is a
  text.
\<close>

section \<open>The memory and its file\<close>

definition TTL_MS :: jsnum where
  "TTL_MS = Fin (180 * 24 * 60 * 60 * 1000)"

record memory_state =
  memory :: "(string \<times> jsval) list"
  initialized :: bool

datatype memory_file = Absent | Broken | Holds jsval

definition fresh_memory :: memory_state where
  "fresh_memory = \<lparr>memory = [], initialized = False\<rparr>"

definition item_at :: "jsval list \<Rightarrow> nat \<Rightarrow> jsval" where
  "item_at xs i = (if i < length xs then xs ! i else JUndef)"

definition young :: "jsnum \<Rightarrow> jsval \<Rightarrow> bool" where
  "young now ts = js_lt (js_sub now (js_to_number ts)) TTL_MS"

definition load_entry :: "jsnum \<Rightarrow> (string \<times> jsval) list \<Rightarrow> jsval \<Rightarrow> (string \<times> jsval) list" where
  "load_entry now m entry = (case entry of
     JArr xs \<Rightarrow> (case item_at xs 0 of JStr sg \<Rightarrow> if young now (item_at xs 1) then AList.update sg (item_at xs 1) m else m | _ \<Rightarrow> m)
   | JStr sg \<Rightarrow> AList.update sg (JNum now) m | _ \<Rightarrow> m)"

definition init :: "jsnum \<Rightarrow> memory_file \<Rightarrow> memory_state \<Rightarrow> memory_state" where
  "init now f s = (if initialized s then s
     else s\<lparr>memory := (case f of Holds raw \<Rightarrow> foldl (load_entry now) (memory s) (array_items raw) | _ \<Rightarrow> memory s), initialized := True\<rparr>)"

definition mem_has :: "jsnum \<Rightarrow> string \<Rightarrow> memory_file \<Rightarrow> memory_state \<Rightarrow> bool \<times> memory_state" where
  "mem_has now sg f s = (let s' = init now f s in (map_of (memory s') sg \<noteq> None, s'))"

definition mem_save :: "jsnum \<Rightarrow> bool \<Rightarrow> memory_file \<Rightarrow> memory_state \<Rightarrow> memory_file" where
  "mem_save now writes f s =
    (if writes then Holds (JArr (map (\<lambda>(sg, ts). JArr [JStr sg, ts]) (filter (\<lambda>(_, ts). young now ts) (memory s)))) else f)"

definition mem_add :: "jsnum \<Rightarrow> string \<Rightarrow> bool \<Rightarrow> memory_file \<Rightarrow> memory_state \<Rightarrow> memory_file \<times> memory_state" where
  "mem_add now sg writes f s = (let s1 = init now f s; s2 = s1\<lparr>memory := AList.update sg (JNum now) (memory s1)\<rparr> in
     (mem_save now writes f s2, s2))"

definition mem_clear :: "jsnum \<Rightarrow> bool \<Rightarrow> memory_file \<Rightarrow> memory_state \<Rightarrow> memory_file \<times> memory_state" where
  "mem_clear now writes f s = (let s' = s\<lparr>memory := []\<rparr> in (mem_save now writes f s', s'))"

definition mem_size :: "jsnum \<Rightarrow> memory_file \<Rightarrow> memory_state \<Rightarrow> nat \<times> memory_state" where
  "mem_size now f s = (let s' = init now f s in (length (memory s'), s'))"

section \<open>A signal survives restarts\<close>

text \<open>The life of one process after another on the same file, whose writes succeed.\<close>

datatype mem_event = Asked int string | Added int string | Restarted

definition stamp :: "int \<Rightarrow> jsnum" where "stamp t = Fin (of_int t)"

fun mem_step :: "mem_event \<Rightarrow> memory_file \<times> memory_state \<Rightarrow> memory_file \<times> memory_state" where
  "mem_step (Asked now sg) (f, s) = (f, snd (mem_has (stamp now) sg f s))"
| "mem_step (Added now sg) (f, s) = mem_add (stamp now) sg True f s"
| "mem_step Restarted (f, s) = (f, fresh_memory)"

fun event_time :: "mem_event \<Rightarrow> int option" where
  "event_time (Asked now sg) = Some now"
| "event_time (Added now sg) = Some now"
| "event_time Restarted = None"

definition ttl :: int where "ttl = 15552000000"

lemma young_stamp:
  assumes "0 \<le> t" "t \<le> now" "now < 2 ^ 53" shows "young (stamp now) (JNum (stamp t)) = (now - t < ttl)"
proof -
  have "js_sub (stamp now) (stamp t) = Fin (of_int (now - t))" unfolding stamp_def using assms by (intro js_sub_int) linarith
  moreover have "(of_int (now - t) < (of_int ttl :: rat)) = (now - t < ttl)" by (simp only: of_int_less_iff)
  ultimately show ?thesis by (simp add: young_def TTL_MS_def ttl_def)
qed

definition entry :: "string \<times> int \<Rightarrow> string \<times> jsval" where
  "entry p = (fst p, JNum (stamp (snd p)))"

definition stored :: "(string \<times> int) list \<Rightarrow> jsval" where
  "stored xs = JArr (map (\<lambda>(sg, ts). JArr [JStr sg, ts]) (map entry xs))"

definition timely :: "int \<Rightarrow> (string \<times> int) list \<Rightarrow> bool" where
  "timely now xs = (distinct (map fst xs) \<and> (\<forall>(sg, t) \<in> set xs. 0 \<le> t \<and> t \<le> now))"

lemma update_entry: "AList.update sg (JNum (stamp t)) (map entry xs) = map entry (AList.update sg t xs)"
  by (induction xs) (auto simp: entry_def)

lemma load_stored:
  assumes "timely now (ys @ xs)" "now < 2 ^ 53"
  shows "foldl (load_entry (stamp now)) (map entry ys) (array_items (stored xs)) = map entry (ys @ filter (\<lambda>(sg, t). now - t < ttl) xs)"
  using assms(1)
proof (induction xs arbitrary: ys)
  case (Cons x xs)
  obtain sg t where x: "x = (sg, t)" by (cases x)
  have t: "0 \<le> t" "t \<le> now" "sg \<notin> fst ` set ys" using Cons.prems by (auto simp: timely_def x)
  have new: "AList.update sg t ys = ys @ [(sg, t)]" using t(3) by (induction ys) auto
  have step: "load_entry (stamp now) (map entry ys) (JArr [JStr sg, JNum (stamp t)]) =
    map entry (if now - t < ttl then ys @ [(sg, t)] else ys)"
    using young_stamp [OF t(1,2) assms(2)] update_entry [of sg t ys] new by (simp add: load_entry_def item_at_def)
  have items: "array_items (stored ((sg, t) # xs)) = JArr [JStr sg, JNum (stamp t)] # array_items (stored xs)"
    by (simp add: stored_def array_items_def entry_def)
  show ?case
  proof (cases "now - t < ttl")
    case True
    then show ?thesis using Cons.IH [of "ys @ [(sg, t)]"] Cons.prems step by (simp add: x items)
  next
    case False
    have "timely now (ys @ xs)" using Cons.prems by (auto simp: timely_def)
    then show ?thesis using Cons.IH [of ys] step False by (simp add: x items)
  qed
qed (simp add: stored_def array_items_def)

text \<open>
  What the file and an initialised memory keep of the last times \<open>A\<close> at which signals were added: all
  that are not older than the limit.
\<close>

definition keeps :: "(string \<Rightarrow> int option) \<Rightarrow> int \<Rightarrow> (string \<times> int) list \<Rightarrow> bool" where
  "keeps A now xs = (timely now xs \<and> (\<forall>sg t. A sg = Some t \<and> now - t < ttl \<longrightarrow> map_of xs sg = Some t))"

definition mem_ok :: "(string \<Rightarrow> int option) \<Rightarrow> int \<Rightarrow> memory_file \<times> memory_state \<Rightarrow> bool" where
  "mem_ok A now w = (\<exists>xs. keeps A now xs \<and> (fst w = Holds (stored xs) \<or> fst w = Absent \<and> xs = []) \<and>
     (if initialized (snd w) then \<exists>ys. keeps A now ys \<and> memory (snd w) = map entry ys else memory (snd w) = []))"

lemma keeps_later: "keeps A now xs \<Longrightarrow> now \<le> now' \<Longrightarrow> keeps A now' xs"
  by (force simp: keeps_def timely_def)

lemma keeps_filter:
  assumes "keeps A now xs" shows "keeps A now (filter (\<lambda>(sg, t). now - t < ttl) xs)"
proof -
  have "distinct (map fst (filter P xs))" for P using assms distinct_map_filter by (auto simp: keeps_def timely_def)
  moreover have "map_of (filter (\<lambda>(sg, t). now - t < ttl) xs) sg = Some t" if "A sg = Some t" "now - t < ttl" for sg t
  proof -
    have "(sg, t) \<in> set xs" using assms that by (auto simp: keeps_def dest: map_of_SomeD)
    then show ?thesis using that(2) calculation [of "\<lambda>(sg, t). now - t < ttl"] by (intro map_of_is_SomeI) auto
  qed
  ultimately show ?thesis using assms by (auto simp: keeps_def timely_def)
qed

lemma keeps_add:
  assumes "keeps A now xs" "0 \<le> now" shows "keeps (A(sg \<mapsto> now)) now (AList.update sg now xs)"
proof -
  have "set (AList.update sg now xs) \<subseteq> insert (sg, now) (set xs)" by (induction xs) auto
  then show ?thesis using assms distinct_update [of xs sg now] by (fastforce simp: keeps_def timely_def map_of_update)
qed

lemma ok_init:
  assumes "mem_ok A now (f, s)" "now < 2 ^ 53"
  obtains ys where "keeps A now ys" "init (stamp now) f s = \<lparr>memory = map entry ys, initialized = True\<rparr>"
proof (cases "initialized s")
  case True
  then obtain ys where "keeps A now ys" "memory s = map entry ys" using assms(1) by (auto simp: mem_ok_def)
  then show thesis using that True by (simp add: init_def)
next
  case False
  then obtain xs where x: "keeps A now xs" "f = Holds (stored xs) \<or> f = Absent \<and> xs = []" "memory s = []"
    using assms(1) by (auto simp: mem_ok_def)
  have "timely now xs" using x(1) by (simp add: keeps_def)
  then have l: "foldl (load_entry (stamp now)) [] (array_items (stored xs)) = map entry (filter (\<lambda>(sg, t). now - t < ttl) xs)"
    using load_stored [of now "[]" xs] assms(2) by simp
  have "init (stamp now) f s = \<lparr>memory = map entry (filter (\<lambda>(sg, t). now - t < ttl) xs), initialized = True\<rparr>"
    using False x(2,3) l by (auto simp: init_def)
  then show thesis using that keeps_filter [OF x(1)] by blast
qed

lemma save_stored:
  assumes "timely now ys" "now < 2 ^ 53"
  shows "mem_save (stamp now) True f \<lparr>memory = map entry ys, initialized = b\<rparr> = Holds (stored (filter (\<lambda>(sg, t). now - t < ttl) ys))"
proof -
  have "filter (\<lambda>(_, ts). young (stamp now) ts) (map entry ys) = map entry (filter (\<lambda>(sg, t). now - t < ttl) ys)"
    using assms(1) young_stamp [OF _ _ assms(2)]
    by (induction ys) (auto simp: timely_def entry_def)
  then show ?thesis by (simp add: mem_save_def stored_def)
qed

fun added_at :: "mem_event \<Rightarrow> (string \<Rightarrow> int option) \<Rightarrow> string \<Rightarrow> int option" where
  "added_at (Added now sg) A = A(sg \<mapsto> now)"
| "added_at e A = A"

lemma mem_step_ok:
  assumes "mem_ok A now w" "\<And>t. event_time e = Some t \<Longrightarrow> now \<le> t \<and> t \<le> now'" "now \<le> now'" "0 \<le> now" "now' < 2 ^ 53"
  shows "mem_ok (added_at e A) now' (mem_step e w)"
proof -
  obtain f s where w: "w = (f, s)" by (cases w)
  have later: "mem_ok A t v" if "mem_ok A now v" "now \<le> t" for t v
    using that keeps_later [OF _ that(2)] unfolding mem_ok_def by (auto split: if_split_asm)
  show ?thesis
  proof (cases e)
    case (Asked t sg)
    then have t: "now \<le> t" "t \<le> now'" using assms(2) by simp_all
    obtain ys where y: "keeps A t ys" "init (stamp t) f s = \<lparr>memory = map entry ys, initialized = True\<rparr>"
      using ok_init [OF later [OF assms(1)[unfolded w] t(1)]] t(2) assms(5) by auto
    obtain xs where x: "keeps A now xs" "f = Holds (stored xs) \<or> f = Absent \<and> xs = []" using assms(1) by (auto simp: mem_ok_def w)
    show ?thesis using x(2) y(2) keeps_later [OF y(1) t(2)] keeps_later [OF x(1) assms(3)]
      by (auto simp: mem_ok_def w Asked mem_has_def Let_def)
  next
    case (Added t sg)
    then have t: "now \<le> t" "t \<le> now'" using assms(2) by simp_all
    obtain ys where y: "keeps A t ys" "init (stamp t) f s = \<lparr>memory = map entry ys, initialized = True\<rparr>"
      using ok_init [OF later [OF assms(1)[unfolded w] t(1)]] t(2) assms(5) by auto
    define zs where "zs = AList.update sg t ys"
    have z: "keeps (A(sg \<mapsto> t)) t zs" using keeps_add [OF y(1)] assms(4) t(1) by (simp add: zs_def)
    then have sv: "mem_save (stamp t) True f \<lparr>memory = map entry zs, initialized = True\<rparr> = Holds (stored (filter (\<lambda>(sg, u). t - u < ttl) zs))"
      using t assms(5) by (intro save_stored) (simp_all add: keeps_def)
    have "mem_step e w = (Holds (stored (filter (\<lambda>(sg, u). t - u < ttl) zs)), \<lparr>memory = map entry zs, initialized = True\<rparr>)"
      using sv by (simp add: w Added mem_add_def Let_def y(2) update_entry zs_def)
    then show ?thesis using keeps_later [OF keeps_filter [OF z] t(2)] keeps_later [OF z t(2)] by (auto simp: mem_ok_def Added)
  next
    case Restarted
    obtain xs where "keeps A now xs" "f = Holds (stored xs) \<or> f = Absent \<and> xs = []" using assms(1) by (auto simp: mem_ok_def w)
    then show ?thesis using keeps_later [OF _ assms(3)] by (auto simp: mem_ok_def w Restarted fresh_memory_def)
  qed
qed

text \<open>Events whose times do not go back.\<close>

fun in_order :: "int \<Rightarrow> mem_event list \<Rightarrow> int \<Rightarrow> bool" where
  "in_order now [] end_time = (now \<le> end_time)"
| "in_order now (e # es) end_time = (case event_time e of Some t \<Rightarrow> now \<le> t \<and> in_order t es end_time | None \<Rightarrow> in_order now es end_time)"

fun additions :: "mem_event list \<Rightarrow> (string \<Rightarrow> int option) \<Rightarrow> string \<Rightarrow> int option" where
  "additions [] A = A"
| "additions (e # es) A = additions es (added_at e A)"

lemma in_order_le: "in_order now es end_time \<Longrightarrow> now \<le> end_time"
  by (induction es arbitrary: now) (auto split: option.split_asm dest: order_trans)

lemma mem_run_ok:
  "mem_ok A now w \<Longrightarrow> in_order now es end_time \<Longrightarrow> 0 \<le> now \<Longrightarrow> end_time < 2 ^ 53 \<Longrightarrow> mem_ok (additions es A) end_time (fold mem_step es w)"
proof (induction es arbitrary: A now w)
  case Nil
  have "keeps A now xs \<Longrightarrow> keeps A end_time xs" for xs using Nil keeps_later by simp
  then show ?case using Nil(1) unfolding mem_ok_def by (auto split: if_split_asm)
next
  case (Cons e es)
  define t where "t = (case event_time e of Some t \<Rightarrow> t | None \<Rightarrow> now)"
  have t: "now \<le> t" "in_order t es end_time" using Cons.prems(2) by (auto simp: t_def split: option.split_asm)
  have "t \<le> end_time" using in_order_le [OF t(2)] .
  have "now \<le> u \<and> u \<le> t" if "event_time e = Some u" for u using that t(1) by (simp add: t_def)
  then have "mem_ok (added_at e A) t (mem_step e w)"
    using mem_step_ok [OF Cons.prems(1), of e t] t(1) Cons.prems(3,4) \<open>t \<le> end_time\<close> by simp
  then show ?case using Cons.IH [OF _ t(2)] t(1) Cons.prems(3,4) by simp
qed

text \<open>
  C9. An executed signal is remembered for 180 days across any restarts: after whatever sequence of
  questions, additions and restarts with clocks that do not go back and writes that succeed, a signal
  whose last addition is younger than the limit is known.
\<close>
theorem signals_remembered:
  assumes "in_order 0 es now" "now < 2 ^ 53" "additions es (\<lambda>_. None) sg = Some t" "now - t < ttl"
  shows "fst (mem_has (stamp now) sg (fst (fold mem_step es (Absent, fresh_memory))) (snd (fold mem_step es (Absent, fresh_memory))))"
proof -
  have "mem_ok (\<lambda>_. None) 0 (Absent, fresh_memory)" by (auto simp: mem_ok_def keeps_def timely_def fresh_memory_def)
  then have ok: "mem_ok (additions es (\<lambda>_. None)) now (fst (fold mem_step es (Absent, fresh_memory)), snd (fold mem_step es (Absent, fresh_memory)))"
    using mem_run_ok [OF _ assms(1) _ assms(2)] by simp
  obtain ys where "keeps (additions es (\<lambda>_. None)) now ys"
    "init (stamp now) (fst (fold mem_step es (Absent, fresh_memory))) (snd (fold mem_step es (Absent, fresh_memory))) =
       \<lparr>memory = map entry ys, initialized = True\<rparr>"
    using ok_init [OF ok assms(2)] by blast
  moreover from this have "map_of ys sg = Some t" using assms(3,4) by (simp add: keeps_def)
  moreover have "map_of (map entry ys) sg = map_option (\<lambda>t. JNum (stamp t)) (map_of ys sg)"
    by (induction ys) (auto simp: entry_def)
  ultimately show ?thesis by (simp add: mem_has_def Let_def)
qed

lemma signals_remembered_witness:
  "fst (mem_has (stamp 2000) ''buy'' (fst (fold mem_step [Added 1000 ''buy'', Restarted, Asked 1500 ''sell''] (Absent, fresh_memory)))
     (snd (fold mem_step [Added 1000 ''buy'', Restarted, Asked 1500 ''sell''] (Absent, fresh_memory))))"
  by (rule signals_remembered [where t = 1000]) (simp_all add: ttl_def)

text \<open>
  Two processes on one file: the second has loaded the file before the first adds a signal, and writes
  its own memory over it; after a restart the first signal is unknown.
\<close>

lemma concurrent_add_lost:
  "(let w1 = mem_has (stamp 0) ''a'' Absent fresh_memory; w2 = mem_has (stamp 0) ''a'' Absent fresh_memory;
       (f1, s1) = mem_add (stamp 1) ''a'' True Absent (snd w1); (f2, s2) = mem_add (stamp 2) ''b'' True f1 (snd w2) in
     \<not> fst (mem_has (stamp 3) ''a'' f2 fresh_memory))"
  by code_simp

end
