(* ===== verification/Options_Greeks.thy ===== *)
theory Options_Greeks
  imports Js_Value
begin

text \<open>
  \<^verbatim>\<open>shared/lib/risk/options_greek_risk.js\<close>: the check of net Greeks before a trade of options.  The answer of
  the native engine is an argument, the parsed output of its process, if there is one.
\<close>

record greek_limits =
  maxGamma :: jsnum
  maxVega :: jsnum
  maxDelta :: jsnum
  failClosed :: bool

definition limit_number :: "jsval \<Rightarrow> rat \<Rightarrow> jsnum" where
  "limit_number v d = (if v \<noteq> JUndef \<and> v \<noteq> JNull then js_to_number v else Fin d)"

definition limits_of :: "jsval \<Rightarrow> greek_limits" where
  "limits_of limits = \<lparr>maxGamma = limit_number (js_get limits ''max_gamma'') 50, maxVega = limit_number (js_get limits ''max_vega'') 10000,
     maxDelta = limit_number (js_get limits ''max_delta'') 5, failClosed = (js_get limits ''fail_closed'' \<noteq> JBool False)\<rparr>"

definition greek :: "jsval \<Rightarrow> string \<Rightarrow> jsnum" where
  "greek greeks k = js_to_number (js_nullish (js_get greeks k) (JNum (Fin 0)))"

datatype greek_reason = Non_finite | Gamma_exceeded | Vega_exceeded | Delta_exceeded | Cleared

record greek_decision =
  approved :: bool
  halt_trading :: bool
  limit :: jsnum
  observed_value :: jsnum
  g_reason :: greek_reason

datatype greek_result = Native jsval | Computed greek_decision

text \<open>\<^verbatim>\<open>max > 0 && Math.abs(x) > max\<close>\<close>

definition exceeds :: "jsnum \<Rightarrow> jsnum \<Rightarrow> bool" where
  "exceeds cap x = (js_lt (Fin 0) cap \<and> js_lt cap (js_abs x))"

definition refuse :: "greek_limits \<Rightarrow> jsnum \<Rightarrow> jsnum \<Rightarrow> greek_reason \<Rightarrow> greek_decision" where
  "refuse l cap x why = \<lparr>approved = False, halt_trading = failClosed l, limit = cap, observed_value = js_abs x, g_reason = why\<rparr>"

definition fallback_decision :: "jsval \<Rightarrow> jsval \<Rightarrow> greek_decision" where
  "fallback_decision greeks limits =
    (let delta = greek greeks ''delta''; gamma = greek greeks ''gamma''; vega = greek greeks ''vega''; theta = greek greeks ''theta''; l = limits_of limits in
     if \<not> js_is_finite delta \<or> \<not> js_is_finite gamma \<or> \<not> js_is_finite vega \<or> \<not> js_is_finite theta
     then \<lparr>approved = \<not> failClosed l, halt_trading = failClosed l, limit = maxGamma l, observed_value = Fin 0, g_reason = Non_finite\<rparr>
     else if exceeds (maxGamma l) gamma then refuse l (maxGamma l) gamma Gamma_exceeded
     else if exceeds (maxVega l) vega then refuse l (maxVega l) vega Vega_exceeded
     else if exceeds (maxDelta l) delta then refuse l (maxDelta l) delta Delta_exceeded
     else \<lparr>approved = True, halt_trading = False, limit = maxGamma l, observed_value = js_abs gamma, g_reason = Cleared\<rparr>)"

definition validateOptionsGreeks :: "jsval \<Rightarrow> jsval \<Rightarrow> jsval option \<Rightarrow> greek_result" where
  "validateOptionsGreeks greeks limits native =
    (case native of
       Some parsed \<Rightarrow> if truthy parsed \<and> (case js_get parsed ''approved'' of JBool _ \<Rightarrow> True | _ \<Rightarrow> False) then Native parsed
         else Computed (fallback_decision greeks limits)
     | None \<Rightarrow> Computed (fallback_decision greeks limits))"

definition in_limit :: "jsnum \<Rightarrow> jsnum \<Rightarrow> bool" where
  "in_limit cap x = (js_is_finite x \<and> (js_lt (Fin 0) cap \<longrightarrow> js_le (js_abs x) cap))"

text \<open>
  C33. Unless \<^verbatim>\<open>fail_closed\<close> is \<^verbatim>\<open>false\<close>, the check in JavaScript approves exactly the Greeks that are all finite
  numbers and lie within the limits that are positive, and an unapproved trade halts the trading.
\<close>
theorem greeks_approved_iff:
  assumes "js_get limits ''fail_closed'' \<noteq> JBool False" "validateOptionsGreeks greeks limits None = Computed d"
  shows "(approved d \<longleftrightarrow> in_limit (maxGamma (limits_of limits)) (greek greeks ''gamma'') \<and> in_limit (maxVega (limits_of limits)) (greek greeks ''vega'') \<and>
      in_limit (maxDelta (limits_of limits)) (greek greeks ''delta'') \<and> js_is_finite (greek greeks ''theta'')) \<and>
    halt_trading d = (\<not> approved d)"
proof -
  have ex: "in_limit cap x \<longleftrightarrow> js_is_finite x \<and> \<not> exceeds cap x" for cap x
    by (cases x; cases cap) (auto simp: in_limit_def exceeds_def js_le_def js_abs_def)
  have "failClosed (limits_of limits)" using assms(1) by (simp add: limits_of_def)
  then show ?thesis using assms(2)
    by (auto simp: validateOptionsGreeks_def fallback_decision_def refuse_def Let_def ex split: if_split_asm)
qed

lemma greeks_approved_iff_witness:
  "approved (fallback_decision (JObj [(''gamma'', JNum (Fin 3))]) JUndef) \<longleftrightarrow> in_limit (Fin 50) (Fin 3)"
proof -
  let ?g = "JObj [(''gamma'', JNum (Fin 3))]"
  have "validateOptionsGreeks ?g JUndef None = Computed (fallback_decision ?g JUndef)" by (simp add: validateOptionsGreeks_def)
  from greeks_approved_iff [OF _ this] show ?thesis
    by (simp add: limits_of_def limit_number_def greek_def js_nullish_def in_limit_def js_abs_def)
qed

text \<open>A limit that is no number is not enforced, although the check is to fail closed.\<close>

lemma nan_limit_ignored:
  "approved (fallback_decision (JObj [(''gamma'', JNum (Fin 1000))]) (JObj [(''max_gamma'', JStr ''50%'')]))"
  by code_simp

end
