(* ===== verification/Spec2Isabelle.thy ===== *)
theory Spec2Isabelle
  imports Service_Principals Mcp_Gate Auth_Sessions Settings_Policy Event_Ledger Magic_Codec File_Lock
    Sub_Positions Cluster_Coordinator Fetch_Retry Streaming_Router Prop_Firm_Guard Position_Sizing Quarantine Segment_Store Alpaca_Cycle Backtest Provider_Mesh
    Quote_Router Execution_Memory Options_Greeks
begin

text \<open>
  A verification library for the JavaScript control plane of the trading research platform.

  \<^bold>\<open>The program.\<close>  Market data providers deliver records; the ingestion validates them, puts the
  bad ones into a quarantine log and rolls the good ones up into bars of coarser timeframes, in a
  batch or through a streaming router that also keeps incremental indicators.  Bots and operators
  turn signals into orders.  Before an order is sent, the runtime policy decides whether the
  process may trade, the position is sized within the limits of its instrument, the risk guard
  checks the drawdown of the account, and a node of the cluster takes the lock of the order.  The
  fills are attributed to strategies in a ledger of sub-positions, and events are appended to a
  hash-chained log.  The HTTP API in front of all this authenticates sessions and service
  principals and authorizes each request by capabilities; agents pass a narrower gate.

  \<^bold>\<open>The theories\<close>, each with the source it models (under \<^verbatim>\<open>src/\<close>):

  \<^item> \<^verbatim>\<open>Js_Prelude\<close>, \<^verbatim>\<open>Js_Number\<close>, \<^verbatim>\<open>Js_Math\<close>, \<^verbatim>\<open>Js_Value\<close>, \<^verbatim>\<open>Js_Json\<close>, \<^verbatim>\<open>Js_Date\<close>, \<^verbatim>\<open>Js_Buffer\<close>: what the
    sources use of the language.  Numbers are IEEE doubles: every operation rounds its rational result, and the
    locale \<open>js_rounding\<close> states the laws of rounding that the components use (its instance is
    \<open>binary64\<close>).  Values are what \<^verbatim>\<open>JSON.parse\<close> returns, with the conversions of JavaScript.
  \<^item> \<^verbatim>\<open>Access_Policy\<close> (\<^verbatim>\<open>shared/lib/auth/access_policy.js\<close>): roles, capabilities, the capabilities a
    request needs and the decision.  The lemmas characterise \<open>authorize\<close>, show that an unknown
    request needs the most, and that the cycle of a live bot is reserved to the owner.
  \<^item> \<^verbatim>\<open>Service_Principals\<close> (\<^verbatim>\<open>shared/lib/auth/service_principals.js\<close>): tokens of machine clients; an
    authenticated token was issued, has not expired and has not been revoked, revocation is final.
  \<^item> \<^verbatim>\<open>Auth_Sessions\<close> (\<^verbatim>\<open>backend/api/server/services/auth_session_registry.js\<close>): sessions and the
    addresses they are bound to; a foreign address is blocked until it is approved.
  \<^item> \<^verbatim>\<open>Mcp_Gate\<close> (\<^verbatim>\<open>shared/lib/mcp/gate.js\<close>): the routes an agent may read and the redaction of
    secrets.
  \<^item> \<^verbatim>\<open>Settings_Policy\<close> (\<^verbatim>\<open>shared/lib/settings/runtime_policy.js\<close>, \<^verbatim>\<open>interval_policy.js\<close>,
    \<^verbatim>\<open>deployment_profile.js\<close>): when the process may execute orders, the bot interval, the
    fingerprint of a policy.
  \<^item> \<^verbatim>\<open>Event_Ledger\<close> (\<^verbatim>\<open>shared/lib/storage/event_ledger.js\<close>): the hash chain; every reachable ledger
    verifies, and a change of it is detected when the hash is injective on what it hashes.
  \<^item> \<^verbatim>\<open>Magic_Codec\<close> (\<^verbatim>\<open>shared/lib/runtime/mt5_magic_codec.js\<close>): the 64-bit order tag, with 16-bit
    words, and its round trip.
  \<^item> \<^verbatim>\<open>File_Lock\<close> (\<^verbatim>\<open>shared/lib/runtime/file_lock.js\<close>, \<^verbatim>\<open>process_lock.js\<close>): the lock files at the
    granularity of system calls, as an interleaving of processes; mutual exclusion while no lock
    grows stale, and the race in the removal of a stale one.
  \<^item> \<^verbatim>\<open>Sub_Positions\<close> (\<^verbatim>\<open>shared/lib/runtime/sub_positions_ledger.js\<close>): entries, first-in first-out
    exits and the reconciliation with the broker; exits conserve quantity.
  \<^item> \<^verbatim>\<open>Cluster_Coordinator\<close> (\<^verbatim>\<open>shared/lib/runtime/cluster_coordinator.js\<close>): leader lease and order
    locks, each operation split into the read and the write between which other nodes run.
  \<^item> \<^verbatim>\<open>Timeframes\<close> (\<^verbatim>\<open>backend/scripts/data_ops/ingest_market_data/constants.js\<close>): the start of the bar
    a time falls into, which refines the calendar although it is computed in floating point.
  \<^item> \<^verbatim>\<open>Rollup\<close> (\<^verbatim>\<open>shared/lib/market/multi_grain_rollup.js\<close>): sanitising and aggregation; the stream
    and the batch produce the same bars, and every bar is a well-formed candle.
  \<^item> \<^verbatim>\<open>Fetch_Retry\<close> (\<^verbatim>\<open>shared/lib/runtime/fetch_retry.js\<close>): both retry loops, as interpretations of one
    locale \<open>retry_loop\<close>; when they end, and which answer they return.
  \<^item> \<^verbatim>\<open>Streaming_Router\<close> (\<^verbatim>\<open>shared/lib/market/streaming_quote_router.js\<close>): ring buffer, incremental
    indicators and dispatch under backpressure; the ring refines the locale \<open>bounded_queue\<close>.
  \<^item> \<^verbatim>\<open>Prop_Firm_Guard\<close> (\<^verbatim>\<open>shared/lib/risk/prop_firm_guard.js\<close>): drawdown limits, lockouts and stop
    adjustments; breaches are monotone in equity, stops only tighten.
  \<^item> \<^verbatim>\<open>Position_Sizing\<close> (\<^verbatim>\<open>shared/lib/trading/position_sizing.js\<close>): an intent becomes a quantity within
    the limits of its instrument.
  \<^item> \<^verbatim>\<open>Quarantine\<close> (\<^verbatim>\<open>shared/lib/data/quarantine.js\<close>): validation, the log, its metrics and pruning.
  \<^item> \<^verbatim>\<open>Segments\<close>, \<^verbatim>\<open>Segment_Records\<close>, \<^verbatim>\<open>Segment_Store\<close> (\<^verbatim>\<open>shared/lib/market/append_only_segments.js\<close>,
    \<^verbatim>\<open>provider_priority.js\<close>): binary segments and their manifest, down to the bytes.  In every
    reachable store reading succeeds, an append is a prioritised update of the series, and a
    compaction keeps the bars.
  \<^item> \<^verbatim>\<open>Alpaca_State\<close> (\<^verbatim>\<open>shared/lib/runtime/alpaca_bot_state.js\<close>, \<^verbatim>\<open>alpaca_intraday_policy.js\<close> and the
    reservations of \<^verbatim>\<open>frontend/cli-tui/commands/strategies/strategy.js\<close>): the state of the bot and the
    daily budget; reservations stay within the budget and a signal is reserved once.
  \<^item> \<^verbatim>\<open>Alpaca_Cycle\<close> (\<^verbatim>\<open>shared/lib/runtime/alpaca_bot_cycle.js\<close>, \<^verbatim>\<open>automation_guard.js\<close>): exits and their
    sell orders; a check never oversells and its bookkeeping follows the accepted orders.
  \<^item> \<^verbatim>\<open>Backtest_Stats\<close>, \<^verbatim>\<open>Backtest\<close> (\<^verbatim>\<open>shared/lib/strategy/backtest.js\<close>): the statistics, the seeded
    generator and the score for a prop firm; splits, walk-forward folds, costs, trades and the choice
    of the engine.  A backtest does not look ahead, the folds tile the rows in time order, drawdowns
    and returns stay in their range in double arithmetic, and the generator is a shift register on
    32-bit words.
  \<^item> \<^verbatim>\<open>Provider_Mesh\<close> (\<^verbatim>\<open>shared/lib/market/provider_mesh.js\<close>): lanes with a limit of concurrent calls, a
    queue, retries and a circuit breaker, as an interleaving of the steps of their calls; the limit
    holds when no newcomer overtakes a woken call, no wake-up is lost, and tries are bounded.
  \<^item> \<^verbatim>\<open>Quote_Router\<close> (\<^verbatim>\<open>shared/lib/market/quote_router.js\<close>): identities of quotes, the preferred record of
    each, and the import of external rows; one record per identity is selected, by rank of provider
    when the other scores are modest, and an import accounts for each row.
  \<^item> \<^verbatim>\<open>Execution_Memory\<close> (\<^verbatim>\<open>shared/lib/runtime/execution_memory.js\<close>): executed signals are known across
    restarts for 180 days.
  \<^item> \<^verbatim>\<open>Options_Greeks\<close> (\<^verbatim>\<open>shared/lib/risk/options_greek_risk.js\<close>): the limits on the Greeks of a position.
  \<^item> This theory: what an accepted record becomes in the rollup, a property of \<^verbatim>\<open>Quarantine\<close> and
    \<^verbatim>\<open>Rollup\<close> together.

  \<^bold>\<open>Conventions.\<close>  An operation is a function from the old state and its arguments to the new state
  and the result; a thrown error is the left of a sum.  Clocks, environment variables, random
  bytes, hash functions, \<^verbatim>\<open>net.isIP\<close>, \<^verbatim>\<open>localeCompare\<close>, the answers of the network and of
  callbacks, the active risk profile and the indicator library are arguments.  What a property
  assumes of them is a hypothesis of its statement, and its witness gives an instance.

  \<^bold>\<open>Bounds and fuel.\<close>  Strings are lists of 8-bit characters with ASCII case mapping, a zero has no
  sign, and \<^verbatim>\<open>Date.parse\<close> reads ISO forms only.  A file of JSON is its parsed value, an object used
  as a dictionary is an association list in insertion order, and names inherited from
  \<^verbatim>\<open>Object.prototype\<close> do not occur.  No loop uses fuel: the loops over data are structural, and
  the two retry loops, which may run forever, are partial functions whose value \<open>None\<close> means that
  they do not end.  The bounds in the statements are those up to which doubles are exact enough:
  times within the range of \<^verbatim>\<open>Date\<close>, buckets of at most 1200 units, prices up to \<open>2 ^ 48\<close> for the
  range of the RSI, fewer than 900000 steps per order for sizing.

  \<^bold>\<open>Not modelled.\<close>  The C++ core, the Go feed, the TypeScript execution service and MCP server and the
  React dashboard are programs in other languages.  The command line and the terminal interface,
  the HTTP routes, the clients of providers and brokers and the maintenance tools are input and
  output around the components above.  The machine learning and analysis libraries compute
  statistics without an exact contract.  Of the backtest the terminal chart
  and the processes of the native engines are left out, and the strategy registry and the canonical
  time series files are not modelled.
\<close>

section \<open>From the quarantine to the rollup\<close>

definition positive :: "jsnum \<Rightarrow> bool" where
  "positive x = (\<exists>q. x = Fin q \<and> 0 < q)"

lemma valid_price:
  assumes "validateIngestRecord now rec fam = None" "field \<in> set priceFields" "field \<noteq> ''value''"
    and "js_get rec field \<noteq> JUndef" "js_get rec field \<noteq> JNull"
  shows "positive (js_to_number (js_get rec field))"
proof -
  have "\<not> bad_price fam rec field"
    using assms(1,2) by (auto simp: validateIngestRecord_def list_ex_iff split: if_splits)
  then show ?thesis using assms(3-) by (auto simp: bad_price_def Let_def positive_def)
qed


definition clean_record :: jsval where
  "clean_record = JObj [(''symbol'', JStr ''BTC''), (''timestamp'', JStr ''2024-06-01T12:00:00.000Z''),
     (''open'', JNum (Fin 10)), (''close'', JNum (Fin 11))]"


text \<open>
  The exception is real: validation skips a price field that is \<^verbatim>\<open>null\<close>, and the rollup reads a
  \<^verbatim>\<open>null\<close> low as the number zero.
\<close>

lemma null_low_becomes_zero:
  "let r = JObj [(''symbol'', JStr ''BTC''), (''timestamp'', JStr ''2024-06-01T12:00:00.000Z''),
     (''open'', JNum (Fin 10)), (''low'', JNull), (''close'', JNum (Fin 11))] in
   validateIngestRecord 1717243500000 r ''crypto'' = None
   \<and> (case sanitizeRecord r (JStr ''1m'') of Inr (Some b) \<Rightarrow> low b = Fin 0 | _ \<Rightarrow> False)"
  by code_simp

end
